(* ===== verification/Prelude.thy ===== *)
theory Prelude
  imports
    Main
    "HOL-Library.Sublist"
    "HOL-Library.List_Lexorder"
    "HOL-Library.Char_ord"
    "HOL-Library.Multiset"
begin

text \<open>
  Shared material: the part of Go's standard library that the modelled packages call
  (\<^verbatim>\<open>strings\<close>, \<^verbatim>\<open>path/filepath\<close> on Unix, \<^verbatim>\<open>encoding/json\<close> after lexing) and the generic
  lemmas the components use.

  A Go string is a \<^typ>\<open>string\<close>, one \<^typ>\<open>char\<close> per byte. Calls that consult Unicode
  tables (case mapping, white space) are written out for ASCII text, the range of all the
  constants the code compares with. A Go map is a partial function \<open>'k \<Rightarrow> 'v option\<close>; where
  the code ranges over a map, the order the runtime picks is an argument.
\<close>

named_theorems go_string \<open>equations for the string functions of the standard library\<close>
named_theorems inv_intros \<open>preservation lemmas of component invariants\<close>

section \<open>Package strings\<close>

definition byte_val :: "char \<Rightarrow> nat" where
  "byte_val c = of_char c"

definition in_range :: "nat \<Rightarrow> nat \<Rightarrow> char \<Rightarrow> bool" where
  "in_range lo hi c \<longleftrightarrow> lo \<le> byte_val c \<and> byte_val c \<le> hi"

definition is_upper :: "char \<Rightarrow> bool" where
  "is_upper c = in_range 65 90 c"

definition is_lower :: "char \<Rightarrow> bool" where
  "is_lower c = in_range 97 122 c"

definition is_digit :: "char \<Rightarrow> bool" where
  "is_digit c = in_range 48 57 c"

definition lower_char :: "char \<Rightarrow> char" where
  "lower_char c = (if is_upper c then char_of (byte_val c + 32) else c)"

definition ToLower :: "string \<Rightarrow> string" where
  "ToLower s = map lower_char s"

definition EqualFold :: "string \<Rightarrow> string \<Rightarrow> bool" where
  "EqualFold s t \<longleftrightarrow> ToLower s = ToLower t"

definition HasPrefix :: "string \<Rightarrow> string \<Rightarrow> bool" where
  "HasPrefix s p = prefix p s"

definition HasSuffix :: "string \<Rightarrow> string \<Rightarrow> bool" where
  "HasSuffix s p = prefix (rev p) (rev s)"

fun Contains :: "string \<Rightarrow> string \<Rightarrow> bool" where
  "Contains [] p = (p = [])"
| "Contains (c # s) p = (prefix p (c # s) \<or> Contains s p)"

definition ContainsAny :: "string \<Rightarrow> string \<Rightarrow> bool" where
  "ContainsAny s cs = list_ex (\<lambda>c. c \<in> set cs) s"

text \<open>The white space of \<^verbatim>\<open>unicode.IsSpace\<close> in the ASCII range: tab to carriage return, space.\<close>

definition is_space :: "char \<Rightarrow> bool" where
  "is_space c \<longleftrightarrow> in_range 9 13 c \<or> byte_val c = 32"

definition trim_left_by :: "(char \<Rightarrow> bool) \<Rightarrow> string \<Rightarrow> string" where
  "trim_left_by P s = dropWhile P s"

definition trim_right_by :: "(char \<Rightarrow> bool) \<Rightarrow> string \<Rightarrow> string" where
  "trim_right_by P s = rev (dropWhile P (rev s))"

definition TrimSpace :: "string \<Rightarrow> string" where
  "TrimSpace s = trim_right_by is_space (trim_left_by is_space s)"

definition TrimLeft :: "string \<Rightarrow> string \<Rightarrow> string" where
  "TrimLeft s cutset = trim_left_by (\<lambda>c. c \<in> set cutset) s"

text \<open>\<^verbatim>\<open>IndexByte\<close> and \<^verbatim>\<open>IndexAny\<close>: the first position, \<^const>\<open>None\<close> where Go returns \<open>-1\<close>.\<close>

fun index_by :: "('a \<Rightarrow> bool) \<Rightarrow> 'a list \<Rightarrow> nat option" where
  "index_by P [] = None"
| "index_by P (c # s) = (if P c then Some 0 else map_option Suc (index_by P s))"

definition IndexByte :: "string \<Rightarrow> char \<Rightarrow> nat option" where
  "IndexByte s b = index_by (\<lambda>c. c = b) s"

definition IndexAny :: "string \<Rightarrow> string \<Rightarrow> nat option" where
  "IndexAny s cs = index_by (\<lambda>c. c \<in> set cs) s"

definition LastIndexByte :: "string \<Rightarrow> char \<Rightarrow> nat option" where
  "LastIndexByte s b = map_option (\<lambda>i. length s - Suc i) (IndexByte (rev s) b)"

text \<open>\<^verbatim>\<open>strings.Fields\<close>: the maximal runs of non-space characters.\<close>

fun fields_acc :: "string \<Rightarrow> string \<Rightarrow> string list" where
  "fields_acc cur [] = (if cur = [] then [] else [rev cur])"
| "fields_acc cur (c # s) =
     (if is_space c then (if cur = [] then fields_acc [] s else rev cur # fields_acc [] s)
      else fields_acc (c # cur) s)"

definition Fields :: "string \<Rightarrow> string list" where
  "Fields s = fields_acc [] s"

text \<open>\<^verbatim>\<open>strings.Split\<close> on a one-byte separator and \<^verbatim>\<open>strings.Join\<close>.\<close>

fun split_acc :: "char \<Rightarrow> string \<Rightarrow> string \<Rightarrow> string list" where
  "split_acc sep cur [] = [rev cur]"
| "split_acc sep cur (c # s) =
     (if c = sep then rev cur # split_acc sep [] s else split_acc sep (c # cur) s)"

definition Split :: "string \<Rightarrow> char \<Rightarrow> string list" where
  "Split s sep = split_acc sep [] s"

fun Join :: "string list \<Rightarrow> string \<Rightarrow> string" where
  "Join [] sep = []"
| "Join [x] sep = x"
| "Join (x # y # xs) sep = x @ sep @ Join (y # xs) sep"

text \<open>\<^verbatim>\<open>hex.EncodeToString\<close>.\<close>

definition hex_digit :: "nat \<Rightarrow> char" where
  "hex_digit n = (if n < 10 then char_of (48 + n) else char_of (87 + n))"

definition EncodeToString :: "string \<Rightarrow> string" where
  "EncodeToString bs = concat (map (\<lambda>b. [hex_digit (byte_val b div 16), hex_digit (byte_val b mod 16)]) bs)"

lemmas [go_string] = HasPrefix_def HasSuffix_def

lemma Contains_iff_sublist: "Contains s p \<longleftrightarrow> sublist p s"
  by (induction s) (auto simp: sublist_Cons_right)

lemma Contains_append [go_string]: "Contains (u @ p @ v) p"
  by (auto simp: Contains_iff_sublist sublist_def)

lemma Contains_self [simp]: "Contains p p"
  by (simp add: Contains_iff_sublist)

lemma ContainsAny_iff: "ContainsAny s cs \<longleftrightarrow> set s \<inter> set cs \<noteq> {}"
  by (auto simp: ContainsAny_def list_ex_iff)

lemma HasPrefix_append [simp]: "HasPrefix (p @ s) p"
  by (simp add: HasPrefix_def)

lemma HasSuffix_append [simp]: "HasSuffix (s @ p) p"
  by (simp add: HasSuffix_def)

lemma EqualFold_refl [simp]: "EqualFold s s"
  by (simp add: EqualFold_def)

lemma index_by_Some:
  "index_by P s = Some i \<Longrightarrow> i < length s \<and> P (s ! i) \<and> (\<forall>j < i. \<not> P (s ! j))"
proof (induction s arbitrary: i)
  case (Cons c s)
  show ?case
  proof (cases "P c")
    case False
    with Cons.prems obtain k where k: "index_by P s = Some k" "i = Suc k" by auto
    have "\<not> P ((c # s) ! j)" if "j < i" for j
      using that False Cons.IH [OF k(1)] k(2) by (cases j) auto
    with Cons.IH [OF k(1)] k(2) show ?thesis by auto
  qed (use Cons.prems in auto)
qed simp

lemma index_by_None: "index_by P s = None \<longleftrightarrow> (\<forall>c \<in> set s. \<not> P c)"
  by (induction s) auto

lemma index_by_lt: "index_by P s = Some i \<Longrightarrow> i < length s"
  using index_by_Some by blast

lemma IndexByte_lt: "IndexByte s b = Some i \<Longrightarrow> i < length s"
  unfolding IndexByte_def by (rule index_by_lt)

lemma IndexAny_lt: "IndexAny s cs = Some i \<Longrightarrow> i < length s"
  unfolding IndexAny_def by (rule index_by_lt)

lemma length_trim_left_by: "length (trim_left_by P s) \<le> length s"
  by (simp add: trim_left_by_def length_dropWhile_le)

lemma length_trim_right_by: "length (trim_right_by P s) \<le> length s"
  using length_dropWhile_le [of P "rev s"] by (simp add: trim_right_by_def)

lemma length_TrimLeft: "length (TrimLeft s cutset) \<le> length s"
  by (simp add: TrimLeft_def length_trim_left_by)

lemma set_dropWhile_subset: "set (dropWhile P xs) \<subseteq> set xs"
  by (auto dest: set_dropWhileD)

lemma set_TrimSpace: "set (TrimSpace s) \<subseteq> set s"
  using set_dropWhile_subset [of is_space "rev (dropWhile is_space s)"]
    set_dropWhile_subset [of is_space s]
  by (auto simp: TrimSpace_def trim_right_by_def trim_left_by_def)

lemma fields_acc_nonspace:
  assumes "list_all (\<lambda>c. \<not> is_space c) cur"
  shows "list_all (\<lambda>t. t \<noteq> [] \<and> list_all (\<lambda>c. \<not> is_space c) t) (fields_acc cur s)"
  using assms by (induction cur s rule: fields_acc.induct) simp_all

lemma Fields_nonspace: "t \<in> set (Fields s) \<Longrightarrow> t \<noteq> [] \<and> (\<forall>c \<in> set t. \<not> is_space c)"
  using fields_acc_nonspace [of "[]" s] by (auto simp: Fields_def list_all_iff)

lemma Join_Cons: "Join (x # xs) sep = x @ (if xs = [] then [] else sep @ Join xs sep)"
  by (cases xs) auto

lemma split_acc_simple:
  "sep \<notin> set x \<Longrightarrow> split_acc sep cur (x @ s) = split_acc sep (rev x @ cur) s"
  by (induction x arbitrary: cur) auto

lemma Split_nosep: "sep \<notin> set x \<Longrightarrow> Split x sep = [x]"
  using split_acc_simple [of sep x "[]" "[]"] by (simp add: Split_def)

lemma Split_Cons: "sep \<notin> set x \<Longrightarrow> Split (x @ sep # s) sep = x # Split s sep"
  by (simp add: Split_def split_acc_simple)

lemma split_acc_nosep: "sep \<notin> set cur \<Longrightarrow> x \<in> set (split_acc sep cur s) \<Longrightarrow> sep \<notin> set x"
  by (induction sep cur s rule: split_acc.induct) (auto split: if_splits)

lemma split_acc_ne: "split_acc sep cur s \<noteq> []"
  by (induction sep cur s rule: split_acc.induct) auto

lemma split_acc_snoc: "split_acc sep cur (u @ [sep]) = split_acc sep cur u @ [[]]"
  by (induction sep cur u rule: split_acc.induct) auto

lemma Split_ne [simp]: "Split s sep \<noteq> []"
  by (simp add: Split_def split_acc_ne)

lemma Split_elem: "x \<in> set (Split s sep) \<Longrightarrow> sep \<notin> set x"
  unfolding Split_def by (rule split_acc_nosep) auto

text \<open>Joining what was split, and splitting what was joined, gives the text and the pieces back.\<close>

lemma Join_split_acc: "Join (split_acc sep cur s) [sep] = rev cur @ s"
  by (induction sep cur s rule: split_acc.induct) (auto simp: Join_Cons split_acc_ne)

lemma Join_Split [simp]: "Join (Split s sep) [sep] = s"
  by (simp add: Split_def Join_split_acc)

lemma Split_Join:
  "xs \<noteq> [] \<Longrightarrow> \<forall>x \<in> set xs. sep \<notin> set x \<Longrightarrow> Split (Join xs [sep]) sep = xs"
proof (induction xs rule: induct_list012)
  case (3 x y xs)
  then show ?case by (simp add: Split_Cons)
qed (auto simp: Split_nosep)

section \<open>Components as machines\<close>

text \<open>
  A stateful component is a step function on its operations. A client that runs any sequence of
  admissible operations may rely on an invariant that holds at the start and that every
  admissible step keeps; where every operation is admissible, on no condition at all.
\<close>

locale guarded_machine =
  fixes step :: "'op \<Rightarrow> 's \<Rightarrow> 's"
    and ok :: "'op \<Rightarrow> bool"
    and inv :: "'s \<Rightarrow> bool"
  assumes ok_step_inv: "ok op \<Longrightarrow> inv s \<Longrightarrow> inv (step op s)"
begin

lemma ok_run_inv: "list_all ok ops \<Longrightarrow> inv s \<Longrightarrow> inv (fold step ops s)"
  by (induction ops arbitrary: s) (auto intro: ok_step_inv)

end

locale op_machine =
  fixes step :: "'op \<Rightarrow> 's \<Rightarrow> 's"
    and inv :: "'s \<Rightarrow> bool"
  assumes step_inv: "inv s \<Longrightarrow> inv (step op s)"

sublocale op_machine \<subseteq> guarded: guarded_machine step "\<lambda>_. True" inv
  by unfold_locales (rule step_inv)

context op_machine
begin

lemma run_inv: "inv s \<Longrightarrow> inv (fold step ops s)"
  by (rule guarded.ok_run_inv) (simp_all add: list_all_iff)

end

text \<open>
  A machine with a counter of bounded width: the invariant carries how far the counter may have
  come, every step moves it by at most one, and a run shorter than the limit keeps it.
\<close>

locale counted_machine =
  fixes step :: "'op \<Rightarrow> 's \<Rightarrow> 's"
    and ok :: "'op \<Rightarrow> bool"
    and inv :: "int \<Rightarrow> 's \<Rightarrow> bool"
    and limit :: int
  assumes counted_step: "ok op \<Longrightarrow> inv k s \<Longrightarrow> k < limit \<Longrightarrow> inv (k + 1) (step op s)"
begin

lemma counted_run:
  "list_all ok ops \<Longrightarrow> inv k s \<Longrightarrow> k + int (length ops) \<le> limit \<Longrightarrow>
   inv (k + int (length ops)) (fold step ops s)"
proof (induction ops arbitrary: k s)
  case (Cons op ops)
  then have "inv (k + 1) (step op s)" by (intro counted_step) auto
  from Cons.IH [OF _ this] Cons.prems show ?case by (simp add: algebra_simps)
qed simp

end

text \<open>
  A simulation: every admissible concrete step is matched by the abstract one, so a relation
  between the two states survives every run.
\<close>

locale simulation =
  fixes cstep :: "'op \<Rightarrow> 'c \<Rightarrow> 'c"
    and astep :: "'op \<Rightarrow> 'a \<Rightarrow> 'a"
    and R :: "'c \<Rightarrow> 'a \<Rightarrow> bool"
    and ok :: "'op \<Rightarrow> bool"
  assumes sim_step: "ok op \<Longrightarrow> R c a \<Longrightarrow> R (cstep op c) (astep op a)"
begin

lemma sim_run: "list_all ok ops \<Longrightarrow> R c a \<Longrightarrow> R (fold cstep ops c) (fold astep ops a)"
  by (induction ops arbitrary: c a) (auto intro: sim_step)

end

section \<open>Ranging over a map\<close>

text \<open>
  The order in which Go ranges over a map is the runtime's choice. \<open>range_order pick es\<close> is the
  order \<open>pick\<close> chooses for the entries \<open>es\<close>; every permutation is the choice of some \<open>pick\<close>, and a
  \<open>pick\<close> that does not permute counts as the identity.
\<close>

definition range_order :: "('a list \<Rightarrow> 'a list) \<Rightarrow> 'a list \<Rightarrow> 'a list" where
  "range_order pick es = (if mset (pick es) = mset es then pick es else es)"

lemma mset_range_order [simp]: "mset (range_order pick es) = mset es"
  by (simp add: range_order_def)

lemma set_range_order [simp]: "set (range_order pick es) = set es"
  by (metis mset_range_order mset_eq_setD)

lemma range_order_eq_Nil [simp]: "range_order pick es = [] \<longleftrightarrow> es = []"
  by (metis mset_range_order mset_zero_iff_right mset.simps(1))

section \<open>Loops that stop at the first error\<close>

fun first_error :: "('a \<Rightarrow> 'e option) \<Rightarrow> 'a list \<Rightarrow> 'e option" where
  "first_error f [] = None"
| "first_error f (x # xs) = (case f x of None \<Rightarrow> first_error f xs | Some e \<Rightarrow> Some e)"

lemma first_error_None: "first_error f xs = None \<longleftrightarrow> (\<forall>x \<in> set xs. f x = None)"
  by (induction xs) (auto split: option.splits)

lemma first_error_Some: "first_error f xs = Some e \<Longrightarrow> \<exists>x \<in> set xs. f x = Some e"
  by (induction xs) (auto split: option.splits)

end
