(* ===== verification/Json.thy ===== *)
theory Json
  imports Prelude
begin

text \<open>
  \<^verbatim>\<open>encoding/json\<close> as the permission code uses it. A \<^verbatim>\<open>json.RawMessage\<close> is the value it
  denotes, or \<open>None\<close> for bytes that are not JSON. Each \<open>unmarshal_*\<close> gives what
  \<^verbatim>\<open>json.Unmarshal\<close> stores into a target of that Go type, \<open>None\<close> where it returns an error.
  As in the library, \<^verbatim>\<open>null\<close> is accepted by every target and leaves it at its zero value, the
  last of two equal keys wins in a map, and a struct field is found under any case spelling of
  its tag.
\<close>

datatype json =
    JNull
  | JBool bool
  | JNum string
  | JStr string
  | JArr "json list"
  | JObj "(string \<times> json) list"

type_synonym raw_message = "json option"
type_synonym raw_map = "string \<Rightarrow> json option"

fun obj_map :: "(string \<times> json) list \<Rightarrow> raw_map" where
  "obj_map [] = Map.empty"
| "obj_map ((k, v) # kvs) = (\<lambda>x. case obj_map kvs x of None \<Rightarrow> (if x = k then Some v else None) | Some w \<Rightarrow> Some w)"

text \<open>Target \<^verbatim>\<open>map[string]json.RawMessage\<close>.\<close>

fun unmarshal_map_val :: "json \<Rightarrow> raw_map option" where
  "unmarshal_map_val JNull = Some Map.empty"
| "unmarshal_map_val (JObj kvs) = Some (obj_map kvs)"
| "unmarshal_map_val _ = None"

definition unmarshal_map :: "raw_message \<Rightarrow> raw_map option" where
  "unmarshal_map raw = Option.bind raw unmarshal_map_val"

text \<open>Target \<^verbatim>\<open>string\<close>.\<close>

fun unmarshal_string :: "json \<Rightarrow> string option" where
  "unmarshal_string JNull = Some ''''"
| "unmarshal_string (JStr s) = Some s"
| "unmarshal_string _ = None"

text \<open>Targets \<^verbatim>\<open>[]T\<close>: one failing element fails the whole call.\<close>

fun all_some :: "('a \<Rightarrow> 'b option) \<Rightarrow> 'a list \<Rightarrow> 'b list option" where
  "all_some f [] = Some []"
| "all_some f (x # xs) =
     (case f x of None \<Rightarrow> None | Some y \<Rightarrow> (case all_some f xs of None \<Rightarrow> None | Some ys \<Rightarrow> Some (y # ys)))"

fun unmarshal_map_list :: "json \<Rightarrow> raw_map list option" where
  "unmarshal_map_list JNull = Some []"
| "unmarshal_map_list (JArr vs) = all_some unmarshal_map_val vs"
| "unmarshal_map_list _ = None"

fun unmarshal_string_list :: "json \<Rightarrow> string list option" where
  "unmarshal_string_list JNull = Some []"
| "unmarshal_string_list (JArr vs) = all_some unmarshal_string vs"
| "unmarshal_string_list _ = None"

text \<open>
  Target a struct with one string field tagged \<open>tag\<close>: the fields of the object are stored in
  order, a value of another type is skipped and remembered as an error. The pair is the field
  and whether \<^verbatim>\<open>Unmarshal\<close> returned nil.
\<close>

fun struct_string_field :: "string \<Rightarrow> (string \<times> json) list \<Rightarrow> string \<Rightarrow> bool \<Rightarrow> string \<times> bool" where
  "struct_string_field tag [] s ok = (s, ok)"
| "struct_string_field tag ((k, v) # kvs) s ok =
     (if EqualFold k tag
      then (case v of
              JStr t \<Rightarrow> struct_string_field tag kvs t ok
            | JNull \<Rightarrow> struct_string_field tag kvs s ok
            | _ \<Rightarrow> struct_string_field tag kvs s False)
      else struct_string_field tag kvs s ok)"

fun unmarshal_struct :: "string \<Rightarrow> raw_message \<Rightarrow> string \<times> bool" where
  "unmarshal_struct tag None = ('''', False)"
| "unmarshal_struct tag (Some JNull) = ('''', True)"
| "unmarshal_struct tag (Some (JObj kvs)) = struct_string_field tag kvs '''' True"
| "unmarshal_struct tag (Some _) = ('''', False)"

lemma all_some_length: "all_some f xs = Some ys \<Longrightarrow> length ys = length xs"
  by (induction xs arbitrary: ys) (auto split: option.splits)

lemma all_some_set: "all_some f xs = Some ys \<Longrightarrow> y \<in> set ys \<Longrightarrow> \<exists>x \<in> set xs. f x = Some y"
  by (induction xs arbitrary: ys) (auto split: option.splits)

lemma obj_map_single [simp]: "obj_map [(k, v)] x = (if x = k then Some v else None)"
  by simp

end
