(* ===== verification/PermMode.thy ===== *)
theory PermMode
  imports Json
begin

text \<open>
  The vocabulary of the permission engine: \<^verbatim>\<open>internal/permission/policy.go\<close> (decisions) and
  \<^verbatim>\<open>internal/permission/mode.go\<close> (modes and the two fixed tool lists). \<^verbatim>\<open>PermissionMode\<close> and
  \<^verbatim>\<open>Decision\<close> are Go integers whose declared constants are the only values the code
  constructs; the datatypes have one constructor per constant.
\<close>

section \<open>Decisions\<close>

datatype Decision = Allow | Deny | Ask | Timeout | Cancelled

datatype ctx_error = DeadlineExceeded | OtherError

fun DecisionFromContext :: "ctx_error \<Rightarrow> Decision" where
  "DecisionFromContext DeadlineExceeded = Timeout"
| "DecisionFromContext OtherError = Cancelled"

definition IsNonDecision :: "Decision \<Rightarrow> bool" where
  "IsNonDecision d \<longleftrightarrow> d = Timeout \<or> d = Cancelled"

fun Decision_String :: "Decision \<Rightarrow> string" where
  "Decision_String Allow = ''allow''"
| "Decision_String Deny = ''deny''"
| "Decision_String Timeout = ''timeout''"
| "Decision_String Cancelled = ''cancelled''"
| "Decision_String Ask = ''ask''"

section \<open>Modes\<close>

datatype PermissionMode = SupervisedMode | PlanMode | AutoMode | BypassMode | AutopilotMode

fun Mode_String :: "PermissionMode \<Rightarrow> string" where
  "Mode_String SupervisedMode = ''supervised''"
| "Mode_String AutoMode = ''supervised''"
| "Mode_String PlanMode = ''plan''"
| "Mode_String BypassMode = ''bypass''"
| "Mode_String AutopilotMode = ''bypass''"

definition IsCruiseMode :: "PermissionMode \<Rightarrow> bool" where
  "IsCruiseMode m \<longleftrightarrow> m = BypassMode \<or> m = AutopilotMode"

definition ParsePermissionMode :: "string \<Rightarrow> PermissionMode" where
  "ParsePermissionMode s =
     (let l = ToLower s in
      if l = ''plan'' then PlanMode
      else if l = ''auto'' then SupervisedMode
      else if l = ''autopilot'' then BypassMode
      else if l = ''bypass'' then BypassMode
      else if l = ''supervised'' then SupervisedMode
      else SupervisedMode)"

definition ValidPermissionModes :: "PermissionMode list" where
  "ValidPermissionModes = [SupervisedMode, PlanMode, AutoMode, BypassMode, AutopilotMode]"

definition IsValidPermissionMode :: "string \<Rightarrow> bool" where
  "IsValidPermissionMode s \<longleftrightarrow>
     ToLower s \<in> set [''supervised'', ''plan'', ''auto'', ''bypass'', ''autopilot'']"

fun Mode_Next :: "PermissionMode \<Rightarrow> PermissionMode" where
  "Mode_Next SupervisedMode = BypassMode"
| "Mode_Next AutoMode = BypassMode"
| "Mode_Next _ = SupervisedMode"

definition readOnlyWhitelist :: "string list" where
  "readOnlyWhitelist =
     [''mcp__web_reader__webReader'', ''mcp__web-search-prime__web_search_prime'']"

definition IsReadOnlyTool :: "string \<Rightarrow> bool" where
  "IsReadOnlyTool name \<longleftrightarrow>
     (if name \<in> set [''read_file'', ''multi_file_read'', ''list_directory'', ''search_files'',
          ''glob'', ''grep'', ''code_search''] then True
      else if name \<in> set [''lsp_hover'', ''lsp_definition'', ''lsp_references'', ''lsp_symbols'',
          ''lsp_diagnostics'', ''lsp_workspace_symbols'', ''lsp_code_actions'',
          ''lsp_implementation'', ''lsp_prepare_call_hierarchy'',
          ''lsp_incoming_calls'', ''lsp_outgoing_calls'', ''lsp_document_highlights''] then True
      else if name \<in> set [''sleep'', ''git_status'', ''git_diff'', ''git_log'', ''git_show'',
          ''git_blame'', ''git_branch_list'', ''git_remote'', ''git_stash_list'',
          ''web_fetch'', ''web_search'',
          ''task_list'', ''task_get'', ''plan_status'',
          ''cron_list'', ''cron_get'', ''list_commands'', ''read_command_output'',
          ''wait_command'', ''get_config'', ''runtime'', ''code_execution''] then True
      else if HasPrefix name ''mcp__'' then name \<in> set readOnlyWhitelist
      else False)"

definition IsAlwaysAllowedTool :: "string \<Rightarrow> bool" where
  "IsAlwaysAllowedTool name \<longleftrightarrow>
     name \<in> set [''lanchat'', ''switch_mode'', ''runtime''] \<or>
     name = ''compact_context'' \<or> name = ''recall_compacted''"

section \<open>Lemmas\<close>

lemma ToLower_simps [simp]: "ToLower [] = []" "ToLower (c # s) = lower_char c # ToLower s"
  by (simp_all add: ToLower_def)

lemma Decision_String_inj: "Decision_String d = Decision_String e \<Longrightarrow> d = e"
  by (cases d; cases e) auto

text \<open>A mode's printed name parses back to a mode with the same printed name.\<close>

lemma parse_Mode_String: "ParsePermissionMode (Mode_String m) = (if m = PlanMode then PlanMode
    else if IsCruiseMode m then BypassMode else SupervisedMode)"
  by (cases m; hypsubst; code_simp)

end
