(* ===== verification/CmdRules.thy ===== *)
theory CmdRules
  imports PermMode
begin

text \<open>
  \<^verbatim>\<open>internal/permission/cmd_rules.go\<close>: the allow and deny patterns for shell commands.

  \<^verbatim>\<open>compileCommandPattern\<close> writes the text of a regular expression of one fixed shape and
  compiles it. The model keeps both: \<open>re_src\<close> is the text (two compiled patterns are compared
  by it), \<open>re_elems\<close> and \<open>re_opt\<close> its meaning, a sequence of case-insensitive literals and
  runs of the control class, anchored at both ends, with or without the optional argument
  group at the end. A nil rule set is \<open>None\<close>.
\<close>

section \<open>Compiled patterns\<close>

datatype rx = Lit char | Ctl

record cmd_regexp =
  re_src :: string
  re_elems :: "rx list"
  re_opt :: bool

definition bslash :: char where
  "bslash = CHR 0x5C"

definition control_chars :: string where
  "control_chars = '';|&'' @ [CHR 0x60] @ ''$()<>'' @ [CHR 0x0A, CHR 0x0D, bslash]"

definition ctl_ok :: "char \<Rightarrow> bool" where
  "ctl_ok c \<longleftrightarrow> c \<notin> set control_chars"

definition is_blank :: "char \<Rightarrow> bool" where
  "is_blank c \<longleftrightarrow> c = CHR '' '' \<or> c = CHR 0x09"

definition opt_args :: "string \<Rightarrow> bool" where
  "opt_args s = (case s of [] \<Rightarrow> False | c # t \<Rightarrow> is_blank c \<and> list_all ctl_ok t)"

function rx_match :: "rx list \<Rightarrow> bool \<Rightarrow> string \<Rightarrow> bool" where
  "rx_match [] opt s = (s = [] \<or> (opt \<and> opt_args s))"
| "rx_match (Lit c # rs) opt [] = False"
| "rx_match (Lit c # rs) opt (d # s) = (lower_char c = lower_char d \<and> rx_match rs opt s)"
| "rx_match (Ctl # rs) opt [] = rx_match rs opt []"
| "rx_match (Ctl # rs) opt (d # s) =
     (rx_match rs opt (d # s) \<or> (ctl_ok d \<and> rx_match (Ctl # rs) opt s))"
  by pat_completeness auto
termination
  by (relation "measures [\<lambda>(rs, opt, s). length s, \<lambda>(rs, opt, s). length rs]") auto

definition MatchString :: "cmd_regexp \<Rightarrow> string \<Rightarrow> bool" where
  "MatchString re s = rx_match (re_elems re) (re_opt re) s"

section \<open>compileCommandPattern\<close>

datatype patternError = ErrEmptyPattern

definition control_src :: string where
  "control_src = ''[^;|&'' @ [CHR 0x60] @ ''$()<>'' @ [bslash] @ ''n'' @ [bslash] @ ''r''
     @ [bslash, bslash] @ '']*''"

definition optionalArgs_src :: string where
  "optionalArgs_src = ''(?:[ '' @ [bslash] @ ''t]'' @ butlast control_src @ ''*)?''"

definition regex_meta :: string where
  "regex_meta = [bslash] @ ''.+?()|[]{}^$''"

definition pattern_char_src :: "char \<Rightarrow> string" where
  "pattern_char_src ch =
     (if ch = CHR ''*'' then control_src
      else (if ch \<in> set regex_meta then [bslash] else []) @ [ch])"

definition pattern_elem :: "char \<Rightarrow> rx" where
  "pattern_elem ch = (if ch = CHR ''*'' then Ctl else Lit ch)"

definition trailingOnly :: "string \<Rightarrow> bool" where
  "trailingOnly p \<longleftrightarrow> HasSuffix p ''*'' \<and> CHR ''*'' \<notin> set (butlast p)"

definition compileCommandPattern :: "string \<Rightarrow> patternError + cmd_regexp" where
  "compileCommandPattern pat =
     (let p = TrimSpace pat in
      if p = '''' then Inl ErrEmptyPattern
      else
        let body = concat (map pattern_char_src p) in
        if trailingOnly p
        then Inr \<lparr>re_src = ''(?i)^'' @ concat (map pattern_char_src (butlast p)) @ optionalArgs_src @ ''$'',
                  re_elems = map pattern_elem (butlast p), re_opt = True\<rparr>
        else if CHR ''*'' \<notin> set p
        then Inr \<lparr>re_src = ''(?i)^'' @ body @ optionalArgs_src @ ''$'',
                  re_elems = map pattern_elem p, re_opt = True\<rparr>
        else Inr \<lparr>re_src = ''(?i)^'' @ body @ ''$'', re_elems = map pattern_elem p, re_opt = False\<rparr>)"

section \<open>Leading environment assignments\<close>

definition is_ident_char :: "char \<Rightarrow> bool" where
  "is_ident_char c \<longleftrightarrow> is_upper c \<or> is_lower c \<or> is_digit c \<or> c = CHR ''_''"

fun env_name_ok :: "bool \<Rightarrow> string \<Rightarrow> bool" where
  "env_name_ok first [] = True"
| "env_name_ok first (c # s) =
     ((c = CHR ''_'' \<or> is_upper c \<or> is_lower c \<or> (is_digit c \<and> \<not> first)) \<and> env_name_ok False s)"

definition isValidEnvName :: "string \<Rightarrow> bool" where
  "isValidEnvName s \<longleftrightarrow> (if s = '''' \<or> s = ''IFS'' then False else env_name_ok True s)"

definition stripEnvVarRef :: "string \<Rightarrow> string option" where
  "stripEnvVarRef command =
     (let rest =
        (if length command > 1 \<and> command ! 1 = CHR ''{''
         then (case IndexByte command (CHR ''}'') of
                 None \<Rightarrow> ''''
               | Some e \<Rightarrow>
                   if e > 2 \<and> isValidEnvName (drop 2 (take e command)) then drop (Suc e) command else '''')
         else let name = takeWhile is_ident_char (drop 1 command); e = Suc (length name) in
              if e > 1 \<and> isValidEnvName name then drop e command else '''')
      in if rest = '''' \<or> rest = command then None
         else let r = TrimLeft rest [CHR '' '', CHR 0x09] in if r = '''' then None else Some r)"

definition stripEnvAssignment :: "string \<Rightarrow> string option" where
  "stripEnvAssignment command =
     (case IndexByte command (CHR ''='') of
        None \<Rightarrow> None
      | Some eq \<Rightarrow>
          if eq = 0 \<or> \<not> isValidEnvName (take eq command) then None
          else
            let rest = drop (Suc eq) command in
            if rest = '''' then Some ''''
            else if hd rest = CHR 0x22 \<or> hd rest = CHR 0x27
            then (case IndexByte (tl rest) (hd rest) of
                    None \<Rightarrow> None
                  | Some e \<Rightarrow>
                      let after = drop (e + 2) rest in
                      if after = '''' then Some ''''
                      else if \<not> is_blank (hd after) then None
                      else Some after)
            else (case IndexAny rest [CHR '' '', CHR 0x09] of
                    None \<Rightarrow> Some ''''
                  | Some i \<Rightarrow> Some (drop (Suc i) rest)))"

lemma stripEnvVarRef_shorter: "stripEnvVarRef c = Some r \<Longrightarrow> length r < length c"
  using length_TrimLeft
  by (auto simp: stripEnvVarRef_def Let_def split: if_splits option.splits
      intro!: order.strict_trans1 [OF length_TrimLeft])

lemma stripEnvAssignment_shorter: "stripEnvAssignment c = Some r \<Longrightarrow> length r < length c"
  by (auto simp: stripEnvAssignment_def Let_def dest!: IndexByte_lt split: if_splits option.splits)

function stripLeadingEnvAssignments :: "string \<Rightarrow> string" where
  "stripLeadingEnvAssignments command0 =
     (let command = TrimLeft command0 [CHR '' '', CHR 0x09] in
      if command = '''' then ''''
      else if hd command = CHR ''$''
      then (case stripEnvVarRef command of
              None \<Rightarrow> command
            | Some rest \<Rightarrow> stripLeadingEnvAssignments rest)
      else (case stripEnvAssignment command of
              None \<Rightarrow> command
            | Some rest \<Rightarrow> stripLeadingEnvAssignments rest))"
  by pat_completeness auto
termination
  by (relation "measure length")
     (auto dest!: stripEnvVarRef_shorter stripEnvAssignment_shorter
       intro: order.strict_trans2 [OF _ length_TrimLeft])

declare stripLeadingEnvAssignments.simps [simp del]

section \<open>The rule set\<close>

record CommandRuleSet =
  rs_allow :: "cmd_regexp list"
  rs_deny :: "cmd_regexp list"
  rs_allowPats :: "string list"
  rs_denyPats :: "string list"

definition NewCommandRuleSet :: CommandRuleSet where
  "NewCommandRuleSet = \<lparr>rs_allow = [], rs_deny = [], rs_allowPats = [], rs_denyPats = []\<rparr>"

definition push_allow :: "string \<Rightarrow> CommandRuleSet \<Rightarrow> CommandRuleSet" where
  "push_allow p rs =
     (case compileCommandPattern p of
        Inl _ \<Rightarrow> rs
      | Inr re \<Rightarrow> rs\<lparr>rs_allow := rs_allow rs @ [re], rs_allowPats := rs_allowPats rs @ [p]\<rparr>)"

definition push_deny :: "string \<Rightarrow> CommandRuleSet \<Rightarrow> CommandRuleSet" where
  "push_deny p rs =
     (case compileCommandPattern p of
        Inl _ \<Rightarrow> rs
      | Inr re \<Rightarrow> rs\<lparr>rs_deny := rs_deny rs @ [re], rs_denyPats := rs_denyPats rs @ [p]\<rparr>)"

definition NewCommandRuleSetFromLists :: "string list \<Rightarrow> string list \<Rightarrow> CommandRuleSet" where
  "NewCommandRuleSetFromLists allow deny = fold push_deny deny (fold push_allow allow NewCommandRuleSet)"

definition any_match :: "cmd_regexp list \<Rightarrow> string \<Rightarrow> bool" where
  "any_match res cmd = list_ex (\<lambda>re. MatchString re cmd) res"

definition CommandRuleSet_Check :: "CommandRuleSet option \<Rightarrow> string \<Rightarrow> Decision \<times> bool" where
  "CommandRuleSet_Check rso command =
     (case rso of
        None \<Rightarrow> (Ask, False)
      | Some rs \<Rightarrow>
          if TrimSpace command = '''' then (Ask, False)
          else if any_match (rs_deny rs) command then (Deny, True)
          else if any_match (rs_allow rs) command then (Allow, True)
          else
            let stripped = stripLeadingEnvAssignments command in
            if stripped \<noteq> '''' \<and> stripped \<noteq> command then
              (if any_match (rs_deny rs) stripped then (Deny, True)
               else if any_match (rs_allow rs) stripped then (Allow, True)
               else (Ask, False))
            else (Ask, False))"

definition AddAllowPattern :: "string \<Rightarrow> CommandRuleSet option \<Rightarrow> CommandRuleSet option" where
  "AddAllowPattern pattern rso =
     (case rso of
        None \<Rightarrow> None
      | Some rs \<Rightarrow>
          if TrimSpace pattern = '''' then Some rs
          else (case compileCommandPattern pattern of
                  Inl _ \<Rightarrow> Some rs
                | Inr re \<Rightarrow>
                    if list_ex (\<lambda>e. re_src e = re_src re) (rs_allow rs) then Some rs
                    else Some (rs\<lparr>rs_allow := rs_allow rs @ [re],
                                  rs_allowPats := rs_allowPats rs @ [pattern]\<rparr>)))"

definition AddDenyPattern :: "string \<Rightarrow> CommandRuleSet option \<Rightarrow> CommandRuleSet option" where
  "AddDenyPattern pattern rso =
     (case rso of
        None \<Rightarrow> None
      | Some rs \<Rightarrow>
          if TrimSpace pattern = '''' then Some rs
          else (case compileCommandPattern pattern of
                  Inl _ \<Rightarrow> Some rs
                | Inr re \<Rightarrow>
                    if list_ex (\<lambda>e. re_src e = re_src re) (rs_deny rs) then Some rs
                    else Some (rs\<lparr>rs_deny := rs_deny rs @ [re],
                                  rs_denyPats := rs_denyPats rs @ [pattern]\<rparr>)))"

definition AllowPatterns :: "CommandRuleSet option \<Rightarrow> string list" where
  "AllowPatterns rso = (case rso of None \<Rightarrow> [] | Some rs \<Rightarrow> rs_allowPats rs)"

definition DenyPatterns :: "CommandRuleSet option \<Rightarrow> string list" where
  "DenyPatterns rso = (case rso of None \<Rightarrow> [] | Some rs \<Rightarrow> rs_denyPats rs)"

definition CommandRuleSet_Clear :: "CommandRuleSet option \<Rightarrow> CommandRuleSet option" where
  "CommandRuleSet_Clear rso =
     map_option (\<lambda>rs. rs\<lparr>rs_allow := [], rs_deny := [], rs_allowPats := [], rs_denyPats := []\<rparr>) rso"

section \<open>From a command to a pattern\<close>

definition isCommonTwoWordPrefix :: "string \<Rightarrow> string \<Rightarrow> bool" where
  "isCommonTwoWordPrefix first second =
     (if first \<in> set [''git'', ''go'', ''npm'', ''yarn'', ''pnpm'', ''docker'', ''kubectl'',
          ''cargo'', ''rustup'', ''python'', ''python3'', ''ruby'', ''bundle''] then True
      else if first = ''make'' then False
      else \<not> HasPrefix second ''-'')"

definition CommandPrefixToPattern :: "string \<Rightarrow> string" where
  "CommandPrefixToPattern command0 =
     (let command1 = TrimSpace command0 in
      if command1 = '''' then ''''
      else
        let tokens = Fields (stripLeadingEnvAssignments command1) in
        case tokens of
          [] \<Rightarrow> ''''
        | t # ts \<Rightarrow>
            (case ts of
               [] \<Rightarrow> t @ ''*''
             | u # us \<Rightarrow> (if isCommonTwoWordPrefix t u then t @ '' '' @ u @ ''*'' else t @ ''*'')))"

definition ExtractCommandFromInput :: "raw_message \<Rightarrow> string" where
  "ExtractCommandFromInput input =
     (case unmarshal_map input of
        None \<Rightarrow> ''''
      | Some m \<Rightarrow>
          (case Option.bind (m ''command'') unmarshal_string of
             Some s \<Rightarrow> s
           | None \<Rightarrow> (case Option.bind (m ''input'') unmarshal_string of
                        Some s \<Rightarrow> s | None \<Rightarrow> '''')))"

section \<open>What a compiled pattern matches\<close>

lemma byte_val_lower_char: "is_upper c \<Longrightarrow> byte_val (lower_char c) = byte_val c + 32"
  by (auto simp: lower_char_def is_upper_def in_range_def byte_val_def)

lemma lower_char_fixed: "\<not> is_lower c \<Longrightarrow> \<not> is_upper c \<Longrightarrow> lower_char l = lower_char c \<Longrightarrow> l = c"
  using byte_val_lower_char [of l]
  by (cases "is_upper l") (auto simp: lower_char_def is_lower_def is_upper_def in_range_def)

lemma control_not_letter: "c \<in> set control_chars \<Longrightarrow> \<not> is_lower c \<and> \<not> is_upper c"
  by (auto simp: control_chars_def bslash_def is_lower_def is_upper_def in_range_def byte_val_def)

lemma control_fold: "c \<in> set control_chars \<Longrightarrow> lower_char l = lower_char c \<Longrightarrow> l = c"
  using control_not_letter lower_char_fixed by blast

lemma opt_args_ctl: "opt_args s \<Longrightarrow> c \<in> set s \<Longrightarrow> ctl_ok c"
  by (auto simp: opt_args_def is_blank_def ctl_ok_def control_chars_def bslash_def list_all_iff
      split: list.splits)

lemma rx_match_control:
  "rx_match rs opt s \<Longrightarrow> c \<in> set s \<Longrightarrow> \<not> ctl_ok c \<Longrightarrow> Lit c \<in> set rs"
proof (induction rs opt s rule: rx_match.induct)
  case (1 opt s)
  then show ?case using opt_args_ctl by auto
next
  case (3 l rs opt d s)
  show ?case
  proof (cases "c = d")
    case True
    with 3 have "l = c" by (auto simp: ctl_ok_def dest: control_fold)
    then show ?thesis by simp
  qed (use 3 in auto)
qed auto

lemma compile_elems_subset:
  assumes "compileCommandPattern p = Inr re" and "Lit c \<in> set (re_elems re)"
  shows "c \<in> set p"
proof -
  have "c \<in> set (TrimSpace p)"
    using assms
    by (auto simp: compileCommandPattern_def Let_def pattern_elem_def split: if_splits dest: in_set_butlastD)
  then show ?thesis using set_TrimSpace by blast
qed

text \<open>Shell control characters of a matched command were written in the pattern.\<close>

lemma match_control_in_pattern:
  assumes "compileCommandPattern p = Inr re" and "MatchString re cmd"
    and "c \<in> set cmd" and "c \<in> set control_chars"
  shows "c \<in> set p"
  using assms rx_match_control [of "re_elems re" "re_opt re" cmd c] compile_elems_subset [of p re c]
  by (simp add: MatchString_def ctl_ok_def)

definition word_prefix :: "string \<Rightarrow> string \<Rightarrow> bool" where
  "word_prefix w cmd \<longleftrightarrow>
     EqualFold (take (length w) cmd) w \<and> (drop (length w) cmd = [] \<or> opt_args (drop (length w) cmd))"

lemma EqualFold_length: "EqualFold s t \<Longrightarrow> length s = length t"
  unfolding EqualFold_def ToLower_def by (drule arg_cong [of _ _ length]) simp

lemma rx_match_lits:
  "rx_match (map Lit w) True s \<longleftrightarrow> word_prefix w s"
proof (induction w arbitrary: s)
  case Nil
  then show ?case by (simp add: word_prefix_def)
next
  case (Cons c w)
  then show ?case by (cases s) (auto simp: word_prefix_def EqualFold_def)
qed

lemma map_pattern_elem_lits: "CHR ''*'' \<notin> set w \<Longrightarrow> map pattern_elem w = map Lit w"
  by (induction w) (auto simp: pattern_elem_def)

text \<open>A pattern without a star, and the same word followed by one star, mean that word alone
  or followed by a blank and plain arguments.\<close>

lemma trailingOnly_snoc: "CHR ''*'' \<notin> set w \<Longrightarrow> trailingOnly (w @ ''*'')"
  by (simp add: trailingOnly_def HasSuffix_def)

lemma not_trailingOnly: "CHR ''*'' \<notin> set w \<Longrightarrow> \<not> trailingOnly w"
  by (cases w rule: rev_cases) (auto simp: trailingOnly_def HasSuffix_def)

lemma compile_word:
  assumes "TrimSpace p = p" and "p \<noteq> ''''" and "p = w \<or> p = w @ ''*''" and "CHR ''*'' \<notin> set w"
  shows "\<exists>re. compileCommandPattern p = Inr re \<and> (\<forall>s. MatchString re s = word_prefix w s)"
  using assms(3)
proof
  assume "p = w"
  with assms show ?thesis
    by (auto simp: compileCommandPattern_def not_trailingOnly MatchString_def map_pattern_elem_lits
        rx_match_lits)
next
  assume "p = w @ ''*''"
  with assms show ?thesis
    by (auto simp: compileCommandPattern_def trailingOnly_snoc MatchString_def map_pattern_elem_lits
        rx_match_lits)
qed

section \<open>Stripping\<close>

lemma suffix_TrimLeft: "suffix (TrimLeft s cs) s"
  by (simp add: TrimLeft_def trim_left_by_def suffix_dropWhile)

lemma suffix_trans3: "suffix a b \<Longrightarrow> suffix b c \<Longrightarrow> suffix c d \<Longrightarrow> suffix a d"
  by (meson suffix_order.trans)

lemma stripEnvVarRef_suffix: "stripEnvVarRef c = Some r \<Longrightarrow> suffix r c"
  using suffix_order.trans [OF suffix_TrimLeft suffix_drop]
  by (auto simp: stripEnvVarRef_def Let_def split: if_splits option.splits)

lemma stripEnvAssignment_suffix: "stripEnvAssignment c = Some r \<Longrightarrow> suffix r c"
  by (auto simp: stripEnvAssignment_def Let_def suffix_drop split: if_splits option.splits)

lemma strip_suffix: "suffix (stripLeadingEnvAssignments c) c"
proof (induction c rule: stripLeadingEnvAssignments.induct)
  case (1 c)
  let ?c = "TrimLeft c [CHR '' '', CHR 0x09]"
  show ?case
  proof (cases "?c = ''''")
    case False
    have step: "suffix (stripLeadingEnvAssignments r) c"
      if "suffix (stripLeadingEnvAssignments r) r" and "suffix r ?c" for r
      using that suffix_TrimLeft suffix_trans3 by blast
    show ?thesis
    proof (cases "hd ?c = CHR ''$''")
      case True
      with False 1(1) [OF refl] step show ?thesis
        by (subst stripLeadingEnvAssignments.simps)
           (auto simp: Let_def suffix_TrimLeft dest: stripEnvVarRef_suffix split: option.splits)
    next
      case nd: False
      with False 1(2) [OF refl] step show ?thesis
        by (subst stripLeadingEnvAssignments.simps)
           (auto simp: Let_def suffix_TrimLeft dest: stripEnvAssignment_suffix split: option.splits)
    qed
  qed (subst stripLeadingEnvAssignments.simps, simp)
qed

text \<open>Nothing is left to strip: the result has no leading blank and neither step applies.\<close>

lemma TrimLeft_idem: "TrimLeft (TrimLeft s cs) cs = TrimLeft s cs"
  by (simp add: TrimLeft_def trim_left_by_def dropWhile_idem)

lemma strip_fixed:
  "stripLeadingEnvAssignments (stripLeadingEnvAssignments c) = stripLeadingEnvAssignments c"
proof (induction c rule: stripLeadingEnvAssignments.induct)
  case (1 c)
  let ?c = "TrimLeft c [CHR '' '', CHR 0x09]"
  have stop: "stripLeadingEnvAssignments ?c = ?c"
    if "?c = '''' \<or> (hd ?c = CHR ''$'' \<and> stripEnvVarRef ?c = None) \<or>
        (hd ?c \<noteq> CHR ''$'' \<and> stripEnvAssignment ?c = None)"
    using that by (subst stripLeadingEnvAssignments.simps) (auto simp: TrimLeft_idem Let_def)
  have unf: "stripLeadingEnvAssignments c =
     (if ?c = '''' then ''''
      else if hd ?c = CHR ''$''
      then (case stripEnvVarRef ?c of None \<Rightarrow> ?c | Some r \<Rightarrow> stripLeadingEnvAssignments r)
      else (case stripEnvAssignment ?c of None \<Rightarrow> ?c | Some r \<Rightarrow> stripLeadingEnvAssignments r))"
    by (subst stripLeadingEnvAssignments.simps) (simp add: Let_def)
  show ?case
    using stop 1(1) [OF refl] 1(2) [OF refl]
    by (auto simp: unf split: option.splits)
qed

section \<open>The rule set as a machine\<close>

datatype rule_op = OpAllow string | OpDeny string | OpClear

fun rule_step :: "rule_op \<Rightarrow> CommandRuleSet option \<Rightarrow> CommandRuleSet option" where
  "rule_step (OpAllow p) rs = AddAllowPattern p rs"
| "rule_step (OpDeny p) rs = AddDenyPattern p rs"
| "rule_step OpClear rs = CommandRuleSet_Clear rs"

definition compiled_from :: "string list \<Rightarrow> cmd_regexp list \<Rightarrow> bool" where
  "compiled_from ps res = list_all2 (\<lambda>p re. compileCommandPattern p = Inr re) ps res"

definition rs_wf :: "CommandRuleSet \<Rightarrow> bool" where
  "rs_wf rs \<longleftrightarrow> compiled_from (rs_allowPats rs) (rs_allow rs) \<and> compiled_from (rs_denyPats rs) (rs_deny rs)"

definition rso_wf :: "CommandRuleSet option \<Rightarrow> bool" where
  "rso_wf rso = (case rso of None \<Rightarrow> True | Some rs \<Rightarrow> rs_wf rs)"

lemma compiled_from_snoc:
  "compiled_from ps res \<Longrightarrow> compileCommandPattern p = Inr re \<Longrightarrow> compiled_from (ps @ [p]) (res @ [re])"
  by (simp add: compiled_from_def list_all2_appendI)

lemma AddAllowPattern_wf [inv_intros]: "rso_wf rso \<Longrightarrow> rso_wf (AddAllowPattern p rso)"
  by (auto simp: rso_wf_def AddAllowPattern_def rs_wf_def compiled_from_snoc
      split: option.splits sum.splits)

lemma AddDenyPattern_wf [inv_intros]: "rso_wf rso \<Longrightarrow> rso_wf (AddDenyPattern p rso)"
  by (auto simp: rso_wf_def AddDenyPattern_def rs_wf_def compiled_from_snoc
      split: option.splits sum.splits)

lemma Clear_wf [inv_intros]: "rso_wf rso \<Longrightarrow> rso_wf (CommandRuleSet_Clear rso)"
  by (auto simp: rso_wf_def CommandRuleSet_Clear_def rs_wf_def compiled_from_def split: option.splits)

interpretation rules: op_machine rule_step rso_wf
proof unfold_locales
  fix s op
  assume "rso_wf s"
  then show "rso_wf (rule_step op s)" by (cases op) (auto intro: inv_intros)
qed

lemma NewCommandRuleSet_wf: "rs_wf NewCommandRuleSet"
  by (simp add: rs_wf_def NewCommandRuleSet_def compiled_from_def)

lemma compiled_fromD:
  "compiled_from ps res \<Longrightarrow> re \<in> set res \<Longrightarrow> \<exists>p \<in> set ps. compileCommandPattern p = Inr re"
  by (auto simp: compiled_from_def list_all2_conv_all_nth in_set_conv_nth) (metis nth_mem)

lemma any_match_control:
  assumes "compiled_from ps res" and "any_match res cmd"
    and "\<forall>p \<in> set ps. set p \<inter> set control_chars = {}"
  shows "set cmd \<inter> set control_chars = {}"
proof -
  from assms(2) obtain re where re: "re \<in> set res" "MatchString re cmd"
    by (auto simp: any_match_def list_ex_iff)
  from compiled_fromD [OF assms(1) re(1)] obtain p
    where p: "p \<in> set ps" "compileCommandPattern p = Inr re" by blast
  have "c \<in> set p" if "c \<in> set cmd" "c \<in> set control_chars" for c
    by (rule match_control_in_pattern [OF p(2) re(2) that])
  with p(1) assms(3) show ?thesis by blast
qed

lemma Check_Allow_cases:
  assumes "CommandRuleSet_Check (Some rs) cmd = (Allow, True)"
  shows "any_match (rs_allow rs) cmd \<or> any_match (rs_allow rs) (stripLeadingEnvAssignments cmd)"
  using assms by (auto simp: CommandRuleSet_Check_def Let_def split: if_splits)

lemma strip_set: "set (stripLeadingEnvAssignments cmd) \<subseteq> set cmd"
  using strip_suffix by (metis set_mono_suffix)



text \<open>
  A matching deny pattern decides, whatever else the set holds, for the command as written;
  and a decision the set makes is never \<open>Ask\<close>: every match is an allow or a deny.
\<close>

theorem deny_pattern_decides:
  "(TrimSpace cmd \<noteq> '''' \<longrightarrow> any_match (rs_deny rs) cmd \<longrightarrow>
      CommandRuleSet_Check (Some rs) cmd = (Deny, True)) \<and>
   (\<forall>d. CommandRuleSet_Check rso c = (d, True) \<longrightarrow> d = Allow \<or> d = Deny)"
  by (auto simp: CommandRuleSet_Check_def Let_def split: if_splits option.splits)

theorem deny_pattern_decides_witness:
  "CommandRuleSet_Check (Some (NewCommandRuleSetFromLists [''git*''] [''git push*''])) ''git push origin''
     = (Deny, True)"
proof -
  let ?rs = "NewCommandRuleSetFromLists [''git*''] [''git push*'']"
  have "TrimSpace ''git push origin'' \<noteq> ''''" by code_simp
  moreover have "any_match (rs_deny ?rs) ''git push origin''" by code_simp
  ultimately show ?thesis
    using deny_pattern_decides [of "''git push origin''" ?rs None "''''"] by blast
qed

section \<open>Rebuilding a set from its patterns\<close>

lemma fold_push_allow:
  "compiled_from ps res \<Longrightarrow>
     fold push_allow ps rs = rs\<lparr>rs_allow := rs_allow rs @ res, rs_allowPats := rs_allowPats rs @ ps\<rparr>"
proof (induction ps arbitrary: res rs)
  case (Cons p ps)
  from Cons.prems obtain re res' where "res = re # res'" "compileCommandPattern p = Inr re"
    "compiled_from ps res'" by (auto simp: compiled_from_def list_all2_Cons1)
  with Cons.IH show ?case by (simp add: push_allow_def)
qed (simp add: compiled_from_def)

lemma fold_push_deny:
  "compiled_from ps res \<Longrightarrow>
     fold push_deny ps rs = rs\<lparr>rs_deny := rs_deny rs @ res, rs_denyPats := rs_denyPats rs @ ps\<rparr>"
proof (induction ps arbitrary: res rs)
  case (Cons p ps)
  from Cons.prems obtain re res' where "res = re # res'" "compileCommandPattern p = Inr re"
    "compiled_from ps res'" by (auto simp: compiled_from_def list_all2_Cons1)
  with Cons.IH show ?case by (simp add: push_deny_def)
qed (simp add: compiled_from_def)

text \<open>
  The pattern lists a rule set reports are enough to rebuild it: constructing a set from
  the allow and deny patterns of any set reached by its operations gives that set back.
\<close>

theorem rule_set_roundtrip:
  assumes "fold rule_step ops (Some NewCommandRuleSet) = Some rs"
  shows "NewCommandRuleSetFromLists (AllowPatterns (Some rs)) (DenyPatterns (Some rs)) = rs"
proof -
  have "rso_wf (fold rule_step ops (Some NewCommandRuleSet))"
    by (rule rules.run_inv) (simp add: rso_wf_def NewCommandRuleSet_wf)
  with assms have a: "compiled_from (rs_allowPats rs) (rs_allow rs)"
    and d: "compiled_from (rs_denyPats rs) (rs_deny rs)"
    by (simp_all add: rso_wf_def rs_wf_def)
  show ?thesis
    by (simp add: NewCommandRuleSetFromLists_def AllowPatterns_def DenyPatterns_def
        fold_push_allow [OF a] fold_push_deny [OF d] NewCommandRuleSet_def)
qed

theorem rule_set_roundtrip_witness:
  "\<exists>rs. fold rule_step [OpAllow ''go test*'', OpDeny ''rm*'', OpAllow ''ls''] (Some NewCommandRuleSet) = Some rs \<and>
     NewCommandRuleSetFromLists (AllowPatterns (Some rs)) (DenyPatterns (Some rs)) = rs \<and>
     AllowPatterns (Some rs) = [''go test*'', ''ls'']"
proof -
  let ?ops = "[OpAllow ''go test*'', OpDeny ''rm*'', OpAllow ''ls'']"
  have pats: "AllowPatterns (fold rule_step ?ops (Some NewCommandRuleSet)) = [''go test*'', ''ls'']" by code_simp
  then obtain rs where rs: "fold rule_step ?ops (Some NewCommandRuleSet) = Some rs"
    by (cases "fold rule_step ?ops (Some NewCommandRuleSet)") (auto simp: AllowPatterns_def)
  show ?thesis using rule_set_roundtrip [OF rs] rs pats by auto
qed

section \<open>A command's own pattern\<close>

definition plain_token :: "string \<Rightarrow> bool" where
  "plain_token t \<longleftrightarrow> t \<noteq> '''' \<and> list_all (\<lambda>c. \<not> is_space c \<and> ctl_ok c \<and> c \<noteq> CHR ''*'') t"

lemma space_is_space [simp]: "is_space (CHR '' '')"
  by (simp add: is_space_def byte_val_def)

lemma star_not_space [simp]: "\<not> is_space (CHR ''*'')"
  by (simp add: is_space_def in_range_def byte_val_def)

lemma fields_acc_token:
  "list_all (\<lambda>c. \<not> is_space c) t \<Longrightarrow> fields_acc cur (t @ s) = fields_acc (rev t @ cur) s"
  by (induction t arbitrary: cur) auto

lemma Fields_Join:
  "list_all (\<lambda>t. t \<noteq> [] \<and> list_all (\<lambda>c. \<not> is_space c) t) ts \<Longrightarrow> Fields (Join ts '' '') = ts"
proof (induction ts rule: induct_list012)
  case (2 t)
  then show ?case using fields_acc_token [of t "[]" "[]"] by (simp add: Fields_def)
next
  case (3 t u ts)
  then show ?case
    using fields_acc_token [of t "[]" "CHR '' '' # Join (u # ts) '' ''"] by (simp add: Fields_def)
qed (simp add: Fields_def)

lemma Join_nonempty_ends:
  assumes "ts \<noteq> []" and "list_all (\<lambda>t. t \<noteq> [] \<and> list_all P t) ts"
  shows "Join ts sep \<noteq> [] \<and> P (hd (Join ts sep)) \<and> P (last (Join ts sep))"
  using assms
proof (induction ts rule: induct_list012)
  case (2 t)
  then show ?case by (auto simp: list_all_iff)
next
  case (3 t u ts)
  then show ?case by (auto simp: list_all_iff hd_append last_append)
qed simp

lemma TrimSpace_fixed:
  assumes "s \<noteq> []" and "\<not> is_space (hd s)" and "\<not> is_space (last s)"
  shows "TrimSpace s = s"
proof -
  have "dropWhile is_space s = s" using assms by (cases s) auto
  moreover have "dropWhile is_space (rev s) = rev s"
    using assms by (cases s rule: rev_cases) auto
  ultimately show ?thesis by (simp add: TrimSpace_def trim_left_by_def trim_right_by_def)
qed

lemma strip_plain:
  assumes "s \<noteq> []" and "\<not> is_blank (hd s)" and "hd s \<noteq> CHR ''$''"
    and "IndexByte s (CHR ''='') = None"
  shows "stripLeadingEnvAssignments s = s"
proof -
  have "TrimLeft s [CHR '' '', CHR 0x09] = s"
    using assms(1,2) by (cases s) (auto simp: TrimLeft_def trim_left_by_def is_blank_def)
  with assms show ?thesis
    by (subst stripLeadingEnvAssignments.simps) (simp add: Let_def stripEnvAssignment_def)
qed

lemma ctl_ok_Join: "list_all (list_all ctl_ok) ts \<Longrightarrow> list_all ctl_ok (Join ts '' '')"
  by (induction ts rule: induct_list012)
     (auto simp: ctl_ok_def control_chars_def bslash_def)

lemma word_prefix_args:
  "list_all ctl_ok rest \<Longrightarrow> word_prefix w (w @ CHR '' '' # rest)"
  by (simp add: word_prefix_def opt_args_def is_blank_def)

lemma word_prefix_self: "word_prefix w w"
  by (simp add: word_prefix_def)

text \<open>The text of a compiled pattern determines it.\<close>

definition tail_src :: "bool \<Rightarrow> string" where
  "tail_src b = (if b then optionalArgs_src @ ''$'' else ''$'')"

definition build_re :: "string \<Rightarrow> bool \<Rightarrow> cmd_regexp" where
  "build_re w b = \<lparr>re_src = ''(?i)^'' @ concat (map pattern_char_src w) @ tail_src b,
                   re_elems = map pattern_elem w, re_opt = b\<rparr>"

lemma compile_shape: "compileCommandPattern p = Inr re \<Longrightarrow> \<exists>w b. re = build_re w b"
  by (auto simp: compileCommandPattern_def Let_def build_re_def tail_src_def split: if_splits)

lemma tail_src_Cons: "\<exists>t. tail_src b = (if b then CHR ''('' else CHR ''$'') # t"
  by (simp add: tail_src_def optionalArgs_src_def)

lemma pcs_cases:
  "pattern_char_src c = (if c = CHR ''*'' then CHR ''['' # tl control_src
     else if c \<in> set regex_meta then [bslash, c] else [c])"
  by (auto simp: pattern_char_src_def control_src_def)

lemma meta_members: "CHR ''('' \<in> set regex_meta" "CHR ''$'' \<in> set regex_meta"
  "CHR ''['' \<in> set regex_meta" "bslash \<in> set regex_meta" "bslash \<noteq> CHR ''(''"
  "bslash \<noteq> CHR ''$''" "bslash \<noteq> CHR ''[''"
  by (auto simp: regex_meta_def bslash_def)

lemma tail_src_inj: "tail_src b = tail_src b' \<Longrightarrow> b = b'"
  using tail_src_Cons [of b] tail_src_Cons [of b'] by (cases b; cases b') auto

lemma pcs_tail_clash: "pattern_char_src c @ s \<noteq> tail_src b"
  using tail_src_Cons [of b] meta_members by (auto simp: pcs_cases split: if_splits)

lemma pcs_inj: "pattern_char_src c @ s = pattern_char_src d @ t \<Longrightarrow> c = d \<and> s = t"
  using meta_members by (auto simp: pcs_cases split: if_splits)

lemma body_src_inj:
  "concat (map pattern_char_src w) @ tail_src b = concat (map pattern_char_src v) @ tail_src b'
     \<Longrightarrow> w = v \<and> b = b'"
proof (induction w arbitrary: v)
  case Nil
  then show ?case
    using pcs_tail_clash tail_src_inj by (cases v) (auto, metis append.assoc)
next
  case (Cons c w)
  show ?case
  proof (cases v)
    case Nil
    with Cons.prems show ?thesis by (simp add: pcs_tail_clash)
  next
    case (Cons d v')
    with Cons.prems pcs_inj have "c = d"
      and "concat (map pattern_char_src w) @ tail_src b = concat (map pattern_char_src v') @ tail_src b'"
      by simp_all
    with Cons.IH Cons show ?thesis by blast
  qed
qed

lemma re_src_inj:
  assumes "compileCommandPattern p = Inr re" and "compileCommandPattern q = Inr re'"
    and "re_src re = re_src re'"
  shows "re = re'"
proof -
  from assms(1,2) compile_shape obtain w b v b' where "re = build_re w b" "re' = build_re v b'" by blast
  with assms(3) body_src_inj show ?thesis by (simp add: build_re_def) blast
qed

lemma AddAllowPattern_member:
  assumes "rs_wf rs" and "TrimSpace p \<noteq> ''''" and "compileCommandPattern p = Inr re"
  shows "\<exists>rs'. AddAllowPattern p (Some rs) = Some rs' \<and> re \<in> set (rs_allow rs') \<and> rs_deny rs' = rs_deny rs"
proof (cases "list_ex (\<lambda>e. re_src e = re_src re) (rs_allow rs)")
  case True
  then obtain e where e: "e \<in> set (rs_allow rs)" "re_src e = re_src re" by (auto simp: list_ex_iff)
  with assms(1) obtain q where "compileCommandPattern q = Inr e"
    using compiled_fromD unfolding rs_wf_def by metis
  with e assms(3) re_src_inj have "e = re" by blast
  with True e assms show ?thesis by (simp add: AddAllowPattern_def)
qed (use assms in \<open>simp add: AddAllowPattern_def\<close>)

definition prefix_word :: "string \<Rightarrow> string list \<Rightarrow> string" where
  "prefix_word t ts =
     (case ts of [] \<Rightarrow> t | u # us \<Rightarrow> (if isCommonTwoWordPrefix t u then t @ '' '' @ u else t))"

lemma plain_tokens_nonspace:
  "list_all plain_token ts \<Longrightarrow> list_all (\<lambda>t. t \<noteq> [] \<and> list_all (\<lambda>c. \<not> is_space c) t) ts"
  by (auto simp: plain_token_def list_all_iff)

lemma plain_tokens_ctl: "list_all plain_token ts \<Longrightarrow> list_all ctl_ok (Join ts '' '')"
  by (rule ctl_ok_Join) (auto simp: plain_token_def list_all_iff)

lemma prefix_pattern:
  assumes "list_all plain_token (t # ts)" and "CHR ''='' \<notin> set (Join (t # ts) '' '')"
  shows "CommandPrefixToPattern (Join (t # ts) '' '') = prefix_word t ts @ ''*''"
proof -
  let ?cmd = "Join (t # ts) '' ''"
  note toks = plain_tokens_nonspace [OF assms(1)]
  have ends: "?cmd \<noteq> [] \<and> \<not> is_space (hd ?cmd) \<and> \<not> is_space (last ?cmd)"
    using Join_nonempty_ends [OF _ toks] by simp
  then have trim: "TrimSpace ?cmd = ?cmd" by (intro TrimSpace_fixed) auto
  have "hd ?cmd \<in> set ?cmd" using ends by simp
  then have "ctl_ok (hd ?cmd)" using plain_tokens_ctl [OF assms(1)] by (simp add: list_all_iff)
  then have "hd ?cmd \<noteq> CHR ''$''" by (auto simp: ctl_ok_def control_chars_def)
  moreover have "\<not> is_blank (hd ?cmd)"
    using ends by (auto simp: is_blank_def is_space_def in_range_def byte_val_def)
  moreover have "IndexByte ?cmd (CHR ''='') = None"
    using assms(2) by (auto simp: IndexByte_def index_by_None)
  ultimately have "stripLeadingEnvAssignments ?cmd = ?cmd" using ends by (intro strip_plain) auto
  with trim ends Fields_Join [OF toks] show ?thesis
    by (simp add: CommandPrefixToPattern_def prefix_word_def Let_def split: list.splits)
qed

lemma prefix_word_matches:
  assumes "list_all plain_token (t # ts)"
  shows "word_prefix (prefix_word t ts) (Join (t # ts) '' '')"
proof (cases ts)
  case Nil
  then show ?thesis by (simp add: prefix_word_def word_prefix_self)
next
  case (Cons u us)
  have "list_all ctl_ok (Join us '' '')" "list_all ctl_ok (Join (u # us) '' '')"
    using assms Cons by (auto intro: plain_tokens_ctl)
  with Cons show ?thesis
    using word_prefix_args [of "Join us '' ''" "t @ '' '' @ u"] word_prefix_args [of _ t]
      word_prefix_self [of "t @ '' '' @ u"]
    by (simp add: prefix_word_def Join_Cons split: if_splits)
qed

lemma plain_token_facts:
  "plain_token t \<Longrightarrow> t \<noteq> [] \<and> CHR ''*'' \<notin> set t \<and> \<not> is_space (hd t)"
  by (cases t) (auto simp: plain_token_def list_all_iff)

lemma prefix_word_plain:
  assumes "list_all plain_token (t # ts)"
  shows "CHR ''*'' \<notin> set (prefix_word t ts)" and "prefix_word t ts \<noteq> []"
    and "\<not> is_space (hd (prefix_word t ts))"
  using assms plain_token_facts [of t] plain_token_facts [of "hd ts"]
  by (cases ts; simp add: prefix_word_def hd_append)+

text \<open>
  The pattern offered for a command covers it: for a command of plain words (no control
  character, no star, no assignment), after adding the pattern \<open>CommandPrefixToPattern\<close> derives
  from it, the set answers \<open>Allow\<close> for that command unless a deny pattern matches.
\<close>

theorem prefix_pattern_covers_command:
  assumes "fold rule_step ops (Some NewCommandRuleSet) = Some rs"
    and "list_all plain_token (t # ts)" and "cmd = Join (t # ts) '' ''"
    and "CHR ''='' \<notin> set cmd" and "\<not> any_match (rs_deny rs) cmd"
  shows "CommandRuleSet_Check (AddAllowPattern (CommandPrefixToPattern cmd) (Some rs)) cmd = (Allow, True)"
proof -
  let ?w = "prefix_word t ts" and ?p = "prefix_word t ts @ ''*''"
  have "rso_wf (fold rule_step ops (Some NewCommandRuleSet))"
    by (rule rules.run_inv) (simp add: rso_wf_def NewCommandRuleSet_wf)
  with assms(1) have wf: "rs_wf rs" by (simp add: rso_wf_def)
  note w = prefix_word_plain [OF assms(2)]
  have trim: "TrimSpace ?p = ?p"
    using w by (intro TrimSpace_fixed) (simp_all add: star_not_space)
  from compile_word [OF trim _ disjI2 [OF refl] w(1)] w(2)
  obtain re where re: "compileCommandPattern ?p = Inr re" "\<forall>s. MatchString re s = word_prefix ?w s" by auto
  from AddAllowPattern_member [OF wf _ re(1)] trim w(2)
  obtain rs' where rs': "AddAllowPattern ?p (Some rs) = Some rs'" "re \<in> set (rs_allow rs')"
    "rs_deny rs' = rs_deny rs" by auto
  have "any_match (rs_allow rs') cmd"
    using rs'(2) re(2) prefix_word_matches [OF assms(2)] assms(3) by (auto simp: any_match_def list_ex_iff)
  moreover have "TrimSpace cmd \<noteq> ''''"
    using Join_nonempty_ends [OF _ plain_tokens_nonspace [OF assms(2)], of "'' ''"] TrimSpace_fixed assms(3)
    by auto
  ultimately show ?thesis
    using prefix_pattern [OF assms(2)] assms(3-5) rs' by (simp add: CommandRuleSet_Check_def)
qed

theorem prefix_pattern_covers_command_witness:
  "CommandRuleSet_Check (AddAllowPattern (CommandPrefixToPattern ''go test ./x'') (Some NewCommandRuleSet))
     ''go test ./x'' = (Allow, True)"
  by (rule prefix_pattern_covers_command [of "[]" _ "''go''" "[''test'', ''./x'']"]) (simp | code_simp)+

end
