(* ===== verification/GoRegexp.thy ===== *)
theory GoRegexp
  imports Prelude
begin

text \<open>
  Package \<^verbatim>\<open>regexp\<close> as far as the danger and network tables use it: literals, classes,
  groups, alternation, repetition, the assertions \<^verbatim>\<open>\b\<close>, \<^verbatim>\<open>^\<close> and \<^verbatim>\<open>$\<close>, and the flag
  \<^verbatim>\<open>(?i)\<close>. \<open>MatchString\<close> only asks whether some substring matches, so the model computes, for a
  start position, the positions where a match can end. The relation \<open>matches\<close> is the reference
  semantics and \<open>ends_iff_matches\<close> ties the two together.
\<close>

text \<open>A class is a list of byte ranges, possibly negated.\<close>

datatype rexp =
    REps
  | RSet bool "(nat \<times> nat) list"
  | RSeq rexp rexp
  | RAlt rexp rexp
  | RStar rexp
  | RUpto nat rexp
  | RWordB
  | RBegin
  | REnd

definition in_ranges :: "(nat \<times> nat) list \<Rightarrow> nat \<Rightarrow> bool" where
  "in_ranges rs n = list_ex (\<lambda>(lo, hi). lo \<le> n \<and> n \<le> hi) rs"

text \<open>Case folding adds the other case of an ASCII letter before a class is negated.\<close>

definition other_case :: "nat \<Rightarrow> nat" where
  "other_case n = (if 65 \<le> n \<and> n \<le> 90 then n + 32 else if 97 \<le> n \<and> n \<le> 122 then n - 32 else n)"

definition class_member :: "bool \<Rightarrow> bool \<Rightarrow> (nat \<times> nat) list \<Rightarrow> char \<Rightarrow> bool" where
  "class_member fold_case neg rs c =
     (let n = byte_val c in
      neg \<noteq> (in_ranges rs n \<or> (fold_case \<and> in_ranges rs (other_case n))))"

definition is_word_char :: "char \<Rightarrow> bool" where
  "is_word_char c \<longleftrightarrow> is_upper c \<or> is_lower c \<or> is_digit c \<or> c = CHR ''_''"

definition word_at :: "string \<Rightarrow> nat \<Rightarrow> bool" where
  "word_at t i \<longleftrightarrow> i < length t \<and> is_word_char (t ! i)"

definition word_boundary :: "string \<Rightarrow> nat \<Rightarrow> bool" where
  "word_boundary t i \<longleftrightarrow> (0 < i \<and> word_at t (i - 1)) \<noteq> word_at t i"

text \<open>Positions reachable by repeating a step, at most \<open>n\<close> times.\<close>

fun star_ends :: "(nat \<Rightarrow> nat list) \<Rightarrow> nat \<Rightarrow> nat list \<Rightarrow> nat list" where
  "star_ends f 0 is = is"
| "star_ends f (Suc n) is =
     (let new = remdups (filter (\<lambda>j. j \<notin> set is) (concat (map f is))) in
      if new = [] then is else star_ends f n (is @ new))"

fun ends :: "bool \<Rightarrow> rexp \<Rightarrow> string \<Rightarrow> nat \<Rightarrow> nat list" where
  "ends fc REps t i = [i]"
| "ends fc (RSet neg rs) t i = (if i < length t \<and> class_member fc neg rs (t ! i) then [Suc i] else [])"
| "ends fc (RSeq r s) t i = remdups (concat (map (ends fc s t) (ends fc r t i)))"
| "ends fc (RAlt r s) t i = remdups (ends fc r t i @ ends fc s t i)"
| "ends fc (RStar r) t i = star_ends (ends fc r t) (Suc (length t)) [i]"
| "ends fc (RUpto n r) t i = star_ends (ends fc r t) n [i]"
| "ends fc RWordB t i = (if word_boundary t i then [i] else [])"
| "ends fc RBegin t i = (if i = 0 then [i] else [])"
| "ends fc REnd t i = (if i = length t then [i] else [])"

record regexp =
  rx_src :: string
  rx_fold :: bool
  rx_ast :: rexp

definition rx_MatchString :: "regexp \<Rightarrow> string \<Rightarrow> bool" where
  "rx_MatchString re t = list_ex (\<lambda>i. ends (rx_fold re) (rx_ast re) t i \<noteq> []) [0..<Suc (length t)]"

section \<open>Notation for patterns\<close>

definition chr :: "char \<Rightarrow> rexp" where
  "chr c = RSet False [(byte_val c, byte_val c)]"

fun lit :: "string \<Rightarrow> rexp" where
  "lit [] = REps"
| "lit [c] = chr c"
| "lit (c # d # s) = RSeq (chr c) (lit (d # s))"

fun seqs :: "rexp list \<Rightarrow> rexp" where
  "seqs [] = REps"
| "seqs [r] = r"
| "seqs (r # s # rs) = RSeq r (seqs (s # rs))"

fun alts :: "rexp list \<Rightarrow> rexp" where
  "alts [] = RSet False []"
| "alts [r] = r"
| "alts (r # s # rs) = RAlt r (alts (s # rs))"

definition star :: "rexp \<Rightarrow> rexp" where
  "star r = RStar r"

definition plus1 :: "rexp \<Rightarrow> rexp" where
  "plus1 r = RSeq r (RStar r)"

definition opt :: "rexp \<Rightarrow> rexp" where
  "opt r = RAlt r REps"

text \<open>\<^verbatim>\<open>\s\<close>, \<^verbatim>\<open>\S\<close>, \<^verbatim>\<open>\d\<close>, \<^verbatim>\<open>\w\<close>, \<^verbatim>\<open>.\<close> and a class given by its members and ranges.\<close>

definition sp_ranges :: "(nat \<times> nat) list" where
  "sp_ranges = [(9, 10), (12, 13), (32, 32)]"

definition sp :: rexp where "sp = RSet False sp_ranges"
definition nsp :: rexp where "nsp = RSet True sp_ranges"
definition dgt :: rexp where "dgt = RSet False [(48, 57)]"
definition wrd :: rexp where "wrd = RSet False [(48, 57), (65, 90), (95, 95), (97, 122)]"
definition dot :: rexp where "dot = RSet True [(10, 10)]"
definition wb :: rexp where "wb = RWordB"

definition cls :: "bool \<Rightarrow> (nat \<times> nat) list \<Rightarrow> rexp" where
  "cls neg rs = RSet neg rs"

section \<open>Reference semantics\<close>

inductive matches :: "bool \<Rightarrow> string \<Rightarrow> rexp \<Rightarrow> nat \<Rightarrow> nat \<Rightarrow> bool" for fc t where
  m_eps: "matches fc t REps i i"
| m_set: "i < length t \<Longrightarrow> class_member fc neg rs (t ! i) \<Longrightarrow> matches fc t (RSet neg rs) i (Suc i)"
| m_seq: "matches fc t r i j \<Longrightarrow> matches fc t s j k \<Longrightarrow> matches fc t (RSeq r s) i k"
| m_altl: "matches fc t r i j \<Longrightarrow> matches fc t (RAlt r s) i j"
| m_altr: "matches fc t s i j \<Longrightarrow> matches fc t (RAlt r s) i j"
| m_star0: "matches fc t (RStar r) i i"
| m_star1: "matches fc t (RStar r) i j \<Longrightarrow> matches fc t r j k \<Longrightarrow> matches fc t (RStar r) i k"
| m_upto0: "matches fc t (RUpto n r) i i"
| m_upto1: "matches fc t r i j \<Longrightarrow> matches fc t (RUpto n r) j k \<Longrightarrow> matches fc t (RUpto (Suc n) r) i k"
| m_wordb: "word_boundary t i \<Longrightarrow> matches fc t RWordB i i"
| m_begin: "matches fc t RBegin 0 0"
| m_end: "matches fc t REnd (length t) (length t)"

inductive_simps matches_simps:
  "matches fc t REps i j" "matches fc t (RSet neg rs) i j" "matches fc t (RSeq r s) i j"
  "matches fc t (RAlt r s) i j" "matches fc t RWordB i j" "matches fc t RBegin i j"
  "matches fc t REnd i j"

lemma matches_le: "matches fc t r i j \<Longrightarrow> i \<le> length t \<Longrightarrow> i \<le> j \<and> j \<le> length t"
  by (induction rule: matches.induct) auto

lemma star_ends_mono: "set is \<subseteq> set (star_ends f n is)"
  by (induction f n "is" rule: star_ends.induct) (auto simp: Let_def)

lemma star_ends_sound:
  assumes "\<And>j k. j \<in> S \<Longrightarrow> k \<in> set (f j) \<Longrightarrow> k \<in> S" and "set is \<subseteq> S"
  shows "set (star_ends f n is) \<subseteq> S"
  using assms(2)
proof (induction n arbitrary: "is")
  case (Suc n)
  then have "set (is @ remdups (filter (\<lambda>j. j \<notin> set is) (concat (map f is)))) \<subseteq> S"
    using assms(1) by auto
  with Suc show ?case by (auto simp: Let_def)
qed simp

lemma star_ends_closed:
  assumes "distinct is" and "set is \<subseteq> {..b}" and "\<And>j k. j \<le> b \<Longrightarrow> k \<in> set (f j) \<Longrightarrow> k \<le> b"
    and "Suc b < n + length is"
  shows "\<forall>j \<in> set (star_ends f n is). set (f j) \<subseteq> set (star_ends f n is)"
  using assms(1,2,4)
proof (induction n arbitrary: "is")
  case 0
  have "length is \<le> Suc b" using 0 card_mono [of "{..b}" "set is"] by (simp add: distinct_card)
  with 0 show ?case by simp
next
  case (Suc n)
  let ?new = "remdups (filter (\<lambda>j. j \<notin> set is) (concat (map f is)))"
  show ?case
  proof (cases "?new = []")
    case True
    then have "\<forall>j \<in> set is. set (f j) \<subseteq> set is" by (auto simp: filter_empty_conv)
    with True show ?thesis by simp
  next
    case False
    then have "Suc 0 \<le> length ?new" by (cases ?new) auto
    then have "Suc b < n + length (is @ ?new)" using Suc.prems(3) by simp
    moreover have "distinct (is @ ?new)" using Suc.prems(1) by auto
    moreover have "set (is @ ?new) \<subseteq> {..b}" using Suc.prems(2) assms(3) by fastforce
    ultimately show ?thesis using Suc.IH False by (simp add: Let_def)
  qed
qed

lemma star_matches_iff:
  assumes IH: "\<And>i j. i \<le> length t \<Longrightarrow> j \<in> set (f i) \<longleftrightarrow> matches fc t r i j" and i: "i \<le> length t"
  shows "j \<in> set (star_ends f (Suc (length t)) [i]) \<longleftrightarrow> matches fc t (RStar r) i j"
proof
  have "set (star_ends f (Suc (length t)) [i]) \<subseteq> {j. matches fc t (RStar r) i j}"
  proof (rule star_ends_sound)
    fix j k
    assume "j \<in> {j. matches fc t (RStar r) i j}" and "k \<in> set (f j)"
    then show "k \<in> {j. matches fc t (RStar r) i j}"
      using matches_le [OF _ i] IH by (auto intro: m_star1)
  qed (auto intro: m_star0)
  then show "j \<in> set (star_ends f (Suc (length t)) [i]) \<Longrightarrow> matches fc t (RStar r) i j" by blast
next
  have step: "\<forall>j \<in> set (star_ends f (Suc (length t)) [i]).
      set (f j) \<subseteq> set (star_ends f (Suc (length t)) [i])"
    by (rule star_ends_closed [where b = "length t"]) (use i IH matches_le in auto)
  let ?E = "set (star_ends f (Suc (length t)) [i])"
  have start: "i \<in> ?E" using star_ends_mono [of "[i]" f "Suc (length t)"] by (simp del: star_ends.simps)
  have "matches fc t q i' j \<Longrightarrow> q = RStar r \<Longrightarrow> i' = i \<Longrightarrow> j \<in> ?E" for q i'
  proof (induction rule: matches.induct)
    case (m_star1 r' i' j k)
    then have "j \<in> ?E" by simp
    moreover have "k \<in> set (f j)"
      using m_star1 IH matches_le [OF m_star1.hyps(1)] i by auto
    ultimately show ?case using step by blast
  qed (use start in \<open>simp_all del: star_ends.simps\<close>)
  then show "matches fc t (RStar r) i j \<Longrightarrow> j \<in> ?E" by blast
qed

inductive_simps matches_upto_0: "matches fc t (RUpto 0 r) i j"
inductive_simps matches_upto_Suc: "matches fc t (RUpto (Suc n) r) i j"

primrec reach :: "(nat \<Rightarrow> nat list) \<Rightarrow> nat \<Rightarrow> nat \<Rightarrow> nat set" where
  "reach f 0 i = {i}"
| "reach f (Suc n) i = insert i (\<Union>j \<in> set (f i). reach f n j)"

lemma reach_refl: "i \<in> reach f n i"
  by (cases n) auto

lemma reach_mono: "reach f n i \<subseteq> reach f (Suc n) i"
proof (induction n arbitrary: i)
  case (Suc n)
  have "(\<Union>j \<in> set (f i). reach f n j) \<subseteq> (\<Union>j \<in> set (f i). reach f (Suc n) j)"
    by (rule UN_mono [OF subset_refl Suc.IH])
  then show ?case by auto
qed simp

lemma reach_closed: "\<forall>j \<in> S. set (f j) \<subseteq> S \<Longrightarrow> i \<in> S \<Longrightarrow> reach f n i \<subseteq> S"
proof (induction n arbitrary: i)
  case (Suc n)
  then have "\<forall>j \<in> set (f i). reach f n j \<subseteq> S" by blast
  with Suc.prems show ?case by auto
qed simp

lemma star_ends_reach: "set (star_ends f n is) = (\<Union>i \<in> set is. reach f n i)"
proof (induction n arbitrary: "is")
  case (Suc n)
  let ?new = "remdups (filter (\<lambda>j. j \<notin> set is) (concat (map f is)))"
  show ?case
  proof (cases "?new = []")
    case True
    then have "\<forall>j \<in> set is. set (f j) \<subseteq> set is" by (auto simp: filter_empty_conv)
    then have "(\<Union>i \<in> set is. reach f (Suc n) i) \<subseteq> set is"
      by (intro UN_least reach_closed)
    moreover have "set is \<subseteq> (\<Union>i \<in> set is. reach f (Suc n) i)"
      using reach_refl [of _ f "Suc n"] by blast
    moreover have "set (star_ends f (Suc n) is) = set is" using True by simp
    ultimately show ?thesis by (simp only: subset_antisym)
  next
    case False
    have "set (star_ends f (Suc n) is) = (\<Union>i \<in> set is \<union> set ?new. reach f n i)"
      using False Suc.IH [of "is @ ?new"] by (simp add: Let_def)
    also have "\<dots> = (\<Union>i \<in> set is. reach f n i \<union> (\<Union>j \<in> set (f i). reach f n j))"
      by auto
    also have "\<dots> = (\<Union>i \<in> set is. reach f (Suc n) i)"
    proof (rule SUP_cong [OF refl])
      fix i
      show "reach f n i \<union> (\<Union>j \<in> set (f i). reach f n j) = reach f (Suc n) i"
        using reach_mono [of f n i] reach_refl [of i f n] by auto
    qed
    finally show ?thesis .
  qed
qed simp

lemma upto_matches_iff:
  assumes IH: "\<And>i j. i \<le> length t \<Longrightarrow> j \<in> set (f i) \<longleftrightarrow> matches fc t r i j"
  shows "i \<le> length t \<Longrightarrow> j \<in> set (star_ends f n [i]) \<longleftrightarrow> matches fc t (RUpto n r) i j"
proof (induction n arbitrary: i)
  case 0
  then show ?case by (auto simp: matches_upto_0)
next
  case (Suc n)
  have "j \<in> set (star_ends f (Suc n) [i]) \<longleftrightarrow> i = j \<or> (\<exists>k. matches fc t r i k \<and> j \<in> reach f n k)"
    using IH [OF Suc.prems] by (auto simp: star_ends_reach simp del: star_ends.simps)
  also have "\<dots> \<longleftrightarrow> i = j \<or> (\<exists>k. matches fc t r i k \<and> matches fc t (RUpto n r) k j)"
    using Suc.IH matches_le [OF _ Suc.prems] by (simp add: star_ends_reach) blast
  also have "\<dots> \<longleftrightarrow> matches fc t (RUpto (Suc n) r) i j"
    by (simp only: matches_upto_Suc) blast
  finally show ?case .
qed

lemma ends_iff_matches: "i \<le> length t \<Longrightarrow> j \<in> set (ends fc r t i) \<longleftrightarrow> matches fc t r i j"
proof (induction r arbitrary: i j)
  case (RSeq r s)
  have "j \<in> set (ends fc (RSeq r s) t i) \<longleftrightarrow> (\<exists>k. matches fc t r i k \<and> j \<in> set (ends fc s t k))"
    using RSeq by auto
  also have "\<dots> \<longleftrightarrow> (\<exists>k. matches fc t r i k \<and> matches fc t s k j)"
    using RSeq matches_le by blast
  finally show ?case by (simp add: matches_simps)
next
  case (RStar r)
  then show ?case using star_matches_iff [of t "ends fc r t" fc r i j] by simp
next
  case (RUpto n r)
  then show ?case using upto_matches_iff [of t "ends fc r t" fc r i j n] by simp
qed (auto simp: matches_simps)

text \<open>The executable matcher finds a match exactly when some substring matches.\<close>

lemma rx_MatchString_iff:
  "rx_MatchString re t \<longleftrightarrow> (\<exists>i j. i \<le> length t \<and> matches (rx_fold re) t (rx_ast re) i j)"
proof -
  have "rx_MatchString re t \<longleftrightarrow> (\<exists>i \<le> length t. \<exists>j. j \<in> set (ends (rx_fold re) (rx_ast re) t i))"
    by (simp add: rx_MatchString_def list_ex_iff ex_in_conv Bex_def less_Suc_eq_le del: upt_Suc)
  then show ?thesis using ends_iff_matches by blast
qed

end
