(* ===== verification/Danger.thy ===== *)
theory Danger
  imports GoRegexp
begin

text \<open>
  \<^verbatim>\<open>internal/permission/dangerous.go\<close>: the graded table of dangerous shell commands and the
  detector that reports the worst matching entry. The table is the source's, entry by entry and
  in its order, each regular expression as its syntax tree together with its text.
\<close>

datatype DangerLevel = DangerNone | DangerLow | DangerMedium | DangerHigh | DangerCritical

fun danger_rank :: "DangerLevel \<Rightarrow> nat" where
  "danger_rank DangerNone = 0"
| "danger_rank DangerLow = 1"
| "danger_rank DangerMedium = 2"
| "danger_rank DangerHigh = 3"
| "danger_rank DangerCritical = 4"

lemma danger_rank_inj: "danger_rank a = danger_rank b \<Longrightarrow> a = b"
  by (cases a; cases b) auto

instantiation DangerLevel :: linorder
begin

definition less_eq_DangerLevel :: "DangerLevel \<Rightarrow> DangerLevel \<Rightarrow> bool" where
  "less_eq_DangerLevel a b \<longleftrightarrow> danger_rank a \<le> danger_rank b"

definition less_DangerLevel :: "DangerLevel \<Rightarrow> DangerLevel \<Rightarrow> bool" where
  "less_DangerLevel a b \<longleftrightarrow> danger_rank a < danger_rank b"

instance
  by standard (auto simp: less_eq_DangerLevel_def less_DangerLevel_def danger_rank_inj)

end

fun DangerLevel_String :: "DangerLevel \<Rightarrow> string" where
  "DangerLevel_String DangerNone = ''none''"
| "DangerLevel_String DangerLow = ''low''"
| "DangerLevel_String DangerMedium = ''medium''"
| "DangerLevel_String DangerHigh = ''high''"
| "DangerLevel_String DangerCritical = ''critical''"

record DangerousCheck =
  Level :: DangerLevel
  Pattern :: string
  Reason :: string

record dangerPattern =
  dp_level :: DangerLevel
  dp_re :: regexp
  dp_reason :: string

definition dp :: "DangerLevel \<Rightarrow> bool \<Rightarrow> rexp \<Rightarrow> string \<Rightarrow> string \<Rightarrow> dangerPattern" where
  "dp lvl fc ast src why =
     \<lparr>dp_level = lvl, dp_re = \<lparr>rx_src = src, rx_fold = fc, rx_ast = ast\<rparr>, dp_reason = why\<rparr>"

section \<open>The table\<close>

definition danger_table_1 :: "dangerPattern list" where
  "danger_table_1 =
    [
      dp DangerCritical True (seqs [wb, lit ''rm'', plus1 sp,
        star (seqs [alts [seqs [seqs [lit ''-'', RUpto 1 (lit ''-'')], cls False [(97, 122), (65,
        90)], star (cls False [(97, 122), (65, 90), (45, 45)])], seqs [lit ''-'',
        plus1 (cls False [(97, 122), (65, 90)])]], plus1 sp]), opt (seqs [lit ''-'',
        star (cls False [(97, 122), (65, 90)]), lit ''f'', star (cls False [(97, 122), (65, 90)]),
        plus1 sp]), lit ''/'', star sp, REnd]) (''(?i)'' @ [CHR 0x5C] @ ''brm'' @ [CHR 0x5C] @
        ''s+(?:(?:-{1,2}[a-zA-Z][a-zA-Z-]*|-[a-zA-Z]+)'' @ [CHR 0x5C] @
        ''s+)*(?:-[a-zA-Z]*f[a-zA-Z]*'' @ [CHR 0x5C] @ ''s+)?/'' @ [CHR 0x5C] @ ''s*$'')
        ''rm -rf / would delete the entire filesystem'',
      dp DangerCritical True (seqs [wb, lit ''rm'', plus1 sp,
        star (seqs [alts [seqs [seqs [lit ''-'', RUpto 1 (lit ''-'')], cls False [(97, 122), (65,
        90)], star (cls False [(97, 122), (65, 90), (45, 45)])], seqs [lit ''-'',
        plus1 (cls False [(97, 122), (65, 90)])]], plus1 sp]), opt (seqs [lit ''-'',
        star (cls False [(97, 122), (65, 90)]), lit ''f'', star (cls False [(97, 122), (65, 90)]),
        plus1 sp]), cls False [(34, 34), (39, 39)], lit ''/'', seqs [cls False [(34, 34), (39,
        39)], RUpto 1 (cls False [(34, 34), (39, 39)])], star sp, REnd]) (''(?i)'' @ [CHR 0x5C] @
        ''brm'' @ [CHR 0x5C] @ ''s+(?:(?:-{1,2}[a-zA-Z][a-zA-Z-]*|-[a-zA-Z]+)'' @ [CHR 0x5C] @
        ''s+)*(?:-[a-zA-Z]*f[a-zA-Z]*'' @ [CHR 0x5C] @ ''s+)?['' @ [CHR 0x22] @ [CHR 0x27] @
        '']/['' @ [CHR 0x22] @ [CHR 0x27] @ '']{1,2}'' @ [CHR 0x5C] @ ''s*$'')
        ''rm -rf quoted-root would delete the entire filesystem'',
      dp DangerCritical True (seqs [wb, lit ''rm'', plus1 sp,
        star (seqs [alts [seqs [seqs [lit ''-'', RUpto 1 (lit ''-'')], cls False [(97, 122), (65,
        90)], star (cls False [(97, 122), (65, 90), (45, 45)])], seqs [lit ''-'',
        plus1 (cls False [(97, 122), (65, 90)])]], plus1 sp]), opt (seqs [lit ''-'',
        star (cls False [(97, 122), (65, 90)]), lit ''f'', star (cls False [(97, 122), (65, 90)]),
        plus1 sp]), opt (cls False [(34, 34), (39, 39)]), lit ''$HOME'', RUpto 2 (cls False [(34,
        34), (39, 39)]), opt (seqs [lit ''/'', star dot]), star sp, REnd]) (''(?i)'' @ [CHR 0x5C] @
        ''brm'' @ [CHR 0x5C] @ ''s+(?:(?:-{1,2}[a-zA-Z][a-zA-Z-]*|-[a-zA-Z]+)'' @ [CHR 0x5C] @
        ''s+)*(?:-[a-zA-Z]*f[a-zA-Z]*'' @ [CHR 0x5C] @ ''s+)?['' @ [CHR 0x22] @ [CHR 0x27] @
        '']?'' @ [CHR 0x5C] @ ''$HOME['' @ [CHR 0x22] @ [CHR 0x27] @ '']{0,2}(/.*)?'' @
        [CHR 0x5C] @ ''s*$'')
        (''rm -rf $HOME would delete the user'' @ [CHR 0x27] @ ''s entire home directory''),
      dp DangerCritical True (seqs [wb, lit ''rm'', plus1 sp,
        star (seqs [alts [seqs [seqs [lit ''-'', RUpto 1 (lit ''-'')], cls False [(97, 122), (65,
        90)], star (cls False [(97, 122), (65, 90), (45, 45)])], seqs [lit ''-'',
        plus1 (cls False [(97, 122), (65, 90)])]], plus1 sp]), opt (seqs [lit ''-'',
        star (cls False [(97, 122), (65, 90)]), lit ''r'', star (cls False [(97, 122), (65, 90)]),
        plus1 sp]), opt (cls False [(34, 34), (39, 39)]), lit ''~'', RUpto 2 (cls False [(34, 34),
        (39, 39)]), opt (seqs [lit ''/'', star dot]), star sp, REnd]) (''(?i)'' @ [CHR 0x5C] @
        ''brm'' @ [CHR 0x5C] @ ''s+(?:(?:-{1,2}[a-zA-Z][a-zA-Z-]*|-[a-zA-Z]+)'' @ [CHR 0x5C] @
        ''s+)*(?:-[a-zA-Z]*r[a-zA-Z]*'' @ [CHR 0x5C] @ ''s+)?['' @ [CHR 0x22] @ [CHR 0x27] @
        '']?~['' @ [CHR 0x22] @ [CHR 0x27] @ '']{0,2}(/.*)?'' @ [CHR 0x5C] @ ''s*$'')
        (''rm -r ~ would delete the user'' @ [CHR 0x27] @ ''s entire home directory''),
      dp DangerCritical True (seqs [wb, lit ''rm'', plus1 sp,
        star (seqs [alts [seqs [seqs [lit ''-'', RUpto 1 (lit ''-'')], cls False [(97, 122), (65,
        90)], star (cls False [(97, 122), (65, 90), (45, 45)])], seqs [lit ''-'',
        plus1 (cls False [(97, 122), (65, 90)])]], plus1 sp]), opt (seqs [lit ''-'',
        star (cls False [(97, 122), (65, 90)]), lit ''f'', star (cls False [(97, 122), (65, 90)]),
        plus1 sp]), lit ''/*'']) (''(?i)'' @ [CHR 0x5C] @ ''brm'' @ [CHR 0x5C] @
        ''s+(?:(?:-{1,2}[a-zA-Z][a-zA-Z-]*|-[a-zA-Z]+)'' @ [CHR 0x5C] @
        ''s+)*(?:-[a-zA-Z]*f[a-zA-Z]*'' @ [CHR 0x5C] @ ''s+)?/'' @ [CHR 0x5C] @ ''*'')
        ''rm -rf /* would delete the entire filesystem'',
      dp DangerCritical True (seqs [wb, lit ''rm'', wb, star (cls True [(124, 124), (59, 59), (38,
        38), (10, 10)]), lit ''--no-preserve-root'']) (''(?i)'' @ [CHR 0x5C] @ ''brm'' @
        [CHR 0x5C] @ ''b[^|;&'' @ [CHR 0x5C] @ ''n]*--no-preserve-root'')
        ''rm --no-preserve-root can delete the root filesystem'',
      dp DangerCritical True (seqs [wb, lit ''mkfs'', wb]) (''(?i)'' @ [CHR 0x5C] @ ''bmkfs'' @
        [CHR 0x5C] @ ''b'')
        ''mkfs would format a disk'',
      dp DangerHigh True (seqs [wb, lit ''dd'', plus1 sp, star dot, wb, lit ''if=/dev/'',
        alts [lit ''sd'', lit ''hd'', lit ''nvme'', lit ''vd'', seqs [opt (lit ''r''),
        lit ''disk''], lit ''mmcblk'', lit ''mapper'', lit ''loop'', lit ''dm-'',
        lit ''xvd'']]) (''(?i)'' @ [CHR 0x5C] @ ''bdd'' @ [CHR 0x5C] @ ''s+.*'' @ [CHR 0x5C] @
        ''bif=/dev/(sd|hd|nvme|vd|r?disk|mmcblk|mapper|loop|dm-|xvd)'')
        ''dd reading from a raw device is unusual - verify the operands'',
      dp DangerCritical True (seqs [wb, lit ''dd'', wb, star (cls True [(59, 59), (124, 124), (38,
        38)]), wb, lit ''of=/dev/'', alts [lit ''sd'', lit ''hd'', lit ''nvme'', lit ''vd'',
        seqs [opt (lit ''r''), lit ''disk''], lit ''mmcblk'', lit ''mapper'', lit ''loop'',
        lit ''dm-'', lit ''xvd'']]) (''(?i)'' @ [CHR 0x5C] @ ''bdd'' @ [CHR 0x5C] @ ''b[^;|&]*'' @
        [CHR 0x5C] @ ''bof=/dev/(sd|hd|nvme|vd|r?disk|mmcblk|mapper|loop|dm-|xvd)'')
        ''dd writing to a raw device would destroy it'',
      dp DangerCritical True (seqs [wb, lit ''shred'', wb]) (''(?i)'' @ [CHR 0x5C] @ ''bshred'' @
        [CHR 0x5C] @ ''b'')
        ''shred securely deletes files'',
      dp DangerCritical True (seqs [wb, lit ''chmod'', plus1 sp, opt (seqs [lit ''-'',
        star (cls False [(97, 122), (65, 90)]), lit ''R'', star (cls False [(97, 122), (65, 90)]),
        plus1 sp]), lit ''777'', plus1 sp, lit ''/'', star sp, REnd]) (''(?i)'' @ [CHR 0x5C] @
        ''bchmod'' @ [CHR 0x5C] @ ''s+(-[a-zA-Z]*R[a-zA-Z]*'' @ [CHR 0x5C] @ ''s+)?777'' @
        [CHR 0x5C] @ ''s+/'' @ [CHR 0x5C] @ ''s*$'')
        ''chmod 777 / is dangerous'',
      dp DangerCritical True (seqs [lit '':()'', star sp, lit ''{'', star sp, lit '':|:'', star sp,
        lit ''&'', star sp, lit ''}'', star sp, lit '';:'']) (''(?i):'' @ [CHR 0x5C] @ ''('' @
        [CHR 0x5C] @ '')'' @ [CHR 0x5C] @ ''s*'' @ [CHR 0x5C] @ ''{'' @ [CHR 0x5C] @ ''s*:'' @
        [CHR 0x5C] @ ''|:'' @ [CHR 0x5C] @ ''s*&'' @ [CHR 0x5C] @ ''s*'' @ [CHR 0x5C] @ ''}'' @
        [CHR 0x5C] @ ''s*;:'')
        ''fork bomb detected'',
      dp DangerCritical True (seqs [lit ''Remove-Item'', star dot, lit ''-Recurse'', star dot,
        lit ''-Force'', star dot, cls False [(65, 90)], lit '':'', opt (lit [CHR 0x5C]), star sp,
        REnd]) (''(?i)Remove-Item.*-Recurse.*-Force.*[A-Z]:'' @ [CHR 0x5C] @ [CHR 0x5C] @ ''?'' @
        [CHR 0x5C] @ ''s*$'')
        ''Remove-Item -Recurse -Force on drive root would delete everything'',
      dp DangerCritical True (seqs [lit ''Remove-Item'', star dot, lit ''-Recurse'', star dot,
        lit ''-Force'', star dot, lit ([CHR 0x5C] @
        ''Windows'')]) (''(?i)Remove-Item.*-Recurse.*-Force.*'' @ [CHR 0x5C] @ [CHR 0x5C] @
        ''Windows'')
        ''removing Windows system directory'',
      dp DangerCritical True (lit ''Format-Volume'') ''(?i)Format-Volume''
        ''Format-Volume would format a disk'',
      dp DangerCritical True (lit ''Clear-Disk'') ''(?i)Clear-Disk''
        ''Clear-Disk would wipe a disk'',
      dp DangerCritical True (seqs [lit ''Set-Content'', star dot,
        lit ''PhysicalDrive'']) ''(?i)Set-Content.*PhysicalDrive''
        ''writing directly to a physical disk device'',
      dp DangerCritical True (seqs [lit ''while'', star sp, lit ''('', star sp, lit ''$true'',
        star sp, lit '')'', star sp, opt (lit ''{''), star sp,
        lit ''Start-Process'']) (''(?i)while'' @ [CHR 0x5C] @ ''s*'' @ [CHR 0x5C] @ ''('' @
        [CHR 0x5C] @ ''s*'' @ [CHR 0x5C] @ ''$true'' @ [CHR 0x5C] @ ''s*'' @ [CHR 0x5C] @ '')'' @
        [CHR 0x5C] @ ''s*'' @ [CHR 0x5C] @ ''{?'' @ [CHR 0x5C] @ ''s*Start-Process'')
        ''PowerShell fork bomb pattern'',
      dp DangerHigh True (seqs [wb, lit ''sudo'', plus1 sp, lit ''rm'', wb]) (''(?i)'' @
        [CHR 0x5C] @ ''bsudo'' @ [CHR 0x5C] @ ''s+rm'' @ [CHR 0x5C] @ ''b'')
        ''sudo rm is destructive with elevated privileges'',
      dp DangerHigh True (seqs [wb, lit ''sudo'', plus1 sp, lit ''mkfs'', wb]) (''(?i)'' @
        [CHR 0x5C] @ ''bsudo'' @ [CHR 0x5C] @ ''s+mkfs'' @ [CHR 0x5C] @ ''b'')
        ''sudo mkfs would format a disk'',
      dp DangerHigh True (seqs [wb, lit ''sudo'', plus1 sp, lit ''dd'', wb]) (''(?i)'' @
        [CHR 0x5C] @ ''bsudo'' @ [CHR 0x5C] @ ''s+dd'' @ [CHR 0x5C] @ ''b'')
        ''sudo dd with elevated privileges'',
      dp DangerHigh True (seqs [wb, lit ''mv'', plus1 sp, star dot, plus1 sp, lit ''/'', star sp,
        REnd]) (''(?i)'' @ [CHR 0x5C] @ ''bmv'' @ [CHR 0x5C] @ ''s+.*'' @ [CHR 0x5C] @ ''s+/'' @
        [CHR 0x5C] @ ''s*$'')
        ''moving files to root could break the system'',
      dp DangerHigh True (seqs [wb, lit ''kill'', plus1 sp, opt (seqs [lit ''-9'', plus1 sp]),
        lit ''-1'', wb]) (''(?i)'' @ [CHR 0x5C] @ ''bkill'' @ [CHR 0x5C] @ ''s+(-9'' @ [CHR 0x5C] @
        ''s+)?-1'' @ [CHR 0x5C] @ ''b'')
        ''kill -1 sends signal to all processes'',
      dp DangerHigh True (seqs [wb, lit ''pkill'', plus1 sp, opt (seqs [lit ''-9'', plus1 sp]),
        lit ''-u'', plus1 sp, lit ''root'', wb]) (''(?i)'' @ [CHR 0x5C] @ ''bpkill'' @ [CHR 0x5C] @
        ''s+(-9'' @ [CHR 0x5C] @ ''s+)?-u'' @ [CHR 0x5C] @ ''s+root'' @ [CHR 0x5C] @ ''b'')
        ''killing root processes'',
      dp DangerHigh True (seqs [wb, lit ''systemctl'', plus1 sp, alts [lit ''stop'',
        lit ''disable'', lit ''mask''], wb]) (''(?i)'' @ [CHR 0x5C] @ ''bsystemctl'' @ [CHR 0x5C] @
        ''s+(stop|disable|mask)'' @ [CHR 0x5C] @ ''b'')
        ''stopping/disabling system services'',
      dp DangerHigh True (seqs [wb, lit ''iptables'', plus1 sp, lit ''-F'', wb]) (''(?i)'' @
        [CHR 0x5C] @ ''biptables'' @ [CHR 0x5C] @ ''s+-F'' @ [CHR 0x5C] @ ''b'')
        ''flushing all firewall rules'',
      dp DangerHigh True (seqs [wb, lit ''userdel'', wb]) (''(?i)'' @ [CHR 0x5C] @ ''buserdel'' @
        [CHR 0x5C] @ ''b'')
        ''deleting a user account'',
      dp DangerHigh True (seqs [wb, lit ''passwd'', wb, star dot, wb, lit ''root'',
        wb]) (''(?i)'' @ [CHR 0x5C] @ ''bpasswd'' @ [CHR 0x5C] @ ''b.*'' @ [CHR 0x5C] @ ''broot'' @
        [CHR 0x5C] @ ''b'')
        ''changing root password'']"

definition danger_table_2 :: "dangerPattern list" where
  "danger_table_2 =
    [
      dp DangerHigh True (seqs [lit ''Start-Process'', star dot, lit ''-Verb'', plus1 sp,
        lit ''RunAs'']) (''(?i)Start-Process.*-Verb'' @ [CHR 0x5C] @ ''s+RunAs'')
        ''Start-Process -Verb RunAs elevates privileges'',
      dp DangerHigh True (seqs [wb, lit ''net'', plus1 sp, alts [lit ''user'', lit ''localgroup''],
        plus1 sp, star dot, lit ''/add'', wb]) (''(?i)'' @ [CHR 0x5C] @ ''bnet'' @ [CHR 0x5C] @
        ''s+(user|localgroup)'' @ [CHR 0x5C] @ ''s+.*/add'' @ [CHR 0x5C] @ ''b'')
        ''creating new user or adding to group'',
      dp DangerHigh True (lit ''Set-ExecutionPolicy'') ''(?i)Set-ExecutionPolicy''
        ''changing PowerShell execution policy'',
      dp DangerHigh True (lit ''Disable-WindowsOptionalFeature'') ''(?i)Disable-WindowsOptionalFeature''
        ''disabling Windows features'',
      dp DangerHigh True (seqs [lit ''Stop-Service'', star dot,
        lit ''-Force'']) ''(?i)Stop-Service.*-Force''
        ''force-stopping Windows services'',
      dp DangerHigh True (seqs [lit ''Set-ItemProperty'', star dot,
        lit ''HKLM:'']) ''(?i)Set-ItemProperty.*HKLM:''
        ''modifying registry machine settings'',
      dp DangerMedium True (seqs [alts [RBegin, seqs [cls False [(124, 124), (59, 59), (38, 38),
        (10, 10), (96, 96), (40, 40), (34, 34), (39, 39)], star sp], seqs [alts [lit ''sudo'',
        lit ''doas'', lit ''xargs'', lit ''nohup'', lit ''env'', lit ''nice''], plus1 sp]],
        lit ''rm'', plus1 sp, alts [seqs [lit ''-'', star (cls False [(97, 122), (65, 90)]),
        lit ''r'', star (cls False [(97, 122), (65, 90)]), alts [sp, REnd]],
        seqs [lit ''--recursive'', alts [sp, REnd]]], star dot, lit ''*'']) (''(?i)(?:^|[|;&'' @
        [CHR 0x5C] @ ''n'' @ [CHR 0x60] @ ''('' @ [CHR 0x22] @ [CHR 0x27] @ '']'' @ [CHR 0x5C] @
        ''s*|(?:sudo|doas|xargs|nohup|env|nice)'' @ [CHR 0x5C] @ ''s+)rm'' @ [CHR 0x5C] @
        ''s+(?:-[a-zA-Z]*r[a-zA-Z]*(?:'' @ [CHR 0x5C] @ ''s|$)|--recursive(?:'' @ [CHR 0x5C] @
        ''s|$)).*'' @ [CHR 0x5C] @ ''*'')
        ''recursive rm with wildcard'',
      dp DangerMedium True (seqs [alts [RBegin, seqs [cls False [(124, 124), (59, 59), (38, 38),
        (10, 10), (96, 96), (40, 40), (34, 34), (39, 39)], star sp], seqs [alts [lit ''sudo'',
        lit ''doas'', lit ''xargs'', lit ''nohup'', lit ''env'', lit ''nice''], plus1 sp]],
        lit ''rm'', plus1 sp, alts [seqs [lit ''-'', star (cls False [(97, 122), (65, 90)]),
        lit ''f'', star (cls False [(97, 122), (65, 90)]), alts [sp, REnd]], seqs [lit ''--force'',
        alts [sp, REnd]]]]) (''(?i)(?:^|[|;&'' @ [CHR 0x5C] @ ''n'' @ [CHR 0x60] @ ''('' @
        [CHR 0x22] @ [CHR 0x27] @ '']'' @ [CHR 0x5C] @ ''s*|(?:sudo|doas|xargs|nohup|env|nice)'' @
        [CHR 0x5C] @ ''s+)rm'' @ [CHR 0x5C] @ ''s+(?:-[a-zA-Z]*f[a-zA-Z]*(?:'' @ [CHR 0x5C] @
        ''s|$)|--force(?:'' @ [CHR 0x5C] @ ''s|$))'')
        ''force rm without confirmation'',
      dp DangerMedium True (seqs [wb, lit ''sudo'', wb]) (''(?i)'' @ [CHR 0x5C] @ ''bsudo'' @
        [CHR 0x5C] @ ''b'')
        ''running command with elevated privileges'',
      dp DangerMedium True (seqs [wb, lit ''curl'', wb, star dot, lit ''|'', star sp, lit ''bash'',
        wb]) (''(?i)'' @ [CHR 0x5C] @ ''bcurl'' @ [CHR 0x5C] @ ''b.*'' @ [CHR 0x5C] @ ''|'' @
        [CHR 0x5C] @ ''s*bash'' @ [CHR 0x5C] @ ''b'')
        ''piping remote script to bash'',
      dp DangerMedium True (seqs [wb, lit ''wget'', wb, star dot, lit ''|'', star sp, lit ''sh'',
        wb]) (''(?i)'' @ [CHR 0x5C] @ ''bwget'' @ [CHR 0x5C] @ ''b.*'' @ [CHR 0x5C] @ ''|'' @
        [CHR 0x5C] @ ''s*sh'' @ [CHR 0x5C] @ ''b'')
        ''piping remote script to shell'',
      dp DangerMedium True (seqs [wb, lit ''nc'', wb, star dot, lit ''-e'', wb]) (''(?i)'' @
        [CHR 0x5C] @ ''bnc'' @ [CHR 0x5C] @ ''b.*-e'' @ [CHR 0x5C] @ ''b'')
        ''netcat in listen mode could be a reverse shell'',
      dp DangerHigh True (seqs [wb, alts [seqs [lit ''base64'', plus1 sp, alts [lit ''-d'',
        lit ''--decode'']], seqs [lit ''openssl'', plus1 sp, lit ''enc'', wb, star (cls True [(124,
        124), (59, 59), (10, 10)]), sp, lit ''-d''], seqs [lit ''xxd'', plus1 sp, alts [lit ''-r'',
        lit ''--revert'']]], star sp, star (cls True [(124, 124), (59, 59), (10, 10)]), lit ''|'',
        star sp, opt (alts [lit ''ba'', lit ''z'', lit ''da'']), lit ''sh'', wb]) (''(?i)'' @
        [CHR 0x5C] @ ''b(?:base64'' @ [CHR 0x5C] @ ''s+(?:-d|--decode)|openssl'' @ [CHR 0x5C] @
        ''s+enc'' @ [CHR 0x5C] @ ''b[^|;'' @ [CHR 0x5C] @ ''n]*'' @ [CHR 0x5C] @ ''s-d|xxd'' @
        [CHR 0x5C] @ ''s+(?:-r|--revert))'' @ [CHR 0x5C] @ ''s*[^|;'' @ [CHR 0x5C] @ ''n]*'' @
        [CHR 0x5C] @ ''|'' @ [CHR 0x5C] @ ''s*(?:ba|z|da)?sh'' @ [CHR 0x5C] @ ''b'')
        ''decode output piped straight into a shell - obfuscated command execution'',
      dp DangerHigh True (seqs [wb, lit ''eval'', plus1 sp, opt (cls False [(34, 34), (39, 39)]),
        lit ''$('', star sp, alts [lit ''curl'', lit ''wget''], wb]) (''(?i)'' @ [CHR 0x5C] @
        ''beval'' @ [CHR 0x5C] @ ''s+['' @ [CHR 0x22] @ [CHR 0x27] @ '']?'' @ [CHR 0x5C] @ ''$'' @
        [CHR 0x5C] @ ''('' @ [CHR 0x5C] @ ''s*(?:curl|wget)'' @ [CHR 0x5C] @ ''b'')
        ''fetching remote content straight into eval executes attacker-controlled code'',
      dp DangerHigh True (seqs [alts [seqs [wb, lit ''source'', wb], seqs [alts [RBegin,
        cls False [(9, 10), (12, 13), (32, 32), (59, 59), (38, 38), (124, 124)]], lit ''.'']],
        plus1 sp, lit ''<('', star sp, alts [lit ''curl'', lit ''wget''], wb]) (''(?i)(?:'' @
        [CHR 0x5C] @ ''bsource'' @ [CHR 0x5C] @ ''b|(?:^|['' @ [CHR 0x5C] @ ''s;&|])'' @
        [CHR 0x5C] @ ''.)'' @ [CHR 0x5C] @ ''s+<'' @ [CHR 0x5C] @ ''('' @ [CHR 0x5C] @
        ''s*(?:curl|wget)'' @ [CHR 0x5C] @ ''b'')
        ''fetching remote content via process substitution into source executes attacker-controlled code'',
      dp DangerHigh True (seqs [wb, lit ''python'', opt (lit ''3''), plus1 sp,
        star (seqs [lit ''-'', plus1 wrd, plus1 sp]), lit ''-c'', wb, RUpto 400 (cls True [(124,
        124), (10, 10)]), wb, alts [lit ''os.system'', lit ''subprocess.'', lit ''pty.spawn'',
        lit ''socket.socket'']]) (''(?i)'' @ [CHR 0x5C] @ ''bpython3?'' @ [CHR 0x5C] @ ''s+(?:-'' @
        [CHR 0x5C] @ ''w+'' @ [CHR 0x5C] @ ''s+)*-c'' @ [CHR 0x5C] @ ''b[^|'' @ [CHR 0x5C] @
        ''n]{0,400}'' @ [CHR 0x5C] @ ''b(?:os'' @ [CHR 0x5C] @ ''.system|subprocess'' @
        [CHR 0x5C] @ ''.|pty'' @ [CHR 0x5C] @ ''.spawn|socket'' @ [CHR 0x5C] @ ''.socket)'')
        ''interpreter -c embedding OS/subprocess/socket calls bypasses command deny-lists'',
      dp DangerHigh True (seqs [wb, lit ''perl'', plus1 sp, star (seqs [lit ''-'', plus1 wrd,
        plus1 sp]), lit ''-e'', wb, RUpto 400 (cls True [(124, 124), (10, 10)]), wb,
        alts [seqs [lit ''system'', star sp, lit ''(''], seqs [lit ''exec'', star sp, lit ''(''],
        seqs [lit ''open'', star sp, lit ''('', star (cls True [(41, 41)]),
        lit ''|'']]]) (''(?i)'' @ [CHR 0x5C] @ ''bperl'' @ [CHR 0x5C] @ ''s+(?:-'' @ [CHR 0x5C] @
        ''w+'' @ [CHR 0x5C] @ ''s+)*-e'' @ [CHR 0x5C] @ ''b[^|'' @ [CHR 0x5C] @ ''n]{0,400}'' @
        [CHR 0x5C] @ ''b(?:system'' @ [CHR 0x5C] @ ''s*'' @ [CHR 0x5C] @ ''(|exec'' @ [CHR 0x5C] @
        ''s*'' @ [CHR 0x5C] @ ''(|open'' @ [CHR 0x5C] @ ''s*'' @ [CHR 0x5C] @ ''([^)]*'' @
        [CHR 0x5C] @ ''|)'')
        ''perl -e with system/exec/pipe-open runs arbitrary logic outside the deny-list'',
      dp DangerHigh True (seqs [wb, lit ''node'', plus1 sp, star (seqs [lit ''-'', plus1 wrd,
        plus1 sp]), lit ''-e'', wb, RUpto 400 (cls True [(124, 124), (10, 10)]), wb,
        alts [lit ''child_process'', lit ''execSync'', lit ''spawnSync'']]) (''(?i)'' @
        [CHR 0x5C] @ ''bnode'' @ [CHR 0x5C] @ ''s+(?:-'' @ [CHR 0x5C] @ ''w+'' @ [CHR 0x5C] @
        ''s+)*-e'' @ [CHR 0x5C] @ ''b[^|'' @ [CHR 0x5C] @ ''n]{0,400}'' @ [CHR 0x5C] @
        ''b(?:child_process|execSync|spawnSync)'')
        ''node -e spawning child processes bypasses command deny-lists'',
      dp DangerHigh True (seqs [wb, lit ''ruby'', plus1 sp, star (seqs [lit ''-'', plus1 wrd,
        plus1 sp]), lit ''-e'', wb, RUpto 400 (cls True [(124, 124), (10, 10)]), wb,
        alts [seqs [lit ''system'', star sp, lit ''(''], lit ''IO.popen'',
        lit ''Open3.'']]) (''(?i)'' @ [CHR 0x5C] @ ''bruby'' @ [CHR 0x5C] @ ''s+(?:-'' @
        [CHR 0x5C] @ ''w+'' @ [CHR 0x5C] @ ''s+)*-e'' @ [CHR 0x5C] @ ''b[^|'' @ [CHR 0x5C] @
        ''n]{0,400}'' @ [CHR 0x5C] @ ''b(?:system'' @ [CHR 0x5C] @ ''s*'' @ [CHR 0x5C] @ ''(|IO'' @
        [CHR 0x5C] @ ''.popen|Open3'' @ [CHR 0x5C] @ ''.)'')
        ''ruby -e with system/popen runs arbitrary logic outside the deny-list'',
      dp DangerHigh True (seqs [wb, opt (alts [lit ''ba'', lit ''z'', lit ''da'']), lit ''sh'',
        plus1 sp, lit ''-c'', wb, RUpto 200 (cls True [(124, 124), (59, 59), (10, 10)]),
        alts [lit ''curl'', lit ''wget''], wb, RUpto 200 (cls True [(124, 124), (59, 59), (10,
        10)]), lit ''|'', star sp, opt (alts [lit ''ba'', lit ''z'', lit ''da'']), lit ''sh'',
        wb]) (''(?i)'' @ [CHR 0x5C] @ ''b(?:ba|z|da)?sh'' @ [CHR 0x5C] @ ''s+-c'' @ [CHR 0x5C] @
        ''b[^|;'' @ [CHR 0x5C] @ ''n]{0,200}(?:curl|wget)'' @ [CHR 0x5C] @ ''b[^|;'' @ [CHR 0x5C] @
        ''n]{0,200}'' @ [CHR 0x5C] @ ''|'' @ [CHR 0x5C] @ ''s*(?:ba|z|da)?sh'' @ [CHR 0x5C] @
        ''b'')
        ''sh -c wrapping a remote fetch piped back into a shell'',
      dp DangerMedium True (seqs [wb, alts [lit ''curl'', lit ''wget''], wb,
        RUpto 200 (cls True [(38, 38), (59, 59), (10, 10)]), alts [lit ''&&'', lit '';''], star sp,
        lit ''chmod'', plus1 sp, alts [lit ''+x'', lit ''777''], RUpto 200 (cls True [(38, 38),
        (59, 59), (10, 10)]), alts [lit ''&&'', lit '';''], star sp, RUpto 2 (lit ''.''),
        opt (lit ''/''), plus1 (cls False [(65, 90), (97, 122), (48, 57), (95, 95), (46, 46), (47,
        47), (45, 45)])]) (''(?i)'' @ [CHR 0x5C] @ ''b(?:curl|wget)'' @ [CHR 0x5C] @ ''b[^&;'' @
        [CHR 0x5C] @ ''n]{0,200}(?:&&|;)'' @ [CHR 0x5C] @ ''s*chmod'' @ [CHR 0x5C] @ ''s+(?:'' @
        [CHR 0x5C] @ ''+x|777)[^&;'' @ [CHR 0x5C] @ ''n]{0,200}(?:&&|;)'' @ [CHR 0x5C] @ ''s*'' @
        [CHR 0x5C] @ ''.{0,2}/?[A-Za-z0-9_./-]+'')
        ''download -> chmod executable -> run chain stages attacker-controlled code'',
      dp DangerCritical True (seqs [seqs [lit ''>'', RUpto 1 (lit ''>'')], star sp, lit ''/dev/'',
        alts [lit ''sd'', lit ''hd'', lit ''nvme'', lit ''vd'', seqs [opt (lit ''r''),
        lit ''disk''], lit ''mmcblk'', lit ''mapper'', lit ''loop'', lit ''dm-'',
        lit ''xvd'']]) (''(?i)>{1,2}'' @ [CHR 0x5C] @
        ''s*/dev/(sd|hd|nvme|vd|r?disk|mmcblk|mapper|loop|dm-|xvd)'')
        ''writing directly to a disk device would destroy it'',
      dp DangerMedium True (seqs [wb, lit ''crontab'', wb]) (''(?i)'' @ [CHR 0x5C] @ ''bcrontab'' @
        [CHR 0x5C] @ ''b'')
        ''modifying cron jobs'',
      dp DangerMedium True (seqs [wb, lit ''nsenter'', wb]) (''(?i)'' @ [CHR 0x5C] @ ''bnsenter'' @
        [CHR 0x5C] @ ''b'')
        ''nsenter can escape containers'',
      dp DangerMedium True (seqs [wb, lit ''chroot'', wb]) (''(?i)'' @ [CHR 0x5C] @ ''bchroot'' @
        [CHR 0x5C] @ ''b'')
        ''chroot changes the root directory'',
      dp DangerMedium True (seqs [lit ''Invoke-WebRequest'', star dot,
        lit ''Invoke-Expression'']) ''(?i)Invoke-WebRequest.*Invoke-Expression''
        ''piping remote content to Invoke-Expression (like curl|bash)'',
      dp DangerMedium True (seqs [lit ''iwr'', star dot, lit ''|'', star dot,
        lit ''iex'']) (''(?i)iwr.*'' @ [CHR 0x5C] @ ''|.*iex'')
        ''piping remote content to iex (alias shorthand)'',
      dp DangerMedium True (seqs [lit ''Invoke-Expression'', star dot,
        lit ''Invoke-WebRequest'']) ''(?i)Invoke-Expression.*Invoke-WebRequest''
        ''executing remote content via Invoke-Expression'']"

definition danger_table_3 :: "dangerPattern list" where
  "danger_table_3 =
    [
      dp DangerMedium True (seqs [lit ''Remove-Item'', star dot, lit ''-Recurse'', star dot,
        lit ''-Force'']) ''(?i)Remove-Item.*-Recurse.*-Force''
        ''recursive forced deletion'',
      dp DangerMedium True (seqs [lit ''schtasks'', plus1 sp, lit ''/create'']) (''(?i)schtasks'' @
        [CHR 0x5C] @ ''s+/create'')
        ''creating scheduled tasks'',
      dp DangerMedium True (seqs [lit ''reg'', plus1 sp, lit ''delete'', star dot,
        lit ''HKLM'']) (''(?i)reg'' @ [CHR 0x5C] @ ''s+delete.*HKLM'')
        ''deleting registry machine keys'',
      dp DangerLow True (seqs [wb, lit ''chmod'', plus1 sp, lit ''777'', wb]) (''(?i)'' @
        [CHR 0x5C] @ ''bchmod'' @ [CHR 0x5C] @ ''s+777'' @ [CHR 0x5C] @ ''b'')
        ''setting world-writable permissions'',
      dp DangerLow True (seqs [wb, lit ''find'', wb, star dot, lit ''-delete'', wb]) (''(?i)'' @
        [CHR 0x5C] @ ''bfind'' @ [CHR 0x5C] @ ''b.*-delete'' @ [CHR 0x5C] @ ''b'')
        ''find with -delete'',
      dp DangerLow True (seqs [wb, lit ''mv'', wb, star dot, lit ''*'', star dot, wb,
        lit ''/dev/null'', wb]) (''(?i)'' @ [CHR 0x5C] @ ''bmv'' @ [CHR 0x5C] @ ''b.*'' @
        [CHR 0x5C] @ ''*.*'' @ [CHR 0x5C] @ ''b/dev/null'' @ [CHR 0x5C] @ ''b'')
        ''moving files to /dev/null'',
      dp DangerHigh True (seqs [wb, lit ''git'', plus1 sp, lit ''push'', wb, star dot,
        lit ''--force'', alts [sp, REnd]]) (''(?i)'' @ [CHR 0x5C] @ ''bgit'' @ [CHR 0x5C] @
        ''s+push'' @ [CHR 0x5C] @ ''b.*--force(?:'' @ [CHR 0x5C] @ ''s|$)'')
        ''git push --force can overwrite remote history irrevocably'',
      dp DangerHigh True (seqs [wb, lit ''git'', plus1 sp, lit ''push'', wb, star dot, sp,
        lit ''-f'', alts [sp, REnd]]) (''(?i)'' @ [CHR 0x5C] @ ''bgit'' @ [CHR 0x5C] @ ''s+push'' @
        [CHR 0x5C] @ ''b.*'' @ [CHR 0x5C] @ ''s-f(?:'' @ [CHR 0x5C] @ ''s|$)'')
        ''git push -f can overwrite remote history irrevocably'',
      dp DangerHigh True (seqs [wb, lit ''git'', plus1 sp, lit ''push'', wb, star (cls True [(59,
        59), (124, 124), (38, 38)]), sp, lit ''+'', plus1 nsp, lit '':'', plus1 nsp]) (''(?i)'' @
        [CHR 0x5C] @ ''bgit'' @ [CHR 0x5C] @ ''s+push'' @ [CHR 0x5C] @ ''b[^;|&]*'' @ [CHR 0x5C] @
        ''s'' @ [CHR 0x5C] @ ''+'' @ [CHR 0x5C] @ ''S+:'' @ [CHR 0x5C] @ ''S+'')
        ''git push +refspec forces the push (overwrites remote history)'',
      dp DangerHigh True (seqs [wb, lit ''git'', plus1 sp, lit ''push'', wb, star dot,
        lit ''--force='']) (''(?i)'' @ [CHR 0x5C] @ ''bgit'' @ [CHR 0x5C] @ ''s+push'' @
        [CHR 0x5C] @ ''b.*--force='')
        ''git push --force=<val> forces the push'',
      dp DangerHigh True (seqs [wb, lit ''git'', plus1 sp, alts [lit ''checkout'', lit ''switch''],
        plus1 sp, star (seqs [lit ''-'', star (cls False [(97, 122), (65, 90)]), plus1 sp]),
        lit ''-'', star (cls False [(97, 122), (65, 90)]), lit ''f'', star (cls False [(97, 122),
        (65, 90)]), plus1 sp, nsp]) (''(?i)'' @ [CHR 0x5C] @ ''bgit'' @ [CHR 0x5C] @
        ''s+(?:checkout|switch)'' @ [CHR 0x5C] @ ''s+(?:-[a-zA-Z]*'' @ [CHR 0x5C] @
        ''s+)*-[a-zA-Z]*f[a-zA-Z]*'' @ [CHR 0x5C] @ ''s+'' @ [CHR 0x5C] @ ''S'')
        ''git checkout/switch -f discards local changes'',
      dp DangerHigh True (seqs [wb, lit ''git'', plus1 sp, lit ''push'', wb, star dot,
        lit ''--mirror'', wb]) (''(?i)'' @ [CHR 0x5C] @ ''bgit'' @ [CHR 0x5C] @ ''s+push'' @
        [CHR 0x5C] @ ''b.*--mirror'' @ [CHR 0x5C] @ ''b'')
        ''git push --mirror can force-delete remote branches'',
      dp DangerHigh True (seqs [wb, lit ''git'', plus1 sp, lit ''push'', wb, star dot,
        lit ''--delete'', wb]) (''(?i)'' @ [CHR 0x5C] @ ''bgit'' @ [CHR 0x5C] @ ''s+push'' @
        [CHR 0x5C] @ ''b.*--delete'' @ [CHR 0x5C] @ ''b'')
        ''git push --delete removes a remote branch'',
      dp DangerHigh True (seqs [wb, lit ''git'', plus1 sp, lit ''reset'', plus1 sp, lit ''--hard'',
        wb]) (''(?i)'' @ [CHR 0x5C] @ ''bgit'' @ [CHR 0x5C] @ ''s+reset'' @ [CHR 0x5C] @
        ''s+--hard'' @ [CHR 0x5C] @ ''b'')
        ''git reset --hard discards ALL uncommitted changes permanently'',
      dp DangerHigh True (seqs [wb, lit ''git'', plus1 sp, lit ''clean'', plus1 sp, lit ''-'',
        star (cls False [(97, 122)]), lit ''f'']) (''(?i)'' @ [CHR 0x5C] @ ''bgit'' @ [CHR 0x5C] @
        ''s+clean'' @ [CHR 0x5C] @ ''s+-[a-z]*f'')
        ''git clean -f permanently deletes untracked files'',
      dp DangerHigh True (seqs [wb, lit ''git'', plus1 sp, lit ''checkout'', plus1 sp, lit ''--'',
        plus1 sp, lit ''.'']) (''(?i)'' @ [CHR 0x5C] @ ''bgit'' @ [CHR 0x5C] @ ''s+checkout'' @
        [CHR 0x5C] @ ''s+--'' @ [CHR 0x5C] @ ''s+'' @ [CHR 0x5C] @ ''.'')
        ''git checkout -- . discards ALL working tree changes'',
      dp DangerHigh True (seqs [wb, lit ''git'', plus1 sp, lit ''checkout'', plus1 sp, lit ''.'',
        star sp, REnd]) (''(?i)'' @ [CHR 0x5C] @ ''bgit'' @ [CHR 0x5C] @ ''s+checkout'' @
        [CHR 0x5C] @ ''s+'' @ [CHR 0x5C] @ ''.'' @ [CHR 0x5C] @ ''s*$'')
        ''git checkout . discards ALL working tree changes'',
      dp DangerHigh True (seqs [wb, lit ''git'', plus1 sp, lit ''checkout'', plus1 sp, plus1 nsp,
        plus1 sp, lit ''--'', plus1 sp, nsp]) (''(?i)'' @ [CHR 0x5C] @ ''bgit'' @ [CHR 0x5C] @
        ''s+checkout'' @ [CHR 0x5C] @ ''s+'' @ [CHR 0x5C] @ ''S+'' @ [CHR 0x5C] @ ''s+--'' @
        [CHR 0x5C] @ ''s+'' @ [CHR 0x5C] @ ''S'')
        ''git checkout <ref> -- <paths> discards working tree changes for those paths'',
      dp DangerHigh True (seqs [wb, lit ''git'', plus1 sp, lit ''restore'', plus1 sp,
        lit ''--staged'', plus1 sp, lit ''--worktree'', plus1 sp, lit ''.'']) (''(?i)'' @
        [CHR 0x5C] @ ''bgit'' @ [CHR 0x5C] @ ''s+restore'' @ [CHR 0x5C] @ ''s+--staged'' @
        [CHR 0x5C] @ ''s+--worktree'' @ [CHR 0x5C] @ ''s+'' @ [CHR 0x5C] @ ''.'')
        ''git restore --staged --worktree . discards ALL changes'',
      dp DangerHigh True (seqs [wb, lit ''git'', plus1 sp, lit ''restore'', plus1 sp,
        lit ''--worktree'', plus1 sp, lit ''.'']) (''(?i)'' @ [CHR 0x5C] @ ''bgit'' @ [CHR 0x5C] @
        ''s+restore'' @ [CHR 0x5C] @ ''s+--worktree'' @ [CHR 0x5C] @ ''s+'' @ [CHR 0x5C] @ ''.'')
        ''git restore --worktree . discards ALL working tree changes'',
      dp DangerMedium False (seqs [lit ''git'', plus1 sp, lit ''branch'', plus1 sp, lit ''-'',
        star (cls False [(97, 122)]), lit ''D'', star (cls False [(97, 122)])]) (''git'' @
        [CHR 0x5C] @ ''s+branch'' @ [CHR 0x5C] @ ''s+-[a-z]*D[a-z]*'')
        ''git branch -D force-deletes a branch (loses unmerged work)'',
      dp DangerMedium True (seqs [wb, lit ''git'', plus1 sp, lit ''tag'', plus1 sp, lit ''-'',
        star (cls False [(97, 122)]), lit ''d'', star (cls False [(97, 122)]), plus1 sp, star dot,
        lit ''*'']) (''(?i)'' @ [CHR 0x5C] @ ''bgit'' @ [CHR 0x5C] @ ''s+tag'' @ [CHR 0x5C] @
        ''s+-[a-z]*d[a-z]*'' @ [CHR 0x5C] @ ''s+.*'' @ [CHR 0x5C] @ ''*'')
        ''git tag -d with wildcard deletes multiple tags'',
      dp DangerMedium True (seqs [wb, lit ''git'', plus1 sp, lit ''stash'', plus1 sp,
        lit ''clear'', wb]) (''(?i)'' @ [CHR 0x5C] @ ''bgit'' @ [CHR 0x5C] @ ''s+stash'' @
        [CHR 0x5C] @ ''s+clear'' @ [CHR 0x5C] @ ''b'')
        ''git stash clear permanently removes ALL stashed changes'',
      dp DangerMedium True (seqs [wb, lit ''git'', plus1 sp, lit ''stash'', plus1 sp, lit ''drop'',
        wb]) (''(?i)'' @ [CHR 0x5C] @ ''bgit'' @ [CHR 0x5C] @ ''s+stash'' @ [CHR 0x5C] @
        ''s+drop'' @ [CHR 0x5C] @ ''b'')
        ''git stash drop permanently removes a stash entry'',
      dp DangerMedium True (seqs [wb, lit ''git'', plus1 sp, lit ''push'', wb, star dot,
        lit ''--force-with-lease'', wb]) (''(?i)'' @ [CHR 0x5C] @ ''bgit'' @ [CHR 0x5C] @
        ''s+push'' @ [CHR 0x5C] @ ''b.*--force-with-lease'' @ [CHR 0x5C] @ ''b'')
        ''git push --force-with-lease can overwrite remote (safer but still risky)'',
      dp DangerMedium True (seqs [wb, lit ''git'', plus1 sp, lit ''rebase'', plus1 sp,
        lit ''--abort'', wb]) (''(?i)'' @ [CHR 0x5C] @ ''bgit'' @ [CHR 0x5C] @ ''s+rebase'' @
        [CHR 0x5C] @ ''s+--abort'' @ [CHR 0x5C] @ ''b'')
        ''git rebase --abort discards in-progress rebase work'',
      dp DangerMedium True (seqs [wb, lit ''git'', plus1 sp, lit ''merge'', plus1 sp,
        lit ''--abort'', wb]) (''(?i)'' @ [CHR 0x5C] @ ''bgit'' @ [CHR 0x5C] @ ''s+merge'' @
        [CHR 0x5C] @ ''s+--abort'' @ [CHR 0x5C] @ ''b'')
        ''git merge --abort discards in-progress merge work'',
      dp DangerMedium True (seqs [wb, lit ''git'', plus1 sp, lit ''restore'', plus1 sp,
        lit ''--staged'', plus1 sp, lit ''.'', star sp, REnd]) (''(?i)'' @ [CHR 0x5C] @ ''bgit'' @
        [CHR 0x5C] @ ''s+restore'' @ [CHR 0x5C] @ ''s+--staged'' @ [CHR 0x5C] @ ''s+'' @
        [CHR 0x5C] @ ''.'' @ [CHR 0x5C] @ ''s*$'')
        ''git restore --staged . unstages ALL staged changes'']"

definition danger_table_4 :: "dangerPattern list" where
  "danger_table_4 =
    [
      dp DangerCritical True (seqs [lit ''do'', plus1 sp, lit ''shell'', plus1 sp, lit ''script'',
        plus1 sp, cls False [(34, 34), (39, 39)], star dot, lit ''rm'', plus1 sp, lit ''-rf'',
        plus1 sp, lit ''/'', cls False [(34, 34), (39, 39)]]) (''(?i)do'' @ [CHR 0x5C] @
        ''s+shell'' @ [CHR 0x5C] @ ''s+script'' @ [CHR 0x5C] @ ''s+['' @ [CHR 0x22] @ [CHR 0x5C] @
        [CHR 0x27] @ ''].*rm'' @ [CHR 0x5C] @ ''s+-rf'' @ [CHR 0x5C] @ ''s+/['' @ [CHR 0x22] @
        [CHR 0x5C] @ [CHR 0x27] @ '']'')
        ''AppleScript do shell script with rm -rf /'',
      dp DangerCritical True (seqs [lit ''do'', plus1 sp, lit ''shell'', plus1 sp, lit ''script'',
        plus1 sp, cls False [(34, 34), (39, 39)], star dot, lit ''rm'', plus1 sp, lit ''-rf'',
        plus1 sp, lit ''/*'', cls False [(34, 34), (39, 39)]]) (''(?i)do'' @ [CHR 0x5C] @
        ''s+shell'' @ [CHR 0x5C] @ ''s+script'' @ [CHR 0x5C] @ ''s+['' @ [CHR 0x22] @ [CHR 0x5C] @
        [CHR 0x27] @ ''].*rm'' @ [CHR 0x5C] @ ''s+-rf'' @ [CHR 0x5C] @ ''s+/'' @ [CHR 0x5C] @
        ''*['' @ [CHR 0x22] @ [CHR 0x5C] @ [CHR 0x27] @ '']'')
        ''AppleScript do shell script with rm -rf /*'',
      dp DangerCritical True (seqs [lit ''do'', plus1 sp, lit ''shell'', plus1 sp, lit ''script'',
        plus1 sp, cls False [(34, 34), (39, 39)], star dot, lit ''mkfs'', wb]) (''(?i)do'' @
        [CHR 0x5C] @ ''s+shell'' @ [CHR 0x5C] @ ''s+script'' @ [CHR 0x5C] @ ''s+['' @ [CHR 0x22] @
        [CHR 0x5C] @ [CHR 0x27] @ ''].*mkfs'' @ [CHR 0x5C] @ ''b'')
        ''AppleScript do shell script with mkfs'',
      dp DangerHigh True (seqs [lit ''do'', plus1 sp, lit ''shell'', plus1 sp, lit ''script'',
        plus1 sp, cls False [(34, 34), (39, 39)], star dot, lit ''dd'', plus1 sp, lit ''if=/dev/'',
        alts [lit ''sd'', lit ''hd'', lit ''nvme'', lit ''vd'', seqs [opt (lit ''r''),
        lit ''disk''], lit ''mmcblk'', lit ''mapper'', lit ''loop'', lit ''dm-'',
        lit ''xvd'']]) (''(?i)do'' @ [CHR 0x5C] @ ''s+shell'' @ [CHR 0x5C] @ ''s+script'' @
        [CHR 0x5C] @ ''s+['' @ [CHR 0x22] @ [CHR 0x5C] @ [CHR 0x27] @ ''].*dd'' @ [CHR 0x5C] @
        ''s+if=/dev/(sd|hd|nvme|vd|r?disk|mmcblk|mapper|loop|dm-|xvd)'')
        ''AppleScript dd reading from a raw device'',
      dp DangerCritical True (seqs [lit ''do'', plus1 sp, lit ''shell'', plus1 sp, lit ''script'',
        plus1 sp, cls False [(34, 34), (39, 39)], star dot, lit ''chmod'', plus1 sp, lit ''-R'',
        plus1 sp, lit ''777'', plus1 sp, lit ''/'', cls False [(34, 34), (39, 39)]]) (''(?i)do'' @
        [CHR 0x5C] @ ''s+shell'' @ [CHR 0x5C] @ ''s+script'' @ [CHR 0x5C] @ ''s+['' @ [CHR 0x22] @
        [CHR 0x5C] @ [CHR 0x27] @ ''].*chmod'' @ [CHR 0x5C] @ ''s+-R'' @ [CHR 0x5C] @ ''s+777'' @
        [CHR 0x5C] @ ''s+/['' @ [CHR 0x22] @ [CHR 0x5C] @ [CHR 0x27] @ '']'')
        ''AppleScript do shell script with chmod 777 /'',
      dp DangerHigh True (seqs [lit ''do'', plus1 sp, lit ''shell'', plus1 sp, lit ''script'',
        plus1 sp, cls False [(34, 34), (39, 39)], star dot, lit ''sudo'', wb]) (''(?i)do'' @
        [CHR 0x5C] @ ''s+shell'' @ [CHR 0x5C] @ ''s+script'' @ [CHR 0x5C] @ ''s+['' @ [CHR 0x22] @
        [CHR 0x5C] @ [CHR 0x27] @ ''].*sudo'' @ [CHR 0x5C] @ ''b'')
        ''AppleScript do shell script with sudo'',
      dp DangerHigh True (seqs [lit ''security'', plus1 sp,
        lit ''find-generic-password'']) (''(?i)security'' @ [CHR 0x5C] @
        ''s+find-generic-password'')
        ''AppleScript accessing Keychain passwords'',
      dp DangerHigh True (seqs [lit ''security'', plus1 sp,
        lit ''delete-generic-password'']) (''(?i)security'' @ [CHR 0x5C] @
        ''s+delete-generic-password'')
        ''AppleScript deleting Keychain passwords'',
      dp DangerHigh True (seqs [lit ''do'', plus1 sp, lit ''shell'', plus1 sp, lit ''script'',
        plus1 sp, cls False [(34, 34), (39, 39)], star dot, lit ''curl'', wb, star dot, lit ''|'',
        star sp, lit ''bash'']) (''(?i)do'' @ [CHR 0x5C] @ ''s+shell'' @ [CHR 0x5C] @
        ''s+script'' @ [CHR 0x5C] @ ''s+['' @ [CHR 0x22] @ [CHR 0x5C] @ [CHR 0x27] @ ''].*curl'' @
        [CHR 0x5C] @ ''b.*'' @ [CHR 0x5C] @ ''|'' @ [CHR 0x5C] @ ''s*bash'')
        ''AppleScript piping curl to bash'',
      dp DangerHigh True (seqs [lit ''do'', plus1 sp, lit ''shell'', plus1 sp, lit ''script'',
        plus1 sp, cls False [(34, 34), (39, 39)], star dot, lit ''wget'', wb, star dot, lit ''|'',
        star sp, lit ''sh'']) (''(?i)do'' @ [CHR 0x5C] @ ''s+shell'' @ [CHR 0x5C] @ ''s+script'' @
        [CHR 0x5C] @ ''s+['' @ [CHR 0x22] @ [CHR 0x5C] @ [CHR 0x27] @ ''].*wget'' @ [CHR 0x5C] @
        ''b.*'' @ [CHR 0x5C] @ ''|'' @ [CHR 0x5C] @ ''s*sh'')
        ''AppleScript piping wget to shell'',
      dp DangerHigh True (seqs [lit ''do'', plus1 sp, lit ''shell'', plus1 sp, lit ''script'',
        plus1 sp, cls False [(34, 34), (39, 39)], star dot, lit ''nc'', wb, star dot,
        lit ''-e'']) (''(?i)do'' @ [CHR 0x5C] @ ''s+shell'' @ [CHR 0x5C] @ ''s+script'' @
        [CHR 0x5C] @ ''s+['' @ [CHR 0x22] @ [CHR 0x5C] @ [CHR 0x27] @ ''].*nc'' @ [CHR 0x5C] @
        ''b.*-e'')
        ''AppleScript netcat with -e (reverse shell)'',
      dp DangerHigh True (seqs [lit ''>'', star sp, star nsp, lit ''.ssh/'']) (''(?i)>'' @
        [CHR 0x5C] @ ''s*'' @ [CHR 0x5C] @ ''S*'' @ [CHR 0x5C] @ ''.ssh/'')
        ''writing to SSH directory could install unauthorized keys'',
      dp DangerHigh True (seqs [lit ''>'', star sp, lit ''/etc/cron'']) (''(?i)>'' @ [CHR 0x5C] @
        ''s*/etc/cron'')
        ''writing to cron directory could install persistent scheduled tasks'',
      dp DangerHigh True (seqs [lit ''>'', star sp, lit ''/etc/passwd'']) (''(?i)>'' @ [CHR 0x5C] @
        ''s*/etc/passwd'')
        ''writing to passwd file could add unauthorized users'',
      dp DangerHigh True (seqs [lit ''>'', star sp, lit ''/etc/shadow'']) (''(?i)>'' @ [CHR 0x5C] @
        ''s*/etc/shadow'')
        ''writing to shadow file could modify password hashes'',
      dp DangerHigh True (seqs [lit ''>'', star sp, lit ''/etc/sudoers'']) (''(?i)>'' @
        [CHR 0x5C] @ ''s*/etc/sudoers'')
        ''writing to sudoers could grant unauthorized root access'',
      dp DangerHigh True (seqs [lit ''>'', star sp, lit ''/usr/local/bin/'']) (''(?i)>'' @
        [CHR 0x5C] @ ''s*/usr/local/bin/'')
        ''writing to system binary directory could install trojans'',
      dp DangerHigh True (seqs [lit ''>'', star sp, lit ''/usr/bin/'']) (''(?i)>'' @ [CHR 0x5C] @
        ''s*/usr/bin/'')
        ''writing to system binary directory could install trojans'',
      dp DangerMedium True (seqs [lit ''>'', star sp, lit ''~/.bashrc'']) (''(?i)>'' @ [CHR 0x5C] @
        ''s*~/'' @ [CHR 0x5C] @ ''.bashrc'')
        ''writing to .bashrc could execute malicious code on shell startup'',
      dp DangerMedium True (seqs [lit ''>'', star sp, lit ''~/.zshrc'']) (''(?i)>'' @ [CHR 0x5C] @
        ''s*~/'' @ [CHR 0x5C] @ ''.zshrc'')
        ''writing to .zshrc could execute malicious code on shell startup'',
      dp DangerMedium True (seqs [lit ''>'', star sp, lit ''~/.profile'']) (''(?i)>'' @
        [CHR 0x5C] @ ''s*~/'' @ [CHR 0x5C] @ ''.profile'')
        ''writing to .profile could execute malicious code on login'',
      dp DangerMedium True (seqs [lit ''>'', star sp, lit ''/etc/hosts'']) (''(?i)>'' @
        [CHR 0x5C] @ ''s*/etc/hosts'')
        ''writing to hosts file could hijack DNS resolution'',
      dp DangerMedium True (seqs [lit ''>'', star sp, lit ''/etc/environment'']) (''(?i)>'' @
        [CHR 0x5C] @ ''s*/etc/environment'')
        ''writing to environment config could inject malicious variables'',
      dp DangerMedium True (seqs [lit ''do'', plus1 sp, lit ''shell'', plus1 sp, lit ''script'',
        star dot, lit ''rm'', plus1 sp, lit ''-rf'']) (''(?i)do'' @ [CHR 0x5C] @ ''s+shell'' @
        [CHR 0x5C] @ ''s+script.*rm'' @ [CHR 0x5C] @ ''s+-rf'')
        ''AppleScript do shell script with rm -rf'',
      dp DangerMedium True (seqs [lit ''do'', plus1 sp, lit ''shell'', plus1 sp, lit ''script'',
        star dot, lit ''rm'', plus1 sp, lit ''-rf'', plus1 sp, lit ''*'']) (''(?i)do'' @
        [CHR 0x5C] @ ''s+shell'' @ [CHR 0x5C] @ ''s+script.*rm'' @ [CHR 0x5C] @ ''s+-rf'' @
        [CHR 0x5C] @ ''s+'' @ [CHR 0x5C] @ ''*'')
        ''AppleScript do shell script with rm -rf *'',
      dp DangerMedium True (seqs [lit ''do'', plus1 sp, lit ''shell'', plus1 sp, lit ''script'',
        star dot, lit ''>'', star sp, lit ''/dev/sd'', cls False [(97, 122)]]) (''(?i)do'' @
        [CHR 0x5C] @ ''s+shell'' @ [CHR 0x5C] @ ''s+script.*>'' @ [CHR 0x5C] @ ''s*/dev/sd[a-z]'')
        ''AppleScript writing to disk device'']"

definition NewDangerousDetector :: "dangerPattern list" where
  "NewDangerousDetector = danger_table_1 @ danger_table_2 @ danger_table_3 @ danger_table_4"

section \<open>The detector\<close>

definition danger_step :: "string \<Rightarrow> dangerPattern \<Rightarrow> DangerousCheck \<Rightarrow> DangerousCheck" where
  "danger_step cmd p worst =
     (if rx_MatchString (dp_re p) cmd \<and> dp_level p > Level worst
      then \<lparr>Level = dp_level p, Pattern = rx_src (dp_re p), Reason = dp_reason p\<rparr>
      else worst)"

definition DangerousDetector_Check :: "dangerPattern list \<Rightarrow> string \<Rightarrow> DangerousCheck" where
  "DangerousDetector_Check patterns command =
     (let cmd = TrimSpace command in
      fold (danger_step cmd) patterns \<lparr>Level = DangerNone, Pattern = '''', Reason = ''''\<rparr>)"

definition IsDangerous :: "dangerPattern list \<Rightarrow> string \<Rightarrow> bool" where
  "IsDangerous d command \<longleftrightarrow> Level (DangerousDetector_Check d command) \<ge> DangerMedium"

definition IsExtremelyDangerous :: "dangerPattern list \<Rightarrow> string \<Rightarrow> bool" where
  "IsExtremelyDangerous d command \<longleftrightarrow> Level (DangerousDetector_Check d command) \<ge> DangerCritical"

definition upper_char :: "char \<Rightarrow> char" where
  "upper_char c = (if is_lower c then char_of (byte_val c - 32) else c)"

definition DangerousCheck_Suggestion :: "DangerousCheck \<Rightarrow> string" where
  "DangerousCheck_Suggestion c =
     (if Level c = DangerNone then ''This command appears safe.''
      else ''['' @ map upper_char (DangerLevel_String (Level c)) @ ''] '' @ Reason c)"

section \<open>The worst match\<close>

lemma fold_danger_Level:
  "Level (fold (danger_step cmd) ps w) \<ge> l \<longleftrightarrow>
     Level w \<ge> l \<or> (\<exists>p \<in> set ps. dp_level p \<ge> l \<and> rx_MatchString (dp_re p) cmd)"
proof (induction ps arbitrary: w)
  case (Cons p ps)
  have "Level (danger_step cmd p w) \<ge> l \<longleftrightarrow>
      Level w \<ge> l \<or> (dp_level p \<ge> l \<and> rx_MatchString (dp_re p) cmd)"
    by (auto simp: danger_step_def)
  with Cons.IH show ?case by auto
qed simp

lemma Check_Level_iff:
  "Level (DangerousDetector_Check ps cmd) \<ge> l \<longleftrightarrow>
     l = DangerNone \<or> (\<exists>p \<in> set ps. dp_level p \<ge> l \<and> rx_MatchString (dp_re p) (TrimSpace cmd))"
proof -
  have "DangerNone \<ge> l \<longleftrightarrow> l = DangerNone" by (cases l) (auto simp: less_eq_DangerLevel_def)
  then show ?thesis by (simp add: DangerousDetector_Check_def Let_def fold_danger_Level)
qed

end
