(* ===== verification/Network.thy ===== *)
theory Network
  imports GoRegexp
begin

text \<open>
  \<^verbatim>\<open>internal/permission/network.go\<close>: the risk a command's network access poses. A table of
  regular expressions finds the first matching entry; \<^verbatim>\<open>scp\<close> and \<^verbatim>\<open>rsync\<close> are tokenized and
  judged by which operand is remote.
\<close>

datatype NetworkRisk = NetworkNone | NetworkAccess | NetworkExfiltrate

fun network_rank :: "NetworkRisk \<Rightarrow> nat" where
  "network_rank NetworkNone = 0"
| "network_rank NetworkAccess = 1"
| "network_rank NetworkExfiltrate = 2"

lemma network_rank_inj: "network_rank a = network_rank b \<Longrightarrow> a = b"
  by (cases a; cases b) auto

instantiation NetworkRisk :: linorder
begin

definition less_eq_NetworkRisk :: "NetworkRisk \<Rightarrow> NetworkRisk \<Rightarrow> bool" where
  "less_eq_NetworkRisk a b \<longleftrightarrow> network_rank a \<le> network_rank b"

definition less_NetworkRisk :: "NetworkRisk \<Rightarrow> NetworkRisk \<Rightarrow> bool" where
  "less_NetworkRisk a b \<longleftrightarrow> network_rank a < network_rank b"

instance
  by standard (auto simp: less_eq_NetworkRisk_def less_NetworkRisk_def network_rank_inj)

end

fun NetworkRisk_String :: "NetworkRisk \<Rightarrow> string" where
  "NetworkRisk_String NetworkNone = ''none''"
| "NetworkRisk_String NetworkAccess = ''network''"
| "NetworkRisk_String NetworkExfiltrate = ''exfiltrate''"

record NetworkCheck =
  Risk :: NetworkRisk
  NReason :: string

record networkPattern =
  np_risk :: NetworkRisk
  np_re :: regexp
  np_reason :: string

definition np :: "NetworkRisk \<Rightarrow> bool \<Rightarrow> rexp \<Rightarrow> string \<Rightarrow> string \<Rightarrow> networkPattern" where
  "np risk fc ast src why =
     \<lparr>np_risk = risk, np_re = \<lparr>rx_src = src, rx_fold = fc, rx_ast = ast\<rparr>, np_reason = why\<rparr>"

definition networkPatterns :: "networkPattern list" where
  "networkPatterns =
    [
      np NetworkExfiltrate True (seqs [wb, lit ''curl'', wb, star dot, alts [seqs [lit ''--data'',
        cls False [(45, 45), (32, 32)], lit ''binary''], lit ''-d'', lit ''--data''],
        star (cls False [(61, 61), (9, 10), (12, 13), (32, 32)]), lit ''@'']) (''(?i)'' @
        [CHR 0x5C] @ ''bcurl'' @ [CHR 0x5C] @ ''b.*(--data[- ]binary|-d|--data)[='' @ [CHR 0x5C] @
        ''s]*@'')
        ''curl sending local file contents via POST data'',
      np NetworkExfiltrate True (seqs [wb, lit ''curl'', wb, star dot, lit ''--upload-file'',
        cls False [(61, 61), (9, 10), (12, 13), (32, 32)]]) (''(?i)'' @ [CHR 0x5C] @ ''bcurl'' @
        [CHR 0x5C] @ ''b.*--upload-file[='' @ [CHR 0x5C] @ ''s]'')
        ''curl uploading a local file to a remote server'',
      np NetworkExfiltrate True (seqs [wb, lit ''curl'', wb, star dot, sp, lit ''-T'',
        alts [seqs [lit ''='', plus1 (cls True [(9, 10), (12, 13), (32, 32)])], cls False [(61,
        61), (9, 10), (12, 13), (32, 32)], cls True [(61, 61), (9, 10), (12, 13), (32,
        32)]]]) (''(?i)'' @ [CHR 0x5C] @ ''bcurl'' @ [CHR 0x5C] @ ''b.*'' @ [CHR 0x5C] @
        ''s-T(=[^'' @ [CHR 0x5C] @ ''s]+|[='' @ [CHR 0x5C] @ ''s]|[^='' @ [CHR 0x5C] @ ''s])'')
        ''curl -T uploading a local file to a remote server'',
      np NetworkExfiltrate True (seqs [wb, lit ''curl'', wb, star dot, sp, alts [seqs [lit ''-F'',
        star (cls True [(9, 10), (12, 13), (32, 32), (61, 61)]), lit ''=''], seqs [lit ''--form'',
        cls False [(61, 61), (9, 10), (12, 13), (32, 32)]]]]) (''(?i)'' @ [CHR 0x5C] @ ''bcurl'' @
        [CHR 0x5C] @ ''b.*'' @ [CHR 0x5C] @ ''s(-F[^'' @ [CHR 0x5C] @ ''s=]*=|--form[='' @
        [CHR 0x5C] @ ''s])'')
        ''curl multipart form carrying local file data (@path)'',
      np NetworkExfiltrate True (seqs [wb, lit ''curl'', wb, star dot, lit ''--post-file'',
        cls False [(61, 61), (9, 10), (12, 13), (32, 32)]]) (''(?i)'' @ [CHR 0x5C] @ ''bcurl'' @
        [CHR 0x5C] @ ''b.*--post-file[='' @ [CHR 0x5C] @ ''s]'')
        ''curl posting a local file to a URL'',
      np NetworkExfiltrate True (seqs [wb, lit ''curl'', wb, star dot, lit ''-F'', plus1 sp,
        star dot, lit ''=@'']) (''(?i)'' @ [CHR 0x5C] @ ''bcurl'' @ [CHR 0x5C] @ ''b.*-F'' @
        [CHR 0x5C] @ ''s+.*=@'')
        ''curl uploading a local file as form data'',
      np NetworkExfiltrate True (seqs [wb, lit ''curl'', wb, star dot, alts [lit ''--upload-file'',
        lit ''-T''], star (cls False [(61, 61), (9, 10), (12, 13), (32, 32)]), lit ''-'', star sp,
        lit ''<'']) (''(?i)'' @ [CHR 0x5C] @ ''bcurl'' @ [CHR 0x5C] @ ''b.*(--upload-file|-T)[='' @
        [CHR 0x5C] @ ''s]*-'' @ [CHR 0x5C] @ ''s*<'')
        ''curl uploading stdin (redirected from a local file) to a remote server'',
      np NetworkExfiltrate True (seqs [wb, lit ''curl'', wb, star dot, alts [lit ''-d'',
        lit ''--data'', lit ''--data-binary'', lit ''--data-raw'', lit ''--post-file''],
        star (cls False [(61, 61), (9, 10), (12, 13), (32, 32)]), opt (lit ''-''), star sp,
        lit ''<'', star sp, nsp]) (''(?i)'' @ [CHR 0x5C] @ ''bcurl'' @ [CHR 0x5C] @
        ''b.*(-d|--data|--data-binary|--data-raw|--post-file)[='' @ [CHR 0x5C] @ ''s]*-?'' @
        [CHR 0x5C] @ ''s*<'' @ [CHR 0x5C] @ ''s*'' @ [CHR 0x5C] @ ''S'')
        ''curl with a data flag and input redirection sends a local file as request body'',
      np NetworkExfiltrate True (seqs [wb, lit ''wget'', wb, star dot,
        lit ''--post-file'']) (''(?i)'' @ [CHR 0x5C] @ ''bwget'' @ [CHR 0x5C] @ ''b.*--post-file'')
        ''wget posting a local file to a URL'',
      np NetworkExfiltrate True (seqs [wb, alts [lit ''nc'', lit ''ncat'', lit ''netcat''], wb,
        star dot, lit ''<'', star sp, nsp]) (''(?i)'' @ [CHR 0x5C] @ ''b(nc|ncat|netcat)'' @
        [CHR 0x5C] @ ''b.*<'' @ [CHR 0x5C] @ ''s*'' @ [CHR 0x5C] @ ''S'')
        ''netcat piping a local file to a remote host'',
      np NetworkExfiltrate True (seqs [wb, lit ''ncat'', wb, star dot, lit ''<'', sp]) (''(?i)'' @
        [CHR 0x5C] @ ''bncat'' @ [CHR 0x5C] @ ''b.*<'' @ [CHR 0x5C] @ ''s'')
        ''ncat piping a local file to a remote host'',
      np NetworkExfiltrate True (seqs [wb, lit ''socat'', wb, star dot, alts [lit ''TCP'',
        lit ''UDP'', lit ''OPENSSL'', lit ''EXEC'', lit ''SYSTEM'', lit ''fork''],
        star (cls True [(124, 124)]), lit '':'']) (''(?i)'' @ [CHR 0x5C] @ ''bsocat'' @
        [CHR 0x5C] @ ''b.*(TCP|UDP|OPENSSL|EXEC|SYSTEM|fork)[^|]*:'')
        ''socat can relay data to external endpoints'',
      np NetworkExfiltrate True (seqs [wb, alts [lit ''base64'', lit ''xxd'', lit ''od''], wb,
        star dot, lit ''|'', star sp, alts [lit ''curl'', lit ''wget'', lit ''nc'', lit ''ncat''],
        wb]) (''(?i)'' @ [CHR 0x5C] @ ''b(base64|xxd|od)'' @ [CHR 0x5C] @ ''b.*'' @ [CHR 0x5C] @
        ''|'' @ [CHR 0x5C] @ ''s*(curl|wget|nc|ncat)'' @ [CHR 0x5C] @ ''b'')
        ''encoding local data and piping to a network command (potential exfiltration)'',
      np NetworkExfiltrate True (seqs [wb, alts [lit ''cat'', lit ''type''], wb, star dot,
        lit ''|'', star sp, alts [lit ''curl'', lit ''wget'', lit ''nc'', lit ''ncat''],
        wb]) (''(?i)'' @ [CHR 0x5C] @ ''b(cat|type)'' @ [CHR 0x5C] @ ''b.*'' @ [CHR 0x5C] @ ''|'' @
        [CHR 0x5C] @ ''s*(curl|wget|nc|ncat)'' @ [CHR 0x5C] @ ''b'')
        ''piping file contents to a network command (potential exfiltration)'',
      np NetworkExfiltrate True (seqs [wb, lit ''python'', opt (lit ''3''), plus1 sp, lit ''-c'',
        wb, star dot, alts [lit ''urllib'', lit ''requests'', lit ''http.client'',
        lit ''socket'']]) (''(?i)'' @ [CHR 0x5C] @ ''bpython3?'' @ [CHR 0x5C] @ ''s+-c'' @
        [CHR 0x5C] @ ''b.*(urllib|requests|http'' @ [CHR 0x5C] @ ''.client|socket)'')
        ''Python one-liner with network library (potential exfiltration)'',
      np NetworkExfiltrate True (seqs [wb, lit ''node'', plus1 sp, lit ''-e'', wb, star dot,
        alts [lit ''http'', lit ''https'', lit ''net.'', lit ''fetch'',
        lit ''axios'']]) (''(?i)'' @ [CHR 0x5C] @ ''bnode'' @ [CHR 0x5C] @ ''s+-e'' @ [CHR 0x5C] @
        ''b.*(http|https|net'' @ [CHR 0x5C] @ ''.|fetch|axios)'')
        ''Node.js one-liner with network library (potential exfiltration)'',
      np NetworkExfiltrate True (seqs [wb, lit ''ruby'', plus1 sp, lit ''-e'', wb, star dot,
        alts [lit ''net/http'', lit ''socket'', lit ''uri'']]) (''(?i)'' @ [CHR 0x5C] @ ''bruby'' @
        [CHR 0x5C] @ ''s+-e'' @ [CHR 0x5C] @ ''b.*(net/http|socket|uri)'')
        ''Ruby one-liner with network library (potential exfiltration)'',
      np NetworkExfiltrate True (seqs [wb, lit ''perl'', plus1 sp, lit ''-e'', wb, star dot,
        alts [lit ''IO::Socket'', lit ''LWP'', lit ''HTTP::Tiny'']]) (''(?i)'' @ [CHR 0x5C] @
        ''bperl'' @ [CHR 0x5C] @ ''s+-e'' @ [CHR 0x5C] @ ''b.*(IO::Socket|LWP|HTTP::Tiny)'')
        ''Perl one-liner with network library (potential exfiltration)'',
      np NetworkAccess True (seqs [wb, lit ''curl'', wb]) (''(?i)'' @ [CHR 0x5C] @ ''bcurl'' @
        [CHR 0x5C] @ ''b'')
        ''curl makes an outbound network request'',
      np NetworkAccess True (seqs [wb, lit ''wget'', wb]) (''(?i)'' @ [CHR 0x5C] @ ''bwget'' @
        [CHR 0x5C] @ ''b'')
        ''wget makes an outbound network request'',
      np NetworkAccess True (seqs [wb, alts [lit ''nc'', lit ''ncat'', lit ''netcat''], wb,
        star dot, plus1 sp, plus1 nsp, plus1 sp, plus1 dgt]) (''(?i)'' @ [CHR 0x5C] @
        ''b(nc|ncat|netcat)'' @ [CHR 0x5C] @ ''b.*'' @ [CHR 0x5C] @ ''s+'' @ [CHR 0x5C] @ ''S+'' @
        [CHR 0x5C] @ ''s+'' @ [CHR 0x5C] @ ''d+'')
        ''netcat connecting to a remote host:port'',
      np NetworkAccess True (seqs [wb, lit ''ncat'', wb, star dot, plus1 sp, plus1 nsp, plus1 sp,
        plus1 dgt]) (''(?i)'' @ [CHR 0x5C] @ ''bncat'' @ [CHR 0x5C] @ ''b.*'' @ [CHR 0x5C] @
        ''s+'' @ [CHR 0x5C] @ ''S+'' @ [CHR 0x5C] @ ''s+'' @ [CHR 0x5C] @ ''d+'')
        ''ncat connecting to a remote host:port'',
      np NetworkAccess True (seqs [wb, lit ''ssh'', wb]) (''(?i)'' @ [CHR 0x5C] @ ''bssh'' @
        [CHR 0x5C] @ ''b'')
        ''ssh connects to a remote host'',
      np NetworkAccess True (seqs [wb, lit ''ansible'', wb]) (''(?i)'' @ [CHR 0x5C] @
        ''bansible'' @ [CHR 0x5C] @ ''b'')
        ''ansible executes commands on remote hosts'',
      np NetworkAccess True (seqs [wb, lit ''telnet'', wb]) (''(?i)'' @ [CHR 0x5C] @ ''btelnet'' @
        [CHR 0x5C] @ ''b'')
        ''telnet connects to a remote host'',
      np NetworkAccess True (seqs [wb, lit ''ftp'', wb, sp]) (''(?i)'' @ [CHR 0x5C] @ ''bftp'' @
        [CHR 0x5C] @ ''b'' @ [CHR 0x5C] @ ''s'')
        ''ftp connects to a remote server'']"

section \<open>The tokenizer\<close>

record cmdTokenizer =
  tk_tokens :: "string list"
  tk_cur :: string
  tk_quote :: "char option"

definition isShellSpace :: "char \<Rightarrow> bool" where
  "isShellSpace c \<longleftrightarrow> c = CHR '' '' \<or> c = CHR 0x09 \<or> c = CHR 0x0D \<or> c = CHR 0x0A"

definition isShellOperatorChar :: "char \<Rightarrow> bool" where
  "isShellOperatorChar c \<longleftrightarrow> c \<in> set ''|;&<>''"

definition isAllDigits :: "string \<Rightarrow> bool" where
  "isAllDigits s \<longleftrightarrow> list_all is_digit s \<and> s \<noteq> []"

definition tk_flush :: "cmdTokenizer \<Rightarrow> cmdTokenizer" where
  "tk_flush t = (if tk_cur t \<noteq> [] then t\<lparr>tk_tokens := tk_tokens t @ [tk_cur t], tk_cur := []\<rparr> else t)"

definition tk_write :: "char \<Rightarrow> cmdTokenizer \<Rightarrow> cmdTokenizer" where
  "tk_write c t = t\<lparr>tk_cur := tk_cur t @ [c]\<rparr>"

text \<open>\<open>pushOperator\<close> returns the tokenizer and what is left of the command after the run.\<close>

definition pushOperator :: "cmdTokenizer \<Rightarrow> string \<Rightarrow> cmdTokenizer \<times> string" where
  "pushOperator t cmd =
     (let t1 = (if tk_cur t \<noteq> [] \<and> isAllDigits (tk_cur t) then t\<lparr>tk_cur := []\<rparr> else t);
          t2 = tk_flush t1;
          run = takeWhile (\<lambda>x. x = hd cmd) cmd
      in (t2\<lparr>tk_tokens := tk_tokens t2 @ [run]\<rparr>, dropWhile (\<lambda>x. x = hd cmd) cmd))"

function tokenize_loop :: "cmdTokenizer \<Rightarrow> string \<Rightarrow> cmdTokenizer" where
  "tokenize_loop t [] = t"
| "tokenize_loop t (c # s) =
     (case tk_quote t of
        Some q \<Rightarrow>
          (if c = q then tokenize_loop (t\<lparr>tk_quote := None\<rparr>) s else tokenize_loop (tk_write c t) s)
      | None \<Rightarrow>
          if c = CHR 0x27 \<or> c = CHR 0x22 then tokenize_loop (t\<lparr>tk_quote := Some c\<rparr>) s
          else if c = CHR 0x5C \<and> s \<noteq> [] then tokenize_loop (tk_write (hd s) t) (tl s)
          else if isShellSpace c then tokenize_loop (tk_flush t) s
          else if isShellOperatorChar c
          then (case pushOperator t (c # s) of (t', s') \<Rightarrow> tokenize_loop t' s')
          else tokenize_loop (tk_write c t) s)"
  by pat_completeness auto
termination
  by (relation "measure (\<lambda>(t, s). length s)")
     (auto simp: pushOperator_def Let_def le_imp_less_Suc length_dropWhile_le)

definition tokenizeCommand :: "string \<Rightarrow> string list" where
  "tokenizeCommand cmd =
     tk_tokens (tk_flush (tokenize_loop \<lparr>tk_tokens = [], tk_cur = [], tk_quote = None\<rparr> cmd))"

section \<open>Transfers\<close>

definition isASCIILetter :: "char \<Rightarrow> bool" where
  "isASCIILetter c \<longleftrightarrow> is_lower c \<or> is_upper c"

definition isShellSeparator :: "string \<Rightarrow> bool" where
  "isShellSeparator t \<longleftrightarrow>
     t \<in> set [''|'', '';'', ''&'', ''&&'', ''||'', ''>'', ''>>'', ''<'', ''2>'', ''2>>'']"

definition isRemoteOperand :: "string \<Rightarrow> bool" where
  "isRemoteOperand s =
     (if s = '''' \<or> s = ''-'' then False
      else if HasPrefix s ''rsync://'' \<or> HasPrefix s ''ssh://'' then True
      else (case IndexByte s (CHR '':'') of
              None \<Rightarrow> False
            | Some colon \<Rightarrow>
                if colon = 0 then False
                else if ContainsAny (take colon s) [CHR ''/'', CHR 0x5C] then False
                else if colon = 1 \<and> isASCIILetter (hd s) then False
                else True))"

definition optionTakesValue :: "bool \<Rightarrow> string \<Rightarrow> bool" where
  "optionTakesValue isScp name =
     (if isScp then name \<in> set [''i'', ''l'', ''o'', ''P'', ''S'', ''F'', ''c'', ''J'']
      else if name = ''e'' then True
      else name \<in> set [''rsh'', ''exclude'', ''include'', ''filter'', ''exclude-from'', ''include-from'',
        ''files-from'', ''suffix'', ''chmod'', ''chown'', ''usermap'', ''groupmap'',
        ''rsync-path'', ''password-file'', ''compare-dest'', ''copy-dest'', ''link-dest'',
        ''backup-dir'', ''block-size'', ''max-size'', ''min-size'', ''compress-level'',
        ''log-file'', ''out-format'', ''temp-dir'', ''partial-dir''])"

fun collect_operands :: "bool \<Rightarrow> string list \<Rightarrow> string list" where
  "collect_operands isScp [] = []"
| "collect_operands isScp (t # ts) =
     (if isShellSeparator t then []
      else if HasPrefix t ''-'' \<and> t \<noteq> ''-'' \<and> t \<noteq> ''--'' then
        (let name = TrimLeft t ''-'' in
         if CHR ''='' \<in> set name then collect_operands isScp ts
         else if optionTakesValue isScp name
         then (case ts of [] \<Rightarrow> [] | _ # rest \<Rightarrow> collect_operands isScp rest)
         else collect_operands isScp ts)
      else t # collect_operands isScp ts)"

definition analyzeTransfer :: "bool \<Rightarrow> string list \<Rightarrow> NetworkCheck" where
  "analyzeTransfer isScp rest =
     (let operands = collect_operands isScp rest in
      if operands = [] then \<lparr>Risk = NetworkAccess,
        NReason = ''scp/rsync command without operands (direction unknown)''\<rparr>
      else if isRemoteOperand (last operands) then \<lparr>Risk = NetworkExfiltrate,
        NReason = ''scp/rsync copying local files to a remote host''\<rparr>
      else if list_ex isRemoteOperand (butlast operands) then \<lparr>Risk = NetworkAccess,
        NReason = ''scp/rsync downloading from a remote host (remote is the source, not the destination)''\<rparr>
      else \<lparr>Risk = NetworkAccess, NReason = ''scp/rsync local copy (no remote operand)''\<rparr>)"

definition transfer_base :: "string \<Rightarrow> string" where
  "transfer_base tok = (case LastIndexByte tok (CHR ''/'') of None \<Rightarrow> tok | Some j \<Rightarrow> drop (Suc j) tok)"

fun scp_loop :: "string list \<Rightarrow> NetworkCheck \<times> bool \<Rightarrow> NetworkCheck \<times> bool" where
  "scp_loop [] acc = acc"
| "scp_loop (t # ts) (worst, found) =
     (let base = transfer_base t in
      if \<not> EqualFold base ''scp'' \<and> \<not> EqualFold base ''rsync'' then scp_loop ts (worst, found)
      else
        let res = analyzeTransfer (EqualFold base ''scp'') ts in
        scp_loop ts (if Risk res > Risk worst then res else worst, True))"

definition scpRsyncDirection :: "string \<Rightarrow> NetworkCheck \<times> bool" where
  "scpRsyncDirection cmd = scp_loop (tokenizeCommand cmd) (\<lparr>Risk = NetworkNone, NReason = ''''\<rparr>, False)"

section \<open>The check\<close>

definition checkNetworkPatterns :: "string \<Rightarrow> NetworkCheck" where
  "checkNetworkPatterns cmd =
     (case find (\<lambda>p. rx_MatchString (np_re p) cmd) networkPatterns of
        None \<Rightarrow> \<lparr>Risk = NetworkNone, NReason = ''''\<rparr>
      | Some p \<Rightarrow> \<lparr>Risk = np_risk p, NReason = np_reason p\<rparr>)"

definition CheckNetwork :: "string \<Rightarrow> NetworkCheck" where
  "CheckNetwork command =
     (let cmd = TrimSpace command in
      if cmd = '''' then \<lparr>Risk = NetworkNone, NReason = ''''\<rparr>
      else
        let base = checkNetworkPatterns cmd; (dir, ok) = scpRsyncDirection cmd in
        if ok \<and> Risk dir > Risk base then dir else base)"

definition IsNetworkCommand :: "string \<Rightarrow> bool" where
  "IsNetworkCommand command \<longleftrightarrow> Risk (CheckNetwork command) \<noteq> NetworkNone"

definition IsNetworkExfiltrate :: "string \<Rightarrow> bool" where
  "IsNetworkExfiltrate command \<longleftrightarrow> Risk (CheckNetwork command) = NetworkExfiltrate"

definition NetworkCheck_Suggestion :: "NetworkCheck \<Rightarrow> string" where
  "NetworkCheck_Suggestion c = (if Risk c = NetworkNone then '''' else NReason c)"

end
