(* ===== verification/GoPath.thy ===== *)
theory GoPath
  imports Prelude
begin

text \<open>
  Package \<^verbatim>\<open>path/filepath\<close> on Unix, as far as the sandbox and the approval memory call it:
  \<^verbatim>\<open>Clean\<close>, \<^verbatim>\<open>Join\<close>, \<^verbatim>\<open>Base\<close>, \<^verbatim>\<open>Dir\<close>, \<^verbatim>\<open>Ext\<close>, \<^verbatim>\<open>IsAbs\<close> and \<^verbatim>\<open>Abs\<close>. \<open>Clean\<close> works on the
  list of components, the stack of kept components in reverse. The lemmas give the normal
  form of an absolute path, idempotence, and the length bound that makes the walk from a path
  to its parents stop.
\<close>

abbreviation slash :: char where
  "slash \<equiv> CHR ''/''"

definition clean_step :: "bool \<Rightarrow> string \<Rightarrow> string list \<Rightarrow> string list" where
  "clean_step rooted seg stk =
     (if seg = '''' \<or> seg = ''.'' then stk
      else if seg = ''..'' then
        (case stk of
           [] \<Rightarrow> (if rooted then [] else [''..''])
         | t # rest \<Rightarrow> (if t = ''..'' then ''..'' # stk else rest))
      else seg # stk)"

definition clean_segs :: "bool \<Rightarrow> string list \<Rightarrow> string list" where
  "clean_segs rooted segs = rev (fold (clean_step rooted) segs [])"

definition IsAbs :: "string \<Rightarrow> bool" where
  "IsAbs p = HasPrefix p ''/''"

definition path_of :: "bool \<Rightarrow> string list \<Rightarrow> string" where
  "path_of rooted segs =
     (if rooted then slash # Join segs [slash]
      else if segs = [] then ''.'' else Join segs [slash])"

definition Clean :: "string \<Rightarrow> string" where
  "Clean p = (if p = '''' then ''.'' else path_of (IsAbs p) (clean_segs (IsAbs p) (Split p slash)))"

definition JoinPath :: "string list \<Rightarrow> string" where
  "JoinPath elems =
     (let es = filter (\<lambda>e. e \<noteq> '''') elems in if es = [] then '''' else Clean (Join es [slash]))"

definition Base :: "string \<Rightarrow> string" where
  "Base p =
     (if p = '''' then ''.''
      else let q = trim_right_by (\<lambda>c. c = slash) p in
        if q = '''' then ''/''
        else (case LastIndexByte q slash of None \<Rightarrow> q | Some i \<Rightarrow> drop (Suc i) q))"

definition Dir :: "string \<Rightarrow> string" where
  "Dir p = Clean (case LastIndexByte p slash of None \<Rightarrow> '''' | Some i \<Rightarrow> take (Suc i) p)"

definition Ext :: "string \<Rightarrow> string" where
  "Ext p =
     (let tl_elem = (case LastIndexByte p slash of None \<Rightarrow> p | Some i \<Rightarrow> drop (Suc i) p) in
      case LastIndexByte tl_elem (CHR ''.'') of None \<Rightarrow> '''' | Some i \<Rightarrow> drop i tl_elem)"

text \<open>\<^verbatim>\<open>filepath.Abs\<close>: the working directory is an argument, \<^const>\<open>None\<close> where \<^verbatim>\<open>os.Getwd\<close> fails.\<close>

definition Abs :: "string option \<Rightarrow> string \<Rightarrow> string option" where
  "Abs wd p = (if IsAbs p then Some (Clean p) else map_option (\<lambda>d. JoinPath [d, p]) wd)"

section \<open>Normal forms\<close>

definition plain_seg :: "string \<Rightarrow> bool" where
  "plain_seg s \<longleftrightarrow> s \<noteq> '''' \<and> s \<noteq> ''.'' \<and> s \<noteq> ''..'' \<and> slash \<notin> set s"

definition abs_segs :: "string \<Rightarrow> string list" where
  "abs_segs p = clean_segs True (Split p slash)"

lemma clean_step_plain:
  "slash \<notin> set seg \<Longrightarrow> list_all plain_seg stk \<Longrightarrow> list_all plain_seg (clean_step True seg stk)"
  by (auto simp: clean_step_def plain_seg_def split: list.splits)

lemma fold_clean_plain:
  "\<forall>s \<in> set segs. slash \<notin> set s \<Longrightarrow> list_all plain_seg stk \<Longrightarrow>
     list_all plain_seg (fold (clean_step True) segs stk)"
  by (induction segs arbitrary: stk) (auto intro: clean_step_plain)

lemma abs_segs_plain: "list_all plain_seg (abs_segs p)"
proof -
  have "list_all plain_seg (fold (clean_step True) (Split p slash) [])"
    by (rule fold_clean_plain) (auto dest: Split_elem)
  then show ?thesis by (simp add: abs_segs_def clean_segs_def list_all_iff)
qed

lemma fold_clean_plain_id:
  "list_all plain_seg segs \<Longrightarrow> fold (clean_step r) segs stk = rev segs @ stk"
  by (induction segs arbitrary: stk) (auto simp: clean_step_def plain_seg_def)

lemma clean_segs_plain_id: "list_all plain_seg segs \<Longrightarrow> clean_segs r segs = segs"
  by (simp add: clean_segs_def fold_clean_plain_id)

lemma Clean_abs: "IsAbs p \<Longrightarrow> Clean p = slash # Join (abs_segs p) [slash]"
  by (auto simp: Clean_def path_of_def abs_segs_def IsAbs_def HasPrefix_def)

lemma Split_slash_Cons: "Split (slash # s) slash = '''' # Split s slash"
  by (simp add: Split_def)

lemma abs_segs_of_Join:
  assumes "list_all plain_seg segs"
  shows "abs_segs (slash # Join segs [slash]) = segs"
proof (cases "segs = []")
  case True
  then show ?thesis by (simp add: abs_segs_def clean_segs_def Split_def clean_step_def)
next
  case False
  with assms have "Split (Join segs [slash]) slash = segs"
    by (intro Split_Join) (auto simp: list_all_iff plain_seg_def)
  with assms show ?thesis
    by (simp add: abs_segs_def Split_slash_Cons clean_segs_def clean_step_def fold_clean_plain_id)
qed

lemma IsAbs_Clean: "IsAbs p \<Longrightarrow> IsAbs (Clean p)"
  by (simp add: Clean_abs IsAbs_def HasPrefix_def)

lemma abs_segs_Clean: "IsAbs p \<Longrightarrow> abs_segs (Clean p) = abs_segs p"
  by (simp add: Clean_abs abs_segs_of_Join abs_segs_plain)

lemma Clean_idem_abs: "IsAbs p \<Longrightarrow> Clean (Clean p) = Clean p"
  using IsAbs_Clean [of p] by (simp add: Clean_abs abs_segs_of_Join abs_segs_plain)

text \<open>The component-wise prefix order is the string prefix up to a separator.\<close>

lemma Join_slash_append:
  "xs \<noteq> [] \<Longrightarrow> ys \<noteq> [] \<Longrightarrow> Join (xs @ ys) sep = Join xs sep @ sep @ Join ys sep"
  by (induction xs) (auto simp: Join_Cons)

lemma Join_prefix_segs:
  assumes "prefix (Join xs [slash] @ [slash]) (Join ys [slash])"
    and "xs \<noteq> []" and "list_all plain_seg xs" and "list_all plain_seg ys"
  shows "strict_prefix xs ys"
proof -
  from assms(1) obtain zs where zs: "Join ys [slash] = Join xs [slash] @ slash # zs"
    by (auto simp: prefix_def)
  then have "ys \<noteq> []" by auto
  with assms(4) have "ys = Split (Join ys [slash]) slash"
    by (simp add: Split_Join list_all_iff plain_seg_def)
  also have "\<dots> = xs @ Split zs slash"
    unfolding zs using assms(2,3)
    by (induction xs rule: induct_list012)
       (auto simp: Split_Cons plain_seg_def)
  finally have "ys = xs @ Split zs slash" .
  then show ?thesis by (simp add: strict_prefix_def prefix_def)
qed

lemma segs_prefix_Join:
  assumes "strict_prefix xs ys" and "xs \<noteq> []"
  shows "prefix (Join xs [slash] @ [slash]) (Join ys [slash])"
proof -
  from assms(1) obtain zs where "ys = xs @ zs" "zs \<noteq> []"
    by (auto simp: strict_prefix_def prefix_def)
  with assms(2) show ?thesis by (simp add: Join_slash_append prefix_def)
qed

section \<open>Parents get shorter\<close>

definition segs_cost :: "string list \<Rightarrow> nat" where
  "segs_cost segs = sum_list (map (\<lambda>s. Suc (length s)) segs)"

lemma segs_cost_simps [simp]:
  "segs_cost [] = 0"
  "segs_cost (s # ss) = Suc (length s) + segs_cost ss"
  "segs_cost (xs @ ys) = segs_cost xs + segs_cost ys"
  "segs_cost (rev xs) = segs_cost xs"
  by (auto simp: segs_cost_def rev_map [symmetric])

lemma segs_cost_clean_step: "segs_cost (clean_step r s stk) \<le> Suc (length s) + segs_cost stk"
  by (auto simp: clean_step_def split: list.splits)

lemma segs_cost_fold: "segs_cost (fold (clean_step r) segs stk) \<le> segs_cost segs + segs_cost stk"
proof (induction segs arbitrary: stk)
  case (Cons s segs)
  have "segs_cost (fold (clean_step r) (s # segs) stk) \<le> segs_cost segs + segs_cost (clean_step r s stk)"
    using Cons.IH by simp
  also have "\<dots> \<le> segs_cost segs + (Suc (length s) + segs_cost stk)"
    using segs_cost_clean_step by simp
  finally show ?case by simp
qed simp

lemma segs_cost_split_acc: "segs_cost (split_acc sep u s) = length s + length u + 1"
  by (induction sep u s rule: split_acc.induct) auto

lemma length_Join: "length (Join segs [c]) = segs_cost segs - 1"
  by (induction segs rule: induct_list012) auto

lemma length_Clean: "p \<noteq> '''' \<Longrightarrow> length (Clean p) \<le> length p"
proof -
  assume p: "p \<noteq> ''''"
  let ?segs = "clean_segs (IsAbs p) (Split p slash)"
  have cost: "segs_cost ?segs \<le> Suc (length p)"
    using segs_cost_fold [of "IsAbs p" "Split p slash" "[]"]
    by (simp add: clean_segs_def Split_def segs_cost_split_acc)
  show ?thesis
  proof (cases "IsAbs p")
    case True
    then obtain q where q: "p = slash # q" by (auto simp: IsAbs_def HasPrefix_def prefix_def)
    have "segs_cost ?segs \<le> Suc (length q)"
      using True segs_cost_fold [of True "Split q slash" "[]"]
      by (simp add: q clean_segs_def Split_slash_Cons clean_step_def)
         (simp add: Split_def segs_cost_split_acc)
    with True q show ?thesis by (simp add: Clean_def path_of_def length_Join)
  next
    case False
    with p cost show ?thesis
      by (cases p) (auto simp: Clean_def path_of_def length_Join)
  qed
qed

definition dir_measure :: "string \<Rightarrow> nat" where
  "dir_measure p = (if p = ''.'' then 0 else Suc (length p))"


lemma Clean_trailing_slash:
  assumes "q \<noteq> ''''"
  shows "Clean (q @ [slash]) = Clean q"
proof -
  have "IsAbs (q @ [slash]) = IsAbs q"
    using assms by (cases q) (auto simp: IsAbs_def HasPrefix_def)
  then show ?thesis
    using assms by (simp add: Clean_def Split_def split_acc_snoc clean_segs_def clean_step_def)
qed

lemma LastIndexByte_Some:
  assumes "LastIndexByte p c = Some i"
  shows "i < length p \<and> p ! i = c"
proof -
  from assms obtain k where k: "index_by (\<lambda>x. x = c) (rev p) = Some k" and i: "i = length p - Suc k"
    by (auto simp: LastIndexByte_def IndexByte_def)
  from index_by_Some [OF k] have "k < length p" and "rev p ! k = c" by auto
  with i show ?thesis by (auto simp: rev_nth)
qed

lemma Dir_shorter:
  assumes "Dir p \<noteq> p"
  shows "dir_measure (Dir p) < dir_measure p"
proof (cases "LastIndexByte p slash")
  case None
  then have "Dir p = ''.''" by (simp add: Dir_def Clean_def)
  with assms show ?thesis by (auto simp: dir_measure_def)
next
  case (Some i)
  from LastIndexByte_Some [OF Some] have i: "i < length p" "p ! i = slash" by auto
  let ?q = "take (Suc i) p"
  have dir: "Dir p = Clean ?q" by (simp add: Dir_def Some)
  have "p \<noteq> ''.''" using i by (cases i) auto
  have q: "?q \<noteq> ''''" using i by auto
  have "length (Clean ?q) < length p"
  proof (cases "Suc i = length p")
    case True
    then have p: "p = take i p @ [slash]" using i by (metis take_Suc_conv_app_nth take_all order_refl)
    show ?thesis
    proof (cases "i = 0")
      case True
      with p have "p = ''/''" by simp
      moreover have "Dir ''/'' = ''/''" by code_simp
      ultimately show ?thesis using assms by simp
    next
      case False
      then have ne: "take i p \<noteq> ''''" using i by auto
      have "Clean ?q = Clean (take i p)"
        using Clean_trailing_slash [OF ne] p \<open>Suc i = length p\<close> by simp
      with length_Clean [OF ne] i show ?thesis by simp
    qed
  next
    case False
    with length_Clean [OF q] i show ?thesis by simp
  qed
  with dir \<open>p \<noteq> ''.''\<close> show ?thesis by (auto simp: dir_measure_def)
qed

end
