(* ===== verification/Sandbox.thy ===== *)
theory Sandbox
  imports GoPath
begin

text \<open>
  \<^verbatim>\<open>internal/permission/sandbox.go\<close> and the path helpers of \<^verbatim>\<open>config_policy.go\<close>: the directories
  a tool may touch. What the operating system answers is in a record: the platform name, the
  home directory, the working directory (\<open>None\<close> where \<^verbatim>\<open>os.Getwd\<close> fails) and
  \<^verbatim>\<open>filepath.EvalSymlinks\<close> (\<open>None\<close> where it fails). Paths are Unix paths.
\<close>

record os_env =
  goos :: string
  home_dir :: string
  getwd :: "string option"
  evalSymlinks :: "string \<Rightarrow> string option"

record PathSandbox =
  allowedDirs :: "string list"
  getwdFailed :: bool

section \<open>Path comparison\<close>

definition pathFoldActive :: "os_env \<Rightarrow> bool" where
  "pathFoldActive env \<longleftrightarrow> goos env = ''darwin'' \<or> goos env = ''windows''"

definition asciiEqualFold :: "string \<Rightarrow> string \<Rightarrow> bool" where
  "asciiEqualFold a b \<longleftrightarrow>
     (if length a \<noteq> length b then False else list_all2 (\<lambda>x y. lower_char x = lower_char y) a b)"

definition pathEqualFold :: "os_env \<Rightarrow> string \<Rightarrow> string \<Rightarrow> bool" where
  "pathEqualFold env a b = (if pathFoldActive env then asciiEqualFold a b else a = b)"

definition pathHasPrefixFold :: "os_env \<Rightarrow> string \<Rightarrow> string \<Rightarrow> bool" where
  "pathHasPrefixFold env s p \<longleftrightarrow> length s \<ge> length p \<and> pathEqualFold env (take (length p) s) p"

definition pathHasSuffixFold :: "os_env \<Rightarrow> string \<Rightarrow> string \<Rightarrow> bool" where
  "pathHasSuffixFold env s p \<longleftrightarrow>
     length s \<ge> length p \<and> pathEqualFold env (drop (length s - length p) s) p"

definition expandTilde :: "os_env \<Rightarrow> string \<Rightarrow> string" where
  "expandTilde env path =
     (if path = ''~'' then home_dir env
      else if HasPrefix path ''~/'' then JoinPath [home_dir env, drop 2 path]
      else path)"

section \<open>Resolving\<close>

function resolve_loop :: "os_env \<Rightarrow> string \<Rightarrow> string \<Rightarrow> string \<Rightarrow> string" where
  "resolve_loop env ab dir remaining =
     (case evalSymlinks env dir of
        Some r \<Rightarrow>
          (let resolved = Clean r in
           if remaining \<noteq> '''' then JoinPath [resolved, remaining] else resolved)
      | None \<Rightarrow>
          (let base = Base dir;
               remaining' = (if remaining = '''' then base else JoinPath [base, remaining]);
               parent = Dir dir
           in if parent = dir then ab else resolve_loop env ab parent remaining'))"
  by pat_completeness auto
termination
  by (relation "measure (\<lambda>(env, ab, dir, remaining). dir_measure dir)") (auto intro: Dir_shorter)

declare resolve_loop.simps [simp del]

definition resolvePath :: "os_env \<Rightarrow> string \<Rightarrow> string" where
  "resolvePath env path =
     (case Abs (getwd env) path of
        None \<Rightarrow> ''''
      | Some ab0 \<Rightarrow>
          (let ab = Clean ab0 in
           case evalSymlinks env ab of
             Some r \<Rightarrow> Clean r
           | None \<Rightarrow> resolve_loop env ab ab ''''))"

definition NewPathSandbox :: "os_env \<Rightarrow> string list \<Rightarrow> PathSandbox" where
  "NewPathSandbox env dirs =
     (let build = (\<lambda>ds. let normalized = filter (\<lambda>d. d \<noteq> '''') (map (resolvePath env) ds) in
                     if normalized = [] then \<lparr>allowedDirs = [], getwdFailed = True\<rparr>
                     else \<lparr>allowedDirs = normalized, getwdFailed = False\<rparr>)
      in if dirs = [] then
           (case getwd env of
              Some wd \<Rightarrow> build [wd]
            | None \<Rightarrow> \<lparr>allowedDirs = [], getwdFailed = True\<rparr>)
         else build dirs)"

definition sandbox_target :: "os_env \<Rightarrow> PathSandbox \<Rightarrow> string \<Rightarrow> string" where
  "sandbox_target env s path =
     (let p = expandTilde env path in
      if \<not> IsAbs p \<and> \<not> HasPrefix p ''/'' then JoinPath [hd (allowedDirs s), p] else p)"

definition Allowed :: "os_env \<Rightarrow> PathSandbox \<Rightarrow> string \<Rightarrow> bool" where
  "Allowed env s path =
     (if allowedDirs s = [] then (if getwdFailed s then False else True)
      else
        let resolved = resolvePath env (sandbox_target env s path) in
        if resolved = '''' then False
        else list_ex (\<lambda>dir. pathHasPrefixFold env resolved (dir @ ''/'') \<or> pathEqualFold env resolved dir)
               (allowedDirs s))"

definition newOptionalPathSandbox :: "os_env \<Rightarrow> string list \<Rightarrow> PathSandbox option" where
  "newOptionalPathSandbox env dirs = (if dirs = [] then None else Some (NewPathSandbox env dirs))"

section \<open>Resolved paths are absolute and clean\<close>

definition abs_clean :: "string \<Rightarrow> bool" where
  "abs_clean p \<longleftrightarrow> IsAbs p \<and> p = slash # Join (abs_segs p) [slash]"

text \<open>What the sandbox relies on: links of absolute paths resolve to absolute paths, and the
  working directory is absolute.\<close>

definition env_ok :: "os_env \<Rightarrow> bool" where
  "env_ok env \<longleftrightarrow> (\<forall>p r. IsAbs p \<longrightarrow> evalSymlinks env p = Some r \<longrightarrow> IsAbs r) \<and>
     (\<forall>d. getwd env = Some d \<longrightarrow> IsAbs d)"

lemma abs_clean_Clean: "IsAbs p \<Longrightarrow> abs_clean (Clean p)"
  unfolding abs_clean_def using IsAbs_Clean Clean_abs abs_segs_Clean by metis

lemma Clean_abs_clean: "abs_clean p \<Longrightarrow> Clean p = p"
  unfolding abs_clean_def using Clean_abs by metis

lemma abs_clean_IsAbs: "abs_clean p \<Longrightarrow> IsAbs p"
  by (simp add: abs_clean_def)

lemma IsAbs_ne: "IsAbs p \<Longrightarrow> p \<noteq> []"
  by (auto simp: IsAbs_def HasPrefix_def)

lemma IsAbs_append: "IsAbs p \<Longrightarrow> IsAbs (p @ q)"
  by (auto simp: IsAbs_def HasPrefix_def)

lemma abs_clean_JoinPath: "IsAbs d \<Longrightarrow> abs_clean (JoinPath [d, p])"
  using IsAbs_ne [of d] by (auto simp: JoinPath_def intro!: abs_clean_Clean IsAbs_append)

lemma IsAbs_Dir: "IsAbs p \<Longrightarrow> IsAbs (Dir p)"
proof -
  assume "IsAbs p"
  then obtain q where p: "p = slash # q" by (auto simp: IsAbs_def HasPrefix_def prefix_def)
  then have "LastIndexByte p slash \<noteq> None"
    by (auto simp: LastIndexByte_def IndexByte_def index_by_None)
  then obtain i where "LastIndexByte p slash = Some i" by blast
  with p show ?thesis
    by (auto simp: Dir_def IsAbs_def HasPrefix_def intro!: IsAbs_Clean [unfolded IsAbs_def HasPrefix_def])
qed

lemma resolve_loop_abs_clean:
  "env_ok env \<Longrightarrow> abs_clean ab \<Longrightarrow> IsAbs dir \<Longrightarrow> abs_clean (resolve_loop env ab dir rem)"
proof (induction env ab dir "rem" rule: resolve_loop.induct)
  case (1 env ab dir "rem")
  show ?case
  proof (cases "evalSymlinks env dir")
    case None
    with 1 IsAbs_Dir [of dir] show ?thesis by (subst resolve_loop.simps) (auto simp: Let_def)
  next
    case (Some r)
    with 1 have "IsAbs r" by (auto simp: env_ok_def)
    with Some show ?thesis
      by (subst resolve_loop.simps) (auto simp: Let_def intro!: abs_clean_JoinPath abs_clean_Clean IsAbs_Clean)
  qed
qed

lemma resolvePath_abs_clean:
  assumes "env_ok env" and "resolvePath env p \<noteq> ''''"
  shows "abs_clean (resolvePath env p)"
proof -
  from assms(2) obtain ab0 where ab0: "Abs (getwd env) p = Some ab0"
    by (cases "Abs (getwd env) p") (auto simp: resolvePath_def)
  then have "abs_clean ab0"
    using assms(1) by (auto simp: Abs_def env_ok_def intro: abs_clean_Clean abs_clean_JoinPath split: if_splits)
  then have "Clean ab0 = ab0" "IsAbs ab0" by (auto intro: Clean_abs_clean abs_clean_IsAbs)
  with ab0 \<open>abs_clean ab0\<close> assms(1) show ?thesis
    by (auto simp: resolvePath_def Let_def env_ok_def intro!: abs_clean_Clean resolve_loop_abs_clean
        split: option.splits)
qed

lemma NewPathSandbox_dirs:
  "env_ok env \<Longrightarrow> d \<in> set (allowedDirs (NewPathSandbox env dirs)) \<Longrightarrow> abs_clean d"
  by (auto simp: NewPathSandbox_def Let_def resolvePath_abs_clean split: if_splits option.splits)

section \<open>Containment\<close>

lemma prefix_take_iff: "length p \<le> length s \<and> take (length p) s = p \<longleftrightarrow> prefix p s"
  by (metis append_eq_conv_conj length_append le_add1 prefix_def)

lemma inside_iff:
  assumes "\<not> pathFoldActive env" and "abs_clean r" and "abs_clean d" and "d \<noteq> ''/''"
  shows "pathHasPrefixFold env r (d @ ''/'') \<or> pathEqualFold env r d \<longleftrightarrow> prefix (abs_segs d) (abs_segs r)"
proof -
  let ?xs = "abs_segs d" and ?ys = "abs_segs r"
  have d: "d = slash # Join ?xs [slash]" and r: "r = slash # Join ?ys [slash]"
    using assms(2,3) by (auto simp: abs_clean_def)
  with assms(4) have xs: "?xs \<noteq> []" by auto
  have pl: "list_all plain_seg ?xs" "list_all plain_seg ?ys" by (rule abs_segs_plain)+
  have pre: "prefix (d @ ''/'') r \<longleftrightarrow> prefix (Join ?xs [slash] @ [slash]) (Join ?ys [slash])"
    by (subst d, subst r) simp
  have "prefix (Join ?xs [slash] @ [slash]) (Join ?ys [slash]) \<longleftrightarrow> strict_prefix ?xs ?ys"
    using Join_prefix_segs [OF _ xs pl] segs_prefix_Join [OF _ xs] by blast
  moreover have "r = d \<longleftrightarrow> ?ys = ?xs" using d r by metis
  ultimately show ?thesis
    using assms(1) pre
    by (auto simp: pathHasPrefixFold_def pathEqualFold_def prefix_take_iff [symmetric] strict_prefix_def)
qed

text \<open>
  C18. On a case-sensitive platform the sandbox is component-wise containment after resolving:
  whatever dot segments, repeated separators or symbolic links a path uses, it is allowed
  exactly when the components of its resolved form extend those of an allowed directory. Sibling
  directories that share a textual prefix are outside.
\<close>

theorem sandbox_containment:
  assumes "env_ok env" and "\<not> pathFoldActive env"
    and "s = NewPathSandbox env dirs" and "allowedDirs s \<noteq> []" and "''/'' \<notin> set (allowedDirs s)"
    and "resolvePath env (sandbox_target env s path) = r" and "r \<noteq> ''''"
  shows "Allowed env s path \<longleftrightarrow> (\<exists>d \<in> set (allowedDirs s). prefix (abs_segs d) (abs_segs r))"
proof -
  have r: "abs_clean r" using resolvePath_abs_clean assms by metis
  have "pathHasPrefixFold env r (d @ ''/'') \<or> pathEqualFold env r d \<longleftrightarrow> prefix (abs_segs d) (abs_segs r)"
    if "d \<in> set (allowedDirs s)" for d
    using that assms by (intro inside_iff r) (auto intro: NewPathSandbox_dirs)
  then show ?thesis using assms by (auto simp: Allowed_def Let_def list_ex_iff)
qed

definition link_env :: os_env where
  "link_env = \<lparr>goos = ''linux'', home_dir = ''/home/u'', getwd = Some ''/work'',
     evalSymlinks = (\<lambda>p. if p = ''/work/link'' then Some ''/etc'' else if p = ''/work/link/passwd'' then
       Some ''/etc/passwd'' else Some p)\<rparr>"

lemma link_env_ok: "env_ok link_env"
  by (simp add: env_ok_def link_env_def IsAbs_def HasPrefix_def)

theorem sandbox_containment_witness:
  "Allowed link_env (NewPathSandbox link_env [''/work'']) ''src/../a.go'' \<and>
   \<not> Allowed link_env (NewPathSandbox link_env [''/work'']) ''link/passwd'' \<and>
   \<not> Allowed link_env (NewPathSandbox link_env [''/work'']) ''../workshop/a.go''"
proof -
  let ?s = "NewPathSandbox link_env [''/work'']"
  have h: "\<not> pathFoldActive link_env" "allowedDirs ?s \<noteq> []" "''/'' \<notin> set (allowedDirs ?s)" by code_simp+
  note eq = sandbox_containment [OF link_env_ok h(1) refl h(2,3) refl]
  have "Allowed link_env ?s ''src/../a.go''"
    by (subst eq, code_simp, code_simp)
  moreover have "\<not> Allowed link_env ?s ''link/passwd''"
    by (subst eq, code_simp, code_simp)
  moreover have "\<not> Allowed link_env ?s ''../workshop/a.go''"
    by (subst eq, code_simp, code_simp)
  ultimately show ?thesis by blast
qed

lemma plain_seg_not_slash: "plain_seg a \<Longrightarrow> \<not> prefix [slash] (a @ z)"
  by (cases a) (auto simp: plain_seg_def)

text \<open>
  A sandbox whose only directory is the root admits the root itself and nothing below it:
  the containment test appends a separator to the directory, and no clean path starts with two
  separators.
\<close>

theorem root_sandbox_admits_only_root:
  assumes "env_ok env" and "\<not> pathFoldActive env" and "allowedDirs s = [''/'']"
    and "resolvePath env (sandbox_target env s path) = r" and "r \<noteq> ''''"
  shows "Allowed env s path \<longleftrightarrow> r = ''/''"
proof -
  have r: "abs_clean r" using resolvePath_abs_clean assms by metis
  have "\<not> prefix ''//'' r"
  proof
    assume "prefix ''//'' r"
    moreover have "r = slash # Join (abs_segs r) [slash]" using r by (simp add: abs_clean_def)
    ultimately have "prefix ''/'' (Join (abs_segs r) [slash])" by (metis Cons_prefix_Cons)
    then show False
      using abs_segs_plain [of r]
      using plain_seg_not_slash [where z = "[]"] plain_seg_not_slash
      by (cases "abs_segs r") (auto simp: Join_Cons split: if_splits)
  qed
  then show ?thesis
    using assms
    by (auto simp: Allowed_def Let_def pathHasPrefixFold_def pathEqualFold_def prefix_take_iff [symmetric])
qed

theorem root_sandbox_admits_only_root_witness:
  "\<not> Allowed link_env (NewPathSandbox link_env [''/'']) ''/work/a.go''"
proof -
  have "\<not> pathFoldActive link_env" "allowedDirs (NewPathSandbox link_env [''/'']) = [''/'']"
    "resolvePath link_env (sandbox_target link_env (NewPathSandbox link_env [''/'']) ''/work/a.go'') = ''/work/a.go''"
    by code_simp+
  from root_sandbox_admits_only_root [OF link_env_ok this] show ?thesis by simp
qed

end
