(* ===== verification/ConfigPolicy.thy ===== *)
theory ConfigPolicy
  imports CmdRules Danger Network Sandbox
begin

text \<open>
  \<^verbatim>\<open>internal/permission/config_policy.go\<close>: the policy that decides whether a tool call runs, is
  refused or is put to the user. \<open>Check\<close> composes the per-tool rules, the command rules, the
  danger and network detectors, the redirect scanner and the sensitive-path test in the order
  of the code. The policy's locks are left out: every operation is one atomic step.
\<close>

record ConfigPolicy =
  p_rules :: "string \<Rightarrow> Decision option"
  p_sandbox :: PathSandbox
  p_readOnlySandbox :: "PathSandbox option"
  p_detector :: "dangerPattern list"
  p_mode :: PermissionMode
  p_cmdRules :: "CommandRuleSet option"
  p_networkDetector :: bool

definition NewConfigPolicyWithModeAndReadOnlyDirs ::
  "os_env \<Rightarrow> (string \<Rightarrow> Decision option) \<Rightarrow> string list \<Rightarrow> string list \<Rightarrow> PermissionMode \<Rightarrow> ConfigPolicy" where
  "NewConfigPolicyWithModeAndReadOnlyDirs env rls dirs roDirs m =
     \<lparr>p_rules = rls, p_sandbox = NewPathSandbox env dirs,
      p_readOnlySandbox = newOptionalPathSandbox env roDirs,
      p_detector = NewDangerousDetector, p_mode = m,
      p_cmdRules = Some NewCommandRuleSet, p_networkDetector = True\<rparr>"

definition NewConfigPolicyWithMode ::
  "os_env \<Rightarrow> (string \<Rightarrow> Decision option) \<Rightarrow> string list \<Rightarrow> PermissionMode \<Rightarrow> ConfigPolicy" where
  "NewConfigPolicyWithMode env rls dirs m = NewConfigPolicyWithModeAndReadOnlyDirs env rls dirs [] m"

definition NewConfigPolicy :: "os_env \<Rightarrow> (string \<Rightarrow> Decision option) \<Rightarrow> string list \<Rightarrow> ConfigPolicy" where
  "NewConfigPolicy env rls dirs = NewConfigPolicyWithMode env rls dirs SupervisedMode"

section \<open>Sensitive paths\<close>

definition sensitiveFiles :: "string list" where
  "sensitiveFiles =
     [''.bashrc'', ''.bash_profile'', ''.zshrc'', ''.zprofile'', ''.profile'',
      ''.ssh/config'', ''.ssh/authorized_keys'', ''.ssh/id_rsa'', ''.ssh/id_ed25519'',
      ''.gitconfig'', ''.gnupg'',
      ''.aws/credentials'', ''.aws/config'',
      ''.docker/config.json'',
      ''.npmrc'', ''.pypirc'', ''.netrc'',
      ''keys.env'', ''.env'']"

definition sensitivePrefixes :: "string list" where
  "sensitivePrefixes =
     [''/etc/'',
      ''/var/spool/cron/'', ''/var/cron/tabs/'', ''/etc/cron'',
      ''/Library/LaunchAgents/'', ''/Library/LaunchDaemons/'',
      ''/System/Library/LaunchAgents/'', ''/System/Library/LaunchDaemons/'',
      ''/usr/lib/systemd/system/'', ''/etc/systemd/'',
      ''/windows/system32/tasks/'', ''/windows/tasks/'']"

definition home_dotfile :: "os_env \<Rightarrow> string \<Rightarrow> bool" where
  "home_dotfile env path \<longleftrightarrow>
     (let home = home_dir env in
      if home \<noteq> '''' \<and> pathHasPrefixFold env path (home @ ''/'') then
        (let rest = drop (length home + 1) path in
         \<not> Contains rest ''/'' \<and> HasPrefix rest ''.'' \<and> length rest > 1)
      else False)"

definition isSensitivePath :: "os_env \<Rightarrow> string \<Rightarrow> bool" where
  "isSensitivePath env path0 \<longleftrightarrow>
     (let path = Clean path0; base = Base path; lowerBase = ToLower base; home = home_dir env in
      list_ex (pathHasSuffixFold env path) sensitiveFiles \<or>
      (pathEqualFold env base ''.env'' \<or> pathHasPrefixFold env base ''.env.'') \<or>
      (Contains lowerBase ''credential'' \<or> Contains lowerBase ''id_rsa'' \<or> Contains lowerBase ''id_ed25519'') \<or>
      home_dotfile env path \<or>
      (if \<not> pathFoldActive env then list_ex (HasPrefix path) sensitivePrefixes
       else list_ex (pathHasPrefixFold env path) sensitivePrefixes) \<or>
      (home \<noteq> '''' \<and> (pathHasPrefixFold env path (home @ ''/Library/LaunchAgents/'') \<or>
                      pathHasPrefixFold env path (home @ ''/Library/LaunchDaemons/''))))"

section \<open>Tool classes\<close>

definition isFileTool :: "string \<Rightarrow> bool" where
  "isFileTool name \<longleftrightarrow> name \<in> set [''read_file'', ''multi_file_read'', ''write_file'', ''edit_file'',
     ''multi_edit_file'', ''multi_file_edit'', ''multi_file_write'', ''notebook_edit'',
     ''list_directory'', ''search_files'', ''glob'', ''code_search'']"

definition isReadOnlyFileTool :: "string \<Rightarrow> bool" where
  "isReadOnlyFileTool name = IsReadOnlyTool name"

definition isWriteFileTool :: "string \<Rightarrow> bool" where
  "isWriteFileTool name \<longleftrightarrow> name \<in> set [''write_file'', ''edit_file'', ''multi_edit_file'',
     ''multi_file_edit'', ''multi_file_write'', ''notebook_edit'', ''file_ops'', ''batch_replace'']"

definition isCommandTool :: "string \<Rightarrow> bool" where
  "isCommandTool name = list_ex (EqualFold name)
     [''run_command'', ''start_command'', ''bash'', ''powershell'', ''tmux'', ''ghostty'', ''warp'',
      ''kitty'', ''iterm2'']"

definition isTerminalTool :: "string \<Rightarrow> bool" where
  "isTerminalTool name \<longleftrightarrow> name \<in> set [''tmux'', ''ghostty'', ''warp'', ''kitty'', ''iterm2'']"

definition isWebEgressTool :: "string \<Rightarrow> bool" where
  "isWebEgressTool name \<longleftrightarrow> name \<in> set [''web_fetch'', ''web_search'',
     ''mcp__web_reader__webReader'', ''mcp__web-search-prime__web_search_prime'']"

section \<open>Reading the arguments of a call\<close>

definition str_field :: "raw_map \<Rightarrow> string \<Rightarrow> string option" where
  "str_field m k = Option.bind (m k) unmarshal_string"

definition nonempty_str :: "raw_map \<Rightarrow> string \<Rightarrow> string list" where
  "nonempty_str m k = (case str_field m k of None \<Rightarrow> [] | Some s \<Rightarrow> (if s \<noteq> '''' then [s] else []))"

fun first_str :: "raw_map \<Rightarrow> string list \<Rightarrow> string list" where
  "first_str m [] = []"
| "first_str m (k # ks) = (case str_field m k of Some s \<Rightarrow> [s] | None \<Rightarrow> first_str m ks)"

definition extractFilePaths :: "raw_message \<Rightarrow> string list" where
  "extractFilePaths input =
     (case unmarshal_map input of
        None \<Rightarrow> []
      | Some m \<Rightarrow>
          first_str m [''file_path'', ''path'', ''directory'', ''notebook_path''] @
          (case m ''files'' of
             None \<Rightarrow> []
           | Some v \<Rightarrow>
               (case unmarshal_map_list v of
                  Some files \<Rightarrow> concat (map (\<lambda>f. nonempty_str f ''path'') files)
                | None \<Rightarrow> (case unmarshal_string_list v of Some fs \<Rightarrow> fs | None \<Rightarrow> []))) @
          (case m ''operations'' of
             None \<Rightarrow> []
           | Some v \<Rightarrow>
               (case unmarshal_map_list v of
                  Some ops \<Rightarrow> concat (map (\<lambda>q. nonempty_str q ''source'' @ nonempty_str q ''destination'') ops)
                | None \<Rightarrow> [])))"

definition extractCommandsForTool :: "string \<Rightarrow> raw_message \<Rightarrow> string list" where
  "extractCommandsForTool tool input =
     (case unmarshal_map input of
        None \<Rightarrow> []
      | Some m \<Rightarrow>
          concat (map (nonempty_str m)
            ([''command'', ''input''] @ (if isTerminalTool tool then [''text''] else []))))"

definition extractCommand :: "raw_message \<Rightarrow> string \<times> bool" where
  "extractCommand input =
     (case unmarshal_map input of
        None \<Rightarrow> ('''', False)
      | Some m \<Rightarrow>
          (case str_field m ''command'' of
             Some s \<Rightarrow> (s, True)
           | None \<Rightarrow> (case str_field m ''input'' of Some s \<Rightarrow> (s, True) | None \<Rightarrow> ('''', False))))"

definition switchModeEscalates :: "raw_message \<Rightarrow> bool" where
  "switchModeEscalates input \<longleftrightarrow>
     (let m = ToLower (TrimSpace (fst (unmarshal_struct ''mode'' input))) in m = ''bypass'' \<or> m = ''autopilot'')"

definition imActionIsBenign :: "raw_message \<Rightarrow> bool" where
  "imActionIsBenign input \<longleftrightarrow>
     (case unmarshal_struct ''action'' input of
        (a, ok) \<Rightarrow> ok \<and> a \<in> set [''status'', ''mute'', ''unmute'', ''enable'', ''disable''])"

section \<open>Credential uploads\<close>

definition isAlnumByte :: "char \<Rightarrow> bool" where
  "isAlnumByte b \<longleftrightarrow> is_lower b \<or> is_upper b \<or> is_digit b"

text \<open>\<open>before\<close> is the byte left of the scanned suffix, a blank at the start of the command.\<close>

fun env_scan :: "char \<Rightarrow> string \<Rightarrow> bool" where
  "env_scan before [] = False"
| "env_scan before (c # s) =
     (if prefix ''.env'' (c # s) then
        (let after = drop 4 (c # s) in
         if after = [] then True
         else if hd after = CHR ''['' then env_scan c s
         else if hd after = CHR ''.'' \<and> HasPrefix (c # s) ''.env.example'' then env_scan c s
         else if before = CHR '']'' \<or> before = CHR ''_'' \<or> isAlnumByte before then env_scan c s
         else True)
      else env_scan c s)"

definition matchesEnvPath :: "string \<Rightarrow> bool" where
  "matchesEnvPath cmd = env_scan (CHR '' '') cmd"

definition credentialPayloadExfil :: "string \<Rightarrow> bool" where
  "credentialPayloadExfil cmd =
     (if \<not> IsNetworkExfiltrate cmd then False
      else if list_ex (Contains cmd)
        [''~/.ssh/'', ''.ssh/id'', ''~/.aws/'', ''.aws/credentials'',
         ''~/.gnupg/'', ''/etc/shadow'', ''/etc/passwd'', ''credentials.json''] then True
      else matchesEnvPath cmd)"

definition exfilPayloadMarkers :: "string list" where
  "exfilPayloadMarkers =
     [''id_rsa'', ''id_ed25519'', ''authorized_keys'', ''known_hosts'',
      ''.aws/credentials'', ''credentials.json'', ''keys.env'', ''.netrc'',
      ''.npmrc'', ''.pypirc'', ''.ssh/'',
      ''begin rsa private key'', ''begin ec private key'', ''begin openssh private key'',
      ''begin private key'', ''begin dsa private key'',
      ''ghp_'', ''gho_'', ''ghu_'', ''ghs_'', ''github_pat_'', ''sk-ant-api'',
      ''xoxb-'', ''xoxp-'', ''xapp-'', ''akia'']"

definition raw_keys :: "raw_message \<Rightarrow> string list" where
  "raw_keys input = (case input of Some (JObj kvs) \<Rightarrow> map fst kvs | _ \<Rightarrow> [])"

definition hasDataEgressSignature :: "raw_message \<Rightarrow> bool" where
  "hasDataEgressSignature input =
     (case unmarshal_map input of
        None \<Rightarrow> False
      | Some m \<Rightarrow>
          list_ex (\<lambda>k. case str_field m k of
                         None \<Rightarrow> False
                       | Some s \<Rightarrow>
                           s \<noteq> '''' \<and>
                           (let lower = map (\<lambda>c. if c = CHR ''+'' then CHR '' '' else c) (ToLower s) in
                            list_ex (Contains lower) exfilPayloadMarkers))
            (raw_keys input))"

section \<open>Redirections\<close>

definition isAbsolutePathish :: "string \<Rightarrow> bool" where
  "isAbsolutePathish tok \<longleftrightarrow> HasPrefix tok ''/'' \<or> HasPrefix tok ''~''"

definition is_quote :: "char \<Rightarrow> bool" where
  "is_quote c \<longleftrightarrow> c = CHR 0x27 \<or> c = CHR 0x22"

definition trimQuoteRunes :: "string \<Rightarrow> string" where
  "trimQuoteRunes tok = trim_right_by is_quote (trim_left_by is_quote tok)"

definition isRedirectDelim :: "char \<Rightarrow> bool" where
  "isRedirectDelim c \<longleftrightarrow>
     c \<in> set [CHR '' '', CHR 0x09, CHR 0x0A, CHR 0x0D, CHR '';'', CHR ''|'', CHR ''&'', CHR ''('',
       CHR '')'', CHR ''<'', CHR ''>'']"

definition unquoteToken :: "string \<Rightarrow> string" where
  "unquoteToken tok =
     (if length tok \<ge> 2 \<and>
         ((hd tok = CHR 0x22 \<and> last tok = CHR 0x22) \<or> (hd tok = CHR 0x27 \<and> last tok = CHR 0x27))
      then butlast (tl tok) else tok)"

definition isDevSink :: "string \<Rightarrow> bool" where
  "isDevSink path \<longleftrightarrow>
     path \<in> set [''/dev/null'', ''/dev/stdout'', ''/dev/stderr'', ''/dev/tty'', ''/dev/zero'']"

text \<open>\<open>scanRedirectToken\<close> takes the text after the operator.\<close>

definition scanRedirectToken :: "string \<Rightarrow> string" where
  "scanRedirectToken rest =
     (let body = dropWhile (\<lambda>c. c = CHR '' '' \<or> c = CHR 0x09) rest;
          word = takeWhile (\<lambda>c. \<not> isRedirectDelim c) body in
      if word = '''' then ''''
      else let tok = unquoteToken word in
        if tok = '''' then ''''
        else if hd tok \<in> set ''&()|'' then ''''
        else if isDevSink tok then ''''
        else tok)"

function redirect_loop :: "char option \<Rightarrow> string \<Rightarrow> string list" where
  "redirect_loop quote [] = []"
| "redirect_loop quote (c # s) =
     (let run = takeWhile (\<lambda>x. x = CHR ''>'') (c # s); rest = dropWhile (\<lambda>x. x = CHR ''>'') (c # s) in
      case quote of
        Some q \<Rightarrow>
          (if c = q then redirect_loop None s
           else if c = CHR ''>'' \<and> q = CHR 0x27 then
             (let tok = scanRedirectToken rest in
              if length run \<le> 2 \<and> isAbsolutePathish tok
              then trimQuoteRunes tok # redirect_loop quote rest
              else redirect_loop quote rest)
           else redirect_loop quote s)
      | None \<Rightarrow>
          if is_quote c then redirect_loop (Some c) s
          else if c \<noteq> CHR ''>'' then redirect_loop None s
          else if length run > 2 then redirect_loop None rest
          else
            (let tok = scanRedirectToken rest in
             if tok \<noteq> '''' then tok # redirect_loop None rest else redirect_loop None rest))"
  by pat_completeness auto
termination
  by (relation "measure (\<lambda>(quote, s). length s)") (auto simp: le_imp_less_Suc length_dropWhile_le)

definition extractRedirectTargets :: "string \<Rightarrow> string list" where
  "extractRedirectTargets cmd = redirect_loop None cmd"

section \<open>The policy's operations\<close>

definition AllowedPath :: "os_env \<Rightarrow> ConfigPolicy \<Rightarrow> string \<Rightarrow> bool" where
  "AllowedPath env p path =
     (if Allowed env (p_sandbox p) path then True
      else (case p_readOnlySandbox p of None \<Rightarrow> False | Some s \<Rightarrow> Allowed env s path))"

definition AllowedPathForTool :: "os_env \<Rightarrow> ConfigPolicy \<Rightarrow> string \<Rightarrow> string \<Rightarrow> bool" where
  "AllowedPathForTool env p tool path =
     (if Allowed env (p_sandbox p) path then True
      else if p_mode p \<noteq> PlanMode then True
      else if isReadOnlyFileTool tool then True
      else False)"

definition checkPlanReadOnlyExceptions :: "os_env \<Rightarrow> ConfigPolicy \<Rightarrow> string \<Rightarrow> raw_message \<Rightarrow> Decision" where
  "checkPlanReadOnlyExceptions env p tool input =
     (if isFileTool tool \<and>
         list_ex (\<lambda>path. path \<noteq> '''' \<and>
             (let resolved = expandTilde env path in
              \<not> AllowedPath env p resolved \<and>
              \<not> Allowed env (p_sandbox p) resolved \<and> isSensitivePath env resolved))
           (extractFilePaths input)
      then Deny
      else if isWebEgressTool tool \<and> hasDataEgressSignature input then Deny
      else Allow)"

definition BlocksAutoApprove :: "ConfigPolicy \<Rightarrow> string \<Rightarrow> raw_message \<Rightarrow> bool" where
  "BlocksAutoApprove p tool input =
     (isCommandTool tool \<and>
      list_ex (\<lambda>cmd. IsDangerous (p_detector p) cmd \<or> IsNetworkExfiltrate cmd)
        (extractCommandsForTool tool input))"

definition cmd_rule_hit :: "ConfigPolicy \<Rightarrow> Decision \<Rightarrow> string \<Rightarrow> raw_message \<Rightarrow> bool" where
  "cmd_rule_hit p d tool input =
     list_ex (\<lambda>cmd. CommandRuleSet_Check (p_cmdRules p) cmd = (d, True)) (extractCommandsForTool tool input)"

text \<open>The floor of the supervised and bypass modes.\<close>

definition cmd_floor :: "os_env \<Rightarrow> ConfigPolicy \<Rightarrow> string \<Rightarrow> bool" where
  "cmd_floor env p cmd \<longleftrightarrow>
     IsExtremelyDangerous (p_detector p) cmd \<or>
     (p_networkDetector p \<and> credentialPayloadExfil cmd) \<or>
     list_ex (\<lambda>tgt. isSensitivePath env (expandTilde env tgt)) (extractRedirectTargets cmd)"

definition plan_cmd_floor :: "os_env \<Rightarrow> ConfigPolicy \<Rightarrow> string \<Rightarrow> bool" where
  "plan_cmd_floor env p cmd \<longleftrightarrow>
     IsExtremelyDangerous (p_detector p) cmd \<or>
     (p_networkDetector p \<and> IsNetworkExfiltrate cmd) \<or>
     list_ex (\<lambda>tgt. let resolved = expandTilde env tgt in
                 \<not> Allowed env (p_sandbox p) resolved \<or> isSensitivePath env resolved)
       (extractRedirectTargets cmd)"

definition write_floor :: "os_env \<Rightarrow> raw_message \<Rightarrow> bool" where
  "write_floor env input =
     list_ex (\<lambda>path. path \<noteq> '''' \<and> isSensitivePath env (expandTilde env path)) (extractFilePaths input)"

definition check_bypass :: "os_env \<Rightarrow> ConfigPolicy \<Rightarrow> string \<Rightarrow> raw_message \<Rightarrow> Decision" where
  "check_bypass env p tool input =
     (if isCommandTool tool \<and> list_ex (cmd_floor env p) (extractCommandsForTool tool input) then Ask
      else if isWriteFileTool tool \<and> write_floor env input then Ask
      else Allow)"

definition check_plan :: "os_env \<Rightarrow> ConfigPolicy \<Rightarrow> string \<Rightarrow> raw_message \<Rightarrow> Decision" where
  "check_plan env p tool input =
     (if tool = ''enter_plan_mode'' then Allow
      else if tool = ''exit_plan_mode'' then Allow
      else if isWriteFileTool tool then Deny
      else if checkPlanReadOnlyExceptions env p tool input \<noteq> Allow
      then checkPlanReadOnlyExceptions env p tool input
      else if HasPrefix tool ''mcp__'' \<and> \<not> IsReadOnlyTool tool then Deny
      else if isCommandTool tool \<and> list_ex (plan_cmd_floor env p) (extractCommandsForTool tool input) then Ask
      else Allow)"

definition check_supervised :: "os_env \<Rightarrow> ConfigPolicy \<Rightarrow> string \<Rightarrow> raw_message \<Rightarrow> Decision" where
  "check_supervised env p tool input =
     (if isCommandTool tool \<and> list_ex (cmd_floor env p) (extractCommandsForTool tool input) then Ask
      else if isWriteFileTool tool \<and> write_floor env input then Ask
      else (case p_rules p tool of Some d \<Rightarrow> d | None \<Rightarrow> Allow))"

definition Check :: "os_env \<Rightarrow> ConfigPolicy \<Rightarrow> string \<Rightarrow> raw_message \<Rightarrow> Decision" where
  "Check env p tool input =
     (if p_rules p tool = Some Deny then Deny
      else if p_rules p tool = Some Ask then Ask
      else if IsAlwaysAllowedTool tool
      then (if tool = ''switch_mode'' \<and> switchModeEscalates input then Ask else Allow)
      else if tool = ''im'' \<and> imActionIsBenign input then Allow
      else if tool \<in> set [''ask_user'', ''save_memory'', ''delete_memory'', ''memory'', ''recall_experience'']
      then Allow
      else if isCommandTool tool \<and> cmd_rule_hit p Deny tool input then Deny
      else if p_rules p tool = Some Deny then Deny
      else if p_rules p tool = Some Ask then Ask
      else if isCommandTool tool \<and> cmd_rule_hit p Ask tool input then Ask
      else (case p_mode p of
              BypassMode \<Rightarrow> check_bypass env p tool input
            | AutopilotMode \<Rightarrow> check_bypass env p tool input
            | PlanMode \<Rightarrow> check_plan env p tool input
            | AutoMode \<Rightarrow> check_supervised env p tool input
            | SupervisedMode \<Rightarrow> check_supervised env p tool input))"

definition SetOverride :: "string \<Rightarrow> Decision \<Rightarrow> ConfigPolicy \<Rightarrow> ConfigPolicy" where
  "SetOverride tool d p = p\<lparr>p_rules := (p_rules p)(tool \<mapsto> d)\<rparr>"

definition ClearOverride :: "string \<Rightarrow> ConfigPolicy \<Rightarrow> ConfigPolicy" where
  "ClearOverride tool p = p\<lparr>p_rules := (p_rules p)(tool := None)\<rparr>"

definition SetMode :: "PermissionMode \<Rightarrow> ConfigPolicy \<Rightarrow> ConfigPolicy" where
  "SetMode m p = p\<lparr>p_mode := m\<rparr>"

definition GetDecision :: "ConfigPolicy \<Rightarrow> string \<Rightarrow> Decision" where
  "GetDecision p tool = (case p_rules p tool of Some d \<Rightarrow> d | None \<Rightarrow> Ask)"

definition SetCommandRuleSet :: "CommandRuleSet option \<Rightarrow> ConfigPolicy \<Rightarrow> ConfigPolicy" where
  "SetCommandRuleSet rs p = p\<lparr>p_cmdRules := rs\<rparr>"

definition AllowCommandPattern :: "string \<Rightarrow> ConfigPolicy \<Rightarrow> ConfigPolicy" where
  "AllowCommandPattern pat p = p\<lparr>p_cmdRules := AddAllowPattern pat (p_cmdRules p)\<rparr>"

section \<open>Tool classes are disjoint\<close>

lemma EqualFold_lower: "EqualFold s t \<Longrightarrow> ToLower s = ToLower t"
  by (simp add: EqualFold_def)

lemma isCommandTool_lower:
  "isCommandTool t \<Longrightarrow> ToLower t \<in> set [''run_command'', ''start_command'', ''bash'', ''powershell'',
     ''tmux'', ''ghostty'', ''warp'', ''kitty'', ''iterm2'']"
  by (simp add: isCommandTool_def EqualFold_def lower_char_def is_upper_def in_range_def byte_val_def)

lemma command_tool_plain:
  assumes "isCommandTool tool"
  shows "\<not> IsAlwaysAllowedTool tool" and "tool \<noteq> ''im''" and "\<not> isWriteFileTool tool"
    and "tool \<notin> set [''ask_user'', ''save_memory'', ''delete_memory'', ''memory'', ''recall_experience'']"
    and "tool \<noteq> ''enter_plan_mode''" and "tool \<noteq> ''exit_plan_mode''"
    and "\<not> isFileTool tool" and "\<not> isWebEgressTool tool"
  using isCommandTool_lower [OF assms]
  by (auto simp: IsAlwaysAllowedTool_def isWriteFileTool_def isFileTool_def isWebEgressTool_def
      lower_char_def is_upper_def in_range_def byte_val_def)

lemma write_tool_plain:
  assumes "isWriteFileTool tool"
  shows "\<not> IsAlwaysAllowedTool tool" and "tool \<noteq> ''im''" and "\<not> isCommandTool tool"
    and "tool \<notin> set [''ask_user'', ''save_memory'', ''delete_memory'', ''memory'', ''recall_experience'']"
    and "tool \<noteq> ''enter_plan_mode''" and "tool \<noteq> ''exit_plan_mode''"
proof -
  show "\<not> isCommandTool tool" using assms command_tool_plain(3) by blast
qed (use assms in \<open>auto simp: isWriteFileTool_def IsAlwaysAllowedTool_def\<close>)

lemma mcp_tool_plain:
  assumes "HasPrefix tool ''mcp__''"
  shows "\<not> IsAlwaysAllowedTool tool" and "tool \<noteq> ''im''" and "\<not> isWriteFileTool tool"
    and "tool \<notin> set [''ask_user'', ''save_memory'', ''delete_memory'', ''memory'', ''recall_experience'']"
    and "tool \<noteq> ''enter_plan_mode''" and "tool \<noteq> ''exit_plan_mode''"
  using assms by (auto simp: IsAlwaysAllowedTool_def isWriteFileTool_def HasPrefix_def)

section \<open>Safety floors\<close>

lemma credential_is_exfil: "credentialPayloadExfil cmd \<Longrightarrow> IsNetworkExfiltrate cmd"
  by (auto simp: credentialPayloadExfil_def split: if_splits)

lemma plan_floor_wider: "cmd_floor env p cmd \<Longrightarrow> plan_cmd_floor env p cmd"
  by (auto simp: cmd_floor_def plan_cmd_floor_def list_ex_iff credential_is_exfil Let_def)

lemma plan_exceptions_command:
  "isCommandTool tool \<Longrightarrow> checkPlanReadOnlyExceptions env p tool input = Allow"
  by (simp add: checkPlanReadOnlyExceptions_def command_tool_plain)

lemma floor_not_allowed:
  assumes "isCommandTool tool" and "cmd \<in> set (extractCommandsForTool tool input)"
    and "cmd_floor env p cmd"
  shows "Check env p tool input \<in> {Ask, Deny}"
proof -
  have "list_ex (cmd_floor env p) (extractCommandsForTool tool input)"
    and "list_ex (plan_cmd_floor env p) (extractCommandsForTool tool input)"
    using assms(2,3) plan_floor_wider by (auto simp: list_ex_iff)
  with command_tool_plain [OF assms(1)] assms(1) plan_exceptions_command [OF assms(1)] show ?thesis
    by (auto simp: Check_def check_bypass_def check_plan_def check_supervised_def
        split: PermissionMode.splits)
qed

text \<open>
  C2. Three floors hold in every mode and against every rule that is not a refusal: a shell call
  with a command that is extremely dangerous, uploads a credential, or redirects output into a
  sensitive path is never allowed outright. An explicit allow rule for the tool does not help.
\<close>

theorem command_floor_never_allowed:
  assumes "isCommandTool tool" and "cmd \<in> set (extractCommandsForTool tool input)"
    and "cmd_floor env p cmd"
  shows "Check env p tool input \<in> {Ask, Deny}"
  using assms by (rule floor_not_allowed)

lemma mkfs_extreme: "IsExtremelyDangerous NewDangerousDetector ''mkfs /dev/sda''"
proof -
  have "\<exists>q \<in> set danger_table_1. dp_level q = DangerCritical \<and> rx_src (dp_re q) = ''(?i)'' @ [CHR 0x5C] @ ''bmkfs'' @ [CHR 0x5C] @ ''b''
      \<and> rx_ast (dp_re q) = seqs [wb, lit ''mkfs'', wb] \<and> rx_fold (dp_re q)"
    by (simp add: danger_table_1_def dp_def)
  then obtain q where q: "q \<in> set NewDangerousDetector" "dp_level q = DangerCritical"
    "rx_ast (dp_re q) = seqs [wb, lit ''mkfs'', wb]" "rx_fold (dp_re q)"
    by (auto simp: NewDangerousDetector_def)
  have "rx_MatchString \<lparr>rx_src = '''', rx_fold = True, rx_ast = seqs [wb, lit ''mkfs'', wb]\<rparr> ''mkfs /dev/sda''"
    by code_simp
  then have "rx_MatchString (dp_re q) ''mkfs /dev/sda''" using q by (simp add: rx_MatchString_def)
  moreover have "TrimSpace ''mkfs /dev/sda'' = ''mkfs /dev/sda''" by code_simp
  ultimately have m: "rx_MatchString (dp_re q) (TrimSpace ''mkfs /dev/sda'')" by (simp only:)
  have "DangerCritical \<le> dp_level q" using q(2) by simp
  with q(1) m have "\<exists>q \<in> set NewDangerousDetector. DangerCritical \<le> dp_level q \<and>
      rx_MatchString (dp_re q) (TrimSpace ''mkfs /dev/sda'')" by blast
  then show ?thesis unfolding IsExtremelyDangerous_def Check_Level_iff by blast
qed

definition demo_env :: os_env where
  "demo_env = \<lparr>goos = ''linux'', home_dir = ''/home/u'', getwd = Some ''/work'', evalSymlinks = Some\<rparr>"

definition demo_policy :: "PermissionMode \<Rightarrow> ConfigPolicy" where
  "demo_policy m = NewConfigPolicyWithMode demo_env [''run_command'' \<mapsto> Allow, ''write_file'' \<mapsto> Allow] [''/work''] m"

definition cmd_input :: "string \<Rightarrow> raw_message" where
  "cmd_input c = Some (JObj [(''command'', JStr c)])"

theorem command_floor_never_allowed_witness:
  "Check demo_env (demo_policy BypassMode) ''run_command'' (cmd_input ''mkfs /dev/sda'') \<in> {Ask, Deny}"
proof (rule command_floor_never_allowed)
  show "isCommandTool ''run_command''" by code_simp
  show "''mkfs /dev/sda'' \<in> set (extractCommandsForTool ''run_command'' (cmd_input ''mkfs /dev/sda''))"
    by code_simp
  show "cmd_floor demo_env (demo_policy BypassMode) ''mkfs /dev/sda''"
    by (simp add: cmd_floor_def demo_policy_def NewConfigPolicyWithMode_def
        NewConfigPolicyWithModeAndReadOnlyDirs_def mkfs_extreme)
qed


definition file_input :: "string \<Rightarrow> raw_message" where
  "file_input f = Some (JObj [(''files'', JArr [JObj [(''path'', JStr f)]])])"


text \<open>
  Plan mode changes nothing: a file-writing tool and an MCP tool that is not on the
  read-only list are never allowed there.
\<close>

theorem plan_mode_no_writes:
  assumes "p_mode p = PlanMode"
    and "isWriteFileTool tool \<or> (HasPrefix tool ''mcp__'' \<and> \<not> IsReadOnlyTool tool)"
  shows "Check env p tool input \<in> {Ask, Deny}"
  using assms(2)
proof
  assume "isWriteFileTool tool"
  with write_tool_plain [OF this] assms(1) show ?thesis by (auto simp: Check_def check_plan_def)
next
  assume m: "HasPrefix tool ''mcp__'' \<and> \<not> IsReadOnlyTool tool"
  have "checkPlanReadOnlyExceptions env p tool input \<in> {Allow, Deny}"
    by (simp add: checkPlanReadOnlyExceptions_def)
  with mcp_tool_plain [of tool] m assms(1) show ?thesis by (auto simp: Check_def check_plan_def)
qed

theorem plan_mode_no_writes_witness:
  "Check demo_env (demo_policy PlanMode) ''mcp__fs__delete'' None \<in> {Ask, Deny}"
proof (rule plan_mode_no_writes)
  show "p_mode (demo_policy PlanMode) = PlanMode"
    by (simp add: demo_policy_def NewConfigPolicyWithMode_def NewConfigPolicyWithModeAndReadOnlyDirs_def)
  show "isWriteFileTool ''mcp__fs__delete'' \<or> HasPrefix ''mcp__fs__delete'' ''mcp__'' \<and> \<not> IsReadOnlyTool ''mcp__fs__delete''"
    by code_simp
qed

text \<open>
  Outside plan mode the path sandbox plays no part in the decision: exchanging the
  writable and the read-only sandbox leaves every answer of \<open>Check\<close> and \<open>AllowedPathForTool\<close> as it was.
\<close>

theorem sandbox_ignored_outside_plan:
  assumes "p_mode p \<noteq> PlanMode"
  shows "Check env (p\<lparr>p_sandbox := s, p_readOnlySandbox := ro\<rparr>) tool input = Check env p tool input \<and>
         AllowedPathForTool env p tool path"
  using assms
  by (cases "p_mode p")
     (simp_all add: Check_def check_bypass_def check_supervised_def cmd_floor_def [abs_def]
       cmd_rule_hit_def AllowedPathForTool_def)

theorem sandbox_ignored_outside_plan_witness:
  "Check demo_env ((demo_policy SupervisedMode)\<lparr>p_sandbox := \<lparr>allowedDirs = [], getwdFailed = True\<rparr>, p_readOnlySandbox := None\<rparr>)
      ''write_file'' (file_input ''/opt/x'') = Check demo_env (demo_policy SupervisedMode) ''write_file'' (file_input ''/opt/x'')"
  using sandbox_ignored_outside_plan [where p = "demo_policy SupervisedMode" and env = demo_env and ro = None
      and s = "\<lparr>allowedDirs = [], getwdFailed = True\<rparr>" and tool = "''write_file''"
      and input = "file_input ''/opt/x''" and path = "''''"]
  by (simp add: demo_policy_def NewConfigPolicyWithMode_def NewConfigPolicyWithModeAndReadOnlyDirs_def)

text \<open>
  Supervised and bypass agree on every tool without a rule of its own, whatever the call;
  and a call to \<open>switch_mode\<close> that asks for bypass is never allowed without the user, from any mode.
\<close>

theorem supervised_is_bypass_without_rule:
  "(p_rules p tool = None \<longrightarrow>
     Check env (p\<lparr>p_mode := SupervisedMode\<rparr>) tool input = Check env (p\<lparr>p_mode := BypassMode\<rparr>) tool input) \<and>
   (switchModeEscalates esc \<longrightarrow> Check env p ''switch_mode'' esc \<in> {Ask, Deny})"
  by (auto simp: Check_def check_bypass_def check_supervised_def cmd_floor_def [abs_def] cmd_rule_hit_def
      IsAlwaysAllowedTool_def)

theorem supervised_is_bypass_without_rule_witness:
  "Check demo_env ((demo_policy PlanMode)\<lparr>p_mode := SupervisedMode\<rparr>) ''bash'' (cmd_input ''ls'') =
     Check demo_env ((demo_policy PlanMode)\<lparr>p_mode := BypassMode\<rparr>) ''bash'' (cmd_input ''ls'') \<and>
   Check demo_env (demo_policy PlanMode) ''switch_mode'' (Some (JObj [(''Mode'', JStr '' ByPass '')])) \<in> {Ask, Deny}"
proof -
  have "p_rules (demo_policy PlanMode) ''bash'' = None"
    by (simp add: demo_policy_def NewConfigPolicyWithMode_def NewConfigPolicyWithModeAndReadOnlyDirs_def)
  moreover have "switchModeEscalates (Some (JObj [(''Mode'', JStr '' ByPass '')]))" by code_simp
  ultimately show ?thesis
    using supervised_is_bypass_without_rule [of "demo_policy PlanMode" "''bash''" demo_env "cmd_input ''ls''"
        "Some (JObj [(''Mode'', JStr '' ByPass '')])"] by blast
qed

end
