(* ===== verification/RulesPersist.thy ===== *)
theory RulesPersist
  imports ConfigPolicy
begin

text \<open>
  \<^verbatim>\<open>internal/permission/rules_persist.go\<close>: what of a policy's rules goes into the rules file and how a
  file is applied to a policy. The file's own reading and writing (LoadRules, SaveRules) is
  I/O around the json package and is left out.
\<close>

record PermissionRulesFile =
  ToolOverrides :: "string \<Rightarrow> string option"
  CommandAllowPatterns :: "string list"
  CommandDenyPatterns :: "string list"

definition trimPrefix :: "string \<Rightarrow> string \<Rightarrow> string" where
  "trimPrefix s pre = (if length pre > 0 \<and> prefix pre s then drop (length pre) s else s)"

text \<open>
  \<open>string(b)\<close> of a byte is the UTF-8 encoding of the code point of that number: one byte below 128,
  two from there.
\<close>

definition byte_string :: "char \<Rightarrow> string" where
  "byte_string c =
     (let n = byte_val c in
      if n < 128 then [c] else [char_of (192 + n div 64), char_of (128 + n mod 64)])"

text \<open>
  The scan of \<open>replaceAll\<close>. Its only caller passes a two-byte needle; on an empty one the loop of
  the source would not advance.
\<close>

function replaceAll :: "string \<Rightarrow> string \<Rightarrow> string \<Rightarrow> string" where
  "replaceAll [] old new = []"
| "replaceAll (c # s) old new =
     (if old \<noteq> [] \<and> prefix old (c # s) then new @ replaceAll (drop (length old) (c # s)) old new
      else byte_string c @ replaceAll s old new)"
  by pat_completeness auto
termination by (relation "measure (\<lambda>(s, old, new). length s)") auto

fun unescapeRegex :: "string \<Rightarrow> string" where
  "unescapeRegex [] = []"
| "unescapeRegex [c] = byte_string c"
| "unescapeRegex (c # d # s) =
     (if c = bslash then byte_string d @ unescapeRegex s else byte_string c @ unescapeRegex (d # s))"

definition userFriendlyPattern :: "string \<Rightarrow> string" where
  "userFriendlyPattern re =
     unescapeRegex (replaceAll (trimPrefix (trimPrefix re ''(?i)^'') ''^'') ''.*'' ''*'')"

definition userFriendlyPatterns :: "string list \<Rightarrow> string list" where
  "userFriendlyPatterns regexPatterns = map userFriendlyPattern regexPatterns"

fun override_name :: "Decision \<Rightarrow> string option" where
  "override_name Allow = Some ''allow''"
| "override_name Deny = Some ''deny''"
| "override_name _ = None"

definition SnapshotRules :: "ConfigPolicy option \<Rightarrow> PermissionRulesFile option" where
  "SnapshotRules po =
     (case po of
        None \<Rightarrow> None
      | Some p \<Rightarrow> Some
          \<lparr>ToolOverrides = (\<lambda>tool. Option.bind (p_rules p tool) override_name),
           CommandAllowPatterns = userFriendlyPatterns (AllowPatterns (p_cmdRules p)),
           CommandDenyPatterns = userFriendlyPatterns (DenyPatterns (p_cmdRules p))\<rparr>)"

text \<open>One turn of the loop over the overrides, and the loop over the map's entries in some order.\<close>

definition apply_override :: "string \<times> string \<Rightarrow> ConfigPolicy \<Rightarrow> ConfigPolicy" where
  "apply_override e p =
     (if snd e = ''allow'' then SetOverride (fst e) Allow p
      else if snd e = ''deny'' then SetOverride (fst e) Deny p
      else p)"

definition apply_overrides :: "(string \<times> string) list \<Rightarrow> ConfigPolicy \<Rightarrow> ConfigPolicy" where
  "apply_overrides es p = fold apply_override es p"

text \<open>
  \<open>ApplyToPolicy\<close> takes the entries of \<open>ToolOverrides\<close> in the order the runtime ranges over them.
\<close>

definition ApplyToPolicy ::
  "(string \<times> string) list \<Rightarrow> PermissionRulesFile option \<Rightarrow> ConfigPolicy \<Rightarrow> ConfigPolicy" where
  "ApplyToPolicy es datao p =
     (case datao of
        None \<Rightarrow> p
      | Some data \<Rightarrow>
          let p' = apply_overrides es p in
          if length (CommandAllowPatterns data) > 0 \<or> length (CommandDenyPatterns data) > 0
          then SetCommandRuleSet
                 (Some (NewCommandRuleSetFromLists (CommandAllowPatterns data) (CommandDenyPatterns data))) p'
          else p')"

definition ranges_over :: "(string \<times> string) list \<Rightarrow> PermissionRulesFile \<Rightarrow> bool" where
  "ranges_over es data \<longleftrightarrow> distinct (map fst es) \<and> map_of es = ToolOverrides data"

section \<open>The order of the overrides does not matter\<close>

definition decision_named :: "string \<Rightarrow> Decision option" where
  "decision_named s = (if s = ''allow'' then Some Allow else if s = ''deny'' then Some Deny else None)"

lemma override_name_inverse: "Option.bind (override_name d) decision_named = (if d \<in> {Allow, Deny} then Some d else None)"
  by (cases d) (simp_all add: decision_named_def)

lemma apply_override_rules:
  "apply_override e p = p\<lparr>p_rules := (case decision_named (snd e) of
      Some d \<Rightarrow> (p_rules p)(fst e \<mapsto> d) | None \<Rightarrow> p_rules p)\<rparr>"
  by (simp add: apply_override_def decision_named_def SetOverride_def)

lemma apply_overrides_rules:
  "distinct (map fst es) \<Longrightarrow>
     apply_overrides es p = p\<lparr>p_rules := (\<lambda>t. case Option.bind (map_of es t) decision_named of
        Some d \<Rightarrow> Some d | None \<Rightarrow> p_rules p t)\<rparr>"
proof (induction es arbitrary: p)
  case Nil
  then show ?case by (simp add: apply_overrides_def)
next
  case (Cons e es)
  have "apply_overrides (e # es) p = apply_overrides es (apply_override e p)"
    by (simp add: apply_overrides_def)
  also have "\<dots> = (apply_override e p)\<lparr>p_rules := (\<lambda>t. case Option.bind (map_of es t) decision_named of
        Some d \<Rightarrow> Some d | None \<Rightarrow> p_rules (apply_override e p) t)\<rparr>"
    using Cons by simp
  also have "\<dots> = p\<lparr>p_rules := (\<lambda>t. case Option.bind (map_of (e # es) t) decision_named of
        Some d \<Rightarrow> Some d | None \<Rightarrow> p_rules p t)\<rparr>"
  proof -
    have "map_of es (fst e) = None" using Cons.prems by (simp add: map_of_eq_None_iff)
    then show ?thesis
      by (cases e) (auto simp: apply_override_rules fun_eq_iff split: option.splits)
  qed
  finally show ?case .
qed

section \<open>Patterns that survive the file\<close>

definition ascii :: "string \<Rightarrow> bool" where
  "ascii s = list_all (\<lambda>c. byte_val c < 128) s"

definition persistable :: "string \<Rightarrow> bool" where
  "persistable pat \<longleftrightarrow> ascii pat \<and> bslash \<notin> set pat \<and> \<not> Contains pat ''.*'' \<and>
     \<not> HasPrefix pat ''(?i)^'' \<and> \<not> HasPrefix pat ''^''"

lemma byte_string_ascii: "byte_val c < 128 \<Longrightarrow> byte_string c = [c]"
  by (simp add: byte_string_def)

lemma replaceAll_none: "ascii s \<Longrightarrow> \<not> Contains s old \<Longrightarrow> replaceAll s old new = s"
  by (induction s) (auto simp: ascii_def byte_string_ascii)

lemma unescapeRegex_none: "ascii s \<Longrightarrow> bslash \<notin> set s \<Longrightarrow> unescapeRegex s = s"
  by (induction s rule: unescapeRegex.induct) (auto simp: ascii_def byte_string_ascii)

lemma persistable_kept: "persistable pat \<Longrightarrow> userFriendlyPattern pat = pat"
  by (simp add: persistable_def userFriendlyPattern_def trimPrefix_def HasPrefix_def
      replaceAll_none unescapeRegex_none)

lemma persistable_all: "list_all persistable ps \<Longrightarrow> userFriendlyPatterns ps = ps"
  by (simp add: userFriendlyPatterns_def list_all_iff persistable_kept map_idI)

lemma no_patterns_empty:
  "rs_wf rs \<Longrightarrow> rs_allowPats rs = [] \<Longrightarrow> rs_denyPats rs = [] \<Longrightarrow> rs = NewCommandRuleSet"
  by (cases rs) (simp add: rs_wf_def compiled_from_def NewCommandRuleSet_def)

lemma rebuild_wf:
  "rs_wf rs \<Longrightarrow> NewCommandRuleSetFromLists (rs_allowPats rs) (rs_denyPats rs) = rs"
  unfolding rs_wf_def NewCommandRuleSetFromLists_def
  by (elim conjE) (simp add: fold_push_allow fold_push_deny NewCommandRuleSet_def)

definition blank_policy :: "ConfigPolicy \<Rightarrow> ConfigPolicy" where
  "blank_policy p = p\<lparr>p_rules := Map.empty, p_cmdRules := Some NewCommandRuleSet\<rparr>"

text \<open>
  C19. Rules survive the rules file. Take a policy whose command rules were built by the rule-set
  operations from patterns that hold only ASCII characters, no backslash, no \<open>.*\<close> and no leading
  caret, and whose tool rules are allows and denies: applying its snapshot to the same policy
  without rules gives the policy back, whatever order the overrides are ranged over.
\<close>

theorem snapshot_apply_roundtrip:
  assumes "p_cmdRules p = fold rule_step ops (Some NewCommandRuleSet)"
    and "list_all persistable (AllowPatterns (p_cmdRules p))"
    and "list_all persistable (DenyPatterns (p_cmdRules p))"
    and "\<forall>t. p_rules p t \<in> {None, Some Allow, Some Deny}"
    and "SnapshotRules (Some p) = Some data" and "ranges_over es data"
  shows "ApplyToPolicy es (Some data) (blank_policy p) = p"
proof -
  have "rso_wf (p_cmdRules p)" unfolding assms(1)
    by (rule rules.run_inv) (simp add: rso_wf_def NewCommandRuleSet_wf)
  moreover have "p_cmdRules p \<noteq> None" unfolding assms(1)
  proof (induction ops rule: rev_induct)
    case (snoc op ops)
    then show ?case
      by (cases op) (auto simp: AddAllowPattern_def AddDenyPattern_def CommandRuleSet_Clear_def
          split: option.splits sum.splits)
  qed simp
  ultimately obtain rs where rs: "p_cmdRules p = Some rs" "rs_wf rs"
    by (auto simp: rso_wf_def split: option.splits)
  have pats: "CommandAllowPatterns data = rs_allowPats rs" "CommandDenyPatterns data = rs_denyPats rs"
    and ov: "ToolOverrides data = (\<lambda>t. Option.bind (p_rules p t) override_name)"
    using assms(2,3,5) rs(1) persistable_all
    by (auto simp: SnapshotRules_def AllowPatterns_def DenyPatterns_def)
  have rules: "apply_overrides es (blank_policy p) = p\<lparr>p_cmdRules := Some NewCommandRuleSet\<rparr>"
  proof -
    have d: "distinct (map fst es)" and m: "map_of es = (\<lambda>t. Option.bind (p_rules p t) override_name)"
      using assms(6) ov by (auto simp: ranges_over_def)
    have "(case Option.bind (map_of es t) decision_named of Some d \<Rightarrow> Some d
        | None \<Rightarrow> p_rules (blank_policy p) t) = p_rules p t" for t
      using assms(4) [rule_format, of t] m
      by (auto simp: override_name_inverse decision_named_def blank_policy_def split: option.splits)
    then have "apply_overrides es (blank_policy p) = (blank_policy p)\<lparr>p_rules := p_rules p\<rparr>"
      by (simp only: apply_overrides_rules [OF d])
    then show ?thesis by (simp add: blank_policy_def)
  qed
  show ?thesis
  proof (cases "rs_allowPats rs = [] \<and> rs_denyPats rs = []")
    case True
    with rs no_patterns_empty have "rs = NewCommandRuleSet" by blast
    with True rs pats rules show ?thesis by (simp add: ApplyToPolicy_def)
  next
    case False
    with rs pats rules show ?thesis
      by (auto simp: ApplyToPolicy_def SetCommandRuleSet_def rebuild_wf Let_def)
  qed
qed

definition saved_policy :: ConfigPolicy where
  "saved_policy = (demo_policy SupervisedMode)
     \<lparr>p_cmdRules := fold rule_step [OpAllow ''go test*'', OpDeny ''git push*''] (Some NewCommandRuleSet)\<rparr>"

theorem snapshot_apply_roundtrip_witness:
  "ApplyToPolicy [(''write_file'', ''allow''), (''run_command'', ''allow'')] (SnapshotRules (Some saved_policy))
     (blank_policy saved_policy) = saved_policy"
proof -
  let ?es = "[(''write_file'', ''allow''), (''run_command'', ''allow'')]"
  obtain data where data: "SnapshotRules (Some saved_policy) = Some data" by (simp add: SnapshotRules_def)
  have rules: "p_rules saved_policy = [''run_command'' \<mapsto> Allow, ''write_file'' \<mapsto> Allow]"
    by (simp add: saved_policy_def demo_policy_def NewConfigPolicyWithMode_def
        NewConfigPolicyWithModeAndReadOnlyDirs_def)
  have rs: "p_cmdRules saved_policy =
      fold rule_step [OpAllow ''go test*'', OpDeny ''git push*''] (Some NewCommandRuleSet)"
    by (simp add: saved_policy_def)
  have "list_all persistable (AllowPatterns (fold rule_step [OpAllow ''go test*'', OpDeny ''git push*''] (Some NewCommandRuleSet)))"
    and "list_all persistable (DenyPatterns (fold rule_step [OpAllow ''go test*'', OpDeny ''git push*''] (Some NewCommandRuleSet)))"
    by code_simp+
  moreover have "ranges_over ?es data"
    using data by (auto simp: ranges_over_def SnapshotRules_def rules fun_eq_iff)
  moreover have "\<forall>t. p_rules saved_policy t \<in> {None, Some Allow, Some Deny}" by (simp add: rules)
  ultimately show ?thesis
    using snapshot_apply_roundtrip [OF rs _ _ _ data] rs data by simp
qed

text \<open>
  A rule that pins a tool to ask is not written to the file: the policy asks before the
  tool runs, and the policy restored from its snapshot has no rule for the tool at all.
\<close>

theorem snapshot_drops_ask:
  assumes "p_rules p tool = Some Ask" and "SnapshotRules (Some p) = Some data" and "ranges_over es data"
  shows "Check env p tool input = Ask \<and> p_rules (ApplyToPolicy es (Some data) (blank_policy p)) tool = None"
proof
  show "Check env p tool input = Ask" using assms(1) by (simp add: Check_def)
  have "map_of es tool = None" and d: "distinct (map fst es)"
    using assms by (auto simp: ranges_over_def SnapshotRules_def)
  then show "p_rules (ApplyToPolicy es (Some data) (blank_policy p)) tool = None"
    by (simp add: ApplyToPolicy_def Let_def apply_overrides_rules SetCommandRuleSet_def blank_policy_def)
qed

theorem snapshot_drops_ask_witness:
  "let p = SetOverride ''git_commit'' Ask (blank_policy (demo_policy SupervisedMode)) in
   Check demo_env p ''git_commit'' None = Ask \<and>
   p_rules (ApplyToPolicy [] (SnapshotRules (Some p)) (blank_policy p)) ''git_commit'' = None"
proof -
  let ?p = "SetOverride ''git_commit'' Ask (blank_policy (demo_policy SupervisedMode))"
  obtain data where data: "SnapshotRules (Some ?p) = Some data" by (simp add: SnapshotRules_def)
  have "ranges_over [] data"
    using data by (auto simp: ranges_over_def SnapshotRules_def SetOverride_def blank_policy_def fun_eq_iff)
  with data show ?thesis
    using snapshot_drops_ask [of ?p "''git_commit''" data "[]" demo_env None]
    by (simp add: SetOverride_def Let_def)
qed

end
