(* ===== verification/ApprovalMemory.thy ===== *)
theory ApprovalMemory
  imports ConfigPolicy "HOL-Library.AList"
begin

text \<open>
  \<^verbatim>\<open>internal/permission/approval_memory.go\<close>: the memory that approves a call by itself once the user
  has approved the same kind of call three times in a row, and the keys under which calls are
  of the same kind. \<open>sha256.Sum256\<close> and \<open>url.Parse\<close> are arguments of the model (\<open>sig_env\<close>); nothing is
  assumed of them.
\<close>

record sig_env =
  sha256 :: "string \<Rightarrow> string"
  url_parse :: "string \<Rightarrow> (string \<times> string \<times> string) option"

record approvalEntry =
  consecutive :: int
  autoApproved :: bool

type_synonym approval_store = "(string \<times> approvalEntry) list"

text \<open>
  The store is the list of the map's entries, with distinct keys; where the code ranges over
  it the order is an argument.
\<close>

record ApprovalMemory =
  am_store :: approval_store
  am_lastMode :: PermissionMode

definition autoApproveThreshold :: int where
  "autoApproveThreshold = 3"

definition neverAutoApproveMarker :: string where
  "neverAutoApproveMarker = ''no-auto-approve:chained''"

definition maxTrackedKeys :: nat where
  "maxTrackedKeys = 200"

definition NewApprovalMemory :: ApprovalMemory where
  "NewApprovalMemory = \<lparr>am_store = [], am_lastMode = SupervisedMode\<rparr>"

section \<open>Keys\<close>

definition pathSignature :: "string \<Rightarrow> string" where
  "pathSignature path =
     (if path = '''' then ''''
      else
        let dir = Dir path; ext = Ext path in
        if ext = '''' then dir
        else if HasSuffix (Base path) (''_test'' @ ext) then JoinPath [dir, ''*_test'' @ ext]
        else JoinPath [dir, ''*'' @ ext])"

definition destructive_words :: "string list" where
  "destructive_words =
     [''force'', ''f'', ''hard'', ''delete'', ''d'', ''recursive'', ''r'',
      ''force-push'', ''ignore-errors'', ''no-preserve-root'']"

definition commandHasDestructiveFlag :: "string list \<Rightarrow> bool" where
  "commandHasDestructiveFlag tokens =
     list_ex (\<lambda>tok. ToLower (TrimLeft tok ''-'') \<in> set destructive_words \<or>
                    Contains tok '':..'' \<or> HasPrefix tok '':'') (tl tokens)"

definition shell_chained :: "string \<Rightarrow> bool" where
  "shell_chained cmd \<longleftrightarrow>
     ContainsAny cmd ('';|&'' @ [CHR 0x0A] @ ''$'' @ [CHR 0x60]) \<or> Contains cmd ''$('' \<or>
     Contains cmd ''<('' \<or> Contains cmd ''>(''"

definition commandSignature :: "string \<Rightarrow> string" where
  "commandSignature cmd0 =
     (let cmd = TrimSpace cmd0 in
      if cmd = '''' then ''''
      else if shell_chained cmd then cmd @ '':'' @ neverAutoApproveMarker
      else if Contains cmd ''>'' \<or> Contains cmd ''<'' then cmd @ '':redirect''
      else
        let tokens = Fields cmd in
        if length tokens = 0 then ''''
        else if commandHasDestructiveFlag tokens then Join tokens '' ''
        else if length tokens \<ge> 2 then tokens ! 0 @ '' '' @ tokens ! 1
        else tokens ! 0)"

definition bodySignature :: "sig_env \<Rightarrow> string \<Rightarrow> string" where
  "bodySignature se s = EncodeToString (take 8 (sha256 se s))"

definition urlSignature :: "sig_env \<Rightarrow> string \<Rightarrow> string" where
  "urlSignature se raw =
     (case url_parse se raw of
        None \<Rightarrow> pathSignature raw
      | Some (scheme, host, path) \<Rightarrow>
          if host = '''' then pathSignature raw
          else
            let sig = scheme @ ''://'' @ host in
            if path \<noteq> '''' \<and> path \<noteq> ''/'' then
              (let trimmed = trim_right_by (\<lambda>c. c = slash) (trim_left_by (\<lambda>c. c = slash) path);
                   seg = takeWhile (\<lambda>c. c \<noteq> slash) trimmed in
               if seg \<noteq> '''' then sig @ ''/'' @ seg else sig)
            else sig)"

fun first_nonempty :: "raw_map \<Rightarrow> string list \<Rightarrow> string option" where
  "first_nonempty m [] = None"
| "first_nonempty m (k # ks) =
     (case str_field m k of
        Some s \<Rightarrow> (if s \<noteq> '''' then Some s else first_nonempty m ks)
      | None \<Rightarrow> first_nonempty m ks)"

definition file_sigs :: "raw_map \<Rightarrow> string list" where
  "file_sigs m =
     (case m ''files'' of
        None \<Rightarrow> []
      | Some v \<Rightarrow>
          (case unmarshal_map_list v of
             None \<Rightarrow> []
           | Some files \<Rightarrow> concat (map (\<lambda>f. map pathSignature (nonempty_str f ''path'')) files)))"

definition MakeKey :: "sig_env \<Rightarrow> string \<Rightarrow> raw_message \<Rightarrow> string" where
  "MakeKey se toolName input =
     (case unmarshal_map input of
        None \<Rightarrow> toolName
      | Some m \<Rightarrow>
          (case first_nonempty m [''file_path'', ''path'', ''directory'', ''notebook_path''] of
             Some s \<Rightarrow> toolName @ '':'' @ pathSignature s
           | None \<Rightarrow>
               let sigs = file_sigs m in
               if length sigs > 0 then toolName @ '':'' @ Join (sort sigs) '',''
               else (case first_nonempty m [''url''] of
                       Some s \<Rightarrow> toolName @ '':'' @ urlSignature se s
                     | None \<Rightarrow>
                         (case first_nonempty m [''prompt'', ''task'', ''message'', ''query''] of
                            Some s \<Rightarrow> toolName @ '':'' @ bodySignature se s
                          | None \<Rightarrow>
                              (case first_nonempty m [''command'', ''input''] of
                                 Some s \<Rightarrow> toolName @ '':'' @ commandSignature s
                               | None \<Rightarrow> toolName)))))"

section \<open>The memory's operations\<close>

definition marked :: "string \<Rightarrow> bool" where
  "marked key = HasSuffix key ('':'' @ neverAutoApproveMarker)"

definition EnsureModeScope :: "PermissionMode \<Rightarrow> ApprovalMemory option \<Rightarrow> ApprovalMemory option" where
  "EnsureModeScope m amo =
     map_option (\<lambda>am. if am_lastMode am \<noteq> m then am\<lparr>am_lastMode := m, am_store := []\<rparr> else am) amo"

definition ShouldAutoApprove :: "sig_env \<Rightarrow> ApprovalMemory option \<Rightarrow> string \<Rightarrow> raw_message \<Rightarrow> bool" where
  "ShouldAutoApprove se amo toolName input =
     (case amo of
        None \<Rightarrow> False
      | Some am \<Rightarrow>
          let key = MakeKey se toolName input in
          if marked key then False
          else (case map_of (am_store am) key of None \<Rightarrow> False | Some e \<Rightarrow> autoApproved e))"

definition evict_scan :: "approval_store \<Rightarrow> string \<times> int" where
  "evict_scan es =
     fold (\<lambda>(k, e) (minKey, minCount).
             if minCount = -1 \<or> consecutive e < minCount then (k, consecutive e) else (minKey, minCount))
       es ('''', -1)"

definition evictOldest :: "(approval_store \<Rightarrow> approval_store) \<Rightarrow> approval_store \<Rightarrow> approval_store" where
  "evictOldest pick st =
     (let minKey = fst (evict_scan (range_order pick st)) in
      if minKey \<noteq> '''' then AList.delete minKey st else st)"

definition bump :: "approvalEntry \<Rightarrow> approvalEntry" where
  "bump e =
     (let e' = e\<lparr>consecutive := consecutive e + 1\<rparr> in
      if consecutive e' \<ge> autoApproveThreshold \<and> \<not> autoApproved e' then e'\<lparr>autoApproved := True\<rparr> else e')"

definition record_key :: "(approval_store \<Rightarrow> approval_store) \<Rightarrow> string \<Rightarrow> approval_store \<Rightarrow> approval_store" where
  "record_key pick key st =
     (case map_of st key of
        Some e \<Rightarrow> AList.update key (bump e) st
      | None \<Rightarrow>
          AList.update key (bump \<lparr>consecutive = 0, autoApproved = False\<rparr>)
            (if length st \<ge> maxTrackedKeys then evictOldest pick st else st))"

definition RecordApproval ::
  "sig_env \<Rightarrow> (approval_store \<Rightarrow> approval_store) \<Rightarrow> string \<Rightarrow> raw_message \<Rightarrow> ApprovalMemory option \<Rightarrow> ApprovalMemory option" where
  "RecordApproval se pick toolName input amo =
     map_option (\<lambda>am.
       let key = MakeKey se toolName input in
       if marked key then am else am\<lparr>am_store := record_key pick key (am_store am)\<rparr>) amo"

definition deny_key :: "string \<Rightarrow> approval_store \<Rightarrow> approval_store" where
  "deny_key key st =
     (case map_of st key of
        Some e \<Rightarrow> AList.update key (e\<lparr>consecutive := 0, autoApproved := False\<rparr>) st
      | None \<Rightarrow> st)"

definition RecordDeny :: "sig_env \<Rightarrow> string \<Rightarrow> raw_message \<Rightarrow> ApprovalMemory option \<Rightarrow> ApprovalMemory option" where
  "RecordDeny se toolName input amo =
     map_option (\<lambda>am. am\<lparr>am_store := deny_key (MakeKey se toolName input) (am_store am)\<rparr>) amo"

definition ApprovalMemory_Reset :: "ApprovalMemory option \<Rightarrow> ApprovalMemory option" where
  "ApprovalMemory_Reset amo = map_option (\<lambda>am. am\<lparr>am_store := []\<rparr>) amo"

definition AutoApprovedKeys :: "(approval_store \<Rightarrow> approval_store) \<Rightarrow> ApprovalMemory option \<Rightarrow> string list" where
  "AutoApprovedKeys pick amo =
     (case amo of
        None \<Rightarrow> []
      | Some am \<Rightarrow> map fst (filter (\<lambda>(k, e). autoApproved e) (range_order pick (am_store am))))"

section \<open>The specification: approvals in a row, per key\<close>

text \<open>
  The contract the memory keeps: for each key the number of approvals since the last refusal,
  reset or change of mode, without any bound on the keys.
\<close>

datatype am_op =
  AmApprove "approval_store \<Rightarrow> approval_store" string raw_message
| AmDeny string raw_message
| AmReset
| AmScope PermissionMode

fun am_step :: "sig_env \<Rightarrow> am_op \<Rightarrow> ApprovalMemory option \<Rightarrow> ApprovalMemory option" where
  "am_step se (AmApprove pick tool input) am = RecordApproval se pick tool input am"
| "am_step se (AmDeny tool input) am = RecordDeny se tool input am"
| "am_step se AmReset am = ApprovalMemory_Reset am"
| "am_step se (AmScope m) am = EnsureModeScope m am"

record approval_spec =
  sp_count :: "string \<Rightarrow> int"
  sp_mode :: PermissionMode

definition spec_init :: approval_spec where
  "spec_init = \<lparr>sp_count = (\<lambda>_. 0), sp_mode = SupervisedMode\<rparr>"

fun spec_step :: "sig_env \<Rightarrow> am_op \<Rightarrow> approval_spec \<Rightarrow> approval_spec" where
  "spec_step se (AmApprove pick tool input) spc =
     (let k = MakeKey se tool input in
      if marked k then spc else spc\<lparr>sp_count := (sp_count spc)(k := sp_count spc k + 1)\<rparr>)"
| "spec_step se (AmDeny tool input) spc = spc\<lparr>sp_count := (sp_count spc)(MakeKey se tool input := 0)\<rparr>"
| "spec_step se AmReset spc = spc\<lparr>sp_count := (\<lambda>_. 0)\<rparr>"
| "spec_step se (AmScope m) spc =
     (if sp_mode spc \<noteq> m then spc\<lparr>sp_mode := m, sp_count := (\<lambda>_. 0)\<rparr> else spc)"

definition entry_ok :: "int \<Rightarrow> approvalEntry \<Rightarrow> bool" where
  "entry_ok n e \<longleftrightarrow> 0 \<le> consecutive e \<and> consecutive e \<le> n \<and> (autoApproved e \<longleftrightarrow> autoApproveThreshold \<le> consecutive e)"

definition counts_below :: "ApprovalMemory option \<Rightarrow> approval_spec \<Rightarrow> bool" where
  "counts_below amo spc \<longleftrightarrow>
     (\<forall>am. amo = Some am \<longrightarrow>
        am_lastMode am = sp_mode spc \<and> (\<forall>k. 0 \<le> sp_count spc k) \<and>
        (\<forall>k e. map_of (am_store am) k = Some e \<longrightarrow> entry_ok (sp_count spc k) e))"

lemma map_of_evictOldest: "map_of (evictOldest pick st) k = Some e \<Longrightarrow> map_of st k = Some e"
  by (auto simp: evictOldest_def Let_def AList.delete_conv' split: if_splits)

lemma map_of_record_key:
  "map_of (record_key pick key st) k = Some e \<Longrightarrow>
     (if k = key then e = bump (case map_of st key of Some e0 \<Rightarrow> e0 | None \<Rightarrow> \<lparr>consecutive = 0, autoApproved = False\<rparr>)
      else map_of st k = Some e)"
  by (auto simp: record_key_def AList.update_conv' dest: map_of_evictOldest split: option.splits if_splits)

lemma bump_ok: "entry_ok n e \<Longrightarrow> entry_ok (n + 1) (bump e)"
  by (auto simp: entry_ok_def bump_def Let_def autoApproveThreshold_def)

lemma fresh_ok: "0 \<le> n \<Longrightarrow> entry_ok n \<lparr>consecutive = 0, autoApproved = False\<rparr>"
  by (simp add: entry_ok_def autoApproveThreshold_def)

lemma zeroed_ok: "0 \<le> n \<Longrightarrow> entry_ok n (e\<lparr>consecutive := 0, autoApproved := False\<rparr>)"
  by (simp add: entry_ok_def autoApproveThreshold_def)

lemma map_of_deny_key:
  "map_of (deny_key key st) k =
     (if k = key then map_option (\<lambda>e. e\<lparr>consecutive := 0, autoApproved := False\<rparr>) (map_of st key)
      else map_of st k)"
  by (simp add: deny_key_def AList.update_conv' split: option.splits)

lemma keys_deny_key [simp]: "map fst (deny_key key st) = map fst st"
proof (cases "map_of st key")
  case (Some e)
  then have "key \<in> fst ` set st" by (metis domI dom_map_of_conv_image_fst)
  with Some show ?thesis by (simp add: deny_key_def AList.update_keys)
qed (simp add: deny_key_def)

interpretation below: simulation "am_step se" "spec_step se" counts_below "\<lambda>_. True" for se
proof unfold_locales
  fix op c a
  assume R: "counts_below c a"
  show "counts_below (am_step se op c) (spec_step se op a)"
  proof (cases op)
    case (AmApprove pick tool input)
    with R show ?thesis
      by (auto simp: counts_below_def RecordApproval_def Let_def dest!: map_of_record_key
          intro!: bump_ok fresh_ok split: option.splits)
  next
    case (AmDeny tool input)
    with R show ?thesis
      by (auto simp: counts_below_def RecordDeny_def map_of_deny_key zeroed_ok split: if_splits)
  qed (use R in \<open>cases c; simp add: counts_below_def ApprovalMemory_Reset_def EnsureModeScope_def\<close>)+
qed

section \<open>When no entry is evicted the memory is exact\<close>

definition count_of :: "approval_store \<Rightarrow> string \<Rightarrow> int" where
  "count_of st k = (case map_of st k of None \<Rightarrow> 0 | Some e \<Rightarrow> consecutive e)"

definition exact_rel :: "string set \<Rightarrow> ApprovalMemory option \<Rightarrow> approval_spec \<Rightarrow> bool" where
  "exact_rel K amo spc \<longleftrightarrow>
     finite K \<and> card K \<le> maxTrackedKeys \<and> counts_below amo spc \<and>
     (\<forall>am. amo = Some am \<longrightarrow>
        distinct (map fst (am_store am)) \<and> fst ` set (am_store am) \<subseteq> K \<and>
        (\<forall>k. count_of (am_store am) k = sp_count spc k))"

fun approves_in :: "sig_env \<Rightarrow> string set \<Rightarrow> am_op \<Rightarrow> bool" where
  "approves_in se K (AmApprove pick tool input) = (MakeKey se tool input \<in> K)"
| "approves_in se K _ = True"

lemma update_keys_subset: "fst ` set (AList.update k v al) = insert k (fst ` set al)"
proof -
  have "fst ` set (AList.update k v al) = set (map fst (AList.update k v al))" by simp
  then show ?thesis by (simp only: AList.update_keys) auto
qed

lemma no_eviction:
  assumes "finite K" "card K \<le> maxTrackedKeys" "distinct (map fst st)" "fst ` set st \<subseteq> K"
    and "key \<in> K" "map_of st key = None"
  shows "length st < maxTrackedKeys"
proof -
  have "key \<notin> fst ` set st" using assms(6) by (simp add: map_of_eq_None_iff)
  then have "fst ` set st \<subset> K" using assms(4,5) by blast
  then have "card (fst ` set st) < card K" using assms(1) by (rule psubset_card_mono [rotated])
  moreover have "card (fst ` set st) = length st"
    using distinct_card [OF assms(3)] by simp
  ultimately show ?thesis using assms(2) by simp
qed

lemma bump_count: "consecutive (bump e) = consecutive e + 1"
  by (simp add: bump_def Let_def)

lemma record_key_exact:
  assumes "finite K" "card K \<le> maxTrackedKeys" "distinct (map fst st)" "fst ` set st \<subseteq> K" "key \<in> K"
  shows "distinct (map fst (record_key pick key st))" and "fst ` set (record_key pick key st) \<subseteq> K"
    and "count_of (record_key pick key st) k = (if k = key then count_of st key + 1 else count_of st k)"
proof -
  have "record_key pick key st = AList.update key
      (bump (case map_of st key of Some e \<Rightarrow> e | None \<Rightarrow> \<lparr>consecutive = 0, autoApproved = False\<rparr>)) st"
    using no_eviction [OF assms] by (auto simp: record_key_def split: option.splits)
  then show "distinct (map fst (record_key pick key st))" and "fst ` set (record_key pick key st) \<subseteq> K"
    and "count_of (record_key pick key st) k = (if k = key then count_of st key + 1 else count_of st k)"
    using assms(3-5)
    by (auto simp: AList.distinct_update update_keys_subset count_of_def AList.update_conv' bump_count
        split: option.splits)
qed

lemma record_key_dom:
  assumes "finite K" "card K \<le> maxTrackedKeys" "distinct (map fst st)" "fst ` set st \<subseteq> K" "key \<in> K"
    and "(k, e) \<in> set (record_key pick key st)"
  shows "k \<in> K"
  using record_key_exact(2) [OF assms(1-5), of pick] assms(6) by force

lemma dom_deny_key: "fst ` set (deny_key k st) = fst ` set st"
  using keys_deny_key by (metis set_map)

lemma count_deny_key: "count_of (deny_key key st) k = (if k = key then 0 else count_of st k)"
  by (simp add: count_of_def map_of_deny_key split: option.splits)

interpretation exact: simulation "am_step se" "spec_step se" "exact_rel K" "approves_in se K" for se K
proof unfold_locales
  fix op c a
  assume ok: "approves_in se K op" and R: "exact_rel K c a"
  have below: "counts_below (am_step se op c) (spec_step se op a)"
    using R by (intro below.sim_step) (simp_all add: exact_rel_def)
  show "exact_rel K (am_step se op c) (spec_step se op a)"
  proof (cases op)
    case (AmApprove pick tool input)
    with R ok below show ?thesis
      by (auto simp: exact_rel_def RecordApproval_def Let_def record_key_exact(1,3) intro: record_key_dom)
  next
    case (AmDeny tool input)
    with R below show ?thesis
      by (cases c) (simp_all add: exact_rel_def RecordDeny_def count_deny_key dom_deny_key)
  qed (use R below in \<open>cases c; simp add: exact_rel_def counts_below_def ApprovalMemory_Reset_def EnsureModeScope_def count_of_def\<close>)+
qed

text \<open>
  C7. The memory implements its specification. A call is approved without the user only if its
  key has been approved at least three times since it was last refused, the memory was reset or
  the mode changed; and as long as at most 200 keys are in play it is approved exactly then.
\<close>

theorem auto_approve_earned:
  "(ShouldAutoApprove se (fold (am_step se) ops (Some NewApprovalMemory)) tool input \<longrightarrow>
      \<not> marked (MakeKey se tool input) \<and>
      autoApproveThreshold \<le> sp_count (fold (spec_step se) ops spec_init) (MakeKey se tool input)) \<and>
   (finite K \<and> card K \<le> maxTrackedKeys \<and> list_all (approves_in se K) ops \<longrightarrow>
      ShouldAutoApprove se (fold (am_step se) ops (Some NewApprovalMemory)) tool input =
      (\<not> marked (MakeKey se tool input) \<and>
       autoApproveThreshold \<le> sp_count (fold (spec_step se) ops spec_init) (MakeKey se tool input)))"
proof -
  let ?c = "fold (am_step se) ops (Some NewApprovalMemory)"
  let ?a = "fold (spec_step se) ops spec_init"
  let ?k = "MakeKey se tool input"
  have "counts_below (Some NewApprovalMemory) spec_init"
    by (simp add: counts_below_def NewApprovalMemory_def spec_init_def)
  then have b: "counts_below ?c ?a" by (intro below.sim_run) (simp_all add: list_all_iff)
  then have sound: "ShouldAutoApprove se ?c tool input \<Longrightarrow> \<not> marked ?k \<and> autoApproveThreshold \<le> sp_count ?a ?k"
    by (auto simp: ShouldAutoApprove_def counts_below_def Let_def entry_ok_def
        split: option.splits if_splits) (meson order_trans)
  have "ShouldAutoApprove se ?c tool input"
    if K: "finite K" "card K \<le> maxTrackedKeys" "list_all (approves_in se K) ops"
      and due: "\<not> marked ?k" "autoApproveThreshold \<le> sp_count ?a ?k"
  proof -
    have "exact_rel K (Some NewApprovalMemory) spec_init"
      using K by (simp add: exact_rel_def counts_below_def NewApprovalMemory_def spec_init_def count_of_def)
    with K have ex: "exact_rel K ?c ?a" by (intro exact.sim_run)
    have "?c \<noteq> None"
    proof (induction ops rule: rev_induct)
      case (snoc op ops)
      then show ?case
        by (cases op) (simp_all add: RecordApproval_def RecordDeny_def ApprovalMemory_Reset_def EnsureModeScope_def)
    qed simp
    then obtain am where am: "?c = Some am" by blast
    with ex have "count_of (am_store am) ?k = sp_count ?a ?k" by (simp add: exact_rel_def)
    with due(2) obtain e where e: "map_of (am_store am) ?k = Some e" "autoApproveThreshold \<le> consecutive e"
      by (auto simp: count_of_def autoApproveThreshold_def split: option.splits)
    with b am have "autoApproved e" by (auto simp: counts_below_def entry_ok_def)
    with e am due(1) show ?thesis by (simp add: ShouldAutoApprove_def)
  qed
  with sound show ?thesis by blast
qed

definition plain_sig :: sig_env where
  "plain_sig = \<lparr>sha256 = (\<lambda>s. s), url_parse = (\<lambda>_. None)\<rparr>"

theorem auto_approve_earned_witness:
  "ShouldAutoApprove plain_sig
     (fold (am_step plain_sig) (replicate 3 (AmApprove id ''bash'' (cmd_input ''go test ./...''))) (Some NewApprovalMemory))
     ''bash'' (cmd_input ''go test -v'') \<and>
   \<not> marked (MakeKey plain_sig ''bash'' (cmd_input ''go test -v''))"
proof -
  let ?ops = "replicate 3 (AmApprove id ''bash'' (cmd_input ''go test ./...''))"
  have k: "MakeKey plain_sig ''bash'' (cmd_input ''go test ./...'') = ''bash:go test''"
    "MakeKey plain_sig ''bash'' (cmd_input ''go test -v'') = ''bash:go test''" by code_simp+
  have m: "\<not> marked ''bash:go test''" by code_simp
  have c: "sp_count (fold (spec_step plain_sig) ?ops spec_init) ''bash:go test'' = 3"
    using m by (simp add: numeral_3_eq_3 k spec_init_def)
  have l: "list_all (approves_in plain_sig {''bash:go test''}) ?ops" by (simp add: numeral_3_eq_3 k)
  have "ShouldAutoApprove plain_sig (fold (am_step plain_sig) ?ops (Some NewApprovalMemory)) ''bash'' (cmd_input ''go test -v'')
      = (\<not> marked ''bash:go test'' \<and> autoApproveThreshold \<le> sp_count (fold (spec_step plain_sig) ?ops spec_init) ''bash:go test'')"
    unfolding k(2) [symmetric]
    by (rule conjunct2 [OF auto_approve_earned [where K = "{''bash:go test''}"], THEN mp])
      (use l in \<open>simp add: maxTrackedKeys_def\<close>)
  with m show ?thesis unfolding c k(2) by (simp add: autoApproveThreshold_def)
qed

section \<open>The memory stays bounded\<close>

lemma evict_scan_least:
  assumes "es \<noteq> []" and "\<forall>x \<in> set es. 0 \<le> consecutive (snd x)"
  shows "\<exists>e. (fst (evict_scan es), e) \<in> set es \<and> snd (evict_scan es) = consecutive e \<and>
           (\<forall>x \<in> set es. consecutive e \<le> consecutive (snd x))"
  using assms
proof (induction es rule: rev_induct)
  case (snoc x es)
  obtain k e where x: "x = (k, e)" by (cases x)
  show ?case
  proof (cases "es = []")
    case True
    with x snoc.prems show ?thesis by (simp add: evict_scan_def)
  next
    case False
    with snoc obtain e0 where e0: "(fst (evict_scan es), e0) \<in> set es" "snd (evict_scan es) = consecutive e0"
      "\<forall>y \<in> set es. consecutive e0 \<le> consecutive (snd y)" by auto
    have nn: "0 \<le> consecutive e0" using e0(1) snoc.prems by force
    have scan: "evict_scan (es @ [x]) =
        (if consecutive e < consecutive e0 then (k, consecutive e) else evict_scan es)"
      using e0(2) nn by (cases "evict_scan es") (simp add: evict_scan_def x)
    show ?thesis
    proof (cases "consecutive e < consecutive e0")
      case True
      with e0(3) have "\<forall>y \<in> set es. consecutive e \<le> consecutive (snd y)" by fastforce
      with True show ?thesis by (intro exI [of _ e]) (simp add: scan, simp add: x)
    next
      case False
      with e0 show ?thesis by (intro exI [of _ e0]) (simp add: scan, simp add: x)
    qed
  qed
qed simp

definition am_inv :: "ApprovalMemory option \<Rightarrow> bool" where
  "am_inv amo \<longleftrightarrow>
     (\<forall>am. amo = Some am \<longrightarrow>
        distinct (map fst (am_store am)) \<and> length (am_store am) \<le> maxTrackedKeys \<and>
        (\<forall>x \<in> set (am_store am). fst x \<noteq> '''' \<and> \<not> marked (fst x) \<and> 0 \<le> consecutive (snd x)))"

fun named_tool :: "am_op \<Rightarrow> bool" where
  "named_tool (AmApprove pick tool input) = (tool \<noteq> '''')"
| "named_tool _ = True"

lemma MakeKey_nonempty: "tool \<noteq> '''' \<Longrightarrow> MakeKey se tool input \<noteq> ''''"
  by (simp add: MakeKey_def Let_def del: first_nonempty.simps split: option.splits)

definition store_ok :: "approval_store \<Rightarrow> bool" where
  "store_ok st \<longleftrightarrow> distinct (map fst st) \<and> (\<forall>x \<in> set st. fst x \<noteq> '''' \<and> \<not> marked (fst x) \<and> 0 \<le> consecutive (snd x))"

lemma set_update_subset: "set (AList.update k v st) \<subseteq> insert (k, v) (set st)"
  by (induction st) auto

lemma update_ok:
  assumes "store_ok st" "k \<noteq> ''''" "\<not> marked k" "0 \<le> consecutive v"
  shows "store_ok (AList.update k v st)"
  using assms subsetD [OF set_update_subset, of _ k v st] unfolding store_ok_def
  by (metis AList.distinct_update fst_conv insert_iff snd_conv)

lemma evictOldest_ok: "store_ok st \<Longrightarrow> store_ok (evictOldest pick st)"
  by (auto simp: store_ok_def evictOldest_def Let_def AList.delete_eq distinct_map_filter)

lemma length_evictOldest:
  assumes "store_ok st" and "st \<noteq> []"
  shows "length (evictOldest pick st) < length st"
proof -
  have "\<forall>x \<in> set (range_order pick st). 0 \<le> consecutive (snd x)" using assms(1) by (auto simp: store_ok_def)
  with evict_scan_least [of "range_order pick st"] assms(2)
  obtain e where e: "(fst (evict_scan (range_order pick st)), e) \<in> set st" by auto
  let ?k = "fst (evict_scan (range_order pick st))"
  from e assms(1) have "?k \<noteq> ''''" by (auto simp: store_ok_def)
  moreover have "length (AList.delete ?k st) < length st"
    unfolding AList.delete_eq by (rule length_filter_less [OF e]) simp
  ultimately show ?thesis by (simp add: evictOldest_def Let_def)
qed

lemma length_update: "length (AList.update k v st) = (if k \<in> fst ` set st then length st else Suc (length st))"
proof -
  have "length (AList.update k v st) = length (map fst (AList.update k v st))" by simp
  then show ?thesis by (simp only: AList.update_keys) simp
qed

lemma record_key_ok:
  assumes "store_ok st" "key \<noteq> ''''" "\<not> marked key" "length st \<le> maxTrackedKeys"
  shows "store_ok (record_key pick key st)" and "length (record_key pick key st) \<le> maxTrackedKeys"
proof -
  let ?st = "if length st \<ge> maxTrackedKeys then evictOldest pick st else st"
  have "length ?st < maxTrackedKeys"
    using length_evictOldest [OF assms(1), of pick] assms(4) by (force simp: maxTrackedKeys_def)
  moreover have "0 \<le> consecutive e \<and> key \<in> fst ` set st" if "map_of st key = Some e" for e
    using assms(1) map_of_SomeD [OF that] by (force simp: store_ok_def)
  ultimately show "store_ok (record_key pick key st)" and "length (record_key pick key st) \<le> maxTrackedKeys"
    using assms evictOldest_ok [OF assms(1), of pick]
    by (auto simp: record_key_def length_update bump_count intro!: update_ok split: option.splits)
qed

lemma deny_key_ok: "store_ok st \<Longrightarrow> store_ok (deny_key key st)"
  by (auto simp: deny_key_def intro!: update_ok dest!: map_of_SomeD split: option.splits)
     (auto simp: store_ok_def)

lemma am_inv_store:
  "am_inv amo \<longleftrightarrow> (\<forall>am. amo = Some am \<longrightarrow> store_ok (am_store am) \<and> length (am_store am) \<le> maxTrackedKeys)"
  by (auto simp: am_inv_def store_ok_def)

interpretation memory: guarded_machine "am_step se" named_tool am_inv for se
proof unfold_locales
  fix op c
  assume ok: "named_tool op" and inv: "am_inv c"
  show "am_inv (am_step se op c)"
  proof (cases op)
    case (AmApprove pick tool input)
    with ok inv show ?thesis
      by (cases c) (simp_all add: am_inv_store RecordApproval_def Let_def record_key_ok MakeKey_nonempty)
  next
    case (AmDeny tool input)
    have "length (deny_key k st) = length st" for k st by (metis keys_deny_key length_map)
    with AmDeny inv show ?thesis
      by (cases c) (simp_all add: am_inv_store RecordDeny_def deny_key_ok)
  qed (use inv in \<open>cases c; simp add: am_inv_store store_ok_def ApprovalMemory_Reset_def EnsureModeScope_def\<close>)+
qed

text \<open>
  Whatever the sequence of approvals, refusals, resets and mode changes, and whatever order
  the runtime ranges over the map in, the memory holds at most 200 entries, one per key, and
  none for a chained command; the calls it would approve by itself are those with a count of
  at least three.
\<close>

theorem approval_memory_bounded:
  assumes "list_all named_tool ops" and "fold (am_step se) ops (Some NewApprovalMemory) = Some am"
  shows "length (am_store am) \<le> maxTrackedKeys \<and> distinct (map fst (am_store am)) \<and>
         (\<forall>x \<in> set (am_store am). \<not> marked (fst x) \<and>
            (autoApproved (snd x) \<longleftrightarrow> autoApproveThreshold \<le> consecutive (snd x)))"
proof -
  have "am_inv (fold (am_step se) ops (Some NewApprovalMemory))"
    using assms(1) by (rule memory.ok_run_inv) (simp add: am_inv_def NewApprovalMemory_def)
  then have inv: "store_ok (am_store am)" "length (am_store am) \<le> maxTrackedKeys"
    by (simp_all add: assms(2) am_inv_store)
  have "counts_below (Some NewApprovalMemory) spec_init"
    by (simp add: counts_below_def NewApprovalMemory_def spec_init_def)
  then have "counts_below (Some am) (fold (spec_step se) ops spec_init)"
    unfolding assms(2) [symmetric] by (intro below.sim_run) (simp_all add: list_all_iff)
  then have "autoApproved (snd x) \<longleftrightarrow> autoApproveThreshold \<le> consecutive (snd x)" if "x \<in> set (am_store am)" for x
    using that inv(1) map_of_is_SomeI [of "am_store am" "fst x" "snd x"]
    unfolding counts_below_def entry_ok_def store_ok_def by (metis prod.collapse)
  with inv show ?thesis by (simp add: store_ok_def)
qed

theorem approval_memory_bounded_witness:
  "\<exists>am. fold (am_step plain_sig) [AmApprove rev ''read'' None, AmDeny ''read'' None, AmScope PlanMode]
          (Some NewApprovalMemory) = Some am \<and> length (am_store am) \<le> 200"
proof -
  let ?ops = "[AmApprove rev ''read'' None, AmDeny ''read'' None, AmScope PlanMode]"
  obtain am where am: "fold (am_step plain_sig) ?ops (Some NewApprovalMemory) = Some am"
    by (simp add: RecordApproval_def RecordDeny_def EnsureModeScope_def)
  have "list_all named_tool ?ops" by simp
  from approval_memory_bounded [OF this am] am show ?thesis by (auto simp: maxTrackedKeys_def)
qed

section \<open>Chained commands\<close>

definition path_keys :: "string list" where
  "path_keys = [''file_path'', ''path'', ''directory'', ''notebook_path'']"

definition no_target :: "raw_map \<Rightarrow> bool" where
  "no_target m \<longleftrightarrow>
     first_nonempty m path_keys = None \<and> file_sigs m = [] \<and> first_nonempty m [''url''] = None \<and>
     first_nonempty m [''prompt'', ''task'', ''message'', ''query''] = None"

lemma MakeKey_command:
  assumes "unmarshal_map input = Some m" "no_target m" "first_nonempty m [''command'', ''input''] = Some cmd"
  shows "MakeKey se tool input = tool @ '':'' @ commandSignature cmd"
  using assms by (simp add: MakeKey_def no_target_def path_keys_def del: first_nonempty.simps)

lemma MakeKey_path:
  assumes "unmarshal_map input = Some m" "first_nonempty m path_keys = Some s"
  shows "MakeKey se tool input = tool @ '':'' @ pathSignature s"
  using assms by (simp add: MakeKey_def path_keys_def del: first_nonempty.simps)

lemma chained_nonempty: "shell_chained cmd \<Longrightarrow> cmd \<noteq> ''''"
  by (auto simp: shell_chained_def ContainsAny_def)

lemma marked_chained: "shell_chained (TrimSpace cmd) \<Longrightarrow> marked (tool @ '':'' @ commandSignature cmd)"
  using chained_nonempty by (simp add: marked_def HasSuffix_def commandSignature_def Let_def)

text \<open>
  A shell call with a chained command (a separator, a pipe, a newline, an expansion or a
  process substitution) and no path, URL or prompt argument is never approved by the memory,
  in whatever state, and approving it teaches the memory nothing.
\<close>

theorem chained_never_auto_approved:
  assumes "unmarshal_map input = Some m" "no_target m"
    and "first_nonempty m [''command'', ''input''] = Some cmd" "shell_chained (TrimSpace cmd)"
  shows "\<not> ShouldAutoApprove se am tool input \<and> RecordApproval se pick tool input am = am"
  using marked_chained [OF assms(4), of tool]
  by (cases am) (simp_all add: ShouldAutoApprove_def RecordApproval_def MakeKey_command [OF assms(1-3)])

theorem chained_never_auto_approved_witness:
  "\<not> ShouldAutoApprove plain_sig (Some \<lparr>am_store = [(''bash:make; reboot'', \<lparr>consecutive = 9, autoApproved = True\<rparr>)],
       am_lastMode = BypassMode\<rparr>) ''bash'' (cmd_input '' make; reboot'')"
proof -
  let ?m = "obj_map [(''command'', JStr '' make; reboot'')]"
  have u: "unmarshal_map (cmd_input '' make; reboot'') = Some ?m"
    by (simp add: cmd_input_def unmarshal_map_def)
  have n: "no_target ?m" by code_simp
  have f: "first_nonempty ?m [''command'', ''input''] = Some '' make; reboot''" by code_simp
  have c: "shell_chained (TrimSpace '' make; reboot'')" by code_simp
  show ?thesis by (rule conjunct1 [OF chained_never_auto_approved [OF u n f c, of _ _ _ id]])
qed

text \<open>
  The key of a call that carries a path argument says nothing about its command: two calls of a
  tool with the same path share one key, whatever commands they carry, chained ones included,
  so approvals of the one count for the other.
\<close>

theorem path_argument_hides_command:
  assumes "unmarshal_map input1 = Some m1" "first_nonempty m1 path_keys = Some s"
    and "unmarshal_map input2 = Some m2" "first_nonempty m2 path_keys = Some s"
  shows "ShouldAutoApprove se am tool input1 = ShouldAutoApprove se am tool input2 \<and>
         RecordApproval se pick tool input1 am = RecordApproval se pick tool input2 am"
  unfolding ShouldAutoApprove_def RecordApproval_def MakeKey_path [OF assms(1,2)] MakeKey_path [OF assms(3,4)]
  by blast

theorem path_argument_hides_command_witness:
  "let mk = (\<lambda>c. Some (JObj [(''path'', JStr ''/w/x''), (''command'', JStr c)])) in
   ShouldAutoApprove plain_sig (fold (am_step plain_sig) (replicate 3 (AmApprove id ''bash'' (mk ''ls''))) (Some NewApprovalMemory))
     ''bash'' (mk ''make; sh x'')"
proof -
  let ?mk = "\<lambda>c. Some (JObj [(''path'', JStr ''/w/x''), (''command'', JStr c)])"
  let ?am = "fold (am_step plain_sig) (replicate 3 (AmApprove id ''bash'' (?mk ''ls''))) (Some NewApprovalMemory)"
  let ?m = "\<lambda>c. obj_map [(''path'', JStr ''/w/x''), (''command'', JStr c)]"
  have u: "unmarshal_map (?mk c) = Some (?m c)" for c by (simp add: unmarshal_map_def)
  have f: "first_nonempty (?m ''ls'') path_keys = Some ''/w/x''"
    "first_nonempty (?m ''make; sh x'') path_keys = Some ''/w/x''" by code_simp+
  have "ShouldAutoApprove plain_sig ?am ''bash'' (?mk ''ls'')" by code_simp
  with conjunct1 [OF path_argument_hides_command [OF u f(1) u f(2)]] show ?thesis by (simp add: Let_def)
qed

end
