(* ===== verification/AskThrottle.thy ===== *)
theory AskThrottle
  imports ApprovalMemory
begin

text \<open>
  \<^verbatim>\<open>internal/permission/ask_throttle.go\<close>: a request the user has refused twice within the last
  minute is refused without asking again. Times are nanoseconds; \<open>time.Now()\<close> is an argument.

  \<open>prune\<close> compacts the slice it is given in place. \<open>ShouldSuppress\<close> throws the compacted slice away
  but the map keeps the old one, of the old length over the same array, so the call does
  change what the map holds: the kept times move to the front and the tail stays as it was.
\<close>

record AskThrottle =
  th_window :: int
  th_threshold :: nat
  th_denials :: "string \<Rightarrow> int list"

definition DefaultAskThrottleWindow :: int where
  "DefaultAskThrottleWindow = 60000000000"

definition DefaultAskThrottleThreshold :: nat where
  "DefaultAskThrottleThreshold = 2"

definition NewAskThrottle :: AskThrottle where
  "NewAskThrottle = \<lparr>th_window = DefaultAskThrottleWindow, th_threshold = DefaultAskThrottleThreshold,
     th_denials = (\<lambda>_. [])\<rparr>"

definition prune :: "AskThrottle \<Rightarrow> int list \<Rightarrow> int \<Rightarrow> int list" where
  "prune t tms now = filter (\<lambda>at. now - at \<le> th_window t) tms"

text \<open>The old slice after \<open>prune\<close> has compacted its array.\<close>

definition compacted :: "AskThrottle \<Rightarrow> int list \<Rightarrow> int \<Rightarrow> int list" where
  "compacted t tms now = (let kept = prune t tms now in kept @ drop (length kept) tms)"

definition RecordDenial :: "sig_env \<Rightarrow> string \<Rightarrow> raw_message \<Rightarrow> int \<Rightarrow> AskThrottle option \<Rightarrow> AskThrottle option" where
  "RecordDenial se tool input now to =
     map_option (\<lambda>t.
       let k = MakeKey se tool input in
       t\<lparr>th_denials := (th_denials t)(k := prune t (th_denials t k) now @ [now])\<rparr>) to"

definition ShouldSuppress ::
  "sig_env \<Rightarrow> string \<Rightarrow> raw_message \<Rightarrow> int \<Rightarrow> AskThrottle option \<Rightarrow> bool \<times> AskThrottle option" where
  "ShouldSuppress se tool input now to =
     (case to of
        None \<Rightarrow> (False, None)
      | Some t \<Rightarrow>
          let k = MakeKey se tool input in
          (length (prune t (th_denials t k) now) \<ge> th_threshold t,
           Some (t\<lparr>th_denials := (th_denials t)(k := compacted t (th_denials t k) now)\<rparr>)))"

section \<open>The throttle and the history of refusals\<close>

text \<open>
  An event happens some time after the one before it: the user refuses a call, or the throttle is
  asked about one. The history is the list of the times of refusal per key.
\<close>

datatype th_event = ThDeny nat string raw_message | ThAsk nat string raw_message

fun th_step :: "sig_env \<Rightarrow> th_event \<Rightarrow> int \<times> AskThrottle option \<Rightarrow> int \<times> AskThrottle option" where
  "th_step se (ThDeny d tool input) (clk, t) = (clk + int d, RecordDenial se tool input (clk + int d) t)"
| "th_step se (ThAsk d tool input) (clk, t) = (clk + int d, snd (ShouldSuppress se tool input (clk + int d) t))"

fun hist_step :: "sig_env \<Rightarrow> th_event \<Rightarrow> int \<times> (string \<Rightarrow> int list) \<Rightarrow> int \<times> (string \<Rightarrow> int list)" where
  "hist_step se (ThDeny d tool input) (clk, h) =
     (clk + int d, h(MakeKey se tool input := h (MakeKey se tool input) @ [clk + int d]))"
| "hist_step se (ThAsk d tool input) (clk, h) = (clk + int d, h)"

definition recent :: "int \<Rightarrow> int list \<Rightarrow> int list" where
  "recent now tms = filter (\<lambda>at. now - at \<le> DefaultAskThrottleWindow) tms"

definition remembers :: "int \<Rightarrow> int list \<Rightarrow> int list \<Rightarrow> bool" where
  "remembers clk ts h \<longleftrightarrow> set ts \<subseteq> set h \<and> (\<forall>now \<ge> clk. mset (recent now h) \<subseteq># mset ts)"

definition throttle_rel :: "int \<times> AskThrottle option \<Rightarrow> int \<times> (string \<Rightarrow> int list) \<Rightarrow> bool" where
  "throttle_rel c a \<longleftrightarrow>
     fst c = fst a \<and>
     (\<exists>t. snd c = Some t \<and> th_window t = DefaultAskThrottleWindow \<and>
          th_threshold t = DefaultAskThrottleThreshold \<and>
          (\<forall>k. remembers (fst a) (th_denials t k) (snd a k)))"

lemma recent_recent: "clk \<le> now \<Longrightarrow> recent clk (recent now ts) = recent now ts"
  by (auto simp: recent_def intro!: filter_cong)

lemma remembers_later: "remembers clk ts h \<Longrightarrow> clk \<le> clk' \<Longrightarrow> remembers clk' ts h"
  by (auto simp: remembers_def)

lemma mset_recent: "mset (recent now ts) = filter_mset (\<lambda>at. now - at \<le> DefaultAskThrottleWindow) (mset ts)"
  by (simp add: recent_def)

lemma recent_kept:
  assumes "remembers clk ts h" and "clk \<le> now"
  shows "mset (recent now h) \<subseteq># mset (recent clk ts)"
proof -
  have "mset (recent clk (recent now h)) \<subseteq># mset (recent clk ts)"
    using assms by (auto simp: remembers_def mset_recent intro: multiset_filter_mono)
  then show ?thesis using recent_recent [OF assms(2)] by simp
qed

lemma remembers_deny:
  assumes "remembers clk ts h"
  shows "remembers clk (recent clk ts @ [clk]) (h @ [clk])"
proof -
  have "mset (recent now (h @ [clk])) \<subseteq># mset (recent clk ts @ [clk])" if "clk \<le> now" for now
  proof -
    have "mset (recent now [clk]) \<subseteq># {#clk#}" by (simp add: recent_def)
    with recent_kept [OF assms that]
    have "mset (recent now h) + mset (recent now [clk]) \<subseteq># mset (recent clk ts) + {#clk#}"
      by (rule subset_mset.add_mono)
    then show ?thesis by (simp add: recent_def)
  qed
  with assms show ?thesis by (auto simp: remembers_def recent_def)
qed

lemma remembers_ask:
  assumes "remembers clk ts h"
  shows "remembers clk (recent clk ts @ drop (length (recent clk ts)) ts) h"
proof -
  have "set (recent clk ts @ drop (length (recent clk ts)) ts) \<subseteq> set ts"
    using set_drop_subset [of "length (recent clk ts)" ts] by (auto simp: recent_def)
  moreover have "mset (recent now h) \<subseteq># mset (recent clk ts @ drop (length (recent clk ts)) ts)" if "clk \<le> now" for now
    using recent_kept [OF assms that] by (simp add: subset_mset.add_increasing2)
  ultimately show ?thesis using assms by (auto simp: remembers_def)
qed

interpretation throttle: simulation "th_step se" "hist_step se" throttle_rel "\<lambda>_. True" for se
proof unfold_locales
  fix op c a
  assume R: "throttle_rel c a"
  obtain clk h where a: "a = (clk, h)" by (cases a)
  from R a obtain t where c: "c = (clk, Some t)" and w: "th_window t = DefaultAskThrottleWindow"
    "th_threshold t = DefaultAskThrottleThreshold" and rem: "\<And>k. remembers clk (th_denials t k) (h k)"
    by (cases c) (auto simp: throttle_rel_def)
  have pr: "prune t ts now = recent now ts" for ts now by (simp add: prune_def recent_def w)
  have later: "remembers (clk + int d) (th_denials t k) (h k)" for d k
    by (rule remembers_later [OF rem]) simp
  show "throttle_rel (th_step se op c) (hist_step se op a)"
  proof (cases op)
    case (ThDeny d tool input)
    with later w show ?thesis
      by (simp add: a c throttle_rel_def RecordDenial_def Let_def pr remembers_deny)
  next
    case (ThAsk d tool input)
    with later w show ?thesis
      by (simp add: a c throttle_rel_def ShouldSuppress_def compacted_def Let_def pr remembers_ask)
  qed
qed

definition denials_of :: "sig_env \<Rightarrow> th_event list \<Rightarrow> string \<Rightarrow> int list" where
  "denials_of se evs k = snd (fold (hist_step se) evs (0, \<lambda>_. [])) k"

text \<open>
  The throttle never lets a nagging request through: once a call has been refused twice
  within the last minute it is suppressed, whatever else was asked or refused in between. It
  never invents a refusal: a suppressed call has been refused at least once within the minute.
\<close>

theorem throttle_decides:
  assumes "fold (th_step se) evs (0, Some NewAskThrottle) = (clk, t)" and "clk \<le> now"
  shows "(length (recent now (denials_of se evs (MakeKey se tool input))) \<ge> 2 \<longrightarrow>
            fst (ShouldSuppress se tool input now t)) \<and>
         (fst (ShouldSuppress se tool input now t) \<longrightarrow>
            recent now (denials_of se evs (MakeKey se tool input)) \<noteq> [])"
proof -
  let ?k = "MakeKey se tool input"
  have "throttle_rel (0, Some NewAskThrottle) (0, \<lambda>_. [])"
    by (simp add: throttle_rel_def NewAskThrottle_def remembers_def recent_def)
  then have R: "throttle_rel (clk, t) (fold (hist_step se) evs (0, \<lambda>_. []))"
    unfolding assms(1) [symmetric] by (intro throttle.sim_run) (simp_all add: list_all_iff)
  then obtain t' where t': "t = Some t'" "th_window t' = DefaultAskThrottleWindow"
    "th_threshold t' = DefaultAskThrottleThreshold"
    and rem: "remembers clk (th_denials t' ?k) (denials_of se evs ?k)"
    by (auto simp: throttle_rel_def denials_of_def)
  have pr: "prune t' (th_denials t' ?k) now = recent now (th_denials t' ?k)"
    by (simp add: prune_def recent_def t'(2))
  have "mset (recent now (denials_of se evs ?k)) \<subseteq># mset (recent now (th_denials t' ?k))"
    by (rule recent_kept [OF remembers_later [OF rem assms(2)]]) simp
  then have len: "length (recent now (denials_of se evs ?k)) \<le> length (recent now (th_denials t' ?k))"
    using size_mset_mono by fastforce
  have sub: "set (recent now (th_denials t' ?k)) \<subseteq> set (recent now (denials_of se evs ?k))"
    using rem by (auto simp: remembers_def recent_def)
  have "fst (ShouldSuppress se tool input now t) \<longleftrightarrow> length (recent now (th_denials t' ?k)) \<ge> 2"
    by (simp add: ShouldSuppress_def Let_def t' pr DefaultAskThrottleThreshold_def)
  with len sub show ?thesis by fastforce
qed

theorem throttle_decides_witness:
  "fst (ShouldSuppress plain_sig ''bash'' None 50
     (snd (fold (th_step plain_sig) [ThDeny 10 ''bash'' None, ThAsk 5 ''bash'' None, ThDeny 20 ''bash'' None] (0, Some NewAskThrottle))))"
proof -
  let ?evs = "[ThDeny 10 ''bash'' None, ThAsk 5 ''bash'' None, ThDeny 20 ''bash'' None]"
  let ?s = "fold (th_step plain_sig) ?evs (0, Some NewAskThrottle)"
  have clk: "fst ?s = 35" by simp
  have "length (recent 50 (denials_of plain_sig ?evs (MakeKey plain_sig ''bash'' None))) \<ge> 2"
    by (simp add: denials_of_def recent_def DefaultAskThrottleWindow_def)
  moreover have "?s = (fst ?s, snd ?s)" by (rule prod.collapse [symmetric])
  moreover have "fst ?s \<le> 50" unfolding clk by simp
  ultimately show ?thesis
    using throttle_decides [of plain_sig ?evs "fst ?s" "snd ?s" 50 "''bash''" None] by blast
qed

text \<open>
  One refusal can be enough. Two refusals fifty seconds apart, and a question after the first
  has left the window: the answer is to ask the user, but the question leaves the second
  refusal twice in the map, and the next question is suppressed with one refusal in the window.
\<close>

theorem throttle_counts_one_denial_twice:
  "\<exists>t1 t2.
     fold (th_step plain_sig) [ThDeny 0 ''bash'' None, ThDeny 50000000000 ''bash'' None] (0, Some NewAskThrottle)
       = (50000000000, t1) \<and>
     ShouldSuppress plain_sig ''bash'' None 61000000000 t1 = (False, t2) \<and>
     fst (ShouldSuppress plain_sig ''bash'' None 62000000000 t2) \<and>
     recent 62000000000 (denials_of plain_sig [ThDeny 0 ''bash'' None, ThDeny 50000000000 ''bash'' None]
       (MakeKey plain_sig ''bash'' None)) = [50000000000]"
proof -
  have k: "MakeKey plain_sig ''bash'' None = ''bash''" by (simp add: MakeKey_def unmarshal_map_def)
  show ?thesis
    by (simp add: RecordDenial_def ShouldSuppress_def NewAskThrottle_def prune_def compacted_def
        denials_of_def recent_def DefaultAskThrottleWindow_def DefaultAskThrottleThreshold_def Let_def k)
qed

end
