(* ===== verification/Gate.thy ===== *)
theory Gate
  imports AskThrottle
begin

text \<open>
  The permission gate in front of every tool call: \<open>executeToolWithPermission\<close> of
  \<^verbatim>\<open>internal/agent/agent_tool.go\<close>, its twin \<open>usePreExecutedWithPermission\<close> of \<^verbatim>\<open>parallel_tools.go\<close>, and the
  guard that counts refusals in a row (\<^verbatim>\<open>permission_deny_streak.go\<close>).

  The gate talks to a policy through the Go interface \<open>PermissionPolicy\<close>, here a record of its
  methods; the user is the answer the approval handler gives when it is called. Running the
  tool once the gate has let it through (\<open>executeToolWithTimeout\<close>, the latency hint and the metric)
  is an argument.
\<close>

record Result =
  Content :: string
  IsError :: bool

text \<open>Go's \<open>%q\<close> for ASCII text.\<close>

definition quote_char :: "char \<Rightarrow> string" where
  "quote_char c =
     (if c = CHR 0x22 \<or> c = bslash then [bslash, c]
      else if c = CHR 0x07 then [bslash, CHR ''a'']
      else if c = CHR 0x08 then [bslash, CHR ''b'']
      else if c = CHR 0x0C then [bslash, CHR ''f'']
      else if c = CHR 0x0A then [bslash, CHR ''n'']
      else if c = CHR 0x0D then [bslash, CHR ''r'']
      else if c = CHR 0x09 then [bslash, CHR ''t'']
      else if c = CHR 0x0B then [bslash, CHR ''v'']
      else if byte_val c < 32 \<or> byte_val c = 127
      then [bslash, CHR ''x'', hex_digit (byte_val c div 16), hex_digit (byte_val c mod 16)]
      else [c])"

definition Quote :: "string \<Rightarrow> string" where
  "Quote s = CHR 0x22 # concat (map quote_char s) @ [CHR 0x22]"

definition newline :: string where
  "newline = [CHR 0x0A]"

record 'p policy_iface =
  pi_check :: "'p \<Rightarrow> string \<Rightarrow> raw_message \<Rightarrow> string + Decision"
  pi_mode :: "'p \<Rightarrow> PermissionMode"
  pi_blocks :: "'p \<Rightarrow> string \<Rightarrow> raw_message \<Rightarrow> bool"

definition config_iface :: "os_env \<Rightarrow> ConfigPolicy policy_iface" where
  "config_iface env =
     \<lparr>pi_check = (\<lambda>p tool input. Inr (Check env p tool input)), pi_mode = p_mode, pi_blocks = BlocksAutoApprove\<rparr>"

datatype audit_status = StatusUserApproved | StatusUserDenied | StatusAskTimeout | StatusPolicyDenied

record audit_event =
  ev_tool :: string
  ev_status :: audit_status
  ev_note :: string

record 'p agent_gate =
  g_policy :: "'p option"
  g_memory :: "ApprovalMemory option"
  g_throttle :: "AskThrottle option"
  g_ledger :: "audit_event list option"

text \<open>What surrounds one call: a context error, the answer of the approval handler (\<open>None\<close>: no
  handler), the clock when the throttle is asked and when a refusal is recorded, and the order
  in which a map would be ranged over.\<close>

record gate_call =
  gc_ctxErr :: "string option"
  gc_handler :: "Decision option"
  gc_askTime :: int
  gc_denyTime :: int
  gc_pick :: "approval_store \<Rightarrow> approval_store"

definition auditErrMax :: nat where
  "auditErrMax = 300"

definition auditToolResult :: "string \<Rightarrow> audit_status \<Rightarrow> string \<Rightarrow> 'p agent_gate \<Rightarrow> 'p agent_gate" where
  "auditToolResult name st note g =
     g\<lparr>g_ledger := map_option (\<lambda>evs. evs @ [\<lparr>ev_tool = name, ev_status = st, ev_note = take auditErrMax note\<rparr>]) (g_ledger g)\<rparr>"

definition currentMode :: "'p policy_iface \<Rightarrow> 'p agent_gate \<Rightarrow> PermissionMode" where
  "currentMode pi g = (case g_policy g of Some p \<Rightarrow> pi_mode pi p | None \<Rightarrow> SupervisedMode)"

definition permissionDeniedMessage :: "PermissionMode \<Rightarrow> string \<Rightarrow> string" where
  "permissionDeniedMessage mode toolName =
     ''Permission denied for tool '' @ Quote toolName @
     ''. The operation was blocked by the permission policy (current mode: '' @ Mode_String mode @ '').'' @ newline @
     (if mode = PlanMode
      then ''Plan mode denies explicit file-writing tools until the mode changes (reads, shell probes, and builds are allowed). '' @
           ''If you did not intend to operate in plan mode, call exit_plan_mode to restore the previous mode ('' @
           ''supervised or bypass), or present your plan via exit_plan_mode.'' @ newline
      else '''') @
     ''To proceed:'' @ newline @
     ''1. If this is a file write, ensure the path is within the workspace'' @ newline @
     ''2. Ask the user to switch to a more permissive mode (Shift+Tab) or approve the specific operation'' @ newline @
     ''3. Do NOT retry the same operation - it will be denied again''"

text \<open>The wording in which the two gates differ.\<close>

record gate_texts =
  gt_policyDenied :: string
  gt_suppressedNote :: string
  gt_suppressedTail :: string
  gt_userDenied :: string
  gt_timedOut :: string
  gt_cancelled :: string

definition refuse :: "string \<Rightarrow> Result" where
  "refuse msg = \<lparr>Content = msg, IsError = True\<rparr>"

text \<open>The part of both functions up to the use of the tool: a refusal, or \<open>None\<close> to go ahead.\<close>

definition permission_gate ::
  "gate_texts \<Rightarrow> sig_env \<Rightarrow> 'p policy_iface \<Rightarrow> gate_call \<Rightarrow> string \<Rightarrow> raw_message \<Rightarrow> 'p agent_gate \<Rightarrow> Result option \<times> 'p agent_gate" where
  "permission_gate tx se pi gc tool input g =
     (case gc_ctxErr gc of
        Some e \<Rightarrow> (Some (refuse e), g)
      | None \<Rightarrow>
     (case g_policy g of
        None \<Rightarrow> (None, g)
      | Some p \<Rightarrow>
     (case pi_check pi p tool input of
        Inl e \<Rightarrow> (Some (refuse (''permission check error: '' @ e)), g)
      | Inr d \<Rightarrow>
          if d = Deny then
            (Some (refuse (permissionDeniedMessage (currentMode pi g) tool)),
             auditToolResult tool StatusPolicyDenied (gt_policyDenied tx) g)
          else if d = Ask then
            (let g1 = g\<lparr>g_memory := EnsureModeScope (pi_mode pi p) (g_memory g)\<rparr> in
             if ShouldAutoApprove se (g_memory g1) tool input \<and> \<not> pi_blocks pi p tool input then (None, g1)
             else
               (case gc_handler gc of
                  None \<Rightarrow>
                    (Some (refuse (''Permission denied for tool '' @ Quote tool @
                       ''. No approval handler available (running in non-interactive mode).'')), g1)
                | Some resp \<Rightarrow>
                    let (sup, th) = ShouldSuppress se tool input (gc_askTime gc) (g_throttle g1);
                        g2 = g1\<lparr>g_throttle := th\<rparr> in
                    if sup then
                      (Some (refuse (''Permission denied for tool '' @ Quote tool @ gt_suppressedTail tx)),
                       auditToolResult tool StatusUserDenied (gt_suppressedNote tx) g2)
                    else if resp = Deny then
                      (let g3 = auditToolResult tool StatusUserDenied (gt_userDenied tx) g2 in
                       (Some (refuse (''Permission denied for tool '' @ Quote tool @ ''. User rejected the request.'')),
                        g3\<lparr>g_memory := RecordDeny se tool input (g_memory g3),
                           g_throttle := RecordDenial se tool input (gc_denyTime gc) (g_throttle g3)\<rparr>))
                    else if IsNonDecision resp then
                      (Some (refuse (''Approval for tool '' @ Quote tool @ '' ended without a user decision ('' @
                         Decision_String resp @
                         ''). The tool was not executed. If this step is still needed, ask again when the user is available; do not treat this as a rejection of the approach.'')),
                       auditToolResult tool StatusAskTimeout
                         (if resp = Cancelled then gt_cancelled tx else gt_timedOut tx) g2)
                    else
                      (let g3 = auditToolResult tool StatusUserApproved '''' g2 in
                       (None, g3\<lparr>g_memory := RecordApproval se (gc_pick gc) tool input (g_memory g3)\<rparr>))))
          else (None, g))))"

definition serial_texts :: gate_texts where
  "serial_texts =
     \<lparr>gt_policyDenied = ''denied by permission policy (mode-independent rule)'',
      gt_suppressedNote = ''suppressed by ask throttle (repeated denial)'',
      gt_suppressedTail = '' without prompting: this exact request was denied twice within the last minute. Re-asking is blocked to avoid nagging the user. Change your approach (different tool, different target, or abandon this step) instead of repeating the request.'',
      gt_userDenied = ''user denied at approval gate'',
      gt_timedOut = ''approval timed out (no user response)'',
      gt_cancelled = ''approval cancelled (run interrupted or request displaced)''\<rparr>"

definition parallel_texts :: gate_texts where
  "parallel_texts =
     \<lparr>gt_policyDenied = ''denied by permission policy (mode-independent rule, parallel)'',
      gt_suppressedNote = ''suppressed by ask throttle (repeated denial, parallel)'',
      gt_suppressedTail = '' without prompting: this exact request was denied twice within the last minute. Re-asking is blocked to avoid nagging the user. Change your approach instead of repeating the request.'',
      gt_userDenied = ''user denied at approval gate (parallel)'',
      gt_timedOut = ''approval timed out (no user response, parallel)'',
      gt_cancelled = ''approval cancelled (run interrupted or request displaced, parallel)''\<rparr>"

definition executeToolWithPermission ::
  "sig_env \<Rightarrow> 'p policy_iface \<Rightarrow> gate_call \<Rightarrow> ('p agent_gate \<Rightarrow> Result \<times> 'p agent_gate) \<Rightarrow> string \<Rightarrow> raw_message \<Rightarrow>
     'p agent_gate \<Rightarrow> Result \<times> 'p agent_gate" where
  "executeToolWithPermission se pi gc run tool input g =
     (case permission_gate serial_texts se pi gc tool input g of
        (Some r, g') \<Rightarrow> (r, g')
      | (None, g') \<Rightarrow> run g')"

definition usePreExecutedWithPermission ::
  "sig_env \<Rightarrow> 'p policy_iface \<Rightarrow> gate_call \<Rightarrow> Result \<Rightarrow> string \<Rightarrow> raw_message \<Rightarrow> 'p agent_gate \<Rightarrow> Result \<times> 'p agent_gate" where
  "usePreExecutedWithPermission se pi gc pre tool input g =
     (case permission_gate parallel_texts se pi gc tool input g of
        (Some r, g') \<Rightarrow> (r, g')
      | (None, g') \<Rightarrow> (pre, g'))"

section \<open>Refusals in a row\<close>

definition permDenyStreakThreshold :: int where "permDenyStreakThreshold = 3"
definition permDenyStreakMaxFires :: int where "permDenyStreakMaxFires = 2"
definition permDenyRefireGap :: int where "permDenyRefireGap = 5"

record permDenyStreakState =
  ps_streak :: int
  ps_userDenied :: int
  ps_fires :: int
  ps_lastFireAt :: int

definition newPermDenyStreakState :: permDenyStreakState where
  "newPermDenyStreakState = \<lparr>ps_streak = 0, ps_userDenied = 0, ps_fires = 0, ps_lastFireAt = 0\<rparr>"

definition permDeny_reset :: "permDenyStreakState \<Rightarrow> permDenyStreakState" where
  "permDeny_reset s = s\<lparr>ps_streak := 0, ps_userDenied := 0, ps_fires := 0, ps_lastFireAt := 0\<rparr>"

definition isPermissionDeniedResult :: "Result \<Rightarrow> bool" where
  "isPermissionDeniedResult r \<longleftrightarrow>
     (if \<not> IsError r then False else HasPrefix (TrimSpace (Content r)) ''Permission denied for tool'')"

text \<open>What \<open>record\<close> tells the model to do, before it is put into words.\<close>

datatype mode_guard = NoGuard | UserRejections int int | PolicyDenials int PermissionMode

definition permDeny_record :: "PermissionMode \<Rightarrow> Result \<Rightarrow> permDenyStreakState \<Rightarrow> mode_guard \<times> permDenyStreakState" where
  "permDeny_record mode r s =
     (if \<not> isPermissionDeniedResult r then (NoGuard, s\<lparr>ps_streak := 0, ps_userDenied := 0\<rparr>)
      else
        let s1 = s\<lparr>ps_streak := ps_streak s + 1\<rparr>;
            s2 = (if Contains (Content r) ''User rejected'' then s1\<lparr>ps_userDenied := ps_userDenied s1 + 1\<rparr> else s1) in
        if ps_streak s2 < permDenyStreakThreshold \<or> ps_fires s2 \<ge> permDenyStreakMaxFires then (NoGuard, s2)
        else if ps_lastFireAt s2 \<noteq> 0 \<and> ps_streak s2 < ps_lastFireAt s2 + permDenyRefireGap then (NoGuard, s2)
        else
          let s3 = s2\<lparr>ps_fires := ps_fires s2 + 1, ps_lastFireAt := ps_streak s2\<rparr> in
          if ps_userDenied s3 * 2 \<ge> ps_streak s3 then (UserRejections (ps_streak s3) (ps_userDenied s3), s3)
          else (PolicyDenials (ps_streak s3) mode, s3))"

section \<open>Who let a call through\<close>

datatype verdict = ByPolicy | ByMemory | ByUser | UserRefused | Refused

text \<open>
  The user says yes when the handler is asked and answers with anything but a refusal, a timeout
  or a cancellation.
\<close>

definition user_yes :: "sig_env \<Rightarrow> gate_call \<Rightarrow> string \<Rightarrow> raw_message \<Rightarrow> 'p agent_gate \<Rightarrow> bool" where
  "user_yes se gc tool input g \<longleftrightarrow>
     (case gc_handler gc of
        None \<Rightarrow> False
      | Some r \<Rightarrow> \<not> fst (ShouldSuppress se tool input (gc_askTime gc) (g_throttle g)) \<and> r \<noteq> Deny \<and> \<not> IsNonDecision r)"

definition user_no :: "sig_env \<Rightarrow> gate_call \<Rightarrow> string \<Rightarrow> raw_message \<Rightarrow> 'p agent_gate \<Rightarrow> bool" where
  "user_no se gc tool input g \<longleftrightarrow>
     gc_handler gc = Some Deny \<and> \<not> fst (ShouldSuppress se tool input (gc_askTime gc) (g_throttle g))"

definition learned :: "sig_env \<Rightarrow> 'p policy_iface \<Rightarrow> 'p \<Rightarrow> string \<Rightarrow> raw_message \<Rightarrow> 'p agent_gate \<Rightarrow> bool" where
  "learned se pi p tool input g \<longleftrightarrow>
     ShouldAutoApprove se (EnsureModeScope (pi_mode pi p) (g_memory g)) tool input \<and> \<not> pi_blocks pi p tool input"

definition gate_verdict ::
  "sig_env \<Rightarrow> 'p policy_iface \<Rightarrow> gate_call \<Rightarrow> string \<Rightarrow> raw_message \<Rightarrow> 'p agent_gate \<Rightarrow> verdict" where
  "gate_verdict se pi gc tool input g =
     (if gc_ctxErr gc \<noteq> None then Refused
      else (case g_policy g of
              None \<Rightarrow> ByPolicy
            | Some p \<Rightarrow>
                (case pi_check pi p tool input of
                   Inl e \<Rightarrow> Refused
                 | Inr d \<Rightarrow>
                     if d = Deny then Refused
                     else if d \<noteq> Ask then ByPolicy
                     else if learned se pi p tool input g then ByMemory
                     else if user_yes se gc tool input g then ByUser
                     else if user_no se gc tool input g then UserRefused
                     else Refused)))"

definition memory_ops ::
  "sig_env \<Rightarrow> 'p policy_iface \<Rightarrow> gate_call \<Rightarrow> string \<Rightarrow> raw_message \<Rightarrow> 'p agent_gate \<Rightarrow> am_op list" where
  "memory_ops se pi gc tool input g =
     (case g_policy g of
        None \<Rightarrow> []
      | Some p \<Rightarrow>
          if gc_ctxErr gc = None \<and> pi_check pi p tool input = Inr Ask then
            AmScope (pi_mode pi p) #
            (case gate_verdict se pi gc tool input g of
               ByUser \<Rightarrow> [AmApprove (gc_pick gc) tool input]
             | UserRefused \<Rightarrow> [AmDeny tool input]
             | _ \<Rightarrow> [])
          else [])"

lemmas gate_defs = permission_gate_def gate_verdict_def learned_def user_yes_def user_no_def auditToolResult_def

lemma gate_passes:
  "fst (permission_gate tx se pi gc tool input g) = None \<longleftrightarrow>
     gate_verdict se pi gc tool input g \<in> {ByPolicy, ByMemory, ByUser}"
  by (auto simp: gate_defs Let_def IsNonDecision_def split: option.splits sum.splits prod.splits)

lemma gate_memory:
  "g_memory (snd (permission_gate tx se pi gc tool input g)) =
     fold (am_step se) (memory_ops se pi gc tool input g) (g_memory g)"
  by (auto simp: gate_defs memory_ops_def Let_def IsNonDecision_def split: option.splits sum.splits prod.splits)

lemma gate_policy [simp]: "g_policy (snd (permission_gate tx se pi gc tool input g)) = g_policy g"
  by (auto simp: gate_defs Let_def split: option.splits sum.splits prod.splits)

lemma gate_ledger_user:
  "gate_verdict se pi gc tool input g = ByUser \<Longrightarrow>
     g_ledger (snd (permission_gate tx se pi gc tool input g)) =
     map_option (\<lambda>evs. evs @ [\<lparr>ev_tool = tool, ev_status = StatusUserApproved, ev_note = ''''\<rparr>]) (g_ledger g)"
  by (auto simp: gate_defs Let_def IsNonDecision_def split: option.splits sum.splits prod.splits if_splits)

section \<open>The contract of a policy\<close>

text \<open>
  What the gate needs of a policy so that some calls reach the user every time: it does not
  allow them by itself and forbids the memory to.
\<close>

locale gated_policy =
  fixes pi :: "'p policy_iface"
    and always_ask :: "'p \<Rightarrow> string \<Rightarrow> raw_message \<Rightarrow> bool"
  assumes asks: "always_ask p tool input \<Longrightarrow> pi_check pi p tool input = Inr d \<Longrightarrow> d \<in> {Ask, Deny}"
    and blocks: "always_ask p tool input \<Longrightarrow> pi_blocks pi p tool input"
begin

lemma passes_only_by_user:
  assumes "g_policy g = Some p" and "always_ask p tool input"
    and "fst (permission_gate tx se pi gc tool input g) = None"
  shows "gate_verdict se pi gc tool input g = ByUser"
  using assms asks [OF assms(2)] blocks [OF assms(2)]
  by (fastforce simp: gate_passes gate_verdict_def learned_def split: if_splits sum.splits)

end

definition needs_user :: "ConfigPolicy \<Rightarrow> string \<Rightarrow> raw_message \<Rightarrow> bool" where
  "needs_user p tool input \<longleftrightarrow>
     isCommandTool tool \<and>
     list_ex (\<lambda>cmd. IsExtremelyDangerous (p_detector p) cmd \<or> (p_networkDetector p \<and> credentialPayloadExfil cmd))
       (extractCommandsForTool tool input)"

lemma extreme_is_dangerous: "IsExtremelyDangerous d cmd \<Longrightarrow> IsDangerous d cmd"
  unfolding IsExtremelyDangerous_def IsDangerous_def by (erule order.trans [rotated]) (simp add: less_eq_DangerLevel_def)

lemma needs_user_asks:
  assumes "needs_user p tool input"
  shows "Check env p tool input \<in> {Ask, Deny}"
proof -
  from assms obtain cmd where "isCommandTool tool" "cmd \<in> set (extractCommandsForTool tool input)" "cmd_floor env p cmd"
    by (auto simp: needs_user_def cmd_floor_def list_ex_iff)
  then show ?thesis by (rule floor_not_allowed)
qed

interpretation config: gated_policy "config_iface env" needs_user for env
proof unfold_locales
  fix p tool input d
  assume "needs_user p tool input" "pi_check (config_iface env) p tool input = Inr d"
  then show "d \<in> {Ask, Deny}" using needs_user_asks by (auto simp: config_iface_def)
next
  fix p tool input
  assume "needs_user p tool input"
  then show "pi_blocks (config_iface env) p tool input"
    by (auto simp: needs_user_def config_iface_def BlocksAutoApprove_def list_ex_iff
        dest: extreme_is_dangerous credential_is_exfil)
qed


section \<open>Runs of the gate\<close>

text \<open>
  The gate over the life of an agent: calls through either gate, with the policy replaced in
  any way between them. The log has the verdict of every call.
\<close>

type_synonym gate_log = "(string \<times> raw_message \<times> verdict) list"

inductive gate_steps :: "sig_env \<Rightarrow> 'p policy_iface \<Rightarrow> 'p agent_gate \<Rightarrow> gate_log \<Rightarrow> 'p agent_gate \<Rightarrow> bool"
  for se pi g0 where
  start: "gate_steps se pi g0 [] g0"
| call: "gate_steps se pi g0 log g \<Longrightarrow>
    gate_steps se pi g0 (log @ [(tool, input, gate_verdict se pi gc tool input g)])
      (snd (permission_gate tx se pi gc tool input g))"
| repolicy: "gate_steps se pi g0 log g \<Longrightarrow> gate_steps se pi g0 log (g\<lparr>g_policy := q\<rparr>)"

definition tally_step :: "sig_env \<Rightarrow> string \<Rightarrow> string \<times> raw_message \<times> verdict \<Rightarrow> int \<Rightarrow> int" where
  "tally_step se k e n =
     (case e of (tool, input, v) \<Rightarrow>
        if MakeKey se tool input \<noteq> k then n
        else if v = ByUser then n + 1 else if v = UserRefused then 0 else n)"

text \<open>How often the user has approved calls under a key since refusing one.\<close>

definition tally :: "sig_env \<Rightarrow> string \<Rightarrow> gate_log \<Rightarrow> int" where
  "tally se k log = fold (tally_step se k) log 0"

lemma verdict_asked:
  "gate_verdict se pi gc tool input g \<in> {ByMemory, ByUser, UserRefused} \<Longrightarrow>
     \<exists>p. g_policy g = Some p \<and> gc_ctxErr gc = None \<and> pi_check pi p tool input = Inr Ask"
  by (auto simp: gate_verdict_def split: if_splits option.splits sum.splits)

lemma memory_ops_tally:
  assumes "\<And>k. sp_count spc k \<le> n k" and "\<And>k. 0 \<le> n k"
  shows "sp_count (fold (spec_step se) (memory_ops se pi gc tool input g) spc) k
       \<le> tally_step se k (tool, input, gate_verdict se pi gc tool input g) (n k)"
  using assms(1) [of k] assms(2) [of k] verdict_asked [of se pi gc tool input g]
  by (auto simp: memory_ops_def tally_step_def Let_def add_increasing2
      split: option.splits verdict.splits)

lemma tally_nonneg: "0 \<le> tally se k log"
proof -
  have "0 \<le> n \<Longrightarrow> 0 \<le> fold (tally_step se k) log n" for n
    by (induction log arbitrary: n) (auto simp: tally_step_def split: prod.splits)
  then show ?thesis by (simp add: tally_def)
qed

definition log_covers :: "sig_env \<Rightarrow> gate_log \<Rightarrow> 'p agent_gate \<Rightarrow> bool" where
  "log_covers se log g \<longleftrightarrow>
     (\<exists>spc. counts_below (g_memory g) spc \<and> (\<forall>k. sp_count spc k \<le> tally se k log))"

lemma gate_steps_covered:
  assumes "gate_steps se pi g0 log g" and "g_memory g0 = Some NewApprovalMemory"
  shows "log_covers se log g"
  using assms(1)
proof induction
  case start
  have "counts_below (g_memory g0) spec_init"
    by (simp add: assms(2) counts_below_def NewApprovalMemory_def spec_init_def)
  then show ?case by (auto simp: log_covers_def tally_def spec_init_def)
next
  case (call log g tool input gc tx)
  then obtain spc where spc: "counts_below (g_memory g) spc" "\<And>k. sp_count spc k \<le> tally se k log"
    by (auto simp: log_covers_def)
  let ?ops = "memory_ops se pi gc tool input g"
  have "counts_below (fold (am_step se) ?ops (g_memory g)) (fold (spec_step se) ?ops spc)"
    using spc(1) by (intro below.sim_run) (simp_all add: list_all_iff)
  moreover have "sp_count (fold (spec_step se) ?ops spc) k
      \<le> tally se k (log @ [(tool, input, gate_verdict se pi gc tool input g)])" for k
    using memory_ops_tally [OF spc(2) tally_nonneg] by (simp add: tally_def)
  ultimately show ?case by (auto simp: log_covers_def gate_memory)
next
  case (repolicy log g q)
  then show ?case by (simp add: log_covers_def)
qed

lemma learned_tally:
  assumes "log_covers se log g" and "learned se pi p tool input g"
  shows "3 \<le> tally se (MakeKey se tool input) log"
proof -
  let ?m = "EnsureModeScope (pi_mode pi p) (g_memory g)"
  from assms(1) obtain spc where spc: "counts_below (g_memory g) spc" "\<And>k. sp_count spc k \<le> tally se k log"
    by (auto simp: log_covers_def)
  let ?spc = "spec_step se (AmScope (pi_mode pi p)) spc"
  have "counts_below ?m ?spc" using below.sim_step [OF _ spc(1), of se "AmScope (pi_mode pi p)"] by simp
  moreover have "ShouldAutoApprove se ?m tool input" using assms(2) by (simp add: learned_def)
  ultimately have "autoApproveThreshold \<le> sp_count ?spc (MakeKey se tool input)"
    by (auto simp: ShouldAutoApprove_def counts_below_def entry_ok_def Let_def
        simp del: spec_step.simps split: option.splits if_splits) (meson order_trans)
  moreover have "sp_count ?spc (MakeKey se tool input) \<le> tally se (MakeKey se tool input) log"
    using spc(2) [of "MakeKey se tool input"] tally_nonneg by auto
  ultimately show ?thesis by (simp add: autoApproveThreshold_def)
qed

text \<open>
  C3. Whatever calls an agent makes, and however its policy is changed between them: a call that
  the gate lets through on the strength of the memory alone was preceded by at least three calls
  of the same key that the user approved, with no refusal of that key by the user since.
\<close>

theorem memory_approval_was_earned:
  assumes "gate_steps se pi g0 log g" and "g_memory g0 = Some NewApprovalMemory"
    and "gate_verdict se pi gc tool input g = ByMemory"
  shows "3 \<le> tally se (MakeKey se tool input) log"
proof -
  from assms(3) obtain p where "learned se pi p tool input g"
    by (auto simp: gate_verdict_def split: if_splits option.splits sum.splits)
  with gate_steps_covered [OF assms(1,2)] show ?thesis by (rule learned_tally)
qed

section \<open>Witnesses of the gate\<close>

definition demo_agent :: "PermissionMode \<Rightarrow> ConfigPolicy agent_gate" where
  "demo_agent m = \<lparr>g_policy = Some (demo_policy m), g_memory = Some NewApprovalMemory,
     g_throttle = Some NewAskThrottle, g_ledger = Some []\<rparr>"

definition yes_call :: gate_call where
  "yes_call = \<lparr>gc_ctxErr = None, gc_handler = Some Allow, gc_askTime = 0, gc_denyTime = 0, gc_pick = id\<rparr>"

lemma mkfs_needs_user: "needs_user (demo_policy m) ''run_command'' (cmd_input ''mkfs /dev/sda'')"
proof -
  have "isCommandTool ''run_command''" by code_simp
  moreover have "extractCommandsForTool ''run_command'' (cmd_input ''mkfs /dev/sda'') = [''mkfs /dev/sda'']"
    by code_simp
  ultimately show ?thesis
    using mkfs_extreme by (simp add: needs_user_def demo_policy_def NewConfigPolicyWithMode_def
        NewConfigPolicyWithModeAndReadOnlyDirs_def)
qed

lemma demo_rule_free: "p_rules (demo_policy m) ''run_command'' = Some Allow" "p_mode (demo_policy m) = m"
  "p_cmdRules (demo_policy m) = Some NewCommandRuleSet"
  by (simp_all add: demo_policy_def NewConfigPolicyWithMode_def NewConfigPolicyWithModeAndReadOnlyDirs_def)

lemma no_rules_no_match: "CommandRuleSet_Check (Some NewCommandRuleSet) cmd = (Ask, False)"
  by (simp add: CommandRuleSet_Check_def NewCommandRuleSet_def any_match_def Let_def)

lemma mkfs_asked: "Check demo_env (demo_policy BypassMode) ''run_command'' (cmd_input ''mkfs /dev/sda'') = Ask"
proof -
  have "list_ex (cmd_floor demo_env (demo_policy BypassMode)) (extractCommandsForTool ''run_command'' (cmd_input ''mkfs /dev/sda''))"
    using mkfs_needs_user [of BypassMode] by (auto simp: needs_user_def cmd_floor_def list_ex_iff)
  moreover have "isCommandTool ''run_command''" by code_simp
  ultimately show ?thesis
    using command_tool_plain [of "''run_command''"]
    by (simp add: Check_def check_bypass_def cmd_rule_hit_def demo_rule_free no_rules_no_match list_ex_iff)
qed


definition ask_policy :: ConfigPolicy where
  "ask_policy = SetOverride ''git_commit'' Ask (demo_policy SupervisedMode)"

definition taught :: "nat \<Rightarrow> ApprovalMemory" where
  "taught n = \<lparr>am_store = (if n = 0 then [] else [(''git_commit'', \<lparr>consecutive = int n, autoApproved = n \<ge> 3\<rparr>)]),
     am_lastMode = SupervisedMode\<rparr>"

definition taught_agent :: "nat \<Rightarrow> ConfigPolicy agent_gate \<Rightarrow> bool" where
  "taught_agent n g \<longleftrightarrow> g_policy g = Some ask_policy \<and> g_memory g = Some (taught n) \<and> g_throttle g = Some NewAskThrottle"

lemma ask_policy_asks: "Check env ask_policy ''git_commit'' input = Ask" "p_mode ask_policy = SupervisedMode"
  by (simp_all add: ask_policy_def SetOverride_def Check_def demo_rule_free)

lemma git_commit_key: "MakeKey plain_sig ''git_commit'' None = ''git_commit''" "\<not> marked ''git_commit''"
  by (simp add: MakeKey_def unmarshal_map_def, code_simp)

lemma scope_taught: "EnsureModeScope SupervisedMode (Some (taught n)) = Some (taught n)"
  by (simp add: EnsureModeScope_def taught_def)

lemma taught_auto: "ShouldAutoApprove plain_sig (Some (taught n)) ''git_commit'' None \<longleftrightarrow> n \<ge> 3"
  by (auto simp: ShouldAutoApprove_def taught_def git_commit_key)

lemma taught_record: "RecordApproval plain_sig pick ''git_commit'' None (Some (taught n)) = Some (taught (Suc n))"
  by (auto simp: RecordApproval_def taught_def git_commit_key record_key_def bump_def Let_def
      autoApproveThreshold_def maxTrackedKeys_def)

lemma taught_step:
  assumes "taught_agent n g" and "n < 3"
  shows "gate_verdict plain_sig (config_iface env) yes_call ''git_commit'' None g = ByUser"
    and "taught_agent (Suc n) (snd (permission_gate tx plain_sig (config_iface env) yes_call ''git_commit'' None g))"
  using assms
  by (auto simp: taught_agent_def gate_defs config_iface_def yes_call_def ask_policy_asks scope_taught taught_auto
      taught_record ShouldSuppress_def NewAskThrottle_def DefaultAskThrottleThreshold_def prune_def compacted_def
      IsNonDecision_def Let_def)

theorem memory_approval_was_earned_witness:
  "\<exists>log g. gate_steps plain_sig (config_iface demo_env) ((demo_agent SupervisedMode)\<lparr>g_policy := Some ask_policy\<rparr>) log g \<and>
     gate_verdict plain_sig (config_iface demo_env) yes_call ''git_commit'' None g = ByMemory \<and>
     3 \<le> tally plain_sig ''git_commit'' log"
proof -
  let ?g0 = "(demo_agent SupervisedMode)\<lparr>g_policy := Some ask_policy\<rparr>"
  have g0: "taught_agent 0 ?g0"
    by (simp add: taught_agent_def demo_agent_def taught_def NewApprovalMemory_def)
  have "\<exists>log g. gate_steps plain_sig (config_iface demo_env) ?g0 log g \<and> taught_agent n g" if "n \<le> 3" for n
    using that
  proof (induction n)
    case 0
    show ?case using gate_steps.start g0 by blast
  next
    case (Suc n)
    then obtain log g where lg: "gate_steps plain_sig (config_iface demo_env) ?g0 log g" "taught_agent n g" by auto
    from taught_step(2) [OF lg(2), of serial_texts demo_env]
      gate_steps.call [OF lg(1), of "''git_commit''" None yes_call serial_texts] Suc.prems
    show ?case by (meson Suc_le_lessD)
  qed
  then obtain log g where lg: "gate_steps plain_sig (config_iface demo_env) ?g0 log g" "taught_agent 3 g" by blast
  have v: "gate_verdict plain_sig (config_iface demo_env) yes_call ''git_commit'' None g = ByMemory"
    using lg(2) by (simp add: taught_agent_def gate_verdict_def learned_def config_iface_def yes_call_def
        ask_policy_asks scope_taught taught_auto BlocksAutoApprove_def isCommandTool_def EqualFold_def
        lower_char_def is_upper_def in_range_def byte_val_def)
  have "g_memory ?g0 = Some NewApprovalMemory" by (simp add: demo_agent_def)
  from memory_approval_was_earned [OF lg(1) this v] lg(1) v show ?thesis by (auto simp: git_commit_key)
qed

section \<open>What a refusal looks like\<close>

lemma TrimSpace_keeps_prefix:
  assumes "pre \<noteq> []" "\<not> is_space (hd pre)" "\<not> is_space (last pre)"
  shows "prefix pre (TrimSpace (pre @ s))"
proof -
  have "trim_left_by is_space (pre @ s) = pre @ s"
    using assms(1,2) by (cases pre) (simp_all add: trim_left_by_def)
  moreover have "trim_right_by is_space (pre @ s) = pre @ trim_right_by is_space s"
  proof -
    obtain xs x where "pre = xs @ [x]" using assms(1) by (cases pre rule: rev_cases) auto
    with assms(3) show ?thesis by (simp add: trim_right_by_def dropWhile_append)
  qed
  ultimately show ?thesis by (simp add: TrimSpace_def)
qed

lemma denied_text: "isPermissionDeniedResult (refuse (''Permission denied for tool '' @ s))"
proof -
  have "''Permission denied for tool '' @ s = ''Permission denied for tool'' @ ('' '' @ s)" by simp
  moreover have "prefix ''Permission denied for tool'' (TrimSpace (''Permission denied for tool'' @ ('' '' @ s)))"
    by (rule TrimSpace_keeps_prefix) (simp_all add: is_space_def in_range_def byte_val_def)
  ultimately show ?thesis by (simp add: isPermissionDeniedResult_def refuse_def HasPrefix_def)
qed

lemma undecided_text: "\<not> isPermissionDeniedResult (refuse (''Approval for tool '' @ s))"
proof -
  have "''Approval for tool '' @ s = ''Approval'' @ ('' for tool '' @ s)" by simp
  moreover have "prefix ''Approval'' (TrimSpace (''Approval'' @ ('' for tool '' @ s)))"
    by (rule TrimSpace_keeps_prefix) (simp_all add: is_space_def in_range_def byte_val_def)
  ultimately show ?thesis
    by (auto simp: isPermissionDeniedResult_def refuse_def HasPrefix_def prefix_def)
qed

lemmas refusal_texts = denied_text [simplified append_Cons append_Nil] undecided_text [simplified append_Cons append_Nil]

lemma permissionDeniedMessage_text: "\<exists>s. permissionDeniedMessage m tool = ''Permission denied for tool '' @ s"
  by (auto simp: permissionDeniedMessage_def)

text \<open>
  The guard that counts refusals in a row sees the gate's answers for what they are: of the
  answers the gate gives in place of a tool result, exactly those of an approval request that ended
  without a decision are not counted as a refusal.
\<close>

theorem gate_refusals_counted:
  assumes "permission_gate tx se pi gc tool input g = (Some r, g')"
    and "gc_ctxErr gc = None" and "g_policy g = Some p" and "pi_check pi p tool input = Inr d"
  shows "isPermissionDeniedResult r \<longleftrightarrow>
     \<not> (d = Ask \<and> gc_handler gc \<in> {Some Timeout, Some Cancelled} \<and>
        \<not> fst (ShouldSuppress se tool input (gc_askTime gc) (g_throttle g)))"
proof -
  have "isPermissionDeniedResult (refuse (permissionDeniedMessage m tool))" for m
    using permissionDeniedMessage_text denied_text by metis
  with assms show ?thesis
    by (auto simp: permission_gate_def Let_def IsNonDecision_def refusal_texts
        split: if_splits option.splits prod.splits)
qed

theorem gate_refusals_counted_witness:
  "\<exists>r g'. permission_gate serial_texts plain_sig (config_iface demo_env) (yes_call\<lparr>gc_handler := Some Timeout\<rparr>)
       ''git_commit'' None ((demo_agent SupervisedMode)\<lparr>g_policy := Some ask_policy\<rparr>) = (Some r, g') \<and>
     \<not> isPermissionDeniedResult r"
proof -
  let ?g = "(demo_agent SupervisedMode)\<lparr>g_policy := Some ask_policy\<rparr>"
  let ?gc = "yes_call\<lparr>gc_handler := Some Timeout\<rparr>"
  let ?gate = "permission_gate serial_texts plain_sig (config_iface demo_env) ?gc ''git_commit'' None ?g"
  have m: "g_memory ?g = Some (taught 0)" by (simp add: demo_agent_def taught_def NewApprovalMemory_def)
  have th: "fst (ShouldSuppress plain_sig ''git_commit'' None (gc_askTime ?gc) (g_throttle ?g)) = False"
    by (simp add: demo_agent_def ShouldSuppress_def NewAskThrottle_def DefaultAskThrottleThreshold_def prune_def Let_def)
  have ck: "pi_check (config_iface demo_env) ask_policy ''git_commit'' None = Inr Ask"
    by (simp add: config_iface_def ask_policy_asks)
  have "gate_verdict plain_sig (config_iface demo_env) ?gc ''git_commit'' None ?g = Refused"
    using m th by (simp add: gate_verdict_def ck learned_def user_yes_def user_no_def yes_call_def
        ask_policy_asks config_iface_def scope_taught taught_auto IsNonDecision_def)
  then have "fst ?gate \<noteq> None" by (simp add: gate_passes)
  then obtain r g' where g': "?gate = (Some r, g')" by (metis not_None_eq prod.collapse)
  have "gc_ctxErr ?gc = None" "g_policy ?g = Some ask_policy" by (simp_all add: yes_call_def)
  from gate_refusals_counted [OF g' this ck] th g' show ?thesis by auto
qed

section \<open>The mode guard\<close>

fun guard_run :: "PermissionMode \<Rightarrow> Result list \<Rightarrow> permDenyStreakState \<Rightarrow> mode_guard list \<times> permDenyStreakState" where
  "guard_run m [] s = ([], s)"
| "guard_run m (r # rs) s =
     (let (o1, s1) = permDeny_record m r s; (os, s2) = guard_run m rs s1 in (o1 # os, s2))"

lemma record_fires:
  "ps_fires (snd (permDeny_record m r s)) = ps_fires s + (if fst (permDeny_record m r s) \<noteq> NoGuard then 1 else 0)"
  "fst (permDeny_record m r s) \<noteq> NoGuard \<Longrightarrow> ps_fires s < permDenyStreakMaxFires"
  by (auto simp: permDeny_record_def Let_def split: if_splits)

lemma guard_run_fires:
  "ps_fires s \<le> permDenyStreakMaxFires \<Longrightarrow>
     int (length (filter (\<lambda>x. x \<noteq> NoGuard) (fst (guard_run m rs s)))) + ps_fires s \<le> permDenyStreakMaxFires"
proof (induction rs arbitrary: s)
  case (Cons r rs)
  obtain o1 s1 where o1: "permDeny_record m r s = (o1, s1)" by fastforce
  have "ps_fires s1 \<le> permDenyStreakMaxFires"
    using record_fires [of m r s] Cons.prems o1 by (auto split: if_splits)
  from Cons.IH [OF this] record_fires(1) [of m r s] o1 show ?case
    by (auto simp: Let_def split: prod.splits)
qed simp

text \<open>
  The guard speaks up at the third refusal in a row, not before, and at most twice until
  the next reset, whatever the results are.
\<close>

theorem mode_guard_fires:
  "int (length (filter (\<lambda>x. x \<noteq> NoGuard) (fst (guard_run m rs newPermDenyStreakState)))) \<le> permDenyStreakMaxFires \<and>
   (isPermissionDeniedResult r1 \<and> isPermissionDeniedResult r2 \<and> isPermissionDeniedResult r3 \<longrightarrow>
      map (\<lambda>x. x \<noteq> NoGuard) (fst (guard_run m [r1, r2, r3] newPermDenyStreakState)) = [False, False, True])"
proof -
  have "ps_fires newPermDenyStreakState = 0" by (simp add: newPermDenyStreakState_def)
  with guard_run_fires [of newPermDenyStreakState m rs]
  have "int (length (filter (\<lambda>x. x \<noteq> NoGuard) (fst (guard_run m rs newPermDenyStreakState)))) \<le> permDenyStreakMaxFires"
    by (simp add: permDenyStreakMaxFires_def)
  then show ?thesis
    by (auto simp: permDeny_record_def newPermDenyStreakState_def permDenyStreakThreshold_def
        permDenyStreakMaxFires_def Let_def)
qed

theorem mode_guard_fires_witness:
  "map (\<lambda>x. x \<noteq> NoGuard) (fst (guard_run PlanMode (replicate 3 (refuse (permissionDeniedMessage PlanMode ''write_file'')))
     newPermDenyStreakState)) = [False, False, True]"
proof -
  have "isPermissionDeniedResult (refuse (permissionDeniedMessage PlanMode ''write_file''))"
    using permissionDeniedMessage_text denied_text by metis
  with mode_guard_fires [of PlanMode "[]"] show ?thesis by (simp only: numeral_3_eq_3 replicate.simps)
qed

end
