(* ===== verification/Checkpoint.thy ===== *)
theory Checkpoint
  imports Prelude
begin

text \<open>
  \<^verbatim>\<open>internal/checkpoint/checkpoint.go\<close> and \<^verbatim>\<open>journal.go\<close>: the undo history of the files the agent edits.
  The manager keeps a list of checkpoints, oldest first, and a redo stack, top last; undoing
  writes files. The disk is an explicit store: a path has a content or none, and writing or
  removing a path may fail (\<open>dk_broken\<close>), in which case it keeps its content, as the temporary file
  and rename of \<open>util.AtomicWriteFile\<close> provide. Every operation that changes the history appends an
  event to the journal when there is one. Time stamps are left out; the identifier of a new
  checkpoint (\<open>crypto/rand\<close>) and the order of ranging over a map are arguments.
\<close>

record disk =
  dk_files :: "string \<Rightarrow> string option"
  dk_broken :: "string \<Rightarrow> bool"

record EditIntent =
  TaskID :: string
  TaskDesc :: string
  Rationale :: string

record Checkpoint =
  cp_ID :: string
  cp_FilePath :: string
  cp_OldContent :: string
  cp_NewContent :: string
  cp_Existed :: bool
  cp_ToolCall :: string
  cp_RunID :: string
  cp_Intent :: EditIntent

record Correction =
  cor_Files :: "string list"
  cor_ToolCall :: string
  cor_RunID :: string
  cor_Source :: string

datatype journalEvent =
  EvSave Checkpoint
| EvStartRun string
| EvUndo string
| EvRedo
| EvRevert string "string list" string
| EvUndoRun string
| EvDropRunFiles string "string list"
| EvClear
| EvClearCorrections

record Manager =
  m_checkpoints :: "Checkpoint list"
  m_redoStack :: "Checkpoint list"
  m_maxCheckpoints :: nat
  m_currentRunID :: string
  m_evictedRuns :: "string list"
  m_fileExisted :: "string \<Rightarrow> bool option"
  m_corrections :: "Correction list"
  m_activeIntent :: EditIntent
  m_journal :: "journalEvent list option"

datatype cp_error =
  ErrNothingToUndo
| ErrWrite string
| ErrNotFound string
| ErrRevert string "string list" "string list"
| ErrEvicted string nat
| ErrNoneInRun
| ErrSplit string
| ErrNothingToRedo
| ErrEarlierEvicted nat nat
| ErrRefused nat cp_error

definition no_intent :: EditIntent where
  "no_intent = \<lparr>TaskID = '''', TaskDesc = '''', Rationale = ''''\<rparr>"

definition NewManager :: "int \<Rightarrow> Manager" where
  "NewManager maxCheckpoints =
     \<lparr>m_checkpoints = [], m_redoStack = [],
      m_maxCheckpoints = nat (if maxCheckpoints \<le> 0 then 50 else maxCheckpoints),
      m_currentRunID = '''', m_evictedRuns = [], m_fileExisted = Map.empty, m_corrections = [],
      m_activeIntent = no_intent, m_journal = None\<rparr>"

definition journalAppend :: "journalEvent \<Rightarrow> Manager \<Rightarrow> Manager" where
  "journalAppend ev m = m\<lparr>m_journal := map_option (\<lambda>js. js @ [ev]) (m_journal m)\<rparr>"

definition StartRun :: "string \<Rightarrow> Manager \<Rightarrow> Manager" where
  "StartRun runID m = journalAppend (EvStartRun runID) (m\<lparr>m_currentRunID := runID, m_activeIntent := no_intent\<rparr>)"

definition SetActiveIntent :: "EditIntent \<Rightarrow> Manager \<Rightarrow> Manager" where
  "SetActiveIntent i m = m\<lparr>m_activeIntent := i\<rparr>"

section \<open>Saving and evicting\<close>

definition remove_nth :: "nat \<Rightarrow> 'a list \<Rightarrow> 'a list" where
  "remove_nth i xs = take i xs @ drop (Suc i) xs"

definition evict_index :: "string \<Rightarrow> Checkpoint list \<Rightarrow> nat" where
  "evict_index cur cps = (case index_by (\<lambda>c. cp_RunID c \<noteq> cur) cps of Some i \<Rightarrow> i | None \<Rightarrow> 0)"

lemma evict_index_less: "cps \<noteq> [] \<Longrightarrow> evict_index cur cps < length cps"
  by (auto simp: evict_index_def index_by_lt split: option.splits)

lemma length_remove_nth: "i < length xs \<Longrightarrow> length (remove_nth i xs) = length xs - 1"
  by (simp add: remove_nth_def)

function evict_loop :: "nat \<Rightarrow> string \<Rightarrow> Checkpoint list \<Rightarrow> string list \<Rightarrow> Checkpoint list \<times> string list" where
  "evict_loop mx cur cps ev =
     (if length cps > mx then
        let i = evict_index cur cps in
        evict_loop mx cur (remove_nth i cps) (List.insert (cp_RunID (cps ! i)) ev)
      else (cps, ev))"
  by pat_completeness auto
termination
proof (relation "measure (\<lambda>(mx, cur, cps, ev). length cps)")
  fix mx cur cps i and ev :: "string list"
  assume "mx < length (cps :: Checkpoint list)" "i = evict_index cur cps"
  then show "((mx, cur, remove_nth i cps, List.insert (cp_RunID (cps ! i)) ev), mx, cur, cps, ev)
      \<in> measure (\<lambda>(mx, cur, cps, ev). length cps)"
    using evict_index_less [of cps cur] by (cases cps) (auto simp: length_remove_nth)
qed simp

declare evict_loop.simps [simp del]

definition applySaveLocked :: "Checkpoint \<Rightarrow> Manager \<Rightarrow> Manager" where
  "applySaveLocked cp m =
     (let fe = (case m_fileExisted m (cp_FilePath cp) of
                  Some _ \<Rightarrow> m_fileExisted m
                | None \<Rightarrow> (m_fileExisted m)(cp_FilePath cp \<mapsto> cp_Existed cp));
          (cps, ev) = evict_loop (m_maxCheckpoints m) (m_currentRunID m) (m_checkpoints m @ [cp]) (m_evictedRuns m) in
      m\<lparr>m_checkpoints := cps, m_fileExisted := fe, m_evictedRuns := ev, m_redoStack := []\<rparr>)"

definition SaveWithExistence ::
  "string \<Rightarrow> string \<Rightarrow> string \<Rightarrow> string \<Rightarrow> string \<Rightarrow> bool \<Rightarrow> Manager \<Rightarrow> Checkpoint \<times> Manager" where
  "SaveWithExistence newID filePath oldContent newContent toolCall existed m =
     (let cp = \<lparr>cp_ID = newID, cp_FilePath = filePath, cp_OldContent = oldContent, cp_NewContent = newContent,
                cp_Existed = existed, cp_ToolCall = toolCall, cp_RunID = m_currentRunID m, cp_Intent = m_activeIntent m\<rparr> in
      (cp, journalAppend (EvSave cp) (applySaveLocked cp m)))"

definition Save :: "string \<Rightarrow> string \<Rightarrow> string \<Rightarrow> string \<Rightarrow> string \<Rightarrow> Manager \<Rightarrow> Checkpoint \<times> Manager" where
  "Save newID filePath oldContent newContent toolCall m =
     SaveWithExistence newID filePath oldContent newContent toolCall True m"

section \<open>Restoring files\<close>

definition write_file :: "string \<Rightarrow> string \<Rightarrow> disk \<Rightarrow> disk option" where
  "write_file path content d =
     (if dk_broken d path then None else Some (d\<lparr>dk_files := (dk_files d)(path \<mapsto> content)\<rparr>))"

definition restoreCheckpointState :: "string \<Rightarrow> string \<Rightarrow> bool \<Rightarrow> disk \<Rightarrow> disk option" where
  "restoreCheckpointState path oldContent existed d =
     (if \<not> existed \<and> oldContent = '''' then
        (if dk_files d path = None then Some d
         else if dk_broken d path then None
         else Some (d\<lparr>dk_files := (dk_files d)(path := None)\<rparr>))
      else write_file path oldContent d)"

definition Undo :: "string \<Rightarrow> Manager \<times> disk \<Rightarrow> (cp_error + Checkpoint) \<times> Manager \<times> disk" where
  "Undo source s =
     (let (m, d) = s in
      if m_checkpoints m = [] then (Inl ErrNothingToUndo, m, d)
      else
        let cp = last (m_checkpoints m) in
        (case restoreCheckpointState (cp_FilePath cp) (cp_OldContent cp) (cp_Existed cp) d of
           None \<Rightarrow> (Inl (ErrWrite (cp_FilePath cp)), m, d)
         | Some d' \<Rightarrow>
             (Inr cp,
              journalAppend (EvUndo source)
                (m\<lparr>m_checkpoints := butlast (m_checkpoints m), m_redoStack := m_redoStack m @ [cp],
                   m_corrections := m_corrections m @
                     [\<lparr>cor_Files = [cp_FilePath cp], cor_ToolCall = cp_ToolCall cp, cor_RunID = cp_RunID cp, cor_Source = source\<rparr>]\<rparr>),
              d')))"

definition Redo :: "Manager \<times> disk \<Rightarrow> (cp_error + Checkpoint) \<times> Manager \<times> disk" where
  "Redo s =
     (let (m, d) = s in
      if m_redoStack m = [] then (Inl ErrNothingToRedo, m, d)
      else
        let cp = last (m_redoStack m) in
        (case write_file (cp_FilePath cp) (cp_NewContent cp) d of
           None \<Rightarrow> (Inl (ErrWrite (cp_FilePath cp)), m, d)
         | Some d' \<Rightarrow>
             (Inr cp,
              journalAppend EvRedo
                (m\<lparr>m_redoStack := butlast (m_redoStack m), m_checkpoints := m_checkpoints m @ [cp]\<rparr>),
              d')))"

definition CanRedo :: "Manager \<Rightarrow> bool" where
  "CanRedo m \<longleftrightarrow> length (m_redoStack m) > 0"

text \<open>The elements of a list at their first occurrence.\<close>

definition uniq :: "'a list \<Rightarrow> 'a list" where
  "uniq xs = rev (remdups (rev xs))"

section \<open>Reverting to a checkpoint\<close>

definition revert_target :: "Checkpoint list \<Rightarrow> nat \<Rightarrow> string \<Rightarrow> string \<times> bool" where
  "revert_target cps idx f =
     (case find (\<lambda>c. cp_FilePath c = f) (rev (take idx cps)) of
        Some c \<Rightarrow> (cp_NewContent c, True)
      | None \<Rightarrow>
          (case find (\<lambda>c. cp_FilePath c = f) (drop idx cps) of
             Some c \<Rightarrow> (cp_OldContent c, cp_Existed c)
           | None \<Rightarrow> ('''', False)))"

text \<open>The loop that writes the targets: the files done, the file that failed, the disk.\<close>

fun restore_list :: "(string \<Rightarrow> string \<times> bool) \<Rightarrow> string list \<Rightarrow> disk \<Rightarrow> string list \<times> string option \<times> disk" where
  "restore_list tgt [] d = ([], None, d)"
| "restore_list tgt (f # fs) d =
     (case restoreCheckpointState f (fst (tgt f)) (snd (tgt f)) d of
        None \<Rightarrow> ([], Some f, d)
      | Some d' \<Rightarrow> (let (done, err, d'') = restore_list tgt fs d' in (f # done, err, d'')))"

definition revertWithFiles ::
  "string \<Rightarrow> string \<Rightarrow> Manager \<times> disk \<Rightarrow> (cp_error + Checkpoint \<times> string list) \<times> Manager \<times> disk" where
  "revertWithFiles cid source s =
     (let (m, d) = s in
      case index_by (\<lambda>c. cp_ID c = cid) (m_checkpoints m) of
        None \<Rightarrow> (Inl (ErrNotFound cid), m, d)
      | Some idx \<Rightarrow>
          let cps = m_checkpoints m;
              cp = cps ! idx;
              order = uniq (map cp_FilePath (drop idx cps)) in
          (case restore_list (revert_target cps idx) order d of
             (files, Some f, d') \<Rightarrow> (Inl (ErrRevert f files (drop (length files) order)), m, d')
           | (files, None, d') \<Rightarrow>
               (Inr (cp, files),
                journalAppend (EvRevert cid files source)
                  (m\<lparr>m_checkpoints := take idx cps, m_redoStack := [],
                     m_corrections := m_corrections m @
                       [\<lparr>cor_Files = files, cor_ToolCall = cp_ToolCall cp, cor_RunID = cp_RunID cp, cor_Source = source\<rparr>]\<rparr>),
                d')))"

definition Revert :: "string \<Rightarrow> Manager \<times> disk \<Rightarrow> (cp_error + Checkpoint) \<times> Manager \<times> disk" where
  "Revert cid s = (case revertWithFiles cid ''user'' s of (r, s') \<Rightarrow> (map_sum id fst r, s'))"

section \<open>Undoing a run\<close>

text \<open>The checkpoints at \<open>runSegmentIndices\<close>, newest first.\<close>

definition run_segment :: "string \<Rightarrow> Checkpoint list \<Rightarrow> Checkpoint list" where
  "run_segment runID cps = takeWhile (\<lambda>c. cp_RunID c = runID) (rev cps)"

definition preRunBaselines :: "Checkpoint list \<Rightarrow> string \<Rightarrow> (string \<times> bool) option" where
  "preRunBaselines seg f =
     map_option (\<lambda>c. (cp_OldContent c, cp_Existed c)) (find (\<lambda>c. cp_FilePath c = f) (rev seg))"

fun writeBaselines_loop ::
  "(string \<Rightarrow> (string \<times> bool) option) \<Rightarrow> Checkpoint list \<Rightarrow> Checkpoint list \<Rightarrow> disk \<Rightarrow> Checkpoint list \<times> string option \<times> disk" where
  "writeBaselines_loop bl [] reverted d = (reverted, None, d)"
| "writeBaselines_loop bl (cp # seg) reverted d =
     (if list_ex (\<lambda>r. cp_FilePath r = cp_FilePath cp) reverted then writeBaselines_loop bl seg reverted d
      else
        (case bl (cp_FilePath cp) of
           None \<Rightarrow> writeBaselines_loop bl seg (reverted @ [cp]) d
         | Some (content, existed) \<Rightarrow>
             (case restoreCheckpointState (cp_FilePath cp) content existed d of
                None \<Rightarrow> (reverted, Some (cp_FilePath cp), d)
              | Some d' \<Rightarrow> writeBaselines_loop bl seg (reverted @ [cp]) d')))"

definition removeRunCheckpointsFor :: "string list \<Rightarrow> string \<Rightarrow> Checkpoint list \<Rightarrow> Checkpoint list" where
  "removeRunCheckpointsFor files runID cps =
     filter (\<lambda>c. \<not> (cp_FilePath c \<in> set files \<and> cp_RunID c = runID)) cps"

definition recordRunCorrection ::
  "(string list \<Rightarrow> string list) \<Rightarrow> Checkpoint list \<Rightarrow> string \<Rightarrow> Manager \<Rightarrow> Manager" where
  "recordRunCorrection pick reverted runID m =
     m\<lparr>m_corrections := m_corrections m @
        [\<lparr>cor_Files = range_order pick (uniq (map cp_FilePath reverted)),
          cor_ToolCall = (case reverted of [] \<Rightarrow> '''' | r # _ \<Rightarrow> cp_ToolCall r),
          cor_RunID = runID, cor_Source = ''''\<rparr>]\<rparr>"

definition UndoRun ::
  "(string list \<Rightarrow> string list) \<Rightarrow> Manager \<times> disk \<Rightarrow> (cp_error + Checkpoint list) \<times> Manager \<times> disk" where
  "UndoRun pick s =
     (let (m, d) = s; cps = m_checkpoints m in
      if cps = [] then (Inl ErrNothingToUndo, m, d)
      else
        let runID = cp_RunID (last cps) in
        if runID \<in> set (m_evictedRuns m) then (Inl (ErrEvicted runID (m_maxCheckpoints m)), m, d)
        else
          let seg = run_segment runID cps; cutoff = length cps - length seg in
          if seg = [] then (Inl ErrNoneInRun, m, d)
          else if list_ex (\<lambda>c. cp_RunID c = runID) (take cutoff cps) then (Inl (ErrSplit runID), m, d)
          else
            (case writeBaselines_loop (preRunBaselines seg) seg [] d of
               (reverted, Some f, d') \<Rightarrow>
                 (let dropped = uniq (map cp_FilePath reverted) in
                  (Inl (ErrWrite f),
                   journalAppend (EvDropRunFiles runID dropped)
                     (m\<lparr>m_checkpoints := removeRunCheckpointsFor (map cp_FilePath reverted) runID cps\<rparr>),
                   d'))
             | (reverted, None, d') \<Rightarrow>
                 (Inr reverted,
                  journalAppend (EvUndoRun runID)
                    (recordRunCorrection pick reverted runID
                      (m\<lparr>m_checkpoints := take cutoff cps, m_evictedRuns := removeAll runID (m_evictedRuns m),
                         m_redoStack := m_redoStack m @ rev (drop cutoff cps)\<rparr>)),
                  d')))"

definition Last :: "Manager \<Rightarrow> Checkpoint option" where
  "Last m = (if m_checkpoints m = [] then None else Some (last (m_checkpoints m)))"

fun revert_runs ::
  "(string list \<Rightarrow> string list) \<Rightarrow> nat \<Rightarrow> nat \<Rightarrow> Checkpoint list \<Rightarrow> Manager \<times> disk \<Rightarrow>
     Checkpoint list \<times> cp_error option \<times> Manager \<times> disk" where
  "revert_runs pick i 0 all s = (all, None, s)"
| "revert_runs pick i (Suc n) all s =
     (if Last (fst s) = None then
        (if length (m_evictedRuns (fst s)) > 0
         then (all, Some (ErrEarlierEvicted i (length (m_evictedRuns (fst s)))), s)
         else (all, None, s))
      else
        (case UndoRun pick s of
           (Inl e, s') \<Rightarrow> (if length all > 0 then (all, Some (ErrRefused i e), s') else ([], Some e, s'))
         | (Inr cps, s') \<Rightarrow> revert_runs pick (Suc i) n (all @ cps) s'))"

definition RevertRecentRuns ::
  "(string list \<Rightarrow> string list) \<Rightarrow> int \<Rightarrow> Manager \<times> disk \<Rightarrow> Checkpoint list \<times> cp_error option \<times> Manager \<times> disk" where
  "RevertRecentRuns pick n s = (if n \<le> 0 then ([], None, s) else revert_runs pick 0 (nat n) [] s)"

section \<open>Queries and clearing\<close>

definition firstExisted :: "Manager \<Rightarrow> string \<Rightarrow> bool" where
  "firstExisted m path = (case m_fileExisted m path of Some v \<Rightarrow> v | None \<Rightarrow> True)"

record FileSummary =
  fs_Path :: string
  fs_Edits :: nat
  fs_LastTool :: string
  fs_IsNew :: bool

definition ModifiedFiles :: "Manager \<Rightarrow> FileSummary list" where
  "ModifiedFiles m =
     map (\<lambda>p. let mine = filter (\<lambda>c. cp_FilePath c = p) (m_checkpoints m) in
            \<lparr>fs_Path = p, fs_Edits = length mine, fs_LastTool = cp_ToolCall (last mine), fs_IsNew = \<not> firstExisted m p\<rparr>)
       (uniq (map cp_FilePath (m_checkpoints m)))"

definition Clear :: "Manager \<Rightarrow> Manager" where
  "Clear m = journalAppend EvClear
     (m\<lparr>m_checkpoints := [], m_redoStack := [], m_corrections := [], m_evictedRuns := [], m_fileExisted := Map.empty\<rparr>)"

definition ClearCorrections :: "Manager \<Rightarrow> Manager" where
  "ClearCorrections m = journalAppend EvClearCorrections (m\<lparr>m_corrections := []\<rparr>)"

section \<open>Replaying the journal\<close>

fun applyJournalEvent :: "(string list \<Rightarrow> string list) \<Rightarrow> journalEvent \<Rightarrow> Manager \<Rightarrow> Manager" where
  "applyJournalEvent pick (EvStartRun r) m = m\<lparr>m_currentRunID := r\<rparr>"
| "applyJournalEvent pick (EvSave cp) m = applySaveLocked cp m"
| "applyJournalEvent pick (EvUndo source) m =
     (if m_checkpoints m = [] then m
      else let cp = last (m_checkpoints m) in
        m\<lparr>m_checkpoints := butlast (m_checkpoints m), m_redoStack := m_redoStack m @ [cp],
          m_corrections := m_corrections m @
            [\<lparr>cor_Files = [cp_FilePath cp], cor_ToolCall = cp_ToolCall cp, cor_RunID = cp_RunID cp, cor_Source = source\<rparr>]\<rparr>)"
| "applyJournalEvent pick EvRedo m =
     (if m_redoStack m = [] then m
      else let cp = last (m_redoStack m) in
        m\<lparr>m_redoStack := butlast (m_redoStack m), m_checkpoints := m_checkpoints m @ [cp]\<rparr>)"
| "applyJournalEvent pick (EvRevert cid files source) m =
     (case index_by (\<lambda>c. cp_ID c = cid) (m_checkpoints m) of
        None \<Rightarrow> m
      | Some idx \<Rightarrow>
          let cp = m_checkpoints m ! idx in
          m\<lparr>m_checkpoints := take idx (m_checkpoints m), m_redoStack := [],
            m_corrections := m_corrections m @
              [\<lparr>cor_Files = files, cor_ToolCall = cp_ToolCall cp, cor_RunID = cp_RunID cp, cor_Source = source\<rparr>]\<rparr>)"
| "applyJournalEvent pick (EvUndoRun runID) m =
     (let cps = m_checkpoints m; seg = run_segment runID cps in
      if seg = [] then m
      else
        let cutoff = length cps - length seg; removed = drop cutoff cps in
        m\<lparr>m_checkpoints := take cutoff cps, m_evictedRuns := removeAll runID (m_evictedRuns m),
          m_redoStack := m_redoStack m @ rev removed,
          m_corrections := m_corrections m @
            [\<lparr>cor_Files = range_order pick (uniq (map cp_FilePath removed)),
              cor_ToolCall = (case removed of [] \<Rightarrow> '''' | r # _ \<Rightarrow> cp_ToolCall r),
              cor_RunID = runID, cor_Source = ''''\<rparr>]\<rparr>)"
| "applyJournalEvent pick (EvDropRunFiles runID files) m =
     m\<lparr>m_checkpoints := removeRunCheckpointsFor files runID (m_checkpoints m)\<rparr>"
| "applyJournalEvent pick EvClear m =
     m\<lparr>m_checkpoints := [], m_redoStack := [], m_corrections := [], m_evictedRuns := [], m_fileExisted := Map.empty\<rparr>"
| "applyJournalEvent pick EvClearCorrections m = m\<lparr>m_corrections := []\<rparr>"

text \<open>
  \<open>openPersistentManagerAt\<close> on a readable journal: replay its events into a new manager and go on
  appending to it.
\<close>

definition openPersistentManagerAt ::
  "(string list \<Rightarrow> string list) \<Rightarrow> int \<Rightarrow> journalEvent list \<Rightarrow> Manager" where
  "openPersistentManagerAt pick mx events =
     (fold (applyJournalEvent pick) events (NewManager mx))\<lparr>m_journal := Some events\<rparr>"

section \<open>The manager as a machine\<close>

text \<open>
  Every operation that changes the manager or the disk, with a write to the disk by anybody
  else as one more step. \<open>Revert\<close> and \<open>RevertRecentRuns\<close> are sequences of these.
\<close>

datatype cp_op =
  OpStartRun string
| OpIntent EditIntent
| OpSave string string string string string bool
| OpUndo string
| OpRedo
| OpRevert string string
| OpUndoRun "string list \<Rightarrow> string list"
| OpClear
| OpClearCorrections
| OpDisk disk

fun cp_step :: "cp_op \<Rightarrow> Manager \<times> disk \<Rightarrow> Manager \<times> disk" where
  "cp_step (OpStartRun r) s = (StartRun r (fst s), snd s)"
| "cp_step (OpIntent i) s = (SetActiveIntent i (fst s), snd s)"
| "cp_step (OpSave newID f old new tool existed) s = (snd (SaveWithExistence newID f old new tool existed (fst s)), snd s)"
| "cp_step (OpUndo source) s = snd (Undo source s)"
| "cp_step OpRedo s = snd (Redo s)"
| "cp_step (OpRevert cid source) s = snd (revertWithFiles cid source s)"
| "cp_step (OpUndoRun pick) s = snd (UndoRun pick s)"
| "cp_step OpClear s = (Clear (fst s), snd s)"
| "cp_step OpClearCorrections s = (ClearCorrections (fst s), snd s)"
| "cp_step (OpDisk d) s = (fst s, d)"

text \<open>The event an operation journals, if it journals one.\<close>

definition cp_event :: "cp_op \<Rightarrow> Manager \<times> disk \<Rightarrow> journalEvent option" where
  "cp_event op s =
     (case op of
        OpStartRun r \<Rightarrow> Some (EvStartRun r)
      | OpIntent i \<Rightarrow> None
      | OpSave newID f old new tool existed \<Rightarrow> Some (EvSave (fst (SaveWithExistence newID f old new tool existed (fst s))))
      | OpUndo source \<Rightarrow> (case fst (Undo source s) of Inl _ \<Rightarrow> None | Inr _ \<Rightarrow> Some (EvUndo source))
      | OpRedo \<Rightarrow> (case fst (Redo s) of Inl _ \<Rightarrow> None | Inr _ \<Rightarrow> Some EvRedo)
      | OpRevert cid source \<Rightarrow>
          (case fst (revertWithFiles cid source s) of Inl _ \<Rightarrow> None | Inr r \<Rightarrow> Some (EvRevert cid (snd r) source))
      | OpUndoRun pick \<Rightarrow>
          (case fst (UndoRun pick s) of
             Inr _ \<Rightarrow> Some (EvUndoRun (cp_RunID (last (m_checkpoints (fst s)))))
           | Inl (ErrWrite f) \<Rightarrow>
               Some (EvDropRunFiles (cp_RunID (last (m_checkpoints (fst s))))
                 (uniq (map cp_FilePath (fst (writeBaselines_loop
                    (preRunBaselines (run_segment (cp_RunID (last (m_checkpoints (fst s)))) (m_checkpoints (fst s))))
                    (run_segment (cp_RunID (last (m_checkpoints (fst s)))) (m_checkpoints (fst s))) [] (snd s))))))
           | Inl _ \<Rightarrow> None)
      | OpClear \<Rightarrow> Some EvClear
      | OpClearCorrections \<Rightarrow> Some EvClearCorrections
      | OpDisk d \<Rightarrow> None)"

text \<open>
  What survives a restart: everything but the intent of the current task, the tool named in a
  correction and the order of its files.
\<close>

definition cor_view :: "Correction \<Rightarrow> string set \<times> string \<times> string" where
  "cor_view c = (set (cor_Files c), cor_RunID c, cor_Source c)"

definition mview :: "Manager \<Rightarrow> _" where
  "mview m = (m_checkpoints m, m_redoStack m, m_maxCheckpoints m, m_currentRunID m, m_evictedRuns m,
     m_fileExisted m, map cor_view (m_corrections m))"

lemma mview_journalAppend [simp]: "mview (journalAppend ev m) = mview m"
  by (simp add: mview_def journalAppend_def)

lemma cor_view_simp [simp]:
  "cor_view \<lparr>cor_Files = fs, cor_ToolCall = t, cor_RunID = r, cor_Source = src\<rparr> = (set fs, r, src)"
  by (simp add: cor_view_def)

lemma set_uniq [simp]: "set (uniq xs) = set xs"
  by (simp add: uniq_def)

lemma mview_applySave: "mview m = mview n \<Longrightarrow> mview (applySaveLocked cp m) = mview (applySaveLocked cp n)"
  by (simp add: mview_def applySaveLocked_def Let_def split: prod.splits option.splits)

lemma mview_apply:
  assumes "mview m = mview n"
  shows "mview (applyJournalEvent pick ev m) = mview (applyJournalEvent pick' ev n)"
proof -
  have f: "m_checkpoints m = m_checkpoints n" "m_redoStack m = m_redoStack n"
    "m_maxCheckpoints m = m_maxCheckpoints n" "m_currentRunID m = m_currentRunID n"
    "m_evictedRuns m = m_evictedRuns n" "m_fileExisted m = m_fileExisted n"
    "map cor_view (m_corrections m) = map cor_view (m_corrections n)"
    using assms by (simp_all add: mview_def)
  show ?thesis
  proof (cases ev)
    case (EvSave cp)
    show ?thesis unfolding EvSave applyJournalEvent.simps by (rule mview_applySave [OF assms])
  qed (simp_all add: mview_def Let_def f split: option.split)
qed

lemma writeBaselines_files:
  "writeBaselines_loop bl seg reverted d = (res, None, d') \<Longrightarrow>
     cp_FilePath ` set res = cp_FilePath ` set reverted \<union> cp_FilePath ` set seg"
proof (induction seg arbitrary: reverted d)
  case (Cons cp seg)
  show ?case
  proof (cases "list_ex (\<lambda>r. cp_FilePath r = cp_FilePath cp) reverted")
    case True
    then have "cp_FilePath cp \<in> cp_FilePath ` set reverted" by (metis (mono_tags, lifting) image_eqI list_ex_iff)
    with True Cons show ?thesis by auto
  next
    case False
    with Cons.prems obtain d1 where "writeBaselines_loop bl seg (reverted @ [cp]) d1 = (res, None, d')"
      by (auto split: option.splits)
    from Cons.IH [OF this] show ?thesis by auto
  qed
qed simp

lemma run_segment_drop:
  "drop (length cps - length (run_segment r cps)) cps = rev (run_segment r cps)"
proof -
  have "cps = rev (dropWhile (\<lambda>c. cp_RunID c = r) (rev cps)) @ rev (run_segment r cps)"
    unfolding run_segment_def by (metis rev_append rev_rev_ident takeWhile_dropWhile_id)
  then show ?thesis by (metis append_eq_conv_conj length_append length_rev diff_add_inverse2)
qed

lemma removeRun_uniq: "removeRunCheckpointsFor (uniq xs) = removeRunCheckpointsFor xs"
  by (simp add: removeRunCheckpointsFor_def fun_eq_iff)

text \<open>Each operation moves the manager as the replay of its event does.\<close>

lemma step_event:
  "mview (fst (cp_step op s)) =
     mview (case cp_event op s of None \<Rightarrow> fst s | Some ev \<Rightarrow> applyJournalEvent pick ev (fst s))"
proof -
  obtain m d where s: "s = (m, d)" by (cases s)
  show ?thesis
  proof (cases op)
    case (OpUndoRun pick')
    show ?thesis
      using OpUndoRun
      by (auto simp: s cp_event_def UndoRun_def Let_def mview_def cor_view_def recordRunCorrection_def
          journalAppend_def run_segment_drop removeRun_uniq dest!: writeBaselines_files
          split: prod.splits option.splits if_splits)
  qed (auto simp: s cp_event_def StartRun_def SetActiveIntent_def SaveWithExistence_def Undo_def Redo_def
      revertWithFiles_def Clear_def ClearCorrections_def mview_def journalAppend_def Let_def
      split: option.splits prod.splits)
qed

lemma step_journal:
  "m_journal (fst (cp_step op s)) =
     (case cp_event op s of None \<Rightarrow> m_journal (fst s) | Some ev \<Rightarrow> map_option (\<lambda>js. js @ [ev]) (m_journal (fst s)))"
proof -
  obtain m d where s: "s = (m, d)" by (cases s)
  have ap: "m_journal (applySaveLocked cp m) = m_journal m" for cp
    by (simp add: applySaveLocked_def Let_def split: prod.splits)
  show ?thesis
  proof (cases op)
    case (OpUndoRun pick')
    show ?thesis
      using OpUndoRun
      by (auto simp: s cp_event_def UndoRun_def Let_def recordRunCorrection_def journalAppend_def
          split: prod.splits option.splits if_splits)
  qed (auto simp: s cp_event_def StartRun_def SetActiveIntent_def SaveWithExistence_def Undo_def Redo_def
      revertWithFiles_def Clear_def ClearCorrections_def journalAppend_def Let_def ap
      split: option.splits prod.splits)
qed

definition journal_ok :: "(string list \<Rightarrow> string list) \<Rightarrow> int \<Rightarrow> Manager \<times> disk \<Rightarrow> bool" where
  "journal_ok pick mx s \<longleftrightarrow>
     (\<exists>js. m_journal (fst s) = Some js \<and> mview (openPersistentManagerAt pick mx js) = mview (fst s))"

lemma mview_open: "mview (openPersistentManagerAt pick mx js) = mview (fold (applyJournalEvent pick) js (NewManager mx))"
  by (simp add: openPersistentManagerAt_def mview_def)

interpretation replay: op_machine cp_step "journal_ok pick mx" for pick mx
proof unfold_locales
  fix s op
  assume "journal_ok pick mx s"
  then obtain js where js: "m_journal (fst s) = Some js"
    "mview (fold (applyJournalEvent pick) js (NewManager mx)) = mview (fst s)"
    by (auto simp: journal_ok_def mview_open)
  show "journal_ok pick mx (cp_step op s)"
  proof (cases "cp_event op s")
    case None
    with js step_event [of op s pick] step_journal [of op s] show ?thesis
      by (auto simp: journal_ok_def mview_open)
  next
    case (Some ev)
    have "m_journal (fst (cp_step op s)) = Some (js @ [ev])" using Some js(1) step_journal [of op s] by simp
    moreover have "mview (fold (applyJournalEvent pick) (js @ [ev]) (NewManager mx)) = mview (fst (cp_step op s))"
      using mview_apply [OF js(2)] step_event [of op s pick] Some by simp
    ultimately show ?thesis by (auto simp: journal_ok_def mview_open)
  qed
qed


section \<open>Capacity\<close>

lemma evict_loop_length: "length (fst (evict_loop mx cur cps ev)) \<le> mx"
proof (induction mx cur cps ev rule: evict_loop.induct)
  case (1 mx cur cps ev)
  show ?case
  proof (cases "length cps > mx")
    case True
    with 1 show ?thesis by (subst evict_loop.simps) (simp add: Let_def)
  next
    case False
    then show ?thesis by (subst evict_loop.simps) simp
  qed
qed

definition within_capacity :: "Manager \<times> disk \<Rightarrow> bool" where
  "within_capacity s \<longleftrightarrow> length (m_checkpoints (fst s)) + length (m_redoStack (fst s)) \<le> m_maxCheckpoints (fst s)"

lemma within_capacity_view: "mview m = mview n \<Longrightarrow> within_capacity (m, d) = within_capacity (n, e)"
  by (simp add: within_capacity_def mview_def)

lemma apply_capacity: "within_capacity (m, d) \<Longrightarrow> within_capacity (applyJournalEvent pick ev m, e)"
proof (induction pick ev m rule: applyJournalEvent.induct)
  case (2 pick cp m)
  then show ?case
    using evict_loop_length by (auto simp: within_capacity_def applySaveLocked_def Let_def split: prod.splits)
       (metis fst_conv)
next
  case (7 pick runID files m)
  have "length (removeRunCheckpointsFor files runID (m_checkpoints m)) \<le> length (m_checkpoints m)"
    by (simp add: removeRunCheckpointsFor_def)
  with 7 show ?case by (simp add: within_capacity_def)
qed (auto simp: within_capacity_def Let_def neq_Nil_conv dest: index_by_lt split: option.splits)

interpretation capacity: op_machine cp_step within_capacity
proof unfold_locales
  fix s :: "Manager \<times> disk" and op
  assume s: "within_capacity s"
  have "within_capacity (case cp_event op s of None \<Rightarrow> fst s | Some ev \<Rightarrow> applyJournalEvent id ev (fst s), snd s)"
    using s apply_capacity [of "fst s" "snd s"] by (cases "cp_event op s") auto
  with within_capacity_view [OF step_event [of op s id], of "snd (cp_step op s)" "snd s"]
  show "within_capacity (cp_step op s)" by simp
qed

text \<open>
  The history is bounded: whatever happens, checkpoints and redo entries together never
  exceed the limit the manager was made with.
\<close>

theorem checkpoints_bounded:
  "length (m_checkpoints (fst (fold cp_step ops (NewManager mx, d)))) +
     length (m_redoStack (fst (fold cp_step ops (NewManager mx, d))))
   \<le> m_maxCheckpoints (fst (fold cp_step ops (NewManager mx, d)))"
  using capacity.run_inv [of "(NewManager mx, d)" ops] by (simp add: within_capacity_def NewManager_def)

section \<open>What restoring does to the disk\<close>

text \<open>The state of its file a checkpoint goes back to, and going back through checkpoints, newest first.\<close>

definition file_state :: "string \<times> bool \<Rightarrow> string option" where
  "file_state oe = (if \<not> snd oe \<and> fst oe = '''' then None else Some (fst oe))"

definition before :: "Checkpoint \<Rightarrow> string option" where
  "before c = file_state (cp_OldContent c, cp_Existed c)"

definition unwind :: "Checkpoint list \<Rightarrow> (string \<Rightarrow> string option) \<Rightarrow> string \<Rightarrow> string option" where
  "unwind cs f = fold (\<lambda>c g. g(cp_FilePath c := before c)) cs f"

definition healthy :: "disk \<Rightarrow> bool" where
  "healthy d \<longleftrightarrow> (\<forall>p. \<not> dk_broken d p)"

lemma restore_healthy:
  "healthy d \<Longrightarrow> restoreCheckpointState p old ex d = Some (d\<lparr>dk_files := (dk_files d)(p := file_state (old, ex))\<rparr>)"
  by (auto simp: healthy_def restoreCheckpointState_def write_file_def file_state_def fun_upd_idem)

lemma unwind_find:
  "unwind cs f p = (case find (\<lambda>c. cp_FilePath c = p) (rev cs) of None \<Rightarrow> f p | Some c \<Rightarrow> before c)"
proof (induction cs arbitrary: f)
  case (Cons c cs)
  have snoc: "find P (xs @ [x]) = (case find P xs of Some y \<Rightarrow> Some y | None \<Rightarrow> if P x then Some x else None)"
    for P :: "Checkpoint \<Rightarrow> bool" and xs x
    by (induction xs) auto
  have step: "unwind (c # cs) f = unwind cs (f(cp_FilePath c := before c))" by (simp add: unwind_def)
  show ?case unfolding step Cons.IH rev.simps snoc by (auto split: option.splits)
qed (simp add: unwind_def)

lemma find_None_paths: "find (\<lambda>c. cp_FilePath c = p) cs = None \<longleftrightarrow> p \<notin> cp_FilePath ` set cs"
  by (auto simp: find_None_iff)

lemma unwind_other: "p \<notin> cp_FilePath ` set cs \<Longrightarrow> unwind cs f p = f p"
  by (simp add: unwind_find find_None_paths [THEN iffD2])

lemma writeBaselines_healthy:
  assumes "healthy d" and "\<forall>c \<in> set seg. bl (cp_FilePath c) \<noteq> None"
  shows "\<exists>res d'. writeBaselines_loop bl seg rv d = (res, None, d') \<and> dk_broken d' = dk_broken d \<and>
    dk_files d' = (\<lambda>p. if p \<in> cp_FilePath ` set seg \<and> p \<notin> cp_FilePath ` set rv then file_state (the (bl p)) else dk_files d p)"
  using assms
proof (induction seg arbitrary: rv d)
  case (Cons c seg)
  show ?case
  proof (cases "list_ex (\<lambda>r. cp_FilePath r = cp_FilePath c) rv")
    case True
    then have "cp_FilePath c \<in> cp_FilePath ` set rv" by (metis (mono_tags, lifting) image_eqI list_ex_iff)
    with True Cons.IH [of d rv] Cons.prems show ?thesis by (auto simp: fun_eq_iff)
  next
    case False
    then have new: "cp_FilePath c \<notin> cp_FilePath ` set rv" by (auto simp: list_ex_iff)
    obtain old ex where bl: "bl (cp_FilePath c) = Some (old, ex)" using Cons.prems(2) by auto
    let ?d = "d\<lparr>dk_files := (dk_files d)(cp_FilePath c := file_state (old, ex))\<rparr>"
    have h: "healthy ?d" using Cons.prems(1) by (simp add: healthy_def)
    have step: "writeBaselines_loop bl (c # seg) rv d = writeBaselines_loop bl seg (rv @ [c]) ?d"
      using False bl restore_healthy [OF Cons.prems(1)] by simp
    have "\<forall>c \<in> set seg. bl (cp_FilePath c) \<noteq> None" using Cons.prems(2) by simp
    from Cons.IH [OF h this, of "rv @ [c]"] show ?thesis
      unfolding step using bl new by (fastforce simp: fun_eq_iff)
  qed
qed simp

lemma UndoRun_healthy:
  assumes "healthy d" and "m_checkpoints m \<noteq> []"
    and "cp_RunID (last (m_checkpoints m)) = r" and "r \<notin> set (m_evictedRuns m)"
    and "\<not> list_ex (\<lambda>c. cp_RunID c = r)
          (take (length (m_checkpoints m) - length (run_segment r (m_checkpoints m))) (m_checkpoints m))"
  shows "\<exists>rv m' d'. UndoRun pick (m, d) = (Inr rv, m', d') \<and>
     dk_broken d' = dk_broken d \<and> dk_files d' = unwind (run_segment r (m_checkpoints m)) (dk_files d) \<and>
     m_checkpoints m' = take (length (m_checkpoints m) - length (run_segment r (m_checkpoints m))) (m_checkpoints m) \<and>
     m_redoStack m' = m_redoStack m @ run_segment r (m_checkpoints m)"
proof -
  let ?seg = "run_segment r (m_checkpoints m)"
  obtain c cs where "rev (m_checkpoints m) = c # cs" "cp_RunID c = r"
    using assms(2,3) by (metis hd_rev list.collapse rev_is_Nil_conv)
  then have ne: "?seg \<noteq> []" by (simp add: run_segment_def)
  have "preRunBaselines ?seg (cp_FilePath c) \<noteq> None" if "c \<in> set ?seg" for c
    using that find_None_paths [of "cp_FilePath c" "rev ?seg"] by (simp add: preRunBaselines_def)
  with writeBaselines_healthy [OF assms(1), of ?seg "preRunBaselines ?seg" "[]"] obtain rv d'
    where wb: "writeBaselines_loop (preRunBaselines ?seg) ?seg [] d = (rv, None, d')" "dk_broken d' = dk_broken d"
      "dk_files d' = (\<lambda>p. if p \<in> cp_FilePath ` set ?seg then file_state (the (preRunBaselines ?seg p)) else dk_files d p)"
    by auto
  have "dk_files d' = unwind ?seg (dk_files d)"
  proof
    fix p
    show "dk_files d' p = unwind ?seg (dk_files d) p"
      using find_None_paths [of p "rev ?seg"]
      by (auto simp: wb(3) unwind_find preRunBaselines_def before_def split: option.splits)
  qed
  with wb ne assms show ?thesis
    by (simp add: UndoRun_def Let_def recordRunCorrection_def journalAppend_def run_segment_drop)
qed

section \<open>Undoing a run of edits\<close>

text \<open>
  An edit as the agent makes it (\<^verbatim>\<open>agent_tool.go\<close>): the file's state is read, the new content is
  written, and the checkpoint is saved.
\<close>

type_synonym edit = "string \<times> string \<times> string \<times> string"

fun agent_edit :: "edit \<Rightarrow> Manager \<times> disk \<Rightarrow> Manager \<times> disk" where
  "agent_edit (newID, path, content, tool) (m, d) =
     (snd (SaveWithExistence newID path (case dk_files d path of None \<Rightarrow> '''' | Some s \<Rightarrow> s) content tool
            (dk_files d path \<noteq> None) m),
      d\<lparr>dk_files := (dk_files d)(path \<mapsto> content)\<rparr>)"

definition edit_cp :: "edit \<Rightarrow> Manager \<times> disk \<Rightarrow> Checkpoint" where
  "edit_cp e s =
     (case (e, s) of ((newID, path, content, tool), (m, d)) \<Rightarrow>
        fst (SaveWithExistence newID path (case dk_files d path of None \<Rightarrow> '''' | Some s \<Rightarrow> s) content tool
            (dk_files d path \<noteq> None) m))"

fun edit_cps :: "edit list \<Rightarrow> Manager \<times> disk \<Rightarrow> Checkpoint list" where
  "edit_cps [] s = []"
| "edit_cps (e # es) s = edit_cp e s # edit_cps es (agent_edit e s)"

lemma edit_cp_simps:
  "cp_FilePath (edit_cp (newID, path, content, tool) (m, d)) = path"
  "cp_RunID (edit_cp e s) = m_currentRunID (fst s)"
  "before (edit_cp (newID, path, content, tool) (m, d)) = dk_files d path"
  by (cases e; cases s; auto simp: edit_cp_def SaveWithExistence_def Let_def before_def file_state_def split: option.splits)+

lemma agent_edit_state:
  "m_currentRunID (fst (agent_edit e s)) = m_currentRunID (fst s)"
  "m_maxCheckpoints (fst (agent_edit e s)) = m_maxCheckpoints (fst s)"
  "dk_broken (snd (agent_edit e s)) = dk_broken (snd s)"
  "fst (agent_edit e s) = journalAppend (EvSave (edit_cp e s)) (applySaveLocked (edit_cp e s) (fst s))"
  by (cases e; cases s; simp add: edit_cp_def SaveWithExistence_def journalAppend_def applySaveLocked_def Let_def split: prod.splits)+

lemma unwind_append: "unwind (xs @ ys) f = unwind ys (unwind xs f)"
  by (simp add: unwind_def)

lemma edits_unwind: "unwind (rev (edit_cps es s)) (dk_files (snd (fold agent_edit es s))) = dk_files (snd s)"
proof (induction es arbitrary: s)
  case (Cons e es)
  obtain newID path content tool m d where e: "e = (newID, path, content, tool)" "s = (m, d)"
    by (metis prod_cases4 surj_pair)
  have "unwind [edit_cp e s] (dk_files (snd (agent_edit e s))) = dk_files (snd s)"
    by (simp add: unwind_def e edit_cp_simps)
  with Cons.IH [of "agent_edit e s"] show ?case by (simp add: unwind_append)
qed (simp add: unwind_def)

text \<open>Eviction takes nothing from a run it does not mark.\<close>

lemma filter_remove_nth:
  "i < length xs \<Longrightarrow> \<not> P (xs ! i) \<Longrightarrow> filter P (remove_nth i xs) = filter P xs"
proof -
  assume i: "i < length xs" and "\<not> P (xs ! i)"
  moreover from i have "xs = take i xs @ xs ! i # drop (Suc i) xs" by (rule id_take_nth_drop)
  ultimately have "filter P xs = filter P (take i xs) @ filter P (drop (Suc i) xs)"
    by (metis filter.simps(2) filter_append)
  then show ?thesis by (simp add: remove_nth_def)
qed

lemma evict_loop_marks:
  "set ev \<subseteq> set (snd (evict_loop mx cur cps ev)) \<and>
   (r \<notin> set (snd (evict_loop mx cur cps ev)) \<longrightarrow>
      filter (\<lambda>c. cp_RunID c = r) (fst (evict_loop mx cur cps ev)) = filter (\<lambda>c. cp_RunID c = r) cps)"
proof (induction mx cur cps ev rule: evict_loop.induct)
  case (1 mx cur cps ev)
  show ?case
  proof (cases "length cps > mx")
    case True
    define i where "i = evict_index cur cps"
    have "cps \<noteq> []" using True by auto
    then have i: "i < length cps" unfolding i_def by (rule evict_index_less)
    have step: "evict_loop mx cur cps ev = evict_loop mx cur (remove_nth i cps) (List.insert (cp_RunID (cps ! i)) ev)"
      using True by (subst evict_loop.simps) (simp add: i_def Let_def)
    have IH: "set (List.insert (cp_RunID (cps ! i)) ev) \<subseteq> set (snd (evict_loop mx cur cps ev))"
      "r \<notin> set (snd (evict_loop mx cur cps ev)) \<Longrightarrow>
        filter (\<lambda>c. cp_RunID c = r) (fst (evict_loop mx cur cps ev)) = filter (\<lambda>c. cp_RunID c = r) (remove_nth i cps)"
      using 1 [OF True i_def] step by simp_all
    then have ins: "cp_RunID (cps ! i) \<in> set (snd (evict_loop mx cur cps ev))" "set ev \<subseteq> set (snd (evict_loop mx cur cps ev))"
      by (simp_all add: subset_iff)
    have "filter (\<lambda>c. cp_RunID c = r) (remove_nth i cps) = filter (\<lambda>c. cp_RunID c = r) cps"
      if "r \<notin> set (snd (evict_loop mx cur cps ev))"
      by (rule filter_remove_nth [OF i]) (use ins that in auto)
    with IH ins show ?thesis by metis
  next
    case False
    then show ?thesis by (subst (1 2 3) evict_loop.simps) simp
  qed
qed

lemma agent_edit_keeps_run:
  assumes "r \<notin> set (m_evictedRuns (fst (agent_edit e s)))"
  shows "r \<notin> set (m_evictedRuns (fst s))"
    and "filter (\<lambda>c. cp_RunID c = r) (m_checkpoints (fst (agent_edit e s))) =
         filter (\<lambda>c. cp_RunID c = r) (m_checkpoints (fst s) @ [edit_cp e s])"
proof -
  let ?l = "evict_loop (m_maxCheckpoints (fst s)) (m_currentRunID (fst s)) (m_checkpoints (fst s) @ [edit_cp e s]) (m_evictedRuns (fst s))"
  have "m_checkpoints (fst (agent_edit e s)) = fst ?l" "m_evictedRuns (fst (agent_edit e s)) = snd ?l"
    by (simp_all add: agent_edit_state(4) journalAppend_def applySaveLocked_def Let_def split: prod.splits)
  with assms evict_loop_marks [of "m_evictedRuns (fst s)" "m_maxCheckpoints (fst s)" "m_currentRunID (fst s)"
      "m_checkpoints (fst s) @ [edit_cp e s]" r]
  show "r \<notin> set (m_evictedRuns (fst s))"
    and "filter (\<lambda>c. cp_RunID c = r) (m_checkpoints (fst (agent_edit e s))) =
         filter (\<lambda>c. cp_RunID c = r) (m_checkpoints (fst s) @ [edit_cp e s])"
    by (auto simp del: filter_append)
qed

lemma evicted_mono: "r \<in> set (m_evictedRuns (fst s)) \<Longrightarrow> r \<in> set (m_evictedRuns (fst (fold agent_edit es s)))"
proof (induction es arbitrary: s)
  case (Cons e es)
  then have "r \<in> set (m_evictedRuns (fst (agent_edit e s)))" using agent_edit_keeps_run(1) by blast
  from Cons.IH [OF this] show ?case by simp
qed simp

lemma edits_keep_run:
  "m_currentRunID (fst s) = r \<Longrightarrow> r \<notin> set (m_evictedRuns (fst (fold agent_edit es s))) \<Longrightarrow>
     filter (\<lambda>c. cp_RunID c = r) (m_checkpoints (fst (fold agent_edit es s))) =
     filter (\<lambda>c. cp_RunID c = r) (m_checkpoints (fst s)) @ edit_cps es s"
proof (induction es arbitrary: s)
  case (Cons e es)
  have "r \<notin> set (m_evictedRuns (fst (agent_edit e s)))"
    using Cons.prems(2) evicted_mono [of r "agent_edit e s" es] by auto
  from agent_edit_keeps_run(2) [OF this] Cons.IH [of "agent_edit e s"] Cons.prems
  show ?case by (simp add: agent_edit_state(1) edit_cp_simps(2))
qed simp

text \<open>A run that was not resumed: its checkpoints are the last ones.\<close>

definition run_last :: "string \<Rightarrow> Checkpoint list \<Rightarrow> bool" where
  "run_last r cps = sorted (map (\<lambda>c. cp_RunID c = r) cps)"

lemma run_last_segment:
  "run_last r cps \<Longrightarrow>
     run_segment r cps = rev (filter (\<lambda>c. cp_RunID c = r) cps) \<and>
     take (length cps - length (run_segment r cps)) cps = filter (\<lambda>c. cp_RunID c \<noteq> r) cps"
proof (induction cps rule: rev_induct)
  case (snoc c cps)
  from snoc.prems have prev: "run_last r cps" by (simp add: run_last_def sorted_append)
  show ?case
  proof (cases "cp_RunID c = r")
    case True
    have "length (run_segment r cps) \<le> length cps"
      unfolding run_segment_def by (metis length_rev length_takeWhile_le)
    moreover have seg: "run_segment r (cps @ [c]) = c # run_segment r cps" using True by (simp add: run_segment_def)
    moreover have "take (length cps - length (run_segment r cps)) cps = filter (\<lambda>c. cp_RunID c \<noteq> r) cps"
      using snoc.IH [OF prev] by blast
    ultimately have "take (length (cps @ [c]) - length (run_segment r (cps @ [c]))) (cps @ [c]) =
        filter (\<lambda>c. cp_RunID c \<noteq> r) (cps @ [c])" using True by simp
    moreover have "run_segment r (cps @ [c]) = rev (filter (\<lambda>c. cp_RunID c = r) (cps @ [c]))"
      using True snoc.IH [OF prev] seg by simp
    ultimately show ?thesis by blast
  next
    case False
    with snoc.prems have "\<forall>x \<in> set cps. cp_RunID x \<noteq> r" by (auto simp: run_last_def sorted_append)
    with False show ?thesis by (auto simp: run_segment_def filter_empty_conv filter_id_conv)
  qed
qed (simp add: run_segment_def)

lemma sorted_remove_nth:
  assumes "sorted xs"
  shows "sorted (remove_nth i xs)"
proof (cases "i < length xs")
  case True
  then have "sorted (take i xs @ xs ! i # drop (Suc i) xs)" using assms id_take_nth_drop by metis
  then show ?thesis by (simp add: remove_nth_def sorted_append)
next
  case False
  with assms show ?thesis by (simp add: remove_nth_def)
qed

lemma map_remove_nth: "map f (remove_nth i xs) = remove_nth i (map f xs)"
  by (simp add: remove_nth_def take_map drop_map)

lemma evict_keeps_last:
  assumes "0 < mx" "cps \<noteq> []" "cp_RunID (last cps) = cur" "length cps > mx"
  shows "remove_nth (evict_index cur cps) cps \<noteq> [] \<and> last (remove_nth (evict_index cur cps) cps) = last cps"
proof -
  let ?i = "evict_index cur cps"
  have i: "?i < length cps" using assms(2) by (rule evict_index_less)
  have "Suc ?i < length cps"
  proof (cases "index_by (\<lambda>c. cp_RunID c \<noteq> cur) cps")
    case None
    then have "?i = 0" by (simp add: evict_index_def)
    then show ?thesis using assms(1,4) by simp
  next
    case (Some k)
    then have "?i = k" "cp_RunID (cps ! k) \<noteq> cur" by (auto simp: evict_index_def dest: index_by_Some)
    moreover have "cps ! (length cps - 1) = last cps" using assms(2) by (simp add: last_conv_nth)
    ultimately have "?i \<noteq> length cps - 1" using assms(3) by auto
    then show ?thesis using i by simp
  qed
  then show ?thesis by (simp add: remove_nth_def last_append)
qed

lemma evict_loop_last:
  "0 < mx \<Longrightarrow> cps \<noteq> [] \<Longrightarrow> cp_RunID (last cps) = cur \<Longrightarrow>
     fst (evict_loop mx cur cps ev) \<noteq> [] \<and> last (fst (evict_loop mx cur cps ev)) = last cps \<and>
     (run_last cur cps \<longrightarrow> run_last cur (fst (evict_loop mx cur cps ev)))"
proof (induction mx cur cps ev rule: evict_loop.induct)
  case (1 mx cur cps ev)
  show ?case
  proof (cases "length cps > mx")
    case True
    let ?i = "evict_index cur cps"
    have step: "evict_loop mx cur cps ev = evict_loop mx cur (remove_nth ?i cps) (List.insert (cp_RunID (cps ! ?i)) ev)"
      using True by (subst evict_loop.simps) (simp add: Let_def)
    have keep: "remove_nth ?i cps \<noteq> []" "last (remove_nth ?i cps) = last cps"
      using evict_keeps_last [OF "1.prems" True] by simp_all
    have "run_last cur cps \<longrightarrow> run_last cur (remove_nth ?i cps)"
      by (simp add: run_last_def map_remove_nth sorted_remove_nth)
    with "1.IH" [OF True refl "1.prems"(1) keep(1)] keep "1.prems"(3) show ?thesis by (simp add: step)
  next
    case False
    with "1.prems" show ?thesis by (subst (1 2 3) evict_loop.simps) simp
  qed
qed

lemma agent_edit_last:
  assumes "0 < m_maxCheckpoints (fst s)" "m_currentRunID (fst s) = r" "run_last r (m_checkpoints (fst s))"
  shows "m_checkpoints (fst (agent_edit e s)) \<noteq> [] \<and> cp_RunID (last (m_checkpoints (fst (agent_edit e s)))) = r \<and>
         run_last r (m_checkpoints (fst (agent_edit e s)))"
proof -
  let ?cps = "m_checkpoints (fst s) @ [edit_cp e s]"
  have "m_checkpoints (fst (agent_edit e s)) = fst (evict_loop (m_maxCheckpoints (fst s)) r ?cps (m_evictedRuns (fst s)))"
    using assms(2)
    by (simp add: agent_edit_state(4) journalAppend_def applySaveLocked_def Let_def split: prod.splits)
  moreover have "run_last r ?cps" using assms(2,3) by (simp add: run_last_def sorted_append edit_cp_simps(2))
  ultimately show ?thesis
    using evict_loop_last [OF assms(1), of ?cps r "m_evictedRuns (fst s)"] assms(2) by (simp add: edit_cp_simps(2))
qed

lemma edits_last:
  "0 < m_maxCheckpoints (fst s) \<Longrightarrow> m_currentRunID (fst s) = r \<Longrightarrow> run_last r (m_checkpoints (fst s)) \<Longrightarrow> es \<noteq> [] \<Longrightarrow>
     m_checkpoints (fst (fold agent_edit es s)) \<noteq> [] \<and> cp_RunID (last (m_checkpoints (fst (fold agent_edit es s)))) = r \<and>
     run_last r (m_checkpoints (fst (fold agent_edit es s)))"
proof (induction es arbitrary: s)
  case (Cons e es)
  from Cons.prems agent_edit_last [of s r e] Cons.IH [of "agent_edit e s"] show ?case
    by (cases "es = []") (simp_all add: agent_edit_state(1,2))
qed simp

lemma edits_broken: "dk_broken (snd (fold agent_edit es s)) = dk_broken (snd s)"
  by (induction es arbitrary: s) (simp_all add: agent_edit_state)

text \<open>
  C4. Undoing a run is all or nothing. Start a run, make any edits in it, more than the history
  can hold if you like, and undo the run on a disk that can be written: either the manager
  refuses because the run's first checkpoints were evicted, and touches nothing, or every file
  is as it was when the run started, created files gone again, and no checkpoint of the run is
  left.
\<close>

theorem undo_run_restores:
  assumes "healthy d" and "0 < m_maxCheckpoints m" and "\<forall>c \<in> set (m_checkpoints m). cp_RunID c \<noteq> r"
    and "es \<noteq> []" and "fold agent_edit es (StartRun r m, d) = (m1, d1)"
  shows "if r \<in> set (m_evictedRuns m1)
         then UndoRun pick (m1, d1) = (Inl (ErrEvicted r (m_maxCheckpoints m1)), m1, d1)
         else \<exists>rv m2 d2. UndoRun pick (m1, d1) = (Inr rv, m2, d2) \<and> dk_files d2 = dk_files d \<and>
                (\<forall>c \<in> set (m_checkpoints m2). cp_RunID c \<noteq> r)"
proof -
  let ?s = "(StartRun r m, d)"
  have s: "m_maxCheckpoints (fst ?s) = m_maxCheckpoints m" "m_currentRunID (fst ?s) = r"
    "m_checkpoints (fst ?s) = m_checkpoints m"
    by (simp_all add: StartRun_def journalAppend_def)
  have none: "filter (\<lambda>c. cp_RunID c = r) (m_checkpoints m) = []"
    using assms(3) by (simp add: filter_empty_conv)
  have "map (\<lambda>c. cp_RunID c = r) (m_checkpoints m) = map (\<lambda>c. False) (m_checkpoints m)"
    using assms(3) by simp
  then have "run_last r (m_checkpoints m)" unfolding run_last_def by (simp add: map_replicate_const)
  with edits_last [of ?s r es] s assms(2,4,5) have last: "m_checkpoints m1 \<noteq> []"
    "cp_RunID (last (m_checkpoints m1)) = r" "run_last r (m_checkpoints m1)" by simp_all
  have h: "healthy d1" using edits_broken [of es ?s] assms(1,5) by (simp add: healthy_def)
  show ?thesis
  proof (cases "r \<in> set (m_evictedRuns m1)")
    case True
    with last show ?thesis by (simp add: UndoRun_def Let_def)
  next
    case False
    have seg: "run_segment r (m_checkpoints m1) = rev (edit_cps es ?s)"
      using edits_keep_run [of ?s r es] run_last_segment [OF last(3)] False s none assms(5) by simp
    have cut: "take (length (m_checkpoints m1) - length (run_segment r (m_checkpoints m1))) (m_checkpoints m1) =
        filter (\<lambda>c. cp_RunID c \<noteq> r) (m_checkpoints m1)"
      using run_last_segment [OF last(3)] by blast
    have "unwind (rev (edit_cps es ?s)) (dk_files d1) = dk_files d"
      using edits_unwind [of es ?s] assms(5) by simp
    moreover have "\<not> list_ex (\<lambda>c. cp_RunID c = r)
        (take (length (m_checkpoints m1) - length (run_segment r (m_checkpoints m1))) (m_checkpoints m1))"
      unfolding cut by (simp add: list_ex_iff)
    from UndoRun_healthy [OF h last(1,2) False this, of pick] obtain rv m2 d2
      where u: "UndoRun pick (m1, d1) = (Inr rv, m2, d2)" "dk_files d2 = unwind (rev (edit_cps es ?s)) (dk_files d1)"
        "m_checkpoints m2 = filter (\<lambda>c. cp_RunID c \<noteq> r) (m_checkpoints m1)"
      unfolding cut unfolding seg by blast
    ultimately show ?thesis using False by simp
  qed
qed

definition sample_disk :: disk where
  "sample_disk = \<lparr>dk_files = [''a.go'' \<mapsto> ''one''], dk_broken = (\<lambda>_. False)\<rparr>"

definition sample_edits :: "edit list" where
  "sample_edits = [(''1'', ''a.go'', ''two'', ''edit_file''), (''2'', ''b.go'', ''new'', ''write_file''),
     (''3'', ''a.go'', ''three'', ''edit_file'')]"

theorem undo_run_restores_witness:
  "\<exists>m1 d1 rv m2 d2. fold agent_edit sample_edits (StartRun ''r'' (NewManager 0), sample_disk) = (m1, d1) \<and>
     dk_files d1 ''b.go'' = Some ''new'' \<and>
     UndoRun rev (m1, d1) = (Inr rv, m2, d2) \<and> dk_files d2 = dk_files sample_disk"
proof -
  have b: "dk_files (snd (fold agent_edit sample_edits (StartRun ''r'' (NewManager 0), sample_disk))) ''b.go'' = Some ''new''"
    and ev: "m_evictedRuns (fst (fold agent_edit sample_edits (StartRun ''r'' (NewManager 0), sample_disk))) = []"
    by code_simp+
  obtain m1 d1 where e: "fold agent_edit sample_edits (StartRun ''r'' (NewManager 0), sample_disk) = (m1, d1)"
    by (metis surj_pair)
  have "healthy sample_disk" "0 < m_maxCheckpoints (NewManager 0)" "\<forall>c \<in> set (m_checkpoints (NewManager 0)). cp_RunID c \<noteq> ''r''"
    "sample_edits \<noteq> []"
    by (simp_all add: healthy_def sample_disk_def NewManager_def sample_edits_def)
  from undo_run_restores [OF this e, of rev] ev b e show ?thesis by auto
qed

section \<open>Reverting to a checkpoint\<close>

lemma restore_list_healthy:
  "healthy d \<Longrightarrow> \<exists>d'. restore_list tgt fs d = (fs, None, d') \<and> dk_broken d' = dk_broken d \<and>
     dk_files d' = (\<lambda>p. if p \<in> set fs then file_state (tgt p) else dk_files d p)"
proof (induction fs arbitrary: d)
  case (Cons f fs)
  let ?d = "d\<lparr>dk_files := (dk_files d)(f := file_state (tgt f))\<rparr>"
  have "healthy ?d" using Cons.prems by (simp add: healthy_def)
  from Cons.IH [OF this] restore_healthy [OF Cons.prems, of f "fst (tgt f)" "snd (tgt f)"] show ?case
    by (auto simp: fun_eq_iff)
qed simp

text \<open>Nobody but the agent has written the files with checkpoints since their last one.\<close>

definition agrees :: "Checkpoint list \<Rightarrow> (string \<Rightarrow> string option) \<Rightarrow> bool" where
  "agrees cps f \<longleftrightarrow> (\<forall>p c. find (\<lambda>c. cp_FilePath c = p) (rev cps) = Some c \<longrightarrow> f p = Some (cp_NewContent c))"

lemma evict_loop_room: "length cps \<le> mx \<Longrightarrow> evict_loop mx cur cps ev = (cps, ev)"
  by (subst evict_loop.simps) simp

lemma edits_room:
  "length (m_checkpoints (fst s)) + length es \<le> m_maxCheckpoints (fst s) \<Longrightarrow>
     m_checkpoints (fst (fold agent_edit es s)) = m_checkpoints (fst s) @ edit_cps es s"
proof (induction es arbitrary: s)
  case (Cons e es)
  then have "m_checkpoints (fst (agent_edit e s)) = m_checkpoints (fst s) @ [edit_cp e s]"
    by (simp add: agent_edit_state(4) journalAppend_def applySaveLocked_def evict_loop_room Let_def)
  with Cons show ?case by (simp add: agent_edit_state(2))
qed simp

lemma index_by_append_hit:
  "\<forall>x \<in> set xs. \<not> P x \<Longrightarrow> P y \<Longrightarrow> index_by P (xs @ y # ys) = Some (length xs)"
  by (induction xs) auto

lemma edit_cp_ID: "cp_ID (edit_cp e s) = fst e"
  by (cases e; cases s) (simp add: edit_cp_def SaveWithExistence_def Let_def)

lemma revert_target_edits:
  assumes "agrees cps (dk_files (snd s))" and "p \<in> cp_FilePath ` set (edit_cps es s)"
  shows "file_state (revert_target (cps @ edit_cps es s) (length cps) p) = dk_files (snd s) p"
proof (cases "find (\<lambda>c. cp_FilePath c = p) (rev cps)")
  case (Some c)
  with assms(1) show ?thesis by (simp add: revert_target_def agrees_def file_state_def)
next
  case None
  from assms(2) obtain c where c: "find (\<lambda>c. cp_FilePath c = p) (edit_cps es s) = Some c"
    using find_None_paths [of p "edit_cps es s"] by (cases "find (\<lambda>c. cp_FilePath c = p) (edit_cps es s)") auto
  have "dk_files (snd s) p = unwind (rev (edit_cps es s)) (dk_files (snd (fold agent_edit es s))) p"
    by (simp add: edits_unwind)
  also have "\<dots> = before c" using c by (simp add: unwind_find)
  finally show ?thesis using None c by (simp add: revert_target_def before_def)
qed





text \<open>
  A correction changes its author over a restart: undoing a run records the tool of the run's
  last checkpoint, replaying the journal the tool of its first.
\<close>

theorem replay_names_other_tool:
  "let s0 = (StartRun ''r'' (openPersistentManagerAt id 10 []), sample_disk);
       s1 = fold agent_edit [(''1'', ''a.go'', ''two'', ''edit_file''), (''2'', ''b.go'', ''new'', ''write_file'')] s0;
       m2 = fst (snd (UndoRun id s1)) in
   map cor_ToolCall (m_corrections m2) = [''write_file''] \<and>
   map_option (\<lambda>js. map cor_ToolCall (m_corrections (openPersistentManagerAt id 10 js))) (m_journal m2) = Some [''edit_file'']"
  by code_simp

end
