(* ===== verification/GoNum.thy ===== *)
theory GoNum
  imports Prelude
begin

text \<open>
  Decimal numbers as the standard library prints and reads them (\<^verbatim>\<open>%d\<close>, \<^verbatim>\<open>strconv.Itoa\<close>,
  \<^verbatim>\<open>strconv.Atoi\<close>), and the 64-bit \<^verbatim>\<open>int\<close> with its wrap-around. An \<^verbatim>\<open>int\<close> is an \<^typ>\<open>int\<close> in
  \<open>{min_int..max_int}\<close>; a sum that may leave the range is wrapped by \<open>wrap64\<close>.
\<close>

definition max_int :: int where
  "max_int = 9223372036854775807"

definition min_int :: int where
  "min_int = - 9223372036854775808"

definition wrap64 :: "int \<Rightarrow> int" where
  "wrap64 n = (n - min_int) mod 18446744073709551616 + min_int"

definition is_int64 :: "int \<Rightarrow> bool" where
  "is_int64 n \<longleftrightarrow> min_int \<le> n \<and> n \<le> max_int"

definition digit_char :: "nat \<Rightarrow> char" where
  "digit_char d = char_of (48 + d)"

definition digit_val :: "char \<Rightarrow> nat" where
  "digit_val c = byte_val c - 48"

fun show_nat :: "nat \<Rightarrow> string" where
  "show_nat n = (if n < 10 then [digit_char n] else show_nat (n div 10) @ [digit_char (n mod 10)])"

declare show_nat.simps [simp del]

definition Itoa :: "int \<Rightarrow> string" where
  "Itoa n = (if n < 0 then CHR ''-'' # show_nat (nat (- n)) else show_nat (nat n))"

definition read_nat :: "string \<Rightarrow> nat" where
  "read_nat s = foldl (\<lambda>n c. 10 * n + digit_val c) 0 s"

text \<open>\<^verbatim>\<open>strconv.Atoi\<close>: an optional sign, at least one digit, nothing else, the value in range.\<close>

definition parse_digits :: "bool \<Rightarrow> string \<Rightarrow> int option" where
  "parse_digits neg s =
     (if s = [] \<or> \<not> list_all is_digit s then None
      else let n = (if neg then - int (read_nat s) else int (read_nat s)) in
           if is_int64 n then Some n else None)"

fun Atoi :: "string \<Rightarrow> int option" where
  "Atoi [] = None"
| "Atoi (c # s) =
     (if c = CHR ''-'' then parse_digits True s
      else if c = CHR ''+'' then parse_digits False s
      else parse_digits False (c # s))"

text \<open>
  \<^verbatim>\<open>%d\<close> of \<^verbatim>\<open>fmt.Sscanf\<close>: spaces, a sign, the longest run of digits and underscores, which is then read
  as a base-10 number; what follows is not looked at.
\<close>

definition scan_number :: "bool \<Rightarrow> string \<Rightarrow> int option" where
  "scan_number neg s = parse_digits neg (takeWhile (\<lambda>c. is_digit c \<or> c = CHR ''_'') s)"

definition scan_int :: "string \<Rightarrow> int option" where
  "scan_int s =
     (case dropWhile (\<lambda>c. byte_val c \<in> {9, 11, 12, 13, 32}) s of
        [] \<Rightarrow> None
      | c # r \<Rightarrow> if c = CHR ''-'' then scan_number True r
                 else if c = CHR ''+'' then scan_number False r
                 else scan_number False (c # r))"

section \<open>Wrap-around\<close>

lemma wrap64_id [simp]: "is_int64 n \<Longrightarrow> wrap64 n = n"
  by (simp add: wrap64_def is_int64_def min_int_def max_int_def)

lemma is_int64_wrap64: "is_int64 (wrap64 n)"
proof -
  have "0 \<le> (n - min_int) mod 18446744073709551616"
    and "(n - min_int) mod 18446744073709551616 < 18446744073709551616" by simp_all
  then show ?thesis by (simp add: wrap64_def is_int64_def min_int_def max_int_def)
qed

lemma wrap64_small: "- 9223372036854775808 \<le> n \<Longrightarrow> n \<le> 9223372036854775807 \<Longrightarrow> wrap64 n = n"
  by (simp add: is_int64_def min_int_def max_int_def)

section \<open>Printing and reading\<close>

lemma byte_val_digit_char: "d < 10 \<Longrightarrow> byte_val (digit_char d) = 48 + d"
  by (simp add: byte_val_def digit_char_def)

lemma digit_val_digit_char [simp]: "d < 10 \<Longrightarrow> digit_val (digit_char d) = d"
  by (simp add: digit_val_def byte_val_digit_char)

lemma is_digit_digit_char [simp]: "d < 10 \<Longrightarrow> is_digit (digit_char d)"
  by (simp add: is_digit_def in_range_def byte_val_digit_char)

lemma show_nat_digits: "list_all is_digit (show_nat n)"
proof (induction n rule: show_nat.induct)
  case (1 n)
  then show ?case by (subst show_nat.simps) simp
qed

lemma show_nat_ne [simp]: "show_nat n \<noteq> []"
  by (subst show_nat.simps) simp

lemma read_nat_snoc: "read_nat (s @ [c]) = 10 * read_nat s + digit_val c"
  by (simp add: read_nat_def)

lemma read_show_nat [simp]: "read_nat (show_nat n) = n"
proof (induction n rule: show_nat.induct)
  case (1 n)
  show ?case
  proof (cases "n < 10")
    case True
    then show ?thesis by (subst show_nat.simps) (simp add: read_nat_def)
  next
    case False
    with 1 show ?thesis by (subst show_nat.simps) (simp add: read_nat_snoc)
  qed
qed

lemma show_nat_inj [simp]: "show_nat m = show_nat n \<longleftrightarrow> m = n"
  by (metis read_show_nat)

lemma sign_not_digit: "is_digit c \<Longrightarrow> c \<noteq> CHR ''-'' \<and> c \<noteq> CHR ''+''"
  by (auto simp: is_digit_def in_range_def byte_val_def)

lemma show_nat_hd: "show_nat n = c # s \<Longrightarrow> is_digit c"
  using show_nat_digits [of n] by auto

lemma Itoa_ne [simp]: "Itoa n \<noteq> []"
  by (simp add: Itoa_def)

lemma Atoi_digits:
  assumes "list_all is_digit s" "s \<noteq> []"
  shows "Atoi s = parse_digits False s"
  using assms sign_not_digit by (cases s) auto

text \<open>Reading what was printed gives the number back.\<close>

lemma Atoi_Itoa: "is_int64 n \<Longrightarrow> Atoi (Itoa n) = Some n"
  by (cases "n < 0")
    (auto simp: Itoa_def Atoi_digits show_nat_digits parse_digits_def Let_def)

lemma Itoa_inj [simp]: "Itoa m = Itoa n \<longleftrightarrow> m = n"
proof
  assume eq: "Itoa m = Itoa n"
  have sign: "(k < 0) = (hd (Itoa k) = CHR ''-'')" for k
    using show_nat_hd [of "nat k"] sign_not_digit
    by (cases "show_nat (nat k)") (auto simp: Itoa_def)
  have "m < 0 \<longleftrightarrow> n < 0" using eq sign by metis
  with eq show "m = n" by (auto simp: Itoa_def split: if_splits)
qed simp

lemma Atoi_int64: "Atoi s = Some n \<Longrightarrow> is_int64 n"
  by (cases s) (auto simp: parse_digits_def Let_def split: if_splits)

lemma takeWhile_digits:
  "list_all is_digit s \<Longrightarrow> takeWhile (\<lambda>c. is_digit c \<or> c = CHR ''_'') s = s"
  by (simp add: takeWhile_eq_all_conv list_all_iff)

lemma digit_not_blank: "is_digit c \<Longrightarrow> byte_val c \<notin> {9, 11, 12, 13, 32}"
  by (auto simp: is_digit_def in_range_def)

lemma scan_int_Itoa: "0 \<le> n \<Longrightarrow> is_int64 n \<Longrightarrow> scan_int (Itoa n) = Some n"
proof -
  assume n: "0 \<le> n" "is_int64 n"
  obtain c r where s: "show_nat (nat n) = c # r" by (cases "show_nat (nat n)") auto
  have d: "list_all is_digit (c # r)" using show_nat_digits [of "nat n"] s by simp
  have "dropWhile (\<lambda>c. byte_val c \<in> {9, 11, 12, 13, 32}) (c # r) = c # r"
    using d digit_not_blank [of c] by auto
  moreover have "c \<noteq> CHR ''-'' \<and> c \<noteq> CHR ''+''" using d sign_not_digit by simp
  moreover have "scan_number False (c # r) = Some n"
    unfolding scan_number_def takeWhile_digits [OF d]
    using n d read_show_nat [of "nat n"] s by (simp add: parse_digits_def)
  ultimately show ?thesis using n s by (simp add: scan_int_def Itoa_def)
qed

end
