(* ===== verification/TaskBoard.thy ===== *)
theory TaskBoard
  imports GoNum "HOL-Library.AList" "HOL-Library.Product_Lexorder"
begin

text \<open>
  The task board of \<^verbatim>\<open>internal/task\<close>: tasks with \<^verbatim>\<open>Blocks\<close>/\<^verbatim>\<open>BlockedBy\<close> edges, the manager's operations
  and its snapshot. The map \<^verbatim>\<open>tasks\<close> is an association list read with \<^const>\<open>map_of\<close>; a pointer
  into it that the code updates is the entry under its key. The clock is an argument.
  \<^verbatim>\<open>Metadata\<close> is an association list too, \<^const>\<open>None\<close> for the nil map.
\<close>

section \<open>Data\<close>

type_synonym TaskStatus = string

definition StatusPending :: TaskStatus where "StatusPending = ''pending''"
definition StatusInProgress :: TaskStatus where "StatusInProgress = ''in_progress''"
definition StatusCompleted :: TaskStatus where "StatusCompleted = ''completed''"

definition ValidStatuses :: "TaskStatus list" where
  "ValidStatuses = [StatusPending, StatusInProgress, StatusCompleted]"

definition IsValidStatus :: "string \<Rightarrow> bool" where
  "IsValidStatus s = list_ex (\<lambda>v. s = v) ValidStatuses"

record Task =
  ID :: string
  Subject :: string
  Description :: string
  ActiveForm :: string
  Status :: TaskStatus
  Owner :: string
  Blocks :: "string list"
  BlockedBy :: "string list"
  Metadata :: "(string \<times> string) list option"
  CreatedAt :: int
  UpdatedAt :: int

record UpdateOptions =
  opt_Status :: "TaskStatus option"
  opt_ExpectedStatus :: "TaskStatus option"
  opt_Subject :: "string option"
  opt_Description :: "string option"
  opt_ActiveForm :: "string option"
  opt_Owner :: "string option"
  AddBlocks :: "string list"
  AddBlockedBy :: "string list"
  opt_Metadata :: "(string \<times> string) list option"

type_synonym board = "(string \<times> Task) list"

record TaskManager =
  tasks :: board
  nextID :: int

datatype task_error =
    TaskNotFound string
  | StatusMismatch string string string
  | InvalidStatus string
  | BlocksItself string
  | BlockedNotFound string
  | BlocksCycle string string
  | DependsOnItself string
  | BlockingNotFound string
  | BlockedByCycle string
  | BlocksAndBlockedBy string string
  | ClosesCycle string string
  | SnapshotDecode
  | SnapshotVersion int

definition NewTaskManager :: TaskManager where
  "NewTaskManager = \<lparr>tasks = [], nextID = 0\<rparr>"

section \<open>Create, Get, List\<close>

definition task_id :: "int \<Rightarrow> string" where
  "task_id n = ''task-'' @ Itoa n"

definition Create ::
  "string \<Rightarrow> string \<Rightarrow> string \<Rightarrow> (string \<times> string) list option \<Rightarrow> int \<Rightarrow> TaskManager \<Rightarrow> Task \<times> TaskManager" where
  "Create subject description activeForm metadata now m =
     (let n = wrap64 (nextID m + 1);
          t = \<lparr>ID = task_id n, Subject = subject, Description = description,
               ActiveForm = activeForm, Status = StatusPending, Owner = '''',
               Blocks = [], BlockedBy = [],
               Metadata = Some (case metadata of None \<Rightarrow> [] | Some md \<Rightarrow> md),
               CreatedAt = now, UpdatedAt = now\<rparr>
      in (t, \<lparr>tasks = AList.update (task_id n) t (tasks m), nextID = n\<rparr>))"

definition Get :: "string \<Rightarrow> TaskManager \<Rightarrow> Task option" where
  "Get taskID m = map_of (tasks m) taskID"

text \<open>The order \<^verbatim>\<open>List\<close> sorts by: tasks in progress first, then by creation time, then by identifier.\<close>

definition list_key :: "Task \<Rightarrow> bool \<times> int \<times> string" where
  "list_key t = (Status t \<noteq> StatusInProgress, CreatedAt t, ID t)"

definition List_tasks :: "TaskManager \<Rightarrow> Task list" where
  "List_tasks m = sort_key list_key (map snd (tasks m))"

section \<open>The dependency walk\<close>

definition contains :: "string list \<Rightarrow> string \<Rightarrow> bool" where
  "contains slice s = list_ex (\<lambda>v. v = s) slice"

fun removeString :: "string list \<Rightarrow> string \<Rightarrow> string list" where
  "removeString [] s = []"
| "removeString (v # slice) s = (if v = s then slice else v # removeString slice s)"

definition hasTask :: "board \<Rightarrow> string \<Rightarrow> bool" where
  "hasTask ts i \<longleftrightarrow> map_of ts i \<noteq> None"

text \<open>
  The closure \<^verbatim>\<open>check\<close> of \<^verbatim>\<open>wouldCreateCycleVirtual\<close>, run over a list of identifiers in turn as its
  two loops do; the shared map \<^verbatim>\<open>visited\<close> is threaded through.
\<close>

function check_each ::
  "board \<Rightarrow> (string \<Rightarrow> string list) \<Rightarrow> string \<Rightarrow> string list \<Rightarrow> string list \<Rightarrow> bool \<times> string list" where
  "check_each ts extra target [] visited = (False, visited)"
| "check_each ts extra target (i # ids) visited =
     (if i = target then (True, visited)
      else if i \<in> set visited then check_each ts extra target ids visited
      else (case map_of ts i of
              None \<Rightarrow> check_each ts extra target ids (i # visited)
            | Some t \<Rightarrow>
                (let r = check_each ts extra target (BlockedBy t @ extra i) (i # visited) in
                 if fst r then r else check_each ts extra target ids (snd r))))"
  by pat_completeness auto

lemma check_each_grows:
  "check_each_dom (ts, extra, target, ids, visited) \<Longrightarrow>
   set visited \<subseteq> set (snd (check_each ts extra target ids visited))"
proof (induction ts extra target ids visited rule: check_each.pinduct)
  case (2 ts extra target i ids visited)
  show ?case
  proof (cases "i = target \<or> i \<in> set visited")
    case True
    with 2 show ?thesis by (auto simp: check_each.psimps)
  next
    case False
    show ?thesis
    proof (cases "map_of ts i")
      case None
      with 2 False show ?thesis by (auto simp: check_each.psimps)
    next
      case (Some t)
      let ?r = "check_each ts extra target (BlockedBy t @ extra i) (i # visited)"
      have sub: "set (i # visited) \<subseteq> set (snd ?r)" using 2(4) False Some by blast
      show ?thesis
      proof (cases "fst ?r")
        case True
        with sub 2(1) False Some show ?thesis by (auto simp: check_each.psimps Let_def)
      next
        case nf: False
        have "set (snd ?r) \<subseteq> set (snd (check_each ts extra target ids (snd ?r)))"
          using 2(5) False Some nf by blast
        with sub nf 2(1) False Some show ?thesis by (auto simp: check_each.psimps Let_def)
      qed
    qed
  qed
qed (simp add: check_each.psimps)


termination check_each
proof (relation "inv_image (less_than <*lex*> less_than)
         (\<lambda>(ts, extra, target, ids, visited). (card (fst ` set ts - set visited), length ids))", goal_cases)
  case (4 ts extra target i ids visited t)
  have "i \<in> fst ` set ts" using 4(3) by (force dest: map_of_SomeD)
  then have "fst ` set ts - set (i # visited) \<subset> fst ` set ts - set visited" using 4(2) by auto
  then show ?case by (auto intro: psubset_card_mono)
next
  case (5 ts extra target i ids visited t r)
  have "set (i # visited) \<subseteq> set (snd r)" using check_each_grows [OF 5(6)] 5(4) by simp
  moreover have "i \<in> fst ` set ts" using 5(3) by (force dest: map_of_SomeD)
  ultimately have "fst ` set ts - set (snd r) \<subset> fst ` set ts - set visited" using 5(2) by auto
  then show ?case by (auto intro: psubset_card_mono)
next
  case (3 ts extra target i ids visited)
  then have "card (fst ` set ts - set (i # visited)) \<le> card (fst ` set ts - set visited)"
    by (intro card_mono) auto
  then show ?case by auto
qed auto

definition wouldCreateCycleVirtual ::
  "board \<Rightarrow> (string \<Rightarrow> string list) \<Rightarrow> string \<Rightarrow> string \<Rightarrow> bool" where
  "wouldCreateCycleVirtual ts extra start target = fst (check_each ts extra target [start] [])"

definition wouldCreateCycle :: "board \<Rightarrow> string \<Rightarrow> string \<Rightarrow> bool" where
  "wouldCreateCycle ts start target = wouldCreateCycleVirtual ts (\<lambda>_. []) start target"

section \<open>Update\<close>

text \<open>The edges the call would add, as \<^verbatim>\<open>virtualBlockedBy\<close> has them.\<close>

definition virtualBlockedBy :: "string \<Rightarrow> UpdateOptions \<Rightarrow> string \<Rightarrow> string list" where
  "virtualBlockedBy taskID opts =
     fold (\<lambda>b f. f(b := f b @ [taskID])) (AddBlocks opts) ((\<lambda>_. [])(taskID := AddBlockedBy opts))"

definition check_addBlocks :: "board \<Rightarrow> string \<Rightarrow> UpdateOptions \<Rightarrow> string \<Rightarrow> task_error option" where
  "check_addBlocks ts taskID opts blockID =
     (if blockID = taskID then Some (BlocksItself taskID)
      else if \<not> hasTask ts blockID then Some (BlockedNotFound blockID)
      else if wouldCreateCycleVirtual ts (virtualBlockedBy taskID opts) taskID blockID
        then Some (BlocksCycle taskID blockID)
      else None)"

definition check_addBlockedBy :: "board \<Rightarrow> string \<Rightarrow> UpdateOptions \<Rightarrow> string \<Rightarrow> task_error option" where
  "check_addBlockedBy ts taskID opts depID =
     (if depID = taskID then Some (DependsOnItself taskID)
      else if \<not> hasTask ts depID then Some (BlockingNotFound depID)
      else if wouldCreateCycleVirtual ts (virtualBlockedBy taskID opts) depID taskID
        then Some (BlockedByCycle depID)
      else if contains (AddBlocks opts) depID then Some (BlocksAndBlockedBy taskID depID)
      else None)"

text \<open>The tests before the first write.\<close>

definition validate :: "board \<Rightarrow> string \<Rightarrow> Task \<Rightarrow> UpdateOptions \<Rightarrow> task_error option" where
  "validate ts taskID t opts = first_error id
     [case opt_ExpectedStatus opts of
        Some e \<Rightarrow> if Status t \<noteq> e then Some (StatusMismatch taskID (Status t) e) else None
      | None \<Rightarrow> None,
      case opt_Status opts of
        Some s \<Rightarrow> if \<not> IsValidStatus s then Some (InvalidStatus s) else None
      | None \<Rightarrow> None,
      first_error (check_addBlocks ts taskID opts) (AddBlocks opts),
      first_error (check_addBlockedBy ts taskID opts) (AddBlockedBy opts)]"

definition set_fields :: "UpdateOptions \<Rightarrow> Task \<Rightarrow> Task" where
  "set_fields opts t = t
     \<lparr>Status := case_option (Status t) id (opt_Status opts),
      Subject := case_option (Subject t) id (opt_Subject opts),
      Description := case_option (Description t) id (opt_Description opts),
      ActiveForm := case_option (ActiveForm t) id (opt_ActiveForm opts),
      Owner := case_option (Owner t) id (opt_Owner opts)\<rparr>"

definition add_once :: "string \<Rightarrow> string list \<Rightarrow> string list" where
  "add_once x xs = (if contains xs x then xs else xs @ [x])"

definition add_Blocks :: "string \<Rightarrow> string \<Rightarrow> board \<Rightarrow> board" where
  "add_Blocks i x ts = AList.map_entry i (\<lambda>t. t\<lparr>Blocks := add_once x (Blocks t)\<rparr>) ts"

definition add_BlockedBy :: "string \<Rightarrow> string \<Rightarrow> board \<Rightarrow> board" where
  "add_BlockedBy i x ts = AList.map_entry i (\<lambda>t. t\<lparr>BlockedBy := add_once x (BlockedBy t)\<rparr>) ts"

text \<open>The two loops that write the edges; what an earlier iteration wrote stays when a later one returns an error.\<close>

fun link_blocks :: "string \<Rightarrow> string list \<Rightarrow> board \<Rightarrow> task_error option \<times> board" where
  "link_blocks taskID [] ts = (None, ts)"
| "link_blocks taskID (blockID # bs) ts =
     (if wouldCreateCycle ts taskID blockID then (Some (ClosesCycle taskID blockID), ts)
      else link_blocks taskID bs (add_BlockedBy blockID taskID (add_Blocks taskID blockID ts)))"

fun link_blockedBy :: "string \<Rightarrow> string list \<Rightarrow> board \<Rightarrow> task_error option \<times> board" where
  "link_blockedBy taskID [] ts = (None, ts)"
| "link_blockedBy taskID (blockerID # bs) ts =
     (if blockerID = taskID then (Some (BlocksItself taskID), ts)
      else if \<not> hasTask ts blockerID then (Some (BlockingNotFound blockerID), ts)
      else if wouldCreateCycle ts blockerID taskID then (Some (ClosesCycle blockerID taskID), ts)
      else link_blockedBy taskID bs (add_Blocks blockerID taskID (add_BlockedBy taskID blockerID ts)))"

definition merge_metadata :: "UpdateOptions \<Rightarrow> Task \<Rightarrow> Task" where
  "merge_metadata opts t =
     (case opt_Metadata opts of
        None \<Rightarrow> t
      | Some md \<Rightarrow> t\<lparr>Metadata := Some (fold (\<lambda>(k, v). AList.update k v) md (case_option [] id (Metadata t)))\<rparr>)"

definition Update :: "string \<Rightarrow> UpdateOptions \<Rightarrow> int \<Rightarrow> TaskManager \<Rightarrow> (task_error + Task) \<times> TaskManager" where
  "Update taskID opts now m =
     (case map_of (tasks m) taskID of
        None \<Rightarrow> (Inl (TaskNotFound taskID), m)
      | Some t \<Rightarrow>
          (case validate (tasks m) taskID t opts of
             Some e \<Rightarrow> (Inl e, m)
           | None \<Rightarrow>
               (let ts1 = AList.map_entry taskID (set_fields opts) (tasks m);
                    (e2, ts2) = link_blocks taskID (AddBlocks opts) ts1 in
                case e2 of
                  Some e \<Rightarrow> (Inl e, m\<lparr>tasks := ts2\<rparr>)
                | None \<Rightarrow>
                    (let (e3, ts3) = link_blockedBy taskID (AddBlockedBy opts) ts2 in
                     case e3 of
                       Some e \<Rightarrow> (Inl e, m\<lparr>tasks := ts3\<rparr>)
                     | None \<Rightarrow>
                         (let ts4 = AList.map_entry taskID
                                      (\<lambda>t. (merge_metadata opts t)\<lparr>UpdatedAt := now\<rparr>) ts3
                          in (Inr (the (map_of ts4 taskID)), m\<lparr>tasks := ts4\<rparr>))))))"

section \<open>Delete\<close>

definition drop_refs :: "string \<Rightarrow> Task \<Rightarrow> Task" where
  "drop_refs taskID t =
     t\<lparr>Blocks := removeString (Blocks t) taskID, BlockedBy := removeString (BlockedBy t) taskID\<rparr>"

definition Delete :: "string \<Rightarrow> TaskManager \<Rightarrow> bool \<times> TaskManager" where
  "Delete taskID m =
     (if \<not> hasTask (tasks m) taskID then (False, m)
      else (True, m\<lparr>tasks := AList.delete taskID
                   (map (\<lambda>(i, other). if i = taskID then (i, other) else (i, drop_refs taskID other))
                      (tasks m))\<rparr>))"

section \<open>Snapshot and restore\<close>

text \<open>
  The snapshot is the value \<^verbatim>\<open>json.Marshal\<close> is given and \<^verbatim>\<open>json.Unmarshal\<close> fills in. The one thing the
  encoding changes on the way is \<^verbatim>\<open>omitempty\<close>: an empty metadata map is read back as nil.
\<close>

record snapshotFormat =
  Version :: int
  NextID :: int
  Tasks :: "Task list"

datatype snapshot_bytes = NoBytes | Malformed | Bytes snapshotFormat

definition snapshotVersion :: int where
  "snapshotVersion = 1"

definition omit_empty :: "Task \<Rightarrow> Task" where
  "omit_empty t = (if Metadata t = Some [] then t\<lparr>Metadata := None\<rparr> else t)"

definition SnapshotJSON :: "TaskManager \<Rightarrow> snapshot_bytes" where
  "SnapshotJSON m = Bytes
     \<lparr>Version = snapshotVersion, NextID = nextID m,
      Tasks = map omit_empty (sort_key ID (map snd (tasks m)))\<rparr>"

text \<open>\<^verbatim>\<open>fmt.Sscanf\<close> with \<^verbatim>\<open>task-%d\<close>.\<close>

definition numericTaskID :: "string \<Rightarrow> int" where
  "numericTaskID i =
     (if HasPrefix i ''task-'' then case_option 0 id (scan_int (drop 5 i)) else 0)"

definition restore_task :: "Task \<Rightarrow> Task" where
  "restore_task pt = pt
     \<lparr>Metadata := (case Metadata pt of Some md \<Rightarrow> if md = [] then None else Some md | None \<Rightarrow> None),
      Status := (if IsValidStatus (Status pt) then Status pt else StatusPending)\<rparr>"

fun rebuild :: "Task list \<Rightarrow> board \<Rightarrow> board" where
  "rebuild [] rebuilt = rebuilt"
| "rebuild (pt # pts) rebuilt =
     (if ID pt = '''' then rebuild pts rebuilt
      else if hasTask rebuilt (ID pt) then rebuild pts rebuilt
      else rebuild pts (AList.update (ID pt) (restore_task pt) rebuilt))"

definition bump_nextID :: "string \<Rightarrow> int \<Rightarrow> int" where
  "bump_nextID i n = (if numericTaskID i \<ge> n then wrap64 (numericTaskID i + 1) else n)"

definition RestoreJSON ::
  "(string list \<Rightarrow> string list) \<Rightarrow> snapshot_bytes \<Rightarrow> TaskManager \<Rightarrow> task_error option \<times> TaskManager" where
  "RestoreJSON pick data m =
     (case data of
        NoBytes \<Rightarrow> (None, \<lparr>tasks = [], nextID = 0\<rparr>)
      | Malformed \<Rightarrow> (Some SnapshotDecode, m)
      | Bytes snap \<Rightarrow>
          (if Version snap > snapshotVersion then (Some (SnapshotVersion (Version snap)), m)
           else let rebuilt = rebuild (Tasks snap) [] in
                (None, \<lparr>tasks = rebuilt,
                        nextID = fold bump_nextID (range_order pick (map fst rebuilt)) (NextID snap)\<rparr>)))"

text \<open>\<^verbatim>\<open>BoardStats\<close>: completed, in progress, pending; a status outside the three counts nowhere.\<close>

definition count_status :: "TaskStatus \<Rightarrow> Task list \<Rightarrow> int" where
  "count_status st ts = int (length (filter (\<lambda>t. Status t = st) ts))"

fun BoardStats :: "snapshot_bytes \<Rightarrow> (int \<times> int \<times> int) option" where
  "BoardStats (Bytes snap) =
     Some (count_status StatusCompleted (Tasks snap), count_status StatusInProgress (Tasks snap),
           count_status StatusPending (Tasks snap))"
| "BoardStats _ = None"

section \<open>The walk decides reachability\<close>

definition blockedBy_of :: "board \<Rightarrow> string \<Rightarrow> string list" where
  "blockedBy_of ts i = case_option [] BlockedBy (map_of ts i)"

definition blocks_of :: "board \<Rightarrow> string \<Rightarrow> string list" where
  "blocks_of ts i = case_option [] Blocks (map_of ts i)"

text \<open>The dependency relation: a task and a task it waits for; and its mirror kept in \<^verbatim>\<open>Blocks\<close>.\<close>

definition deps :: "board \<Rightarrow> (string \<times> string) set" where
  "deps ts = {(i, b). b \<in> set (blockedBy_of ts i)}"

definition block_rel :: "board \<Rightarrow> (string \<times> string) set" where
  "block_rel ts = {(i, b). b \<in> set (blocks_of ts i)}"

definition walk_edges :: "board \<Rightarrow> (string \<Rightarrow> string list) \<Rightarrow> (string \<times> string) set" where
  "walk_edges ts extra = deps ts \<union> {(i, b). hasTask ts i \<and> b \<in> set (extra i)}"

lemma deps_iff: "(i, b) \<in> deps ts \<longleftrightarrow> (\<exists>t. map_of ts i = Some t \<and> b \<in> set (BlockedBy t))"
  by (cases "map_of ts i") (auto simp: deps_def blockedBy_of_def)

lemma block_rel_iff: "(i, b) \<in> block_rel ts \<longleftrightarrow> (\<exists>t. map_of ts i = Some t \<and> b \<in> set (Blocks t))"
  by (cases "map_of ts i") (auto simp: block_rel_def blocks_of_def)

lemma hasTask_iff: "hasTask ts i \<longleftrightarrow> i \<in> fst ` set ts"
  by (simp add: hasTask_def map_of_eq_None_iff)

lemma walk_edges_at: "map_of ts i = Some t \<Longrightarrow> walk_edges ts extra `` {i} = set (BlockedBy t @ extra i)"
  by (auto simp: walk_edges_def deps_iff hasTask_def)

lemma walk_edges_missing: "map_of ts i = None \<Longrightarrow> walk_edges ts extra `` {i} = {}"
  by (auto simp: walk_edges_def deps_iff hasTask_def)

lemma walk_edges_none [simp]: "walk_edges ts (\<lambda>_. []) = deps ts"
  by (auto simp: walk_edges_def)

lemma check_each_sound:
  "fst (check_each ts extra target ids visited) \<Longrightarrow>
   \<exists>i \<in> set ids. (i, target) \<in> (walk_edges ts extra)\<^sup>*"
proof (induction ts extra target ids visited rule: check_each.induct)
  case (2 ts extra target i ids visited)
  show ?case
  proof (cases "i = target \<or> i \<in> set visited")
    case True
    with 2 show ?thesis by (auto split: if_splits)
  next
    case False
    show ?thesis
    proof (cases "map_of ts i")
      case None
      with 2 False show ?thesis by auto
    next
      case (Some t)
      let ?r = "check_each ts extra target (BlockedBy t @ extra i) (i # visited)"
      show ?thesis
      proof (cases "fst ?r")
        case True
        from False have neq: "i \<noteq> target" "i \<notin> set visited" by auto
        from 2(3) [OF neq Some True] obtain b where
          b: "b \<in> set (BlockedBy t @ extra i)" "(b, target) \<in> (walk_edges ts extra)\<^sup>*" by blast
        have "(i, b) \<in> walk_edges ts extra" using walk_edges_at [OF Some] b(1) by blast
        with b(2) show ?thesis by (auto intro: converse_rtrancl_into_rtrancl)
      next
        case nf: False
        from False have neq: "i \<noteq> target" "i \<notin> set visited" by auto
        from 2(5) Some neq nf have "fst (check_each ts extra target ids (snd ?r))"
          by (simp add: Let_def)
        with 2(4) [OF neq Some _ nf] show ?thesis by auto
      qed
    qed
  qed
qed simp

text \<open>What a walk that found nothing has visited is closed under the edges and misses the target.\<close>

definition closed_walk ::
  "(string \<times> string) set \<Rightarrow> string \<Rightarrow> string list \<Rightarrow> string list \<Rightarrow> string list \<Rightarrow> bool" where
  "closed_walk E target ids visited v \<longleftrightarrow>
     set visited \<union> set ids \<subseteq> set v \<and>
     (\<forall>x \<in> set v - set visited. x \<noteq> target \<and> E `` {x} \<subseteq> set v)"

lemma closed_walk_step:
  assumes "closed_walk E target bs (i # visited) w" "closed_walk E target ids w v"
    and "E `` {i} \<subseteq> set bs" "i \<noteq> target"
  shows "closed_walk E target (i # ids) visited v"
proof -
  have sub: "set (i # visited) \<union> set bs \<subseteq> set w" "set w \<union> set ids \<subseteq> set v"
    using assms(1,2) by (simp_all add: closed_walk_def)
  have "x \<noteq> target \<and> E `` {x} \<subseteq> set v" if x: "x \<in> set v - set visited" for x
  proof (cases "x \<in> set w")
    case True
    then have "x = i \<or> x \<in> set w - set (i # visited)" using x by auto
    then have "x \<noteq> target \<and> E `` {x} \<subseteq> set w"
      using assms(1,3,4) sub(1) unfolding closed_walk_def by blast
    with sub(2) show ?thesis by auto
  next
    case False
    with x assms(2) show ?thesis unfolding closed_walk_def by blast
  qed
  with sub show ?thesis unfolding closed_walk_def by auto
qed

lemma closed_walk_reach:
  assumes cl: "closed_walk E target [start] [] v" and "(start, x) \<in> E\<^sup>*"
  shows "x \<in> set v \<and> x \<noteq> target"
  using assms(2)
proof induction
  case base
  then show ?case using cl by (simp add: closed_walk_def)
next
  case (step y z)
  then show ?case using cl unfolding closed_walk_def by auto
qed

lemma check_each_complete:
  "\<not> fst (check_each ts extra target ids visited) \<Longrightarrow>
   closed_walk (walk_edges ts extra) target ids visited (snd (check_each ts extra target ids visited))"
proof (induction ts extra target ids visited rule: check_each.induct)
  case (2 ts extra target i ids visited)
  show ?case
  proof (cases "i = target \<or> i \<in> set visited")
    case True
    with 2(5) have seen: "i \<noteq> target" "i \<in> set visited" by auto
    with 2(5) have "closed_walk (walk_edges ts extra) target ids visited
        (snd (check_each ts extra target ids visited))" using 2(1) by simp
    with seen show ?thesis by (auto simp: closed_walk_def)
  next
    case False
    then have neq: "i \<noteq> target" "i \<notin> set visited" by auto
    show ?thesis
    proof (cases "map_of ts i")
      case None
      with 2(2) [OF neq None] 2(5) neq walk_edges_missing [OF None, of extra] show ?thesis
        by (auto simp: closed_walk_def)
    next
      case (Some t)
      let ?r = "check_each ts extra target (BlockedBy t @ extra i) (i # visited)"
      from 2(5) Some neq have nf: "\<not> fst ?r" by (auto simp: Let_def)
      let ?v = "snd (check_each ts extra target ids (snd ?r))"
      from 2(5) Some neq nf have nf': "\<not> fst (check_each ts extra target ids (snd ?r))"
        by (simp add: Let_def)
      have inner: "closed_walk (walk_edges ts extra) target (BlockedBy t @ extra i) (i # visited) (snd ?r)"
        using 2(3) [OF neq Some nf] .
      have outer: "closed_walk (walk_edges ts extra) target ids (snd ?r) ?v"
        using 2(4) [OF neq Some _ nf] nf' by simp
      have "closed_walk (walk_edges ts extra) target (i # ids) visited ?v"
        by (rule closed_walk_step [OF inner outer])
          (use neq walk_edges_at [OF Some, of extra] in auto)
      then show ?thesis using Some neq nf by (simp add: Let_def)
    qed
  qed
qed (simp add: closed_walk_def)

lemma cycle_walk_iff:
  "wouldCreateCycleVirtual ts extra start target \<longleftrightarrow> (start, target) \<in> (walk_edges ts extra)\<^sup>*"
proof
  assume "(start, target) \<in> (walk_edges ts extra)\<^sup>*"
  show "wouldCreateCycleVirtual ts extra start target"
  proof (rule ccontr)
    assume "\<not> wouldCreateCycleVirtual ts extra start target"
    then have "closed_walk (walk_edges ts extra) target [start] []
        (snd (check_each ts extra target [start] []))"
      unfolding wouldCreateCycleVirtual_def by (rule check_each_complete)
    from closed_walk_reach [OF this \<open>(start, target) \<in> (walk_edges ts extra)\<^sup>*\<close>] show False
      by blast
  qed
next
  assume "wouldCreateCycleVirtual ts extra start target"
  then show "(start, target) \<in> (walk_edges ts extra)\<^sup>*"
    using check_each_sound [of ts extra target "[start]" "[]"]
    by (simp add: wouldCreateCycleVirtual_def)
qed

lemma wouldCreateCycle_iff: "wouldCreateCycle ts start target \<longleftrightarrow> (start, target) \<in> (deps ts)\<^sup>*"
  by (simp add: wouldCreateCycle_def cycle_walk_iff)

section \<open>The invariant of the board\<close>

definition task_ok :: "string \<Rightarrow> Task \<Rightarrow> bool" where
  "task_ok i t \<longleftrightarrow> i \<noteq> '''' \<and> ID t = i \<and> IsValidStatus (Status t) \<and>
     distinct (Blocks t) \<and> distinct (BlockedBy t)"

text \<open>
  Keys are unique and name their task, statuses are valid, \<^verbatim>\<open>Blocks\<close> and \<^verbatim>\<open>BlockedBy\<close> mirror each
  other without repetition (so neither names a task that is gone), and no task waits for itself
  through any chain.
\<close>

definition board_ok :: "board \<Rightarrow> bool" where
  "board_ok ts \<longleftrightarrow> distinct (map fst ts) \<and> (\<forall>i t. map_of ts i = Some t \<longrightarrow> task_ok i t) \<and>
     block_rel ts = (deps ts)\<inverse> \<and> acyclic (deps ts)"

lemma map_of_map_entry_iff:
  "map_of (AList.map_entry k f ts) i = (if i = k then map_option f (map_of ts i) else map_of ts i)"
  by (induction ts) auto

lemma map_fst_map_entry [simp]: "map fst (AList.map_entry k f ts) = map fst ts"
  by (induction ts) auto

lemma hasTask_map_entry [simp]: "hasTask (AList.map_entry k f ts) i = hasTask ts i"
  by (simp add: hasTask_def map_of_map_entry_iff)

lemma contains_iff [simp]: "contains xs x \<longleftrightarrow> x \<in> set xs"
  by (auto simp: contains_def list_ex_iff)

lemma set_add_once [simp]: "set (add_once x xs) = insert x (set xs)"
  by (auto simp: add_once_def)

lemma distinct_add_once [simp]: "distinct (add_once x xs) = distinct xs"
  by (simp add: add_once_def)

lemma removeString_remove1 [simp]: "removeString xs x = remove1 x xs"
  by (induction xs) auto

lemma deps_add_BlockedBy:
  "hasTask ts i \<Longrightarrow> deps (add_BlockedBy i x ts) = insert (i, x) (deps ts)"
  by (auto simp: deps_iff add_BlockedBy_def map_of_map_entry_iff hasTask_def split: if_splits)

lemma deps_add_Blocks [simp]: "deps (add_Blocks i x ts) = deps ts"
  by (auto simp: deps_iff add_Blocks_def map_of_map_entry_iff split: if_splits)

lemma block_rel_add_Blocks:
  "hasTask ts i \<Longrightarrow> block_rel (add_Blocks i x ts) = insert (i, x) (block_rel ts)"
  by (auto simp: block_rel_iff add_Blocks_def map_of_map_entry_iff hasTask_def split: if_splits)

lemma block_rel_add_BlockedBy [simp]: "block_rel (add_BlockedBy i x ts) = block_rel ts"
  by (auto simp: block_rel_iff add_BlockedBy_def map_of_map_entry_iff split: if_splits)

lemma hasTask_add [simp]:
  "hasTask (add_Blocks i x ts) j = hasTask ts j" "hasTask (add_BlockedBy i x ts) j = hasTask ts j"
  by (simp_all add: add_Blocks_def add_BlockedBy_def)

text \<open>What writing edges leaves alone: the keys, and in every task all fields but the two edge lists.\<close>

definition only_links :: "board \<Rightarrow> board \<Rightarrow> bool" where
  "only_links ts ts' \<longleftrightarrow> map fst ts' = map fst ts \<and>
     (\<forall>i t'. map_of ts' i = Some t' \<longrightarrow>
        (\<exists>t. map_of ts i = Some t \<and> t' = t\<lparr>Blocks := Blocks t', BlockedBy := BlockedBy t'\<rparr> \<and>
             (distinct (Blocks t) \<longrightarrow> distinct (Blocks t')) \<and>
             (distinct (BlockedBy t) \<longrightarrow> distinct (BlockedBy t'))))"

lemma only_links_refl [simp]: "only_links ts ts"
  by (simp add: only_links_def)

lemma only_links_trans:
  assumes "only_links ts us" "only_links us vs"
  shows "only_links ts vs"
proof -
  have "\<exists>t. map_of ts i = Some t \<and> v = t\<lparr>Blocks := Blocks v, BlockedBy := BlockedBy v\<rparr> \<and>
      (distinct (Blocks t) \<longrightarrow> distinct (Blocks v)) \<and> (distinct (BlockedBy t) \<longrightarrow> distinct (BlockedBy v))"
    if "map_of vs i = Some v" for i v
  proof -
    from assms(2) that obtain u where u: "map_of us i = Some u"
      "v = u\<lparr>Blocks := Blocks v, BlockedBy := BlockedBy v\<rparr>"
      "distinct (Blocks u) \<longrightarrow> distinct (Blocks v)" "distinct (BlockedBy u) \<longrightarrow> distinct (BlockedBy v)"
      unfolding only_links_def by blast
    from assms(1) u(1) obtain t where t: "map_of ts i = Some t"
      "u = t\<lparr>Blocks := Blocks u, BlockedBy := BlockedBy u\<rparr>"
      "distinct (Blocks t) \<longrightarrow> distinct (Blocks u)" "distinct (BlockedBy t) \<longrightarrow> distinct (BlockedBy u)"
      unfolding only_links_def by blast
    have "v = t\<lparr>Blocks := Blocks v, BlockedBy := BlockedBy v\<rparr>"
      by (subst u(2), subst t(2)) simp
    with u t show ?thesis by blast
  qed
  then show ?thesis using assms unfolding only_links_def by auto
qed

lemma only_links_add:
  "only_links ts (add_Blocks i x ts)" "only_links ts (add_BlockedBy i x ts)"
  by (auto simp: only_links_def add_Blocks_def add_BlockedBy_def map_of_map_entry_iff
      split: if_splits)

lemma only_links_has: "only_links ts ts' \<Longrightarrow> hasTask ts' i = hasTask ts i"
  by (simp add: only_links_def hasTask_iff) (metis list.set_map)

section \<open>Writing the edges\<close>

lemma rtrancl_antimono: "(x, y) \<notin> S\<^sup>* \<Longrightarrow> R \<subseteq> S \<Longrightarrow> (x, y) \<notin> R\<^sup>*"
  using rtrancl_mono by blast

lemma link_blocks_ok:
  assumes "hasTask ts taskID" "\<forall>b \<in> set bs. hasTask ts b"
    and "\<forall>b \<in> set bs. (taskID, b) \<notin> (deps ts \<union> set bs \<times> {taskID})\<^sup>*"
  shows "\<exists>ts'. link_blocks taskID bs ts = (None, ts') \<and> only_links ts ts' \<and>
     deps ts' = deps ts \<union> set bs \<times> {taskID} \<and> block_rel ts' = block_rel ts \<union> {taskID} \<times> set bs"
  using assms
proof (induction bs arbitrary: ts)
  case (Cons b bs)
  let ?us = "add_BlockedBy b taskID (add_Blocks taskID b ts)"
  have d: "deps ?us = insert (b, taskID) (deps ts)" and r: "block_rel ?us = insert (taskID, b) (block_rel ts)"
    using Cons.prems by (simp_all add: deps_add_BlockedBy block_rel_add_Blocks)
  have "(taskID, b) \<notin> (deps ts)\<^sup>*"
    using Cons.prems(3) rtrancl_antimono [of taskID b _ "deps ts"] by auto
  then have go: "link_blocks taskID (b # bs) ts = link_blocks taskID bs ?us"
    by (simp add: wouldCreateCycle_iff)
  have g: "deps ?us \<union> set bs \<times> {taskID} = deps ts \<union> set (b # bs) \<times> {taskID}" using d by auto
  have "\<exists>ts'. link_blocks taskID bs ?us = (None, ts') \<and> only_links ?us ts' \<and>
     deps ts' = deps ?us \<union> set bs \<times> {taskID} \<and> block_rel ts' = block_rel ?us \<union> {taskID} \<times> set bs"
    using Cons.prems by (intro Cons.IH) (simp_all add: g)
  moreover have "only_links ts ?us" by (rule only_links_trans [OF only_links_add(1) only_links_add(2)])
  ultimately show ?case using d r go by (auto intro: only_links_trans)
qed auto

lemma link_blockedBy_ok:
  assumes "hasTask ts taskID" "\<forall>b \<in> set bs. hasTask ts b \<and> b \<noteq> taskID"
    and "\<forall>b \<in> set bs. (b, taskID) \<notin> (deps ts \<union> {taskID} \<times> set bs)\<^sup>*"
  shows "\<exists>ts'. link_blockedBy taskID bs ts = (None, ts') \<and> only_links ts ts' \<and>
     deps ts' = deps ts \<union> {taskID} \<times> set bs \<and> block_rel ts' = block_rel ts \<union> set bs \<times> {taskID}"
  using assms
proof (induction bs arbitrary: ts)
  case (Cons b bs)
  let ?us = "add_Blocks b taskID (add_BlockedBy taskID b ts)"
  have d: "deps ?us = insert (taskID, b) (deps ts)" and r: "block_rel ?us = insert (b, taskID) (block_rel ts)"
    using Cons.prems by (simp_all add: deps_add_BlockedBy block_rel_add_Blocks)
  have "(b, taskID) \<notin> (deps ts)\<^sup>*"
    using Cons.prems(3) rtrancl_antimono [of b taskID _ "deps ts"] by auto
  then have go: "link_blockedBy taskID (b # bs) ts = link_blockedBy taskID bs ?us"
    using Cons.prems(2) by (simp add: wouldCreateCycle_iff)
  have "\<exists>ts'. link_blockedBy taskID bs ?us = (None, ts') \<and> only_links ?us ts' \<and>
     deps ts' = deps ?us \<union> {taskID} \<times> set bs \<and> block_rel ts' = block_rel ?us \<union> set bs \<times> {taskID}"
    using Cons.prems by (intro Cons.IH) (simp_all add: deps_add_BlockedBy)
  moreover have "only_links ts ?us" by (rule only_links_trans [OF only_links_add(2) only_links_add(1)])
  ultimately show ?case using d r go by (auto intro: only_links_trans)
qed auto

text \<open>Edges at one task close a cycle only if they lie on a path back to their start.\<close>

lemma acyclic_new_edges:
  assumes "acyclic G" and G': "G' = G \<union> N"
    and noback: "\<And>u v. (u, v) \<in> N \<Longrightarrow> (v, u) \<notin> G'\<^sup>*"
  shows "acyclic G'"
proof -
  have split: "(x, y) \<in> G\<^sup>+ \<or> (\<exists>u v. (u, v) \<in> N \<and> (x, u) \<in> G'\<^sup>* \<and> (v, y) \<in> G'\<^sup>*)"
    if "(x, y) \<in> G'\<^sup>+" for x y
    using that
  proof induction
    case (base y)
    then show ?case using G' by auto
  next
    case (step y z)
    show ?case
    proof (cases "(y, z) \<in> N")
      case True
      then show ?thesis using step(1) by (blast intro: trancl_into_rtrancl)
    next
      case False
      then have "(y, z) \<in> G" using step(2) G' by auto
      then show ?thesis using step by (meson rtrancl.rtrancl_into_rtrancl trancl.trancl_into_trancl)
    qed
  qed
  have False if "(x, x) \<in> G'\<^sup>+" for x
  proof -
    from \<open>acyclic G\<close> have "(x, x) \<notin> G\<^sup>+" by (simp add: acyclic_def)
    with split [OF that] obtain u v where "(u, v) \<in> N" "(x, u) \<in> G'\<^sup>*" "(v, x) \<in> G'\<^sup>*" by blast
    with noback show False by (meson rtrancl_trans)
  qed
  then show ?thesis by (auto simp: acyclic_def)
qed

section \<open>Update\<close>

lemma fold_virtual:
  "x \<in> set (fold (\<lambda>b f. f(b := f b @ [taskID])) bs g i) \<longleftrightarrow> x \<in> set (g i) \<or> (i \<in> set bs \<and> x = taskID)"
  by (induction bs arbitrary: g) auto

lemma virtualBlockedBy_iff:
  "x \<in> set (virtualBlockedBy taskID opts i) \<longleftrightarrow>
   (i = taskID \<and> x \<in> set (AddBlockedBy opts)) \<or> (i \<in> set (AddBlocks opts) \<and> x = taskID)"
  by (auto simp: virtualBlockedBy_def fold_virtual)

definition new_edges :: "string \<Rightarrow> UpdateOptions \<Rightarrow> (string \<times> string) set" where
  "new_edges taskID opts = set (AddBlocks opts) \<times> {taskID} \<union> {taskID} \<times> set (AddBlockedBy opts)"

lemma check_addBlocks_None:
  "check_addBlocks ts taskID opts b = None \<longleftrightarrow> b \<noteq> taskID \<and> hasTask ts b \<and>
   (taskID, b) \<notin> (walk_edges ts (virtualBlockedBy taskID opts))\<^sup>*"
  by (simp add: check_addBlocks_def cycle_walk_iff)

lemma check_addBlockedBy_None:
  "check_addBlockedBy ts taskID opts d = None \<longleftrightarrow> d \<noteq> taskID \<and> hasTask ts d \<and>
   (d, taskID) \<notin> (walk_edges ts (virtualBlockedBy taskID opts))\<^sup>* \<and> d \<notin> set (AddBlocks opts)"
  by (simp add: check_addBlockedBy_def cycle_walk_iff)

text \<open>What the tests before the first write establish.\<close>

lemma validate_None:
  assumes "validate ts taskID t opts = None" "map_of ts taskID = Some t"
  shows "opt_Status opts = Some st \<Longrightarrow> IsValidStatus st"
    and "\<forall>b \<in> set (AddBlocks opts). hasTask ts b \<and> b \<noteq> taskID"
    and "\<forall>b \<in> set (AddBlockedBy opts). hasTask ts b \<and> b \<noteq> taskID"
    and "\<forall>b \<in> set (AddBlocks opts). (taskID, b) \<notin> (deps ts \<union> new_edges taskID opts)\<^sup>*"
    and "\<forall>b \<in> set (AddBlockedBy opts). (b, taskID) \<notin> (deps ts \<union> new_edges taskID opts)\<^sup>*"
proof -
  have blocks: "check_addBlocks ts taskID opts b = None" if "b \<in> set (AddBlocks opts)" for b
    using assms(1) that by (auto simp: validate_def first_error_None split: option.splits if_splits)
  have dep: "check_addBlockedBy ts taskID opts b = None" if "b \<in> set (AddBlockedBy opts)" for b
    using assms(1) that by (auto simp: validate_def first_error_None split: option.splits if_splits)
  show "opt_Status opts = Some st \<Longrightarrow> IsValidStatus st"
    using assms(1) by (auto simp: validate_def split: option.splits if_splits)
  show has: "\<forall>b \<in> set (AddBlocks opts). hasTask ts b \<and> b \<noteq> taskID"
    using blocks by (simp add: check_addBlocks_None)
  show "\<forall>b \<in> set (AddBlockedBy opts). hasTask ts b \<and> b \<noteq> taskID"
    using dep by (simp add: check_addBlockedBy_None)
  have we: "walk_edges ts (virtualBlockedBy taskID opts) = deps ts \<union> new_edges taskID opts"
    using has assms(2) by (auto simp: walk_edges_def new_edges_def virtualBlockedBy_iff hasTask_def)
  show "\<forall>b \<in> set (AddBlocks opts). (taskID, b) \<notin> (deps ts \<union> new_edges taskID opts)\<^sup>*"
    using blocks by (simp add: check_addBlocks_None we)
  show "\<forall>b \<in> set (AddBlockedBy opts). (b, taskID) \<notin> (deps ts \<union> new_edges taskID opts)\<^sup>*"
    using dep by (simp add: check_addBlockedBy_None we)
qed

lemma deps_entry:
  "(\<And>t. BlockedBy (f t) = BlockedBy t) \<Longrightarrow> deps (AList.map_entry k f ts) = deps ts"
  by (auto simp: deps_iff map_of_map_entry_iff split: if_splits)

lemma block_rel_entry:
  "(\<And>t. Blocks (f t) = Blocks t) \<Longrightarrow> block_rel (AList.map_entry k f ts) = block_rel ts"
  by (auto simp: block_rel_iff map_of_map_entry_iff split: if_splits)

lemma set_fields_links [simp]:
  "Blocks (set_fields opts t) = Blocks t" "BlockedBy (set_fields opts t) = BlockedBy t"
  "ID (set_fields opts t) = ID t"
  by (simp_all add: set_fields_def)

lemma merge_metadata_links [simp]:
  "Blocks (merge_metadata opts t) = Blocks t" "BlockedBy (merge_metadata opts t) = BlockedBy t"
  "ID (merge_metadata opts t) = ID t" "Status (merge_metadata opts t) = Status t"
  by (simp_all add: merge_metadata_def split: option.splits)

text \<open>A call that passes the tests writes all its edges and meets no late error.\<close>

definition updated :: "string \<Rightarrow> UpdateOptions \<Rightarrow> int \<Rightarrow> board \<Rightarrow> board \<Rightarrow> bool" where
  "updated taskID opts now ts ts' \<longleftrightarrow> (\<exists>us.
     only_links (AList.map_entry taskID (set_fields opts) ts) us \<and>
     deps us = deps ts \<union> new_edges taskID opts \<and>
     block_rel us = block_rel ts \<union> (new_edges taskID opts)\<inverse> \<and>
     ts' = AList.map_entry taskID (\<lambda>t. (merge_metadata opts t)\<lparr>UpdatedAt := now\<rparr>) us)"

lemma Update_valid:
  assumes m: "map_of (tasks m) taskID = Some t" and v: "validate (tasks m) taskID t opts = None"
  shows "\<exists>ts'. Update taskID opts now m = (Inr (the (map_of ts' taskID)), m\<lparr>tasks := ts'\<rparr>) \<and>
     updated taskID opts now (tasks m) ts'"
proof -
  let ?ts = "tasks m"
  let ?t1 = "AList.map_entry taskID (set_fields opts) ?ts"
  note val = validate_None [OF v m]
  have d1: "deps ?t1 = deps ?ts" and r1: "block_rel ?t1 = block_rel ?ts"
    by (simp_all add: deps_entry block_rel_entry)
  have has: "hasTask ?ts taskID" using m by (simp add: hasTask_def)
  have "\<forall>b \<in> set (AddBlocks opts). (taskID, b) \<notin> (deps ?ts \<union> set (AddBlocks opts) \<times> {taskID})\<^sup>*"
    using val(4) rtrancl_mono [of "deps ?ts \<union> set (AddBlocks opts) \<times> {taskID}"
        "deps ?ts \<union> new_edges taskID opts"] by (auto simp: new_edges_def)
  then obtain t2 where t2: "link_blocks taskID (AddBlocks opts) ?t1 = (None, t2)" "only_links ?t1 t2"
    "deps t2 = deps ?ts \<union> set (AddBlocks opts) \<times> {taskID}"
    "block_rel t2 = block_rel ?ts \<union> {taskID} \<times> set (AddBlocks opts)"
    using link_blocks_ok [of ?t1 taskID "AddBlocks opts"] has val(2) d1 r1 by auto
  have has2: "hasTask t2 i = hasTask ?ts i" for i using only_links_has [OF t2(2)] by simp
  have sub: "deps t2 \<union> {taskID} \<times> set (AddBlockedBy opts) = deps ?ts \<union> new_edges taskID opts"
    using t2(3) by (auto simp: new_edges_def)
  obtain t3 where t3: "link_blockedBy taskID (AddBlockedBy opts) t2 = (None, t3)" "only_links t2 t3"
    "deps t3 = deps t2 \<union> {taskID} \<times> set (AddBlockedBy opts)"
    "block_rel t3 = block_rel t2 \<union> set (AddBlockedBy opts) \<times> {taskID}"
    using link_blockedBy_ok [of t2 taskID "AddBlockedBy opts"] has has2 val(3,5) sub by auto
  have "only_links ?t1 t3" using t2(2) t3(2) by (rule only_links_trans)
  moreover have "deps t3 = deps ?ts \<union> new_edges taskID opts" using t3(3) sub by simp
  moreover have "block_rel t3 = block_rel ?ts \<union> (new_edges taskID opts)\<inverse>"
    using t3(4) t2(4) by (auto simp: new_edges_def)
  ultimately have "updated taskID opts now ?ts
      (AList.map_entry taskID (\<lambda>t. (merge_metadata opts t)\<lparr>UpdatedAt := now\<rparr>) t3)"
    unfolding updated_def by blast
  then show ?thesis using m v t2(1) t3(1) by (auto simp: Update_def Let_def)
qed

lemma Update_cases:
  obtains (failed) e where "Update taskID opts now m = (Inl e, m)"
  | (updated) t ts' where "map_of (tasks m) taskID = Some t" "validate (tasks m) taskID t opts = None"
      "Update taskID opts now m = (Inr (the (map_of ts' taskID)), m\<lparr>tasks := ts'\<rparr>)"
      "updated taskID opts now (tasks m) ts'"
proof (cases "map_of (tasks m) taskID")
  case None
  then show ?thesis using failed by (simp add: Update_def)
next
  case (Some t)
  show ?thesis
  proof (cases "validate (tasks m) taskID t opts")
    case None
    from Update_valid [OF Some None, of now] updated Some None show ?thesis by blast
  next
    case (Some e)
    then show ?thesis using failed \<open>map_of (tasks m) taskID = Some t\<close> by (simp add: Update_def)
  qed
qed

section \<open>Every operation keeps the invariant\<close>

lemma board_ok_updated:
  assumes ok: "board_ok ts" and t: "map_of ts taskID = Some t" "validate ts taskID t opts = None"
    and up: "updated taskID opts now ts ts'"
  shows "board_ok ts'"
proof -
  note val = validate_None [OF t(2,1)]
  from up obtain us where us: "only_links (AList.map_entry taskID (set_fields opts) ts) us"
    "deps us = deps ts \<union> new_edges taskID opts"
    "block_rel us = block_rel ts \<union> (new_edges taskID opts)\<inverse>"
    and ts': "ts' = AList.map_entry taskID (\<lambda>t. (merge_metadata opts t)\<lparr>UpdatedAt := now\<rparr>) us"
    unfolding updated_def by blast
  have d: "deps ts' = deps us" and r: "block_rel ts' = block_rel us"
    unfolding ts' by (simp_all add: deps_entry block_rel_entry)
  have "acyclic (deps ts')"
    by (rule acyclic_new_edges [of "deps ts" _ "new_edges taskID opts"])
      (use ok us(2) d val(4,5) in \<open>auto simp: board_ok_def new_edges_def\<close>)
  moreover have "block_rel ts' = (deps ts')\<inverse>"
    using ok us(2,3) d r by (auto simp: board_ok_def)
  moreover have "distinct (map fst ts')"
    using ok us(1) by (simp add: ts' board_ok_def only_links_def)
  moreover have "task_ok i t'" if "map_of ts' i = Some t'" for i t'
  proof -
    from that obtain u where u: "map_of us i = Some u" and "ID t' = ID u" "Status t' = Status u"
      "Blocks t' = Blocks u" "BlockedBy t' = BlockedBy u"
      unfolding ts' by (auto simp: map_of_map_entry_iff split: if_splits)
    moreover obtain v where v: "map_of (AList.map_entry taskID (set_fields opts) ts) i = Some v"
      "u = v\<lparr>Blocks := Blocks u, BlockedBy := BlockedBy u\<rparr>"
      "distinct (Blocks v) \<longrightarrow> distinct (Blocks u)" "distinct (BlockedBy v) \<longrightarrow> distinct (BlockedBy u)"
      using us(1) u unfolding only_links_def by blast
    moreover have "task_ok i v"
      using ok v(1) val(1)
      by (auto simp: board_ok_def task_ok_def map_of_map_entry_iff set_fields_def
          split: if_splits option.splits)
    moreover have "ID u = ID v" "Status u = Status v" by (subst v(2), simp)+
    ultimately show ?thesis by (auto simp: task_ok_def)
  qed
  ultimately show ?thesis by (simp add: board_ok_def)
qed

lemma Update_board_ok:
  "board_ok (tasks m) \<Longrightarrow> board_ok (tasks (snd (Update taskID opts now m)))"
  by (cases rule: Update_cases [of taskID opts now m]) (auto intro: board_ok_updated)

lemma map_of_delete_refs:
  "map_of (AList.delete k (map (\<lambda>(i, t). if i = k then (i, t) else (i, f t)) ts)) i =
   (if i = k then None else map_option f (map_of ts i))"
  by (induction ts) auto

lemma keys_delete_refs:
  "map fst (AList.delete k (map (\<lambda>(i, t). if i = k then (i, t) else (i, f t)) ts)) =
   filter (\<lambda>i. i \<noteq> k) (map fst ts)"
  by (induction ts) (auto split: if_splits)

lemma Delete_board_ok:
  assumes ok: "board_ok (tasks m)"
  shows "board_ok (tasks (snd (Delete taskID m)))"
proof (cases "hasTask (tasks m) taskID")
  case True
  define ts' where "ts' = tasks (snd (Delete taskID m))"
  have look: "map_of ts' i = (if i = taskID then None else map_option (drop_refs taskID) (map_of (tasks m) i))" for i
    using True unfolding ts'_def Delete_def by (simp add: map_of_delete_refs)
  have tok: "task_ok i t" if "map_of (tasks m) i = Some t" for i t
    using ok that by (simp add: board_ok_def)
  have d: "(i, b) \<in> deps ts' \<longleftrightarrow> (i, b) \<in> deps (tasks m) \<and> i \<noteq> taskID \<and> b \<noteq> taskID" for i b
    using tok by (auto simp: deps_iff look drop_refs_def task_ok_def)
  have r: "(i, b) \<in> block_rel ts' \<longleftrightarrow> (i, b) \<in> block_rel (tasks m) \<and> i \<noteq> taskID \<and> b \<noteq> taskID" for i b
    using tok by (auto simp: block_rel_iff look drop_refs_def task_ok_def)
  have "deps ts' \<subseteq> deps (tasks m)" using d by auto
  then have "acyclic (deps ts')" using ok acyclic_subset unfolding board_ok_def by blast
  moreover have "block_rel ts' = (deps ts')\<inverse>" using ok d r by (auto simp: board_ok_def)
  moreover have "distinct (map fst ts')"
    using ok True unfolding ts'_def Delete_def by (simp add: keys_delete_refs board_ok_def)
  moreover have "task_ok i t'" if "map_of ts' i = Some t'" for i t'
    using that tok by (auto simp: look drop_refs_def task_ok_def split: if_splits)
  ultimately show ?thesis unfolding ts'_def [symmetric] by (simp add: board_ok_def)
qed (use ok in \<open>simp add: Delete_def\<close>)

lemma Create_board_ok:
  assumes ok: "board_ok (tasks m)" and new: "\<not> hasTask (tasks m) (task_id (wrap64 (nextID m + 1)))"
  shows "board_ok (tasks (snd (Create subject desc form md now m)))"
proof -
  define ts' where "ts' = tasks (snd (Create subject desc form md now m))"
  let ?i = "task_id (wrap64 (nextID m + 1))"
  obtain t where ts': "ts' = AList.update ?i t (tasks m)" and t: "task_ok ?i t" "Blocks t = []" "BlockedBy t = []"
    unfolding ts'_def Create_def Let_def
    by (simp add: task_ok_def task_id_def IsValidStatus_def ValidStatuses_def)
  have look: "map_of ts' i = (if i = ?i then Some t else map_of (tasks m) i)" for i
    by (simp add: ts' update_conv')
  have none: "map_of (tasks m) ?i = None" using new by (simp add: hasTask_def)
  have "(i, b) \<in> deps ts' \<longleftrightarrow> (i, b) \<in> deps (tasks m)" "(i, b) \<in> block_rel ts' \<longleftrightarrow> (i, b) \<in> block_rel (tasks m)" for i b
    using t(2,3) none by (auto simp: deps_iff block_rel_iff look)
  then have "deps ts' = deps (tasks m)" "block_rel ts' = block_rel (tasks m)" by auto
  moreover have "distinct (map fst ts')" using ok by (simp add: ts' board_ok_def distinct_update)
  ultimately show ?thesis using ok t(1) unfolding ts'_def [symmetric] by (auto simp: board_ok_def look)
qed

section \<open>Identifiers and snapshots\<close>

lemma task_id_inj [simp]: "task_id m = task_id n \<longleftrightarrow> m = n"
  by (simp add: task_id_def)

lemma numericTaskID_task_id: "0 \<le> n \<Longrightarrow> is_int64 n \<Longrightarrow> numericTaskID (task_id n) = n"
  by (simp add: numericTaskID_def task_id_def scan_int_Itoa HasPrefix_def)

lemma numericTaskID_int64: "is_int64 (numericTaskID i)"
proof -
  have "parse_digits neg s = Some n \<Longrightarrow> is_int64 n" for neg s n
    by (auto simp: parse_digits_def Let_def split: if_splits)
  then have "scan_int s = Some n \<Longrightarrow> is_int64 n" for s n
    by (auto simp: scan_int_def scan_number_def split: list.splits if_splits)
  moreover have "is_int64 0" by (simp add: is_int64_def min_int_def max_int_def)
  ultimately show ?thesis by (auto simp: numericTaskID_def split: option.splits)
qed

lemma map_of_rebuild:
  "map_of (rebuild pts rebuilt) i =
   (case map_of rebuilt i of
      Some t \<Rightarrow> Some t
    | None \<Rightarrow> if i = '''' then None else map_option restore_task (find (\<lambda>p. ID p = i) pts))"
proof (induction pts rebuilt rule: rebuild.induct)
  case (2 pt pts rebuilt)
  then show ?case by (auto simp: hasTask_def update_conv' split: option.splits)
qed (auto split: option.splits)

lemma distinct_rebuild: "distinct (map fst rebuilt) \<Longrightarrow> distinct (map fst (rebuild pts rebuilt))"
  by (induction pts rebuilt rule: rebuild.induct) (auto simp: distinct_update)

lemma find_unique:
  "distinct (map f xs) \<Longrightarrow> x \<in> set xs \<Longrightarrow> find (\<lambda>y. f y = f x) xs = Some x"
  by (induction xs) force+

lemma find_absent: "(\<And>x. x \<in> set xs \<Longrightarrow> f x \<noteq> i) \<Longrightarrow> find (\<lambda>y. f y = i) xs = None"
  by (auto simp: find_None_iff)

lemma omit_empty_simps [simp]:
  "ID (omit_empty t) = ID t" "Status (omit_empty t) = Status t"
  "Blocks (omit_empty t) = Blocks t" "BlockedBy (omit_empty t) = BlockedBy t"
  by (simp_all add: omit_empty_def)

lemma restore_omit: "IsValidStatus (Status t) \<Longrightarrow> restore_task (omit_empty t) = omit_empty t"
  by (cases t) (auto simp: restore_task_def omit_empty_def split: option.splits)

lemma snapshot_find:
  assumes "board_ok ts"
  shows "find (\<lambda>p. ID p = i) (map omit_empty (sort_key ID (map snd ts))) = map_option omit_empty (map_of ts i)"
proof -
  let ?xs = "map omit_empty (sort_key ID (map snd ts))"
  have ids: "ID t = k" if "(k, t) \<in> set ts" for k t
    using assms that by (auto simp: board_ok_def task_ok_def)
  have "mset (map ID ?xs) = mset (map (ID \<circ> snd) ts)" by (simp add: multiset.map_comp comp_def)
  moreover have "map (ID \<circ> snd) ts = map fst ts" using ids by auto
  ultimately have dist: "distinct (map ID ?xs)"
    using assms by (metis board_ok_def mset_eq_imp_distinct_iff)
  show ?thesis
  proof (cases "map_of ts i")
    case None
    then have "x \<in> set ?xs \<Longrightarrow> ID x \<noteq> i" for x using ids by (force simp: map_of_eq_None_iff)
    then show ?thesis using None find_absent [of ?xs ID i] by simp
  next
    case (Some t)
    then have "(i, t) \<in> set ts" by (rule map_of_SomeD)
    then have mem: "omit_empty t \<in> set ?xs" and i: "ID (omit_empty t) = i" using ids by force+
    from find_unique [OF dist mem] show ?thesis using Some unfolding i by simp
  qed
qed

lemma reload_tasks:
  assumes ok: "board_ok (tasks m)"
  shows "map_of (tasks (snd (RestoreJSON pick (SnapshotJSON m) m'))) i = map_option omit_empty (map_of (tasks m) i)"
proof (cases "map_of (tasks m) i")
  case (Some t)
  with ok have "task_ok i t" by (simp add: board_ok_def)
  then show ?thesis
    using Some snapshot_find [OF ok, of i]
    by (simp add: RestoreJSON_def SnapshotJSON_def map_of_rebuild Let_def restore_omit task_ok_def)
next
  case None
  then show ?thesis
    using snapshot_find [OF ok, of i]
    by (simp add: RestoreJSON_def SnapshotJSON_def map_of_rebuild Let_def)
qed

lemma reload_board_ok:
  assumes ok: "board_ok (tasks m)"
  shows "board_ok (tasks (snd (RestoreJSON pick (SnapshotJSON m) m')))"
proof -
  let ?ts = "tasks (snd (RestoreJSON pick (SnapshotJSON m) m'))"
  note look = reload_tasks [OF ok, of pick m']
  have "(i, b) \<in> deps ?ts \<longleftrightarrow> (i, b) \<in> deps (tasks m)"
    "(i, b) \<in> block_rel ?ts \<longleftrightarrow> (i, b) \<in> block_rel (tasks m)" for i b
    by (auto simp: deps_iff block_rel_iff look)
  then have "deps ?ts = deps (tasks m)" "block_rel ?ts = block_rel (tasks m)" by auto
  moreover have "distinct (map fst ?ts)"
    by (simp add: RestoreJSON_def SnapshotJSON_def Let_def distinct_rebuild)
  moreover have "task_ok i t" if "map_of ?ts i = Some t" for i t
  proof -
    from that obtain u where "map_of (tasks m) i = Some u" "t = omit_empty u" by (auto simp: look)
    then show ?thesis using ok by (simp add: board_ok_def task_ok_def)
  qed
  ultimately show ?thesis using ok by (simp add: board_ok_def)
qed

section \<open>Runs of the board\<close>

datatype board_op =
    OpCreate string string string "(string \<times> string) list option" int
  | OpUpdate string UpdateOptions int
  | OpDelete string
  | OpReload "string list \<Rightarrow> string list"

text \<open>\<open>OpReload\<close> saves the board and restores it from its own snapshot, as a resumed session does.\<close>

fun board_step :: "board_op \<Rightarrow> TaskManager \<Rightarrow> TaskManager" where
  "board_step (OpCreate subject desc form md now) m = snd (Create subject desc form md now m)"
| "board_step (OpUpdate i opts now) m = snd (Update i opts now m)"
| "board_step (OpDelete i) m = snd (Delete i m)"
| "board_step (OpReload pick) m = snd (RestoreJSON pick (SnapshotJSON m) m)"

text \<open>Every identifier was handed out by the counter, which counts at most one step per operation.\<close>

definition ids_ok :: "TaskManager \<Rightarrow> bool" where
  "ids_ok m \<longleftrightarrow> 0 \<le> nextID m \<and>
     (\<forall>i. hasTask (tasks m) i \<longrightarrow> (\<exists>n. 1 \<le> n \<and> n \<le> nextID m \<and> i = task_id n))"

definition board_inv :: "int \<Rightarrow> TaskManager \<Rightarrow> bool" where
  "board_inv k m \<longleftrightarrow> board_ok (tasks m) \<and> ids_ok m \<and> nextID m \<le> k"

lemma board_inv_New: "board_inv 0 NewTaskManager"
proof -
  have "deps [] = {}" "block_rel [] = {}"
    by (auto simp: deps_def block_rel_def blockedBy_of_def blocks_of_def)
  then show ?thesis by (simp add: board_inv_def NewTaskManager_def board_ok_def ids_ok_def hasTask_def acyclic_def)
qed

lemma ids_ok_fresh: "ids_ok m \<Longrightarrow> nextID m < n \<Longrightarrow> \<not> hasTask (tasks m) (task_id n)"
  by (auto simp: ids_ok_def)

lemma Update_keys: "hasTask (tasks (snd (Update i opts now m))) j = hasTask (tasks m) j"
proof (cases rule: Update_cases [of i opts now m])
  case (updated t ts')
  then show ?thesis
    unfolding updated_def by (auto dest!: only_links_has [of _ _ j])
qed simp

lemma Update_nextID [simp]: "nextID (snd (Update i opts now m)) = nextID m"
  by (cases rule: Update_cases [of i opts now m]) simp_all

lemma Delete_keys: "hasTask (tasks (snd (Delete i m))) j \<Longrightarrow> hasTask (tasks m) j"
  by (auto simp: Delete_def hasTask_def map_of_delete_refs split: if_splits)

lemma Delete_nextID [simp]: "nextID (snd (Delete i m)) = nextID m"
  by (simp add: Delete_def)

lemma fold_bump_bounds:
  assumes "\<forall>i \<in> set is. numericTaskID i \<le> N" "start \<le> N + 1" "is_int64 (N + 1)"
  shows "start \<le> fold bump_nextID is start \<and> fold bump_nextID is start \<le> N + 1"
  using assms
proof (induction "is" arbitrary: start)
  case (Cons i "is")
  have "is_int64 (numericTaskID i + 1)"
    using Cons.prems numericTaskID_int64 [of i] by (auto simp: is_int64_def)
  then have "start \<le> bump_nextID i start \<and> bump_nextID i start \<le> N + 1"
    using Cons.prems by (auto simp: bump_nextID_def)
  with Cons.IH [of "bump_nextID i start"] Cons.prems show ?case by auto
qed simp

lemma reload_inv:
  assumes "board_inv k m" "k < max_int"
  shows "board_inv (k + 1) (snd (RestoreJSON pick (SnapshotJSON m) m'))"
proof -
  let ?m = "snd (RestoreJSON pick (SnapshotJSON m) m')"
  have ok: "board_ok (tasks m)" and ids: "ids_ok m" and k: "nextID m \<le> k"
    using assms(1) by (simp_all add: board_inv_def)
  have has: "hasTask (tasks ?m) i = hasTask (tasks m) i" for i
    by (simp add: hasTask_def reload_tasks [OF ok])
  have N: "0 \<le> nextID m" "is_int64 (nextID m + 1)"
    using ids k assms(2) by (auto simp: ids_ok_def is_int64_def min_int_def)
  have num: "numericTaskID i \<le> nextID m" if "hasTask (tasks ?m) i" for i
  proof -
    from that ids obtain n where n: "1 \<le> n" "n \<le> nextID m" "i = task_id n"
      by (auto simp: has ids_ok_def)
    with N have "is_int64 n" by (auto simp: is_int64_def min_int_def)
    with n show ?thesis by (simp add: numericTaskID_task_id)
  qed
  have "nextID m \<le> nextID ?m \<and> nextID ?m \<le> nextID m + 1"
    using fold_bump_bounds [of "range_order pick (map fst (tasks ?m))" "nextID m" "nextID m"] num N
    by (simp add: RestoreJSON_def SnapshotJSON_def Let_def hasTask_iff)
  with reload_board_ok [OF ok, of pick m'] ids k has show ?thesis
    by (fastforce simp: board_inv_def ids_ok_def)
qed

lemma board_step_inv:
  assumes "board_inv k m" "k < max_int"
  shows "board_inv (k + 1) (board_step op m)"
proof (cases op)
  case (OpCreate subject desc form md now)
  from assms have n: "wrap64 (nextID m + 1) = nextID m + 1"
    by (auto simp: board_inv_def ids_ok_def is_int64_def min_int_def)
  have "\<not> hasTask (tasks m) (task_id (nextID m + 1))"
    using assms by (intro ids_ok_fresh) (simp_all add: board_inv_def)
  with assms n have "board_ok (tasks (board_step op m))"
    by (simp add: OpCreate Create_board_ok board_inv_def)
  with assms n show ?thesis
    by (force simp: OpCreate Create_def Let_def board_inv_def ids_ok_def hasTask_def update_conv')
next
  case (OpReload pick)
  then show ?thesis using reload_inv [OF assms] by simp
qed (use assms Update_board_ok Delete_board_ok Delete_keys in
    \<open>auto simp: board_inv_def ids_ok_def Update_keys\<close>)

interpretation board: counted_machine board_step "\<lambda>_. True" board_inv max_int
  by unfold_locales (rule board_step_inv)

lemma board_run_inv:
  "int (length ops) \<le> max_int \<Longrightarrow> board_inv (int (length ops)) (fold board_step ops NewTaskManager)"
  using board.counted_run [of ops, OF _ board_inv_New] by (simp add: list_all_iff)

section \<open>Properties\<close>

text \<open>
  C21. Whatever sequence of creations, updates, deletions and reloads a board went through, its
  keys are unique and name their tasks, every status is one of the three, \<^verbatim>\<open>Blocks\<close> and
  \<^verbatim>\<open>BlockedBy\<close> mirror each other and name only tasks that exist, no task waits for itself
  through any chain, and the identifier the next \<^verbatim>\<open>Create\<close> hands out is not in use.
\<close>

theorem task_board_invariant:
  assumes "int (length ops) < max_int"
  defines "m \<equiv> fold board_step ops NewTaskManager"
  shows "board_ok (tasks m) \<and> Get (ID (fst (Create subject desc form md now m))) m = None"
proof -
  have inv: "board_inv (int (length ops)) m" using board_run_inv [of ops] assms by simp
  then have "wrap64 (nextID m + 1) = nextID m + 1"
    using assms(1) by (auto simp: board_inv_def ids_ok_def is_int64_def min_int_def)
  with inv ids_ok_fresh [of m "nextID m + 1"] show ?thesis
    by (simp add: board_inv_def Create_def Let_def Get_def hasTask_def)
qed

text \<open>
  C22. \<^verbatim>\<open>Update\<close> is all or nothing: whenever it returns an error, of any kind, the board is as it
  was. In particular the error returns after the first write are never taken.
\<close>

theorem update_all_or_nothing:
  assumes "fst (Update taskID opts now m) = Inl e"
  shows "snd (Update taskID opts now m) = m"
  using assms by (cases rule: Update_cases [of taskID opts now m]) auto

lemma edge_back_cyclic: "(u, v) \<in> G \<Longrightarrow> (v, u) \<in> G\<^sup>* \<Longrightarrow> \<not> acyclic G"
  by (auto simp: acyclic_def dest: rtrancl_into_trancl2)

lemma validate_acyclic:
  assumes ok: "board_ok ts" and t: "map_of ts taskID = Some t"
    and has: "\<forall>b \<in> set (AddBlocks opts @ AddBlockedBy opts). hasTask ts b"
    and st: "\<forall>s. opt_Status opts = Some s \<longrightarrow> IsValidStatus s"
      "\<forall>s. opt_ExpectedStatus opts = Some s \<longrightarrow> Status t = s"
    and ac: "acyclic (deps ts \<union> new_edges taskID opts)"
  shows "validate ts taskID t opts = None"
proof -
  let ?G = "deps ts \<union> new_edges taskID opts"
  have we: "walk_edges ts (virtualBlockedBy taskID opts) = ?G"
    using has t by (auto simp: walk_edges_def new_edges_def virtualBlockedBy_iff hasTask_def)
  have noloop: "(x, x) \<notin> ?G" for x using ac by (auto simp: acyclic_def)
  have b: "check_addBlocks ts taskID opts b = None" if "b \<in> set (AddBlocks opts)" for b
  proof -
    have e: "(b, taskID) \<in> ?G" using that by (simp add: new_edges_def)
    with edge_back_cyclic [OF e] ac noloop has that show ?thesis
      by (auto simp: check_addBlocks_None we)
  qed
  have d: "check_addBlockedBy ts taskID opts d = None" if "d \<in> set (AddBlockedBy opts)" for d
  proof -
    have e: "(taskID, d) \<in> ?G" using that by (simp add: new_edges_def)
    have "d \<notin> set (AddBlocks opts)"
    proof
      assume "d \<in> set (AddBlocks opts)"
      then have "(d, taskID) \<in> ?G\<^sup>*" by (auto simp: new_edges_def)
      with edge_back_cyclic [OF e] ac show False by simp
    qed
    with edge_back_cyclic [OF e] ac noloop has that e show ?thesis
      by (auto simp: check_addBlockedBy_None we)
  qed
  have "first_error (check_addBlocks ts taskID opts) (AddBlocks opts) = None"
    "first_error (check_addBlockedBy ts taskID opts) (AddBlockedBy opts) = None"
    using b d by (simp_all add: first_error_None)
  with st show ?thesis by (simp add: validate_def split: option.splits)
qed

text \<open>
  C23. The cycle check is exact. On a board in order, a call of \<^verbatim>\<open>Update\<close> that names existing tasks
  and passes the status tests succeeds if and only if the dependency relation together with all
  edges of the call, those of \<^verbatim>\<open>AddBlocks\<close> and \<^verbatim>\<open>AddBlockedBy\<close> at once, has no cycle; it then
  holds exactly those edges.
\<close>

theorem update_exact_cycle_check:
  assumes "board_ok (tasks m)" "Get taskID m = Some t"
    and "\<forall>b \<in> set (AddBlocks opts @ AddBlockedBy opts). hasTask (tasks m) b"
    and "\<forall>s. opt_Status opts = Some s \<longrightarrow> IsValidStatus s"
    and "\<forall>s. opt_ExpectedStatus opts = Some s \<longrightarrow> Status t = s"
  shows "((\<exists>t'. fst (Update taskID opts now m) = Inr t') \<longleftrightarrow>
          acyclic (deps (tasks m) \<union> new_edges taskID opts)) \<and>
         (\<forall>t'. fst (Update taskID opts now m) = Inr t' \<longrightarrow>
          deps (tasks (snd (Update taskID opts now m))) = deps (tasks m) \<union> new_edges taskID opts)"
proof -
  have edges: "deps (tasks (snd (Update taskID opts now m))) = deps (tasks m) \<union> new_edges taskID opts"
    if "fst (Update taskID opts now m) = Inr t'" for t'
  proof (cases rule: Update_cases [of taskID opts now m])
    case (updated t ts')
    then show ?thesis unfolding updated_def by (auto simp: deps_entry)
  qed (use that in simp)
  moreover have "(\<exists>t'. fst (Update taskID opts now m) = Inr t') \<longleftrightarrow> acyclic (deps (tasks m) \<union> new_edges taskID opts)"
  proof
    assume "\<exists>t'. fst (Update taskID opts now m) = Inr t'"
    then show "acyclic (deps (tasks m) \<union> new_edges taskID opts)"
      using edges Update_board_ok [OF assms(1), of taskID opts now] by (auto simp: board_ok_def)
  next
    assume "acyclic (deps (tasks m) \<union> new_edges taskID opts)"
    with assms have "validate (tasks m) taskID t opts = None"
      by (intro validate_acyclic) (auto simp: Get_def)
    with Update_valid [of m taskID t opts now] assms(2) show "\<exists>t'. fst (Update taskID opts now m) = Inr t'"
      by (auto simp: Get_def)
  qed
  ultimately show ?thesis by blast
qed

lemma finite_deps: "finite (deps ts)"
proof -
  have "deps ts \<subseteq> (\<Union>p \<in> set ts. {fst p} \<times> set (BlockedBy (snd p)))"
    by (force simp: deps_iff dest!: map_of_SomeD)
  then show ?thesis by (rule finite_subset) auto
qed

text \<open>
  C24. The board never deadlocks: as long as some task is not completed, there is a task that is
  not completed and all of whose blockers exist and are completed, so that it can be worked on.
\<close>

theorem board_has_ready_task:
  assumes "int (length ops) \<le> max_int"
  defines "m \<equiv> fold board_step ops NewTaskManager"
  assumes "Get i m = Some t" "Status t \<noteq> StatusCompleted"
  shows "\<exists>j u. Get j m = Some u \<and> Status u \<noteq> StatusCompleted \<and>
     (\<forall>b \<in> set (BlockedBy u). \<exists>v. Get b m = Some v \<and> Status v = StatusCompleted)"
proof -
  have ok: "board_ok (tasks m)" using board_run_inv [of ops] assms(1) by (simp add: m_def board_inv_def)
  let ?Q = "{i. \<exists>t. Get i m = Some t \<and> Status t \<noteq> StatusCompleted}"
  have "wf ((deps (tasks m))\<inverse>)"
    using ok finite_deps finite_acyclic_wf_converse unfolding board_ok_def by blast
  moreover have "i \<in> ?Q" using assms(3,4) by blast
  ultimately obtain j where j: "j \<in> ?Q" "\<And>b. (b, j) \<in> (deps (tasks m))\<inverse> \<Longrightarrow> b \<notin> ?Q"
    by (rule wfE_min) blast
  then obtain u where u: "Get j m = Some u" "Status u \<noteq> StatusCompleted" by blast
  have "\<exists>v. Get b m = Some v \<and> Status v = StatusCompleted" if b: "b \<in> set (BlockedBy u)" for b
  proof -
    have e: "(j, b) \<in> deps (tasks m)" using u(1) b by (auto simp: deps_iff Get_def)
    then have "(b, j) \<in> block_rel (tasks m)" using ok by (auto simp: board_ok_def)
    then obtain v where v: "Get b m = Some v" by (auto simp: block_rel_iff Get_def)
    with j(2) [of b] e show ?thesis by auto
  qed
  with u show ?thesis by blast
qed


section \<open>A concrete board\<close>

text \<open>Two tasks, the second waiting for the first.\<close>

definition no_options :: UpdateOptions where
  "no_options = \<lparr>opt_Status = None, opt_ExpectedStatus = None, opt_Subject = None,
     opt_Description = None, opt_ActiveForm = None, opt_Owner = None, AddBlocks = [],
     AddBlockedBy = [], opt_Metadata = None\<rparr>"

definition demo_ops :: "board_op list" where
  "demo_ops = [OpCreate ''build'' '''' '''' None 1, OpCreate ''test'' '''' '''' None 2,
     OpUpdate ''task-2'' (no_options\<lparr>AddBlockedBy := [''task-1'']\<rparr>) 3]"

definition demo_board :: TaskManager where
  "demo_board = fold board_step demo_ops NewTaskManager"

lemma demo_board_tasks:
  "map (\<lambda>(i, t). (i, BlockedBy t, Blocks t)) (tasks demo_board) =
   [(''task-1'', [], [''task-2'']), (''task-2'', [''task-1''], [])]"
  by code_simp

theorem task_board_invariant_witness:
  "board_ok (tasks (fold board_step demo_ops NewTaskManager)) \<and>
   Get (ID (fst (Create ''deploy'' '''' '''' None 4 (fold board_step demo_ops NewTaskManager))))
     (fold board_step demo_ops NewTaskManager) = None"
  by (rule task_board_invariant) (simp add: demo_ops_def max_int_def)

theorem update_all_or_nothing_witness:
  "fst (Update ''task-1'' (no_options\<lparr>AddBlockedBy := [''task-2'']\<rparr>) 5 demo_board) = Inl (BlockedByCycle ''task-2'') \<and>
   snd (Update ''task-1'' (no_options\<lparr>AddBlockedBy := [''task-2'']\<rparr>) 5 demo_board) = demo_board"
proof -
  have e: "fst (Update ''task-1'' (no_options\<lparr>AddBlockedBy := [''task-2'']\<rparr>) 5 demo_board) =
      Inl (BlockedByCycle ''task-2'')" by code_simp
  from update_all_or_nothing [OF e] e show ?thesis by simp
qed

theorem update_exact_cycle_check_witness:
  "acyclic (deps (tasks demo_board) \<union> new_edges ''task-2'' (no_options\<lparr>AddBlockedBy := [''task-1'']\<rparr>))"
proof -
  have "board_ok (tasks demo_board)"
    using board_run_inv [of demo_ops] unfolding demo_board_def
    by (simp add: board_inv_def demo_ops_def max_int_def)
  moreover have "Get ''task-2'' demo_board = Some (the (Get ''task-2'' demo_board))"
    "hasTask (tasks demo_board) ''task-1''" by code_simp+
  ultimately have "(\<exists>t'. fst (Update ''task-2'' (no_options\<lparr>AddBlockedBy := [''task-1'']\<rparr>) 5 demo_board) = Inr t') \<longleftrightarrow>
      acyclic (deps (tasks demo_board) \<union> new_edges ''task-2'' (no_options\<lparr>AddBlockedBy := [''task-1'']\<rparr>))"
    using update_exact_cycle_check [of demo_board "''task-2''" "the (Get ''task-2'' demo_board)"
        "no_options\<lparr>AddBlockedBy := [''task-1'']\<rparr>" 5] by (simp add: no_options_def)
  moreover have "isl (fst (Update ''task-2'' (no_options\<lparr>AddBlockedBy := [''task-1'']\<rparr>) 5 demo_board)) = False"
    by code_simp
  ultimately show ?thesis
    by (cases "fst (Update ''task-2'' (no_options\<lparr>AddBlockedBy := [''task-1'']\<rparr>) 5 demo_board)") auto
qed

theorem board_has_ready_task_witness:
  "\<exists>j u. Get j (fold board_step demo_ops NewTaskManager) = Some u \<and> Status u \<noteq> StatusCompleted \<and>
     (\<forall>b \<in> set (BlockedBy u). \<exists>v. Get b (fold board_step demo_ops NewTaskManager) = Some v \<and> Status v = StatusCompleted)"
proof -
  have t: "map_option Status (Get ''task-2'' (fold board_step demo_ops NewTaskManager)) = Some StatusPending"
    by code_simp
  then obtain t where "Get ''task-2'' (fold board_step demo_ops NewTaskManager) = Some t" "Status t = StatusPending"
    by auto
  then show ?thesis
    by (intro board_has_ready_task [of demo_ops "''task-2''" t])
      (simp_all add: demo_ops_def max_int_def StatusPending_def StatusCompleted_def)
qed


end
