(* ===== verification/LineDiff.thy ===== *)
theory LineDiff
  imports GoNum
begin

text \<open>
  The line diff of \<^verbatim>\<open>internal/diff\<close>: splitting into lines, the edit script from the table of
  longest common subsequences, the rendering in hunks, the shortcut for long inputs and the
  counts. The table is the list of its rows, each row a list of cells, as the code's slices.
\<close>

definition maxDiffLines :: nat where
  "maxDiffLines = 5000"

definition noNewlineMarker :: string where
  "noNewlineMarker = CHR 0x5C # '' No newline at end of file''"

abbreviation nl :: string where
  "nl \<equiv> [CHR 0x0A]"

section \<open>Lines\<close>

definition splitLines :: "string \<Rightarrow> string list" where
  "splitLines t =
     (if t = '''' then []
      else let lines = Split t CHR 0x0A in
           if lines \<noteq> [] \<and> last lines = '''' \<and> HasSuffix t nl then butlast lines else lines)"

definition splitLinesEOF :: "string \<Rightarrow> string list \<times> bool" where
  "splitLinesEOF t = (if t = '''' then ([], False) else (splitLines t, \<not> HasSuffix t nl))"

section \<open>The edit script\<close>

record edit_op =
  op_kind :: char
  op_text :: string

text \<open>
  One row of the table from the row above: \<open>ups\<close> starts at the cell above and to the left, \<open>left\<close>
  is the cell to the left.
\<close>

fun dp_cells :: "'a \<Rightarrow> 'a list \<Rightarrow> nat list \<Rightarrow> nat \<Rightarrow> nat list" where
  "dp_cells x (y # ys) (d # u # ups) left =
     (let c = (if x = y then d + 1 else if u \<ge> left then u else left)
      in c # dp_cells x ys (u # ups) c)"
| "dp_cells x _ _ left = []"

definition dp_row :: "'a \<Rightarrow> 'a list \<Rightarrow> nat list \<Rightarrow> nat list" where
  "dp_row x news prow = 0 # dp_cells x news prow 0"

fun dp_rows :: "'a list \<Rightarrow> 'a list \<Rightarrow> nat list \<Rightarrow> nat list list" where
  "dp_rows [] news prow = [prow]"
| "dp_rows (x # olds) news prow = prow # dp_rows olds news (dp_row x news prow)"

definition dp_table :: "'a list \<Rightarrow> 'a list \<Rightarrow> nat list list" where
  "dp_table olds news = dp_rows olds news (replicate (length news + 1) 0)"

text \<open>The walk back through the table, which appends the operations from the last to the first.\<close>

function backtrack :: "nat list list \<Rightarrow> string list \<Rightarrow> string list \<Rightarrow> nat \<Rightarrow> nat \<Rightarrow> edit_op list" where
  "backtrack dp old new i j =
     (if i = 0 \<and> j = 0 then []
      else if i > 0 \<and> j > 0 \<and> old ! (i - 1) = new ! (j - 1)
        then \<lparr>op_kind = CHR ''='', op_text = old ! (i - 1)\<rparr> # backtrack dp old new (i - 1) (j - 1)
      else if j > 0 \<and> (i = 0 \<or> dp ! i ! (j - 1) \<ge> dp ! (i - 1) ! j)
        then \<lparr>op_kind = CHR ''+'', op_text = new ! (j - 1)\<rparr> # backtrack dp old new i (j - 1)
      else \<lparr>op_kind = CHR ''-'', op_text = old ! (i - 1)\<rparr> # backtrack dp old new (i - 1) j)"
  by pat_completeness auto

termination backtrack
  by (relation "measure (\<lambda>(dp, old, new, i, j). i + j)") auto

declare backtrack.simps [simp del]

definition computeEditScript :: "string list \<Rightarrow> string list \<Rightarrow> edit_op list" where
  "computeEditScript old new = rev (backtrack (dp_table old new) old new (length old) (length new))"

definition scriptHasChanges :: "edit_op list \<Rightarrow> bool" where
  "scriptHasChanges script =
     list_ex (\<lambda>s. op_kind s = CHR ''+'' \<or> op_kind s = CHR ''-'') script"

section \<open>Rendering\<close>

record lineEntry =
  kind :: char
  line_text :: string
  oldNum :: int
  newNum :: int
  inGroup :: bool

definition marker :: lineEntry where
  "marker = \<lparr>kind = CHR ''~'', line_text = ''@@'', oldNum = 0, newNum = 0, inGroup = False\<rparr>"

definition change_positions :: "edit_op list \<Rightarrow> int list" where
  "change_positions script =
     map (int \<circ> fst) (filter (\<lambda>(idx, s). op_kind s \<noteq> CHR ''='') (enumerate 0 script))"

definition near_change :: "int \<Rightarrow> int list \<Rightarrow> int \<Rightarrow> bool" where
  "near_change contextLines cps idx \<longleftrightarrow>
     idx \<in> set cps \<or> list_ex (\<lambda>cp. \<bar>idx - cp\<bar> \<le> contextLines) cps"

text \<open>The loop over the script: the entries it appends, from position \<open>idx\<close> on.\<close>

fun collect :: "int \<Rightarrow> int list \<Rightarrow> int \<Rightarrow> int \<Rightarrow> int \<Rightarrow> bool \<Rightarrow> edit_op list \<Rightarrow> lineEntry list" where
  "collect contextLines cps idx oldLine newLine inChange [] = (if inChange then [marker] else [])"
| "collect contextLines cps idx oldLine newLine inChange (s # script) =
     (if near_change contextLines cps idx
      then (if inChange then [] else [marker]) @
           (if op_kind s = CHR ''=''
            then \<lparr>kind = CHR '' '', line_text = op_text s, oldNum = oldLine, newNum = newLine, inGroup = True\<rparr>
                 # collect contextLines cps (idx + 1) (oldLine + 1) (newLine + 1) True script
            else if op_kind s = CHR ''-''
            then \<lparr>kind = CHR ''-'', line_text = op_text s, oldNum = oldLine, newNum = 0, inGroup = True\<rparr>
                 # collect contextLines cps (idx + 1) (oldLine + 1) newLine True script
            else if op_kind s = CHR ''+''
            then \<lparr>kind = CHR ''+'', line_text = op_text s, oldNum = 0, newNum = newLine, inGroup = True\<rparr>
                 # collect contextLines cps (idx + 1) oldLine (newLine + 1) True script
            else \<lparr>kind = CHR '' '', line_text = op_text s, oldNum = 0, newNum = 0, inGroup = True\<rparr>
                 # collect contextLines cps (idx + 1) oldLine newLine True script)
      else (if inChange then [marker] else []) @
           collect contextLines cps (idx + 1) oldLine newLine False script)"

text \<open>The header of the hunk whose entries follow a marker; no hunk, no header.\<close>

definition first_positive :: "int list \<Rightarrow> int" where
  "first_positive ns = (case filter (\<lambda>n. n > 0) ns of [] \<Rightarrow> 0 | n # _ \<Rightarrow> n)"

definition hunkHeader :: "lineEntry list \<Rightarrow> string option" where
  "hunkHeader rest =
     (let hunk = takeWhile (\<lambda>e. kind e \<noteq> CHR ''~'') rest;
          oldStart = first_positive (map oldNum hunk);
          newStart = first_positive (map newNum hunk);
          oldCount = length (filter (\<lambda>e. kind e = CHR ''-'' \<or> kind e = CHR '' '') hunk);
          newCount = length (filter (\<lambda>e. kind e = CHR ''+'' \<or> kind e = CHR '' '') hunk)
      in if oldCount = 0 \<and> newCount = 0 then None
         else Some (''@@ -'' @ Itoa oldStart @ '','' @ Itoa (int oldCount) @ '' +'' @ Itoa newStart @
                    '','' @ Itoa (int newCount) @ '' @@'' @ nl))"

fun render :: "string list \<Rightarrow> string list \<Rightarrow> bool \<Rightarrow> bool \<Rightarrow> lineEntry list \<Rightarrow> string" where
  "render oldLines newLines oldNoNL newNoNL [] = ''''"
| "render oldLines newLines oldNoNL newNoNL (e # rest) =
     (if kind e \<noteq> CHR ''~''
      then kind e # '' '' @ line_text e @ nl @
           (if oldNoNL \<and> oldNum e = int (length oldLines) \<and> (kind e = CHR ''-'' \<or> kind e = CHR '' '') \<or>
               newNoNL \<and> newNum e = int (length newLines) \<and> (kind e = CHR ''+'' \<or> kind e = CHR '' '')
            then noNewlineMarker @ nl else '''')
      else case_option '''' id (hunkHeader rest)) @
     render oldLines newLines oldNoNL newNoNL rest"

definition formatUnifiedDiff ::
  "string list \<Rightarrow> string list \<Rightarrow> edit_op list \<Rightarrow> int \<Rightarrow> bool \<Rightarrow> bool \<Rightarrow> string" where
  "formatUnifiedDiff oldLines newLines script contextLines oldNoNL newNoNL =
     render oldLines newLines oldNoNL newNoNL
       (collect contextLines (change_positions script) 0 1 1 False script)"

definition eof_pair :: "string list \<Rightarrow> string list \<Rightarrow> bool \<Rightarrow> bool \<Rightarrow> string" where
  "eof_pair oldLines newLines oldNoNL newNoNL =
     ''- '' @ last oldLines @ nl @ (if oldNoNL then noNewlineMarker @ nl else '''') @
     ''+ '' @ last newLines @ nl @ (if newNoNL then noNewlineMarker @ nl else '''')"

definition formatEOFNewlineDiff :: "string list \<Rightarrow> string list \<Rightarrow> bool \<Rightarrow> bool \<Rightarrow> string" where
  "formatEOFNewlineDiff oldLines newLines oldNoNL newNoNL =
     ''@@ -'' @ Itoa (int (length oldLines)) @ '',1 +'' @ Itoa (int (length newLines)) @ '',1 @@'' @ nl @
     eof_pair oldLines newLines oldNoNL newNoNL"

section \<open>Long inputs\<close>

text \<open>The two loops of the shortcut: the common prefix, then the common suffix of what is left.\<close>

fun common_len :: "'a list \<Rightarrow> 'a list \<Rightarrow> nat" where
  "common_len (x # xs) (y # ys) = (if x = y then Suc (common_len xs ys) else 0)"
| "common_len _ _ = 0"

definition common_prefix :: "'a list \<Rightarrow> 'a list \<Rightarrow> nat" where
  "common_prefix old new = common_len old new"

definition common_suffix :: "'a list \<Rightarrow> 'a list \<Rightarrow> nat" where
  "common_suffix old new =
     common_len (rev (drop (common_prefix old new) old)) (rev (drop (common_prefix old new) new))"

definition write_lines :: "string \<Rightarrow> string list \<Rightarrow> string" where
  "write_lines tag ls = concat (map (\<lambda>l. tag @ l @ nl) ls)"

definition slice :: "'a list \<Rightarrow> nat \<Rightarrow> nat \<Rightarrow> 'a list" where
  "slice xs a b = take (b - a) (drop a xs)"

definition fastDiffFallback :: "string list \<Rightarrow> string list \<Rightarrow> int \<Rightarrow> bool \<Rightarrow> bool \<Rightarrow> string" where
  "fastDiffFallback oldLines newLines contextLines oldNoNL newNoNL =
     (let m = length oldLines; n = length newLines;
          pre = common_prefix oldLines newLines; suf = common_suffix oldLines newLines in
      ''(diff truncated: '' @ Itoa (int m) @ ''+'' @ Itoa (int n) @ '' lines, showing changes only)'' @ nl @
      write_lines ''  '' (slice oldLines (pre - min (nat contextLines) pre) pre) @
      write_lines ''- '' (slice oldLines pre (m - suf)) @
      write_lines ''+ '' (slice newLines pre (n - suf)) @
      write_lines ''  '' (slice oldLines (m - suf) (m - suf + min (nat contextLines) suf)) @
      (if oldNoNL \<noteq> newNoNL \<and> m > 0 \<and> n > 0 \<and> pre + suf = m \<and> pre + suf = n
       then eof_pair oldLines newLines oldNoNL newNoNL else ''''))"

section \<open>Entry points\<close>

definition UnifiedDiff :: "string \<Rightarrow> string \<Rightarrow> int \<Rightarrow> string" where
  "UnifiedDiff old new contextLines =
     (if old = new then ''''
      else let (oldLines, oldNoNL) = splitLinesEOF old; (newLines, newNoNL) = splitLinesEOF new in
           if length oldLines + length newLines > maxDiffLines
             then fastDiffFallback oldLines newLines contextLines oldNoNL newNoNL
           else let editScript = computeEditScript oldLines newLines in
             if \<not> scriptHasChanges editScript
             then (if oldNoNL \<noteq> newNoNL \<and> oldLines \<noteq> [] \<and> newLines \<noteq> []
                   then formatEOFNewlineDiff oldLines newLines oldNoNL newNoNL else '''')
             else formatUnifiedDiff oldLines newLines editScript contextLines oldNoNL newNoNL)"

definition HasChanges :: "string \<Rightarrow> string \<Rightarrow> bool" where
  "HasChanges old new \<longleftrightarrow> old \<noteq> new"

definition equalLines :: "string list \<Rightarrow> string list \<Rightarrow> bool" where
  "equalLines a b \<longleftrightarrow> length a = length b \<and> list_all2 (=) a b"

definition isEOFNewlineOnlyChange :: "string list \<Rightarrow> string list \<Rightarrow> bool \<Rightarrow> bool \<Rightarrow> bool" where
  "isEOFNewlineOnlyChange oldLines newLines oldNoNL newNoNL \<longleftrightarrow>
     oldNoNL \<noteq> newNoNL \<and> oldLines \<noteq> [] \<and> newLines \<noteq> [] \<and> equalLines oldLines newLines"

definition count_kind :: "char \<Rightarrow> edit_op list \<Rightarrow> nat" where
  "count_kind c script = length (filter (\<lambda>s. op_kind s = c) script)"

text \<open>Additions and deletions; the differences of the shortcut are clipped at zero as in the code.\<close>

definition CountChanges :: "string \<Rightarrow> string \<Rightarrow> nat \<times> nat" where
  "CountChanges old new =
     (let (oldLines, oldNoNL) = splitLinesEOF old; (newLines, newNoNL) = splitLinesEOF new in
      if isEOFNewlineOnlyChange oldLines newLines oldNoNL newNoNL then (1, 1)
      else if length oldLines + length newLines > maxDiffLines
        then (length newLines - common_prefix oldLines newLines - common_suffix oldLines newLines,
              length oldLines - common_prefix oldLines newLines - common_suffix oldLines newLines)
      else let script = computeEditScript oldLines newLines
           in (count_kind CHR ''+'' script, count_kind CHR ''-'' script))"

definition Stats :: "string \<Rightarrow> string \<Rightarrow> string" where
  "Stats old new =
     (let (additions, deletions) = CountChanges old new in
      ''+'' @ Itoa (int additions) @ '' additions, -'' @ Itoa (int deletions) @ '' deletions'')"

section \<open>The table holds the longest common subsequences\<close>

fun lcs :: "'a list \<Rightarrow> 'a list \<Rightarrow> nat" where
  "lcs (x # xs) (y # ys) =
     (if x = y then Suc (lcs xs ys) else max (lcs xs (y # ys)) (lcs (x # xs) ys))"
| "lcs _ _ = 0"

lemma lcs_Nil [simp]: "lcs xs [] = 0"
  by (cases xs) auto

text \<open>No common subsequence is longer than \<^const>\<open>lcs\<close> says.\<close>

lemma lcs_bound: "subseq zs xs \<Longrightarrow> subseq zs ys \<Longrightarrow> length zs \<le> lcs xs ys"
proof (induction xs ys arbitrary: zs rule: lcs.induct)
  case (1 x xs y ys)
  show ?case
  proof (cases zs)
    case (Cons z w)
    show ?thesis
    proof (cases "x = y")
      case True
      have "subseq w xs \<and> subseq w ys"
        using 1(4,5) Cons by (auto simp: subseq_Cons2_iff split: if_splits dest: subseq_Cons')
      with 1(1) [OF True, of w] True Cons show ?thesis by simp
    next
      case False
      then have "subseq zs xs \<or> subseq zs ys"
        using 1(4,5) Cons by (auto simp: subseq_Cons2_iff split: if_splits)
      with 1(2) [OF False, of zs] 1(3) [OF False, of zs] 1(4,5) False show ?thesis by auto
    qed
  qed simp
qed auto

lemma subseq_rev: "subseq xs ys \<Longrightarrow> subseq (rev xs) (rev ys)"
proof (induction xs ys rule: list_emb.induct)
  case (list_emb_Cons xs ys y)
  then show ?case by (simp add: subseq_rev_drop_many)
next
  case (list_emb_Cons2 x y xs ys)
  then show ?case by (simp add: list_emb_append_mono)
qed simp

text \<open>A row of the table as it should be: \<open>r\<close> the old lines up to the row, \<open>p\<close> the new ones up to the column, last first.\<close>

fun lcs_row :: "'a list \<Rightarrow> 'a list \<Rightarrow> 'a list \<Rightarrow> nat list" where
  "lcs_row r p [] = [lcs r p]"
| "lcs_row r p (y # ys) = lcs r p # lcs_row r (y # p) ys"

lemma lcs_row_Cons: "lcs_row r p ys = lcs r p # tl (lcs_row r p ys)"
  by (cases ys) auto

lemma dp_cells_lcs: "dp_cells x ys (lcs_row r p ys) (lcs (x # r) p) = tl (lcs_row (x # r) p ys)"
proof (induction ys arbitrary: p)
  case (Cons y ys)
  have "lcs_row r (y # p) ys = lcs r (y # p) # tl (lcs_row r (y # p) ys)" by (rule lcs_row_Cons)
  then obtain us where us: "lcs_row r (y # p) ys = lcs r (y # p) # us" by blast
  have c: "(if x = y then lcs r p + 1 else if lcs r (y # p) \<ge> lcs (x # r) p then lcs r (y # p) else lcs (x # r) p)
      = lcs (x # r) (y # p)" by auto
  have "dp_cells x (y # ys) (lcs_row r p (y # ys)) (lcs (x # r) p) =
      lcs (x # r) (y # p) # dp_cells x ys (lcs_row r (y # p) ys) (lcs (x # r) (y # p))"
    using us c by (simp add: Let_def)
  also have "\<dots> = lcs_row (x # r) (y # p) ys" using Cons.IH lcs_row_Cons by metis
  finally show ?case by simp
qed simp

lemma dp_row_lcs: "dp_row x ys (lcs_row r [] ys) = lcs_row (x # r) [] ys"
  using dp_cells_lcs [of x ys r "[]"] lcs_row_Cons [of "x # r" "[]" ys] by (simp add: dp_row_def)

lemma dp_rows_lcs:
  "i \<le> length olds \<Longrightarrow> dp_rows olds ys (lcs_row r [] ys) ! i = lcs_row (rev (take i olds) @ r) [] ys"
proof (induction olds arbitrary: i r)
  case (Cons x olds)
  then show ?case by (cases i) (auto simp: dp_row_lcs)
qed simp

lemma lcs_row_zero: "lcs_row [] p ys = replicate (length ys + 1) 0"
  by (induction ys arbitrary: p) auto

lemma lcs_row_nth: "j \<le> length ys \<Longrightarrow> lcs_row r p ys ! j = lcs r (rev (take j ys) @ p)"
proof (induction ys arbitrary: j p)
  case (Cons y ys)
  then show ?case by (cases j) auto
qed simp

lemma dp_table_lcs:
  assumes "i \<le> length old" "j \<le> length new"
  shows "dp_table old new ! i ! j = lcs (rev (take i old)) (rev (take j new))"
proof -
  have "dp_table old new ! i = lcs_row (rev (take i old)) [] new"
    using dp_rows_lcs [OF assms(1), of new "[]"] by (simp add: dp_table_def lcs_row_zero)
  then show ?thesis using lcs_row_nth [OF assms(2), of "rev (take i old)" "[]"] by simp
qed

section \<open>Edit scripts\<close>

definition old_side :: "edit_op list \<Rightarrow> string list" where
  "old_side script = map op_text (filter (\<lambda>s. op_kind s = CHR ''='' \<or> op_kind s = CHR ''-'') script)"

definition new_side :: "edit_op list \<Rightarrow> string list" where
  "new_side script = map op_text (filter (\<lambda>s. op_kind s = CHR ''='' \<or> op_kind s = CHR ''+'') script)"

text \<open>A script from \<open>old\<close> to \<open>new\<close>: kept and removed lines are the old text, kept and added lines the new one.\<close>

definition is_script :: "string list \<Rightarrow> string list \<Rightarrow> edit_op list \<Rightarrow> bool" where
  "is_script old new script \<longleftrightarrow>
     list_all (\<lambda>s. op_kind s \<in> {CHR ''='', CHR ''+'', CHR ''-''}) script \<and>
     old_side script = old \<and> new_side script = new"

definition changes :: "edit_op list \<Rightarrow> nat" where
  "changes script = count_kind CHR ''+'' script + count_kind CHR ''-'' script"

definition kept :: "edit_op list \<Rightarrow> string list" where
  "kept script = map op_text (filter (\<lambda>s. op_kind s = CHR ''='') script)"

lemma kept_subseq: "subseq (kept script) (old_side script)" "subseq (kept script) (new_side script)"
  unfolding kept_def old_side_def new_side_def by (induction script) auto

lemma length_sides:
  "length (old_side script) = length (kept script) + count_kind CHR ''-'' script"
  "length (new_side script) = length (kept script) + count_kind CHR ''+'' script"
  by (induction script) (auto simp: old_side_def new_side_def kept_def count_kind_def)

lemma sides_rev [simp]:
  "old_side (rev script) = rev (old_side script)" "new_side (rev script) = rev (new_side script)"
  "kept (rev script) = rev (kept script)" "count_kind c (rev script) = count_kind c script"
  by (simp_all add: old_side_def new_side_def kept_def count_kind_def rev_map flip: rev_filter)

lemma rev_take_pred: "0 < i \<Longrightarrow> i \<le> length xs \<Longrightarrow> rev (take i xs) = xs ! (i - 1) # rev (take (i - 1) xs)"
  by (cases i) (auto simp: take_Suc_conv_app_nth)

definition walked_back :: "edit_op list \<Rightarrow> string list \<Rightarrow> string list \<Rightarrow> bool" where
  "walked_back script r p \<longleftrightarrow>
     is_script r p script \<and> length (kept script) = lcs r p"

lemma walked_back_keep:
  "walked_back script r p \<Longrightarrow> walked_back (\<lparr>op_kind = CHR ''='', op_text = x\<rparr> # script) (x # r) (x # p)"
  by (simp add: walked_back_def is_script_def old_side_def new_side_def kept_def)

lemma walked_back_add:
  "walked_back script r p \<Longrightarrow> lcs r (y # p) = lcs r p \<Longrightarrow>
   walked_back (\<lparr>op_kind = CHR ''+'', op_text = y\<rparr> # script) r (y # p)"
  by (simp add: walked_back_def is_script_def old_side_def new_side_def kept_def)

lemma walked_back_del:
  "walked_back script r p \<Longrightarrow> lcs (x # r) p = lcs r p \<Longrightarrow>
   walked_back (\<lparr>op_kind = CHR ''-'', op_text = x\<rparr> # script) (x # r) p"
  by (simp add: walked_back_def is_script_def old_side_def new_side_def kept_def)

lemma backtrack_walks:
  "i \<le> length old \<Longrightarrow> j \<le> length new \<Longrightarrow>
   walked_back (backtrack (dp_table old new) old new i j) (rev (take i old)) (rev (take j new))"
proof (induction "dp_table old new" old new i j rule: backtrack.induct)
  case (1 old new i j)
  let ?T = "dp_table old new"
  let ?r = "rev (take (i - 1) old)" and ?p = "rev (take (j - 1) new)"
  note ri = rev_take_pred [OF _ 1(4)] and pj = rev_take_pred [OF _ 1(5)]
  consider (stop) "i = 0" "j = 0" | (keep) "i > 0" "j > 0" "old ! (i - 1) = new ! (j - 1)"
    | (add) "\<not> (i > 0 \<and> j > 0 \<and> old ! (i - 1) = new ! (j - 1))" "j > 0" "i = 0 \<or> ?T ! i ! (j - 1) \<ge> ?T ! (i - 1) ! j"
    | (del) "\<not> (i > 0 \<and> j > 0 \<and> old ! (i - 1) = new ! (j - 1))" "i > 0" "j = 0 \<or> ?T ! i ! (j - 1) < ?T ! (i - 1) ! j"
    by linarith
  then show ?case
  proof cases
    case stop
    then show ?thesis
      by (simp add: backtrack.simps walked_back_def is_script_def old_side_def new_side_def kept_def)
  next
    case keep
    then have "walked_back (backtrack ?T old new (i - 1) (j - 1)) ?r ?p" using 1 by auto
    from walked_back_keep [OF this, of "old ! (i - 1)"] keep ri pj show ?thesis
      by (subst backtrack.simps) simp
  next
    case add
    then have w: "walked_back (backtrack ?T old new i (j - 1)) (rev (take i old)) ?p" using 1 by auto
    have "lcs (rev (take i old)) (new ! (j - 1) # ?p) = lcs (rev (take i old)) ?p"
      using add ri pj 1(4,5) dp_table_lcs [of i old "j - 1" new] dp_table_lcs [of "i - 1" old j new]
      by (cases "i = 0") auto
    from walked_back_add [OF w this] add pj show ?thesis by (subst backtrack.simps) auto
  next
    case del
    then have w: "walked_back (backtrack ?T old new (i - 1) j) ?r (rev (take j new))" using 1 by auto
    have "lcs (old ! (i - 1) # ?r) (rev (take j new)) = lcs ?r (rev (take j new))"
      using del ri pj 1(4,5) dp_table_lcs [of i old "j - 1" new] dp_table_lcs [of "i - 1" old j new]
      by (cases "j = 0") auto
    from walked_back_del [OF w this] del ri show ?thesis by (subst backtrack.simps) auto
  qed
qed

lemma edit_script:
  "is_script old new (computeEditScript old new)"
  "length (kept (computeEditScript old new)) = lcs (rev old) (rev new)"
  using backtrack_walks [of "length old" old "length new" new]
  by (auto simp: computeEditScript_def walked_back_def is_script_def rev_swap list_all_iff)

lemma script_lengths:
  assumes "is_script old new script"
  shows "length old = length (kept script) + count_kind CHR ''-'' script"
    "length new = length (kept script) + count_kind CHR ''+'' script"
  using assms length_sides [of script] by (simp_all add: is_script_def)

lemma edit_script_least:
  assumes s: "is_script old new script"
  shows "changes (computeEditScript old new) \<le> changes script"
proof -
  let ?e = "computeEditScript old new"
  have "subseq (kept script) old" "subseq (kept script) new"
    using s kept_subseq [of script] by (simp_all add: is_script_def)
  then have "length (kept script) \<le> length (kept ?e)"
    using lcs_bound [of "rev (kept script)" "rev old" "rev new"] edit_script(2) [of old new]
    by (simp add: subseq_rev)
  then show ?thesis
    using script_lengths [OF s] script_lengths [OF edit_script(1) [of old new]]
    by (simp add: changes_def)
qed

section \<open>Lines and texts\<close>

lemma HasSuffix_iff: "HasSuffix t p \<longleftrightarrow> (\<exists>u. t = u @ p)"
  unfolding HasSuffix_def suffix_to_prefix [symmetric] by (simp add: suffix_def)

lemma lines_of_text:
  assumes "t \<noteq> ''''"
  shows "t = Join (fst (splitLinesEOF t)) nl @ (if snd (splitLinesEOF t) then '''' else nl)"
proof (cases "HasSuffix t nl")
  case True
  then obtain u where u: "t = u @ nl" by (auto simp: HasSuffix_iff)
  have "splitLines t = Split u CHR 0x0A" "snd (splitLinesEOF t) = False"
    using assms True by (simp_all add: splitLines_def splitLinesEOF_def Let_def u Split_def split_acc_snoc)
  then show ?thesis using assms u Join_split_acc [of "CHR 0x0A" "[]" u]
    by (simp add: splitLinesEOF_def Split_def)
next
  case False
  then show ?thesis using assms Join_split_acc [of "CHR 0x0A" "[]" t]
    by (simp add: splitLinesEOF_def splitLines_def Let_def Split_def)
qed

lemma lines_eq_Nil: "fst (splitLinesEOF t) = [] \<longleftrightarrow> t = ''''"
proof (cases "HasSuffix t nl")
  case True
  then obtain u where "t = u @ nl" by (auto simp: HasSuffix_iff)
  with True show ?thesis
    by (simp add: splitLinesEOF_def splitLines_def Let_def Split_def split_acc_snoc split_acc_ne)
qed (auto simp: splitLinesEOF_def splitLines_def Let_def)

lemma splitLinesEOF_inj: "splitLinesEOF s = splitLinesEOF t \<Longrightarrow> s = t"
  by (metis lines_eq_Nil lines_of_text)

lemma lines_differ:
  assumes "s \<noteq> t" "fst (splitLinesEOF s) = fst (splitLinesEOF t)"
  shows "fst (splitLinesEOF s) \<noteq> []" "snd (splitLinesEOF s) \<noteq> snd (splitLinesEOF t)"
proof -
  show "fst (splitLinesEOF s) \<noteq> []" using assms lines_eq_Nil by metis
  show "snd (splitLinesEOF s) \<noteq> snd (splitLinesEOF t)"
    using assms splitLinesEOF_inj [of s t] by (auto simp: prod_eq_iff)
qed

section \<open>A change is always reported\<close>

lemma no_changes_iff: "scriptHasChanges script \<longleftrightarrow> changes script \<noteq> 0"
  by (auto simp: scriptHasChanges_def changes_def count_kind_def list_ex_iff filter_empty_conv)

lemma unchanged_script: "\<not> scriptHasChanges (computeEditScript old new) \<longleftrightarrow> old = new"
proof
  assume "\<not> scriptHasChanges (computeEditScript old new)"
  then have no: "op_kind s \<noteq> CHR ''+'' \<and> op_kind s \<noteq> CHR ''-''" if "s \<in> set (computeEditScript old new)" for s
    using that by (auto simp: scriptHasChanges_def list_ex_iff)
  then have "old_side (computeEditScript old new) = new_side (computeEditScript old new)"
    unfolding old_side_def new_side_def by (intro arg_cong [where f = "map op_text"] filter_cong) auto
  then show "old = new" using edit_script(1) [of old new] unfolding is_script_def by metis
next
  assume "old = new"
  let ?all = "map (\<lambda>l. \<lparr>op_kind = CHR ''='', op_text = l\<rparr>) old"
  have "is_script old old ?all"
    by (simp add: is_script_def old_side_def new_side_def filter_map comp_def list_all_iff)
  moreover have "changes ?all = 0" by (simp add: changes_def count_kind_def filter_map comp_def)
  ultimately show "\<not> scriptHasChanges (computeEditScript old new)"
    using edit_script_least [of old old ?all] \<open>old = new\<close> by (simp add: no_changes_iff)
qed

lemma render_ne: "e \<in> set es \<Longrightarrow> kind e \<noteq> CHR ''~'' \<Longrightarrow> render ol nw a b es \<noteq> ''''"
  by (induction es) auto

lemma collect_near:
  "k < length script \<Longrightarrow> near_change ctx cps (idx + int k) \<Longrightarrow>
   \<exists>e \<in> set (collect ctx cps idx oldLine newLine inChange script). kind e \<noteq> CHR ''~''"
proof (induction script arbitrary: k idx oldLine newLine inChange)
  case (Cons s script)
  show ?case
  proof (cases "near_change ctx cps idx")
    case True
    then show ?thesis by (auto simp: Let_def)
  next
    case False
    with Cons.prems obtain k' where k: "k = Suc k'" by (cases k) auto
    with Cons.prems have "k' < length script" "near_change ctx cps (idx + 1 + int k')"
      by (simp_all add: algebra_simps)
    from Cons.IH [OF this, of oldLine newLine False] False show ?thesis by auto
  qed
qed simp

lemma format_ne:
  assumes "scriptHasChanges script"
  shows "formatUnifiedDiff ol nw script ctx a b \<noteq> ''''"
proof -
  from assms obtain k where k: "k < length script" "op_kind (script ! k) \<noteq> CHR ''=''"
    by (auto simp: scriptHasChanges_def list_ex_iff in_set_conv_nth)
  then have "(k, script ! k) \<in> set (filter (\<lambda>(idx, s). op_kind s \<noteq> CHR ''='') (enumerate 0 script))"
    by (auto simp: in_set_enumerate_eq)
  then have "int k \<in> set (change_positions script)" unfolding change_positions_def by force
  then have "near_change ctx (change_positions script) (0 + int k)" by (simp add: near_change_def)
  from collect_near [OF k(1) this, of 1 1 False] render_ne show ?thesis
    unfolding formatUnifiedDiff_def by blast
qed

lemma common_len_le: "common_len xs ys \<le> length xs" "common_len xs ys \<le> length ys"
  by (induction xs ys rule: common_len.induct) auto

lemma common_len_take: "take (common_len xs ys) xs = take (common_len xs ys) ys"
  by (induction xs ys rule: common_len.induct) auto

lemma common_len_refl [simp]: "common_len xs xs = length xs"
  by (induction xs) auto

text \<open>The shortcut cuts the same prefix and the same suffix off both texts.\<close>

lemma shortcut_split:
  fixes old new :: "'a list"
  defines "pre \<equiv> common_prefix old new" and "suf \<equiv> common_suffix old new"
  shows "pre + suf \<le> length old" "pre + suf \<le> length new"
    and "take pre old = take pre new" "drop (length old - suf) old = drop (length new - suf) new"
proof -
  have l: "pre \<le> length old" "pre \<le> length new"
    unfolding pre_def common_prefix_def by (rule common_len_le)+
  have s: "suf \<le> length (drop pre old)" "suf \<le> length (drop pre new)"
    unfolding suf_def common_suffix_def pre_def [symmetric]
    using common_len_le [of "rev (drop pre old)" "rev (drop pre new)"] by simp_all
  show "pre + suf \<le> length old" "pre + suf \<le> length new" using l s by auto
  show "take pre old = take pre new"
    unfolding pre_def common_prefix_def by (rule common_len_take)
  have "take suf (rev (drop pre old)) = take suf (rev (drop pre new))"
    unfolding suf_def common_suffix_def pre_def [symmetric] by (rule common_len_take)
  then show "drop (length old - suf) old = drop (length new - suf) new"
    using s l by (simp add: take_rev)
qed

lemma shortcut_none:
  fixes old new :: "'a list"
  assumes "length old - common_prefix old new - common_suffix old new = 0"
    and "length new - common_prefix old new - common_suffix old new = 0"
  shows "old = new"
proof -
  note sp = shortcut_split [of old new]
  have "length old = common_prefix old new + common_suffix old new"
    "length new = common_prefix old new + common_suffix old new" using assms sp(1,2) by auto
  then show ?thesis using sp(3,4) by (metis add_diff_cancel_right' append_take_drop_id)
qed

lemma eof_only_iff:
  assumes "s \<noteq> t"
  shows "isEOFNewlineOnlyChange (fst (splitLinesEOF s)) (fst (splitLinesEOF t))
           (snd (splitLinesEOF s)) (snd (splitLinesEOF t)) \<longleftrightarrow>
         fst (splitLinesEOF s) = fst (splitLinesEOF t)"
  using lines_differ [OF assms]
  by (auto simp: isEOFNewlineOnlyChange_def equalLines_def list.rel_eq)

section \<open>Properties\<close>

text \<open>
  C26. The edit script is a correct and shortest one: its kept and removed lines are the old text,
  its kept and added lines the new text, and no script with these two properties has fewer changes.
\<close>

theorem edit_script_minimal:
  "is_script old new (computeEditScript old new) \<and>
   (\<forall>script. is_script old new script \<longrightarrow> changes (computeEditScript old new) \<le> changes script)"
  using edit_script(1) edit_script_least by blast

text \<open>
  A diff is empty, and the two counts are zero, exactly if the texts are equal, for every context
  width, with the shortcut for long texts, and for texts that differ only in the final newline.
\<close>

theorem diff_empty_iff_equal:
  "(UnifiedDiff old new contextLines = '''' \<longleftrightarrow> old = new) \<and> (CountChanges old new = (0, 0) \<longleftrightarrow> old = new)"
proof (cases "old = new")
  case True
  have "\<not> scriptHasChanges (computeEditScript ls ls)" for ls using unchanged_script by blast
  then have "count_kind CHR ''+'' (computeEditScript ls ls) = 0 \<and> count_kind CHR ''-'' (computeEditScript ls ls) = 0" for ls
    by (simp add: no_changes_iff changes_def)
  with True show ?thesis
    by (simp add: UnifiedDiff_def CountChanges_def isEOFNewlineOnlyChange_def common_prefix_def
        common_suffix_def case_prod_beta Let_def)
next
  case False
  let ?o = "fst (splitLinesEOF old)" and ?n = "fst (splitLinesEOF new)"
  have "UnifiedDiff old new contextLines \<noteq> ''''"
    using False lines_differ [OF False] unchanged_script [of ?o ?n] format_ne
    by (auto simp: UnifiedDiff_def case_prod_beta Let_def fastDiffFallback_def formatEOFNewlineDiff_def)
  moreover have "CountChanges old new \<noteq> (0, 0)"
    using eof_only_iff [OF False] shortcut_none [of ?o ?n] unchanged_script [of ?o ?n]
    by (auto simp: CountChanges_def case_prod_beta Let_def no_changes_iff changes_def)
  ultimately show ?thesis using False by simp
qed

definition join_lines :: "string list \<Rightarrow> string" where
  "join_lines ls = write_lines '''' ls"

text \<open>
  The line numbers of hunk headers count only the lines shown so far: lines skipped between
  hunks do not advance them. For a text of eight lines whose second and last line change, without
  context, the headers name lines 1 and 2.
\<close>

theorem hunk_header_misnumbers:
  "UnifiedDiff (join_lines [''a'', ''b'', ''c'', ''d'', ''e'', ''f'', ''g'', ''h''])
               (join_lines [''a'', ''B'', ''c'', ''d'', ''e'', ''f'', ''g'', ''H'']) 0 =
   join_lines [''@@ -1,1 +1,1 @@'', ''- b'', ''+ B'', ''@@ -2,1 +2,1 @@'', ''- h'', ''+ H'']"
  by code_simp

theorem edit_script_minimal_witness:
  "changes (computeEditScript [''a'', ''b''] [''b'', ''c''])
   \<le> changes [\<lparr>op_kind = CHR ''-'', op_text = ''a''\<rparr>, \<lparr>op_kind = CHR ''='', op_text = ''b''\<rparr>,
               \<lparr>op_kind = CHR ''+'', op_text = ''c''\<rparr>]"
  by (rule edit_script_minimal [THEN conjunct2, rule_format]) code_simp

end
