(* ===== verification/GoTime.thy ===== *)
theory GoTime
  imports Main
begin

text \<open>
  The calendar of package \<^verbatim>\<open>time\<close> in a location with a fixed offset. A whole minute is the number of
  minutes since 1970-01-01 00:00 of that location, a day the number of days; \<^verbatim>\<open>time.Date\<close> accepts
  months and days outside their range and normalises them. Year, month and day of a day are found by
  searching, and are shown to be the inverse of \<^verbatim>\<open>time.Date\<close>.
\<close>

section \<open>The Gregorian calendar\<close>

definition is_leap :: "int \<Rightarrow> bool" where
  "is_leap y \<longleftrightarrow> y mod 4 = 0 \<and> (y mod 100 \<noteq> 0 \<or> y mod 400 = 0)"

text \<open>Days from 1970-01-01 to the first of January of the year.\<close>

definition year_start :: "int \<Rightarrow> int" where
  "year_start y = 365 * (y - 1970) + ((y - 1) div 4 - (y - 1) div 100 + (y - 1) div 400) - 477"

definition month_table :: "int \<Rightarrow> int list" where
  "month_table y = [31, if is_leap y then 29 else 28, 31, 30, 31, 30, 31, 31, 30, 31, 30, 31]"

definition month_days :: "int \<Rightarrow> int \<Rightarrow> int" where
  "month_days y m = month_table y ! nat (m - 1)"

definition month_start :: "int \<Rightarrow> int \<Rightarrow> int" where
  "month_start y m = sum_list (take (nat (m - 1)) (month_table y))"

text \<open>The day number of \<^verbatim>\<open>time.Date(y, m, d, ...)\<close>.\<close>

definition date_days :: "int \<Rightarrow> int \<Rightarrow> int \<Rightarrow> int" where
  "date_days y m d =
     (let y' = y + (m - 1) div 12; m' = (m - 1) mod 12 + 1
      in year_start y' + month_start y' m' + (d - 1))"

lemma div_step:
  fixes k :: int
  assumes "1 < k"
  shows "y div k - (y - 1) div k = (if y mod k = 0 then 1 else 0)"
proof -
  define q r where "q = (y - 1) div k" and "r = (y - 1) mod k"
  have y: "y = q * k + (r + 1)" and r: "0 \<le> r" "r < k"
    using assms div_mult_mod_eq [of "y - 1" k] by (simp_all add: q_def r_def algebra_simps)
  show ?thesis
  proof (cases "r + 1 = k")
    case True
    then have "y = (q + 1) * k" using y by (simp add: algebra_simps)
    then have "y div k = q + 1 \<and> y mod k = 0" using assms by simp
    then show ?thesis using q_def by simp
  next
    case False
    then have "y div k = q \<and> y mod k = r + 1" using r y assms by simp
    then show ?thesis using q_def r by simp
  qed
qed

lemma year_start_next: "year_start (y + 1) = year_start y + (if is_leap y then 366 else 365)"
proof -
  define a b c where "a \<longleftrightarrow> y mod 4 = 0" and "b \<longleftrightarrow> y mod 100 = 0" and "c \<longleftrightarrow> y mod 400 = 0"
  have "c \<longrightarrow> b" "b \<longrightarrow> a" unfolding a_def b_def c_def mod_eq_0_iff_dvd
    using dvd_trans [of 100 400 y] dvd_trans [of 4 100 y] by simp_all
  moreover have "y div 4 - (y - 1) div 4 = (if a then 1 else 0)"
    "y div 100 - (y - 1) div 100 = (if b then 1 else 0)"
    "y div 400 - (y - 1) div 400 = (if c then 1 else 0)"
    unfolding a_def b_def c_def by (rule div_step, simp)+
  moreover have "year_start (y + 1) - year_start y =
      365 + (y div 4 - (y - 1) div 4) - (y div 100 - (y - 1) div 100) + (y div 400 - (y - 1) div 400)"
    by (simp add: year_start_def)
  moreover have "is_leap y \<longleftrightarrow> a \<and> (\<not> b \<or> c)" by (simp add: is_leap_def a_def b_def c_def)
  ultimately have "year_start (y + 1) - year_start y = (if is_leap y then 366 else 365)"
    by (cases a; cases b; cases c) simp_all
  then show ?thesis by simp
qed

lemma year_start_less: "year_start y < year_start (y + 1)"
  by (simp add: year_start_next)

function year_from :: "int \<Rightarrow> int \<Rightarrow> int" where
  "year_from y n = (if year_start (y + 1) \<le> n then year_from (y + 1) n else y)"
  by pat_completeness auto

termination year_from
  by (relation "measure (\<lambda>(y, n). nat (n - year_start y))") (use year_start_less in \<open>auto intro: less_le_trans\<close>)

declare year_from.simps [simp del]

definition Year :: "int \<Rightarrow> int" where
  "Year n = year_from (1970 + (if n \<ge> 0 then n div 366 else n div 365)) n"

fun month_from :: "int list \<Rightarrow> int \<Rightarrow> int \<Rightarrow> int \<times> int" where
  "month_from (k # ks) m r = (if r < k then (m, r + 1) else month_from ks (m + 1) (r - k))"
| "month_from [] m r = (m, r + 1)"

definition month_day :: "int \<Rightarrow> int \<times> int" where
  "month_day n = month_from (month_table (Year n)) 1 (n - year_start (Year n))"

definition Month :: "int \<Rightarrow> int" where "Month n = fst (month_day n)"

definition Day :: "int \<Rightarrow> int" where "Day n = snd (month_day n)"

text \<open>Sunday is 0; the first day of 1970 was a Thursday.\<close>

definition Weekday :: "int \<Rightarrow> int" where
  "Weekday n = (n + 4) mod 7"

section \<open>Dates and days are inverse\<close>

lemma year_start_mono: "y \<le> y' \<Longrightarrow> year_start y \<le> year_start y'"
proof (induction "nat (y' - y)" arbitrary: y')
  case (Suc k)
  then have "year_start y \<le> year_start (y' - 1)" by auto
  also have "\<dots> \<le> year_start y'" using year_start_less [of "y' - 1"] by simp
  finally show ?case .
qed simp

lemma year_from_spec:
  "year_start y \<le> n \<Longrightarrow> year_start (year_from y n) \<le> n \<and> n < year_start (year_from y n + 1)"
proof (induction y n rule: year_from.induct)
  case (1 y n)
  then show ?case by (cases "year_start (y + 1) \<le> n") (simp_all add: year_from.simps)
qed

lemma year_start_upper: "1970 \<le> y \<Longrightarrow> year_start y \<le> 366 * (y - 1970)"
proof (induction y rule: int_ge_induct)
  case (step y)
  then show ?case using year_start_next [of y] by simp
qed (simp add: year_start_def)

lemma year_start_lower: "y \<le> 1970 \<Longrightarrow> year_start y \<le> 365 * (y - 1970)"
proof (induction y rule: int_le_induct)
  case (step y)
  then show ?case using year_start_next [of "y - 1"] by (auto split: if_splits)
qed (simp add: year_start_def)

lemma year_guess: "year_start (1970 + (if n \<ge> 0 then n div 366 else n div 365)) \<le> n"
proof (cases "n \<ge> 0")
  case True
  have "366 * (n div 366) \<le> n" by simp
  with True year_start_upper [of "1970 + n div 366"] show ?thesis by (simp add: pos_imp_zdiv_nonneg_iff)
next
  case False
  then have "n div 365 \<le> 0" by (simp add: div_nonpos_pos_le0)
  moreover have "365 * (n div 365) \<le> n" by simp
  ultimately show ?thesis using False year_start_lower [of "1970 + n div 365"] by simp
qed

lemma Year_spec: "year_start (Year n) \<le> n" "n < year_start (Year n + 1)"
  using year_from_spec [OF year_guess [of n]] by (auto simp: Year_def)

lemma Year_unique: "year_start y \<le> n \<Longrightarrow> n < year_start (y + 1) \<Longrightarrow> Year n = y"
  using Year_spec [of n] year_start_mono [of "y + 1" "Year n"] year_start_mono [of "Year n + 1" y]
  by linarith

lemma length_month_table [simp]: "length (month_table y) = 12"
  by (simp add: month_table_def)

lemma year_start_table: "year_start (y + 1) = year_start y + sum_list (month_table y)"
  by (simp add: year_start_next month_table_def)

lemma month_table_pos: "k \<in> set (month_table y) \<Longrightarrow> 28 \<le> k \<and> k \<le> 31"
  by (auto simp: month_table_def)

text \<open>The search through the months stops in the one that holds the day.\<close>

lemma month_from_spec:
  assumes "0 \<le> r" "r < sum_list ks" "\<forall>k \<in> set ks. 0 < k"
  shows "\<exists>j. j < length ks \<and> month_from ks m r = (m + int j, r - sum_list (take j ks) + 1) \<and>
    sum_list (take j ks) \<le> r \<and> r < sum_list (take j ks) + ks ! j"
  using assms
proof (induction ks arbitrary: m r)
  case (Cons k ks)
  show ?case
  proof (cases "r < k")
    case True
    with Cons.prems show ?thesis by (intro exI [of _ 0]) simp
  next
    case False
    with Cons.prems have "0 \<le> r - k" "r - k < sum_list ks" "\<forall>k \<in> set ks. 0 < k" by auto
    from Cons.IH [OF this, of "m + 1"] obtain j where "j < length ks"
      "month_from ks (m + 1) (r - k) = (m + 1 + int j, r - k - sum_list (take j ks) + 1)"
      "sum_list (take j ks) \<le> r - k" "r - k < sum_list (take j ks) + ks ! j" by blast
    with False show ?thesis by (intro exI [of _ "Suc j"]) auto
  qed
qed simp

lemma civil_spec:
  "1 \<le> Month n" "Month n \<le> 12" "1 \<le> Day n" "Day n \<le> month_days (Year n) (Month n)"
  "n = year_start (Year n) + month_start (Year n) (Month n) + (Day n - 1)"
proof -
  let ?y = "Year n" and ?r = "n - year_start (Year n)"
  have "0 \<le> ?r" "?r < sum_list (month_table ?y)"
    using Year_spec [of n] by (simp_all add: year_start_table)
  moreover have "\<forall>k \<in> set (month_table ?y). 0 < k" using month_table_pos by fastforce
  ultimately obtain j where j: "j < 12" "month_day n = (1 + int j, ?r - sum_list (take j (month_table ?y)) + 1)"
    "sum_list (take j (month_table ?y)) \<le> ?r" "?r < sum_list (take j (month_table ?y)) + month_table ?y ! j"
    using month_from_spec [of ?r "month_table ?y" 1] by (auto simp: month_day_def)
  then show "1 \<le> Month n" "Month n \<le> 12" "1 \<le> Day n" "Day n \<le> month_days ?y (Month n)"
    "n = year_start ?y + month_start ?y (Month n) + (Day n - 1)"
    by (auto simp: Month_def Day_def month_days_def month_start_def)
qed

lemma month_start_next:
  "1 \<le> m \<Longrightarrow> m \<le> 12 \<Longrightarrow> month_start y (m + 1) = month_start y m + month_days y m"
proof -
  assume m: "1 \<le> m" "m \<le> 12"
  then have "nat (m + 1 - 1) = Suc (nat (m - 1))" "nat (m - 1) < length (month_table y)" by auto
  then show ?thesis by (simp add: month_start_def month_days_def take_Suc_conv_app_nth)
qed

lemma month_days_pos: "1 \<le> m \<Longrightarrow> m \<le> 12 \<Longrightarrow> 28 \<le> month_days y m \<and> month_days y m \<le> 31"
  unfolding month_days_def by (rule month_table_pos [of _ y]) (auto intro: nth_mem)

lemma month_start_mono:
  assumes "1 \<le> m" "m \<le> m'" "m' \<le> 13"
  shows "month_start y m \<le> month_start y m'"
  using assms(2,3,1)
proof (induction m' rule: int_ge_induct)
  case (step i)
  then show ?case using month_start_next [of i y] month_days_pos [of i y] by simp
qed simp

lemma month_start_ends: "month_start y 1 = 0" "month_start y 13 = sum_list (month_table y)"
  by (simp_all add: month_start_def)

text \<open>A day has one date.\<close>

lemma civil_unique:
  assumes "1 \<le> m" "m \<le> 12" "1 \<le> d" "d \<le> month_days y m"
    and n: "n = year_start y + month_start y m + (d - 1)"
  shows "Year n = y \<and> Month n = m \<and> Day n = d"
proof -
  have lo: "0 \<le> month_start y m" using month_start_mono [of 1 m y] assms month_start_ends [of y] by simp
  have hi: "month_start y m + month_days y m \<le> sum_list (month_table y)"
    using month_start_mono [of "m + 1" 13 y] month_start_next [of m y] assms month_start_ends [of y] by simp
  have y: "Year n = y" using lo hi assms by (intro Year_unique) (auto simp: year_start_table)
  have "Month n = m"
  proof (rule ccontr)
    assume "Month n \<noteq> m"
    then consider "Month n < m" | "m < Month n" by linarith
    then show False
    proof cases
      case 1
      then have "month_start y (Month n + 1) \<le> month_start y m"
        using civil_spec(1) [of n] assms by (intro month_start_mono) auto
      then show False using civil_spec [of n] month_start_next [of "Month n" y] n y assms by simp
    next
      case 2
      then have "month_start y (m + 1) \<le> month_start y (Month n)"
        using civil_spec(2) [of n] assms by (intro month_start_mono) auto
      then show False using civil_spec [of n] month_start_next [of m y] n y assms by simp
    qed
  qed
  with y civil_spec(5) [of n] n show ?thesis by simp
qed

lemma date_days_id: "1 \<le> m \<Longrightarrow> m \<le> 12 \<Longrightarrow> date_days y m d = year_start y + month_start y m + (d - 1)"
  by (simp add: date_days_def Let_def)

lemma date_days_civil: "date_days (Year n) (Month n) (Day n) = n"
  using civil_spec [of n] by (simp add: date_days_id)

lemma date_days_plus: "date_days y m (d + k) = date_days y m d + k"
  by (simp add: date_days_def Let_def)

text \<open>The first of the next month follows the last day of this one.\<close>

lemma date_days_next_month:
  assumes "1 \<le> m" "m \<le> 12"
  shows "date_days y (m + 1) 1 = date_days y m 1 + month_days y m"
proof (cases "m = 12")
  case True
  then show ?thesis
    using month_start_next [of 12 y] month_start_ends [of y] month_start_ends(1) [of "y + 1"]
    by (simp add: date_days_def Let_def year_start_table)
next
  case False
  with assms show ?thesis by (simp add: date_days_id month_start_next)
qed

lemma same_month:
  assumes "n \<le> n'" "n' < date_days (Year n) (Month n + 1) 1"
  shows "Year n' = Year n \<and> Month n' = Month n"
proof -
  let ?d = "Day n + (n' - n)"
  have m: "1 \<le> Month n" "Month n \<le> 12" by (rule civil_spec)+
  have n': "n' = year_start (Year n) + month_start (Year n) (Month n) + (?d - 1)" using civil_spec(5) [of n] by simp
  have "?d \<le> month_days (Year n) (Month n)"
    using assms(2) n' date_days_next_month [OF m, of "Year n"] date_days_id [OF m, of "Year n" 1] by simp
  then show ?thesis using civil_unique [OF m _ _ n'] civil_spec(3) [of n] assms(1) by simp
qed

end
