(* ===== verification/CronExpr.thy ===== *)
theory CronExpr
  imports GoNum GoTime
begin

text \<open>
  Cron expressions (\<^verbatim>\<open>internal/cron/parser.go\<close>): the five fields and the search for the next time
  that matches. A field is the list of the values in its map. A time is a whole minute of \<open>GoTime\<close>
  and the rest of the minute in nanoseconds. The loop that fills a stepped range adds at 64 bits and
  would run forever for some bounds, so parsing is an option: \<^const>\<open>None\<close> is a parse that does not return.
\<close>

section \<open>Parsing a field\<close>

datatype cron_error =
    FieldCount nat
  | InvalidStepExpression string
  | InvalidStep string string
  | InvalidRangeStart string
  | InvalidRangeEnd string
  | ReversedRange string
  | InvalidRange string
  | OutOfRange int string
  | InvalidValue string
  | NoValues string
  | InField string cron_error
  | NoMatch string

record cronField =
  cf_values :: "int list"
  cf_min :: int
  cf_max :: int

definition SplitN2 :: "string \<Rightarrow> char \<Rightarrow> string list" where
  "SplitN2 s c = (case IndexByte s c of None \<Rightarrow> [s] | Some i \<Rightarrow> [take i s, drop (Suc i) s])"

definition isWildcard :: "string \<Rightarrow> bool" where
  "isWildcard field \<longleftrightarrow> field = ''*''"

text \<open>\<^verbatim>\<open>for v := rangeStart; v <= rangeEnd; v += step\<close>, the sum at 64 bits.\<close>

partial_function (option) step_loop :: "int \<Rightarrow> int \<Rightarrow> int \<Rightarrow> int list \<Rightarrow> int list option" where
  [code]: "step_loop v rangeEnd step values =
     (if v \<le> rangeEnd then step_loop (wrap64 (v + step)) rangeEnd step (v # values) else Some values)"

definition range_values :: "int \<Rightarrow> int \<Rightarrow> int list \<Rightarrow> int list" where
  "range_values start end values = rev [start..end] @ values"

text \<open>The bounds of a stepped range.\<close>

definition step_bounds :: "string \<Rightarrow> string \<Rightarrow> int \<Rightarrow> int \<Rightarrow> cron_error + int \<times> int" where
  "step_bounds part rangeStr minVal maxVal =
     (if rangeStr = ''*'' then Inr (minVal, maxVal)
      else if Contains rangeStr ''-''
      then (case SplitN2 rangeStr CHR ''-'' of
              [a, b] \<Rightarrow>
                (case Atoi a of
                   None \<Rightarrow> Inl (InvalidRangeStart part)
                 | Some rangeStart \<Rightarrow>
                     (case Atoi b of
                        None \<Rightarrow> Inl (InvalidRangeEnd part)
                      | Some endVal \<Rightarrow>
                          if endVal < rangeStart then Inl (ReversedRange part)
                          else Inr (rangeStart, endVal)))
            | _ \<Rightarrow> Inl (InvalidRange part))
      else (case Atoi rangeStr of None \<Rightarrow> Inl (InvalidRange part) | Some rangeStart \<Rightarrow> Inr (rangeStart, maxVal)))"

definition parse_step_part :: "string \<Rightarrow> int \<Rightarrow> int \<Rightarrow> int list \<Rightarrow> (cron_error + int list) option" where
  "parse_step_part part minVal maxVal values =
     (case SplitN2 part CHR ''/'' of
        [rangeStr, stepStr] \<Rightarrow>
          (case Atoi stepStr of
             None \<Rightarrow> Some (Inl (InvalidStep stepStr part))
           | Some step \<Rightarrow>
               if step \<le> 0 then Some (Inl (InvalidStep stepStr part))
               else (case step_bounds part rangeStr minVal maxVal of
                       Inl e \<Rightarrow> Some (Inl e)
                     | Inr (rangeStart, rangeEnd) \<Rightarrow>
                         if rangeStart < minVal \<or> rangeStart > maxVal then Some (Inl (OutOfRange rangeStart part))
                         else if rangeEnd < minVal \<or> rangeEnd > maxVal then Some (Inl (OutOfRange rangeEnd part))
                         else map_option Inr (step_loop rangeStart rangeEnd step values)))
      | _ \<Rightarrow> Some (Inl (InvalidStepExpression part)))"

definition parse_range_part :: "string \<Rightarrow> int \<Rightarrow> int \<Rightarrow> int list \<Rightarrow> cron_error + int list" where
  "parse_range_part part minVal maxVal values =
     (case SplitN2 part CHR ''-'' of
        [a, b] \<Rightarrow>
          (case Atoi a of
             None \<Rightarrow> Inl (InvalidRangeStart part)
           | Some start \<Rightarrow>
               (case Atoi b of
                  None \<Rightarrow> Inl (InvalidRangeEnd part)
                | Some end \<Rightarrow>
                    if start < minVal \<or> start > maxVal then Inl (OutOfRange start part)
                    else if end < minVal \<or> end > maxVal then Inl (OutOfRange end part)
                    else if end < start then Inl (ReversedRange part)
                    else Inr (range_values start end values)))
      | _ \<Rightarrow> Inl (InvalidRange part))"

definition parseFieldPart :: "string \<Rightarrow> int \<Rightarrow> int \<Rightarrow> int list \<Rightarrow> (cron_error + int list) option" where
  "parseFieldPart part minVal maxVal values =
     (if Contains part ''/'' then parse_step_part part minVal maxVal values
      else if Contains part ''-'' then Some (parse_range_part part minVal maxVal values)
      else if part = ''*'' then Some (Inr (range_values minVal maxVal values))
      else (case Atoi part of
              None \<Rightarrow> Some (Inl (InvalidValue part))
            | Some v \<Rightarrow> if v < minVal \<or> v > maxVal then Some (Inl (OutOfRange v part))
                        else Some (Inr (v # values))))"

fun parse_parts :: "string list \<Rightarrow> int \<Rightarrow> int \<Rightarrow> int list \<Rightarrow> (cron_error + int list) option" where
  "parse_parts [] minVal maxVal values = Some (Inr values)"
| "parse_parts (part # parts) minVal maxVal values =
     (case parseFieldPart part minVal maxVal values of
        None \<Rightarrow> None
      | Some (Inl e) \<Rightarrow> Some (Inl e)
      | Some (Inr vs) \<Rightarrow> parse_parts parts minVal maxVal vs)"

definition parseField :: "string \<Rightarrow> int \<Rightarrow> int \<Rightarrow> (cron_error + cronField) option" where
  "parseField field minVal maxVal =
     map_option (\<lambda>r. case r of
         Inl e \<Rightarrow> Inl e
       | Inr vs \<Rightarrow> if vs = [] then Inl (NoValues field)
                   else Inr \<lparr>cf_values = vs, cf_min = minVal, cf_max = maxVal\<rparr>)
       (parse_parts (Split field CHR '','') minVal maxVal [])"

section \<open>The next time\<close>

type_synonym time = "int \<times> int"

definition time_Hour :: "int \<Rightarrow> int" where "time_Hour t = t mod 1440 div 60"
definition time_Minute :: "int \<Rightarrow> int" where "time_Minute t = t mod 60"

definition time_Date :: "int \<Rightarrow> int \<Rightarrow> int \<Rightarrow> int \<Rightarrow> int \<Rightarrow> int" where
  "time_Date y m d hh mm = date_days y m d * 1440 + hh * 60 + mm"

definition t_Year :: "int \<Rightarrow> int" where "t_Year t = Year (t div 1440)"
definition t_Month :: "int \<Rightarrow> int" where "t_Month t = Month (t div 1440)"
definition t_Day :: "int \<Rightarrow> int" where "t_Day t = Day (t div 1440)"
definition t_Weekday :: "int \<Rightarrow> int" where "t_Weekday t = Weekday (t div 1440)"

definition firstOfNextMonth :: "int \<Rightarrow> int" where
  "firstOfNextMonth t = time_Date (t_Year t) (t_Month t + 1) 1 0 0"

definition addOneDay :: "int \<Rightarrow> int" where
  "addOneDay t = time_Date (t_Year t) (t_Month t) (t_Day t + 1) 0 0"

text \<open>\<^verbatim>\<open>t.Before(deadline)\<close> for a whole minute \<open>t\<close>.\<close>

definition Before :: "int \<Rightarrow> time \<Rightarrow> bool" where
  "Before t deadline \<longleftrightarrow> t < fst deadline \<or> (t = fst deadline \<and> 0 < snd deadline)"

record schedule =
  s_minute :: cronField
  s_hour :: cronField
  s_day :: cronField
  s_month :: cronField
  s_dow :: cronField
  dayRestricted :: bool
  dowRestricted :: bool

definition dayOK :: "schedule \<Rightarrow> int \<Rightarrow> bool" where
  "dayOK s t =
     (let dayMatch = t_Day t \<in> set (cf_values (s_day s));
          dowMatch = t_Weekday t \<in> set (cf_values (s_dow s)) in
      if dayRestricted s \<and> dowRestricted s then dayMatch \<or> dowMatch
      else if dayRestricted s then dayMatch
      else if dowRestricted s then dowMatch
      else True)"

definition maxIterations :: int where
  "maxIterations = 5 * 366 * 24 * 60"

function search :: "schedule \<Rightarrow> time \<Rightarrow> int \<Rightarrow> int \<Rightarrow> int option" where
  "search s deadline iter t =
     (if Before t deadline \<and> iter < maxIterations
      then if t_Month t \<notin> set (cf_values (s_month s)) then search s deadline (iter + 1) (firstOfNextMonth t)
      else if \<not> dayOK s t then search s deadline (iter + 1) (addOneDay t)
      else if time_Hour t \<notin> set (cf_values (s_hour s))
        then search s deadline (iter + 1) (time_Date (t_Year t) (t_Month t) (t_Day t) (time_Hour t + 1) 0)
      else if time_Minute t \<notin> set (cf_values (s_minute s)) then search s deadline (iter + 1) (t + 1)
      else Some t
      else None)"
  by pat_completeness auto

termination search
  by (relation "measure (\<lambda>(s, deadline, iter, t). nat (maxIterations - iter))") auto

declare search.simps [simp del]

text \<open>\<^verbatim>\<open>from.AddDate(4, 0, 0)\<close>.\<close>

definition add_years :: "time \<Rightarrow> int \<Rightarrow> time" where
  "add_years from n =
     (time_Date (t_Year (fst from) + n) (t_Month (fst from)) (t_Day (fst from))
        (time_Hour (fst from)) (time_Minute (fst from)), snd from)"

text \<open>The fields of an expression, each parsed with its own bounds and its name in the error.\<close>

definition named_field :: "string \<Rightarrow> string \<Rightarrow> int \<Rightarrow> int \<Rightarrow> (cron_error + cronField) option" where
  "named_field name field minVal maxVal =
     map_option (\<lambda>r. case r of Inl e \<Rightarrow> Inl (InField name e) | Inr cf \<Rightarrow> Inr cf) (parseField field minVal maxVal)"

definition and_then :: "(cron_error + 'a) option \<Rightarrow> ('a \<Rightarrow> (cron_error + 'b) option) \<Rightarrow> (cron_error + 'b) option" where
  "and_then r f = (case r of None \<Rightarrow> None | Some (Inl e) \<Rightarrow> Some (Inl e) | Some (Inr x) \<Rightarrow> f x)"

definition parse_schedule :: "string \<Rightarrow> (cron_error + schedule) option" where
  "parse_schedule expr =
     (let fields = Fields expr in
      if length fields \<noteq> 5 then Some (Inl (FieldCount (length fields)))
      else and_then (named_field ''minute'' (fields ! 0) 0 59) (\<lambda>minute.
           and_then (named_field ''hour'' (fields ! 1) 0 23) (\<lambda>hour.
           and_then (named_field ''day-of-month'' (fields ! 2) 1 31) (\<lambda>day.
           and_then (named_field ''month'' (fields ! 3) 1 12) (\<lambda>month.
           and_then (named_field ''day-of-week'' (fields ! 4) 0 6) (\<lambda>dow.
             Some (Inr \<lparr>s_minute = minute, s_hour = hour, s_day = day, s_month = month, s_dow = dow,
                        dayRestricted = (\<not> isWildcard (fields ! 2)),
                        dowRestricted = (\<not> isWildcard (fields ! 4))\<rparr>)))))))"

definition NextTime :: "string \<Rightarrow> time \<Rightarrow> (cron_error + int) option" where
  "NextTime expr from =
     and_then (parse_schedule expr) (\<lambda>s.
       let t = time_Date (t_Year (fst from)) (t_Month (fst from)) (t_Day (fst from))
                 (time_Hour (fst from)) (time_Minute (fst from)) + 1 in
       case search s (add_years from 4) 0 t of
         Some t' \<Rightarrow> Some (Inr t')
       | None \<Rightarrow> Some (Inl (NoMatch expr)))"

section \<open>Parsing returns\<close>

lemma step_loop_stop: "rangeEnd < v \<Longrightarrow> step_loop v rangeEnd step vs = Some vs"
  by (simp add: step_loop.simps)

lemma step_loop_go:
  "v \<le> rangeEnd \<Longrightarrow> step_loop v rangeEnd step vs = step_loop (wrap64 (v + step)) rangeEnd step (v # vs)"
  by (simp add: step_loop.simps)

text \<open>A step that cannot overflow moves towards the end of the range.\<close>

lemma step_loop_values:
  assumes "0 < step" "rangeEnd + step \<le> max_int" "min_int \<le> v"
  shows "\<exists>ws. step_loop v rangeEnd step vs = Some ws \<and>
     set ws = set vs \<union> {w. v \<le> w \<and> w \<le> rangeEnd \<and> step dvd (w - v)}"
  using assms(3)
proof (induction "nat (rangeEnd + 1 - v)" arbitrary: v vs rule: less_induct)
  case less
  show ?case
  proof (cases "v \<le> rangeEnd")
    case False
    then show ?thesis by (auto simp: step_loop_stop)
  next
    case True
    have w: "wrap64 (v + step) = v + step"
      using True less.prems assms by (simp add: is_int64_def)
    have "nat (rangeEnd + 1 - (v + step)) < nat (rangeEnd + 1 - v)" using True assms(1) by simp
    from less.hyps [OF this, of "v # vs"] obtain ws where
      ws: "step_loop (v + step) rangeEnd step (v # vs) = Some ws"
        "set ws = set (v # vs) \<union> {w. v + step \<le> w \<and> w \<le> rangeEnd \<and> step dvd (w - (v + step))}"
      using less.prems assms(1) by auto
    have "{w. v \<le> w \<and> w \<le> rangeEnd \<and> step dvd (w - v)} =
        insert v {w. v + step \<le> w \<and> w \<le> rangeEnd \<and> step dvd (w - (v + step))}"
    proof (intro set_eqI iffI)
      fix w
      assume a: "w \<in> {w. v \<le> w \<and> w \<le> rangeEnd \<and> step dvd (w - v)}"
      then obtain k where k: "w - v = step * k" by auto
      show "w \<in> insert v {w. v + step \<le> w \<and> w \<le> rangeEnd \<and> step dvd (w - (v + step))}"
      proof (cases "k \<le> 0")
        case True
        then have "step * k \<le> 0" using assms(1) by (simp add: mult_nonneg_nonpos)
        then show ?thesis using a k by auto
      next
        case False
        then have "step * 1 \<le> step * k" using assms(1) by (intro mult_left_mono) auto
        have "w - (v + step) = step * (k - 1)" using k by (simp add: algebra_simps)
        then have "step dvd (w - (v + step))" by (rule dvdI)
        moreover have "v + step \<le> w" using \<open>step * 1 \<le> step * k\<close> k by linarith
        ultimately show ?thesis using a by blast
      qed
    next
      fix w
      assume "w \<in> insert v {w. v + step \<le> w \<and> w \<le> rangeEnd \<and> step dvd (w - (v + step))}"
      then consider "w = v" | "v + step \<le> w" "w \<le> rangeEnd" "step dvd (w - (v + step))" by blast
      then show "w \<in> {w. v \<le> w \<and> w \<le> rangeEnd \<and> step dvd (w - v)}"
      proof cases
        case 2
        have "w - v = (w - (v + step)) + step" by simp
        then have "step dvd (w - v)" using 2(3) by (metis dvd_add dvd_refl)
        then show ?thesis using 2 assms(1) by simp
      qed (use True in simp)
    qed
    with ws True show ?thesis by (auto simp: step_loop_go w)
  qed
qed

text \<open>A step that does overflow comes back two rounds later, lower by twice its distance from \<open>2 ^ 63\<close>.\<close>

lemma step_loop_wraps:
  assumes "max_int < rangeEnd + step" "step \<le> max_int" "0 \<le> rangeEnd" "rangeEnd \<le> 2305843009213693952"
    and "- 2305843009213693952 \<le> v" "v \<le> rangeEnd"
  shows "\<exists>ws. step_loop v rangeEnd step vs = Some ws"
  using assms(5,6)
proof (induction "nat (v + 2305843009213693952)" arbitrary: v vs rule: less_induct)
  case less
  show ?case
  proof (cases "v + step \<le> max_int")
    case True
    have "wrap64 (v + step) = v + step"
      using True less.prems assms by (intro wrap64_small) (auto simp: max_int_def)
    moreover have "rangeEnd < v + step" using less.prems assms by (simp add: max_int_def)
    ultimately show ?thesis using less.prems by (simp add: step_loop_go step_loop_stop)
  next
    case False
    define u where "u = v + step - 18446744073709551616"
    have u: "wrap64 (v + step) = u"
    proof -
      have "(v + step - min_int) mod 18446744073709551616 = v + step - min_int - 18446744073709551616"
        using False less.prems assms
        by (intro int_mod_pos_eq [where q = 1]) (auto simp: max_int_def min_int_def)
      then show ?thesis by (simp add: wrap64_def u_def)
    qed
    define v' where "v' = u + step"
    have v': "wrap64 (u + step) = v'" "v' < v" "- 2305843009213693952 \<le> v'"
      using False less.prems assms
      by (auto simp: v'_def u_def max_int_def intro!: wrap64_small)
    from less.hyps [of v' "u # v # vs"] v'(2,3) less.prems obtain ws where
      "step_loop v' rangeEnd step (u # v # vs) = Some ws" by auto
    moreover have "u \<le> rangeEnd" using less.prems assms by (simp add: u_def max_int_def)
    ultimately show ?thesis using less.prems by (simp add: step_loop_go u v'(1))
  qed
qed

lemma step_loop_returns:
  assumes "0 < step" "is_int64 step" "0 \<le> v" "0 \<le> rangeEnd" "rangeEnd \<le> 2305843009213693952"
  shows "\<exists>ws. step_loop v rangeEnd step vs = Some ws"
proof (cases "v \<le> rangeEnd \<and> max_int < rangeEnd + step")
  case True
  then show ?thesis using assms by (intro step_loop_wraps) (auto simp: is_int64_def)
next
  case False
  then consider "rangeEnd < v" | "rangeEnd + step \<le> max_int" by linarith
  then show ?thesis
  proof cases
    case 2
    then show ?thesis using step_loop_values [of step rangeEnd v vs] assms by (auto simp: min_int_def)
  qed (simp add: step_loop_stop)
qed

lemma parse_step_part_returns:
  assumes "0 \<le> minVal" "maxVal \<le> 2305843009213693952"
  shows "\<exists>r. parse_step_part part minVal maxVal values = Some r"
proof (rule ccontr)
  assume none: "\<not> ?thesis"
  then obtain st step a b where "Atoi st = Some step" "\<not> step \<le> 0" "\<not> (a < minVal \<or> a > maxVal)"
    "\<not> (b < minVal \<or> b > maxVal)" "step_loop a b step values = None"
    unfolding parse_step_part_def by (force split: list.splits option.splits sum.splits if_splits prod.splits)
  moreover from this have "\<exists>ws. step_loop a b step values = Some ws"
    using assms Atoi_int64 [of st step] by (intro step_loop_returns) auto
  ultimately show False by simp
qed

lemma parseFieldPart_returns:
  assumes "0 \<le> minVal" "maxVal \<le> 2305843009213693952"
  shows "\<exists>r. parseFieldPart part minVal maxVal values = Some r"
  using parse_step_part_returns [OF assms]
  by (auto simp: parseFieldPart_def split: option.split)

lemma parse_parts_returns:
  assumes "0 \<le> minVal" "maxVal \<le> 2305843009213693952"
  shows "\<exists>r. parse_parts parts minVal maxVal vals = Some r"
proof (induction parts arbitrary: vals)
  case (Cons part parts)
  obtain r where "parseFieldPart part minVal maxVal vals = Some r"
    using parseFieldPart_returns [OF assms] by blast
  then show ?case using Cons by (cases r) auto
qed simp

lemma named_field_returns:
  "0 \<le> minVal \<Longrightarrow> maxVal \<le> 2305843009213693952 \<Longrightarrow> \<exists>r. named_field name field minVal maxVal = Some r"
  using parse_parts_returns [of minVal maxVal] by (fastforce simp: named_field_def parseField_def)

lemma and_then_returns: "(\<exists>r. x = Some r) \<Longrightarrow> (\<And>y. \<exists>r. f y = Some r) \<Longrightarrow> \<exists>r. and_then x f = Some r"
  by (auto simp: and_then_def split: sum.split)

lemma parse_schedule_returns: "\<exists>r. parse_schedule expr = Some r"
  unfolding parse_schedule_def Let_def
  by (cases "length (Fields expr) = 5") (auto intro!: and_then_returns named_field_returns)

section \<open>The search finds the next match\<close>

definition cron_matches :: "schedule \<Rightarrow> int \<Rightarrow> bool" where
  "cron_matches s t \<longleftrightarrow> t_Month t \<in> set (cf_values (s_month s)) \<and> dayOK s t \<and>
     time_Hour t \<in> set (cf_values (s_hour s)) \<and> time_Minute t \<in> set (cf_values (s_minute s))"

text \<open>Where the search goes from a minute that does not match.\<close>

definition advance :: "schedule \<Rightarrow> int \<Rightarrow> int" where
  "advance s t =
     (if t_Month t \<notin> set (cf_values (s_month s)) then firstOfNextMonth t
      else if \<not> dayOK s t then addOneDay t
      else if time_Hour t \<notin> set (cf_values (s_hour s))
        then time_Date (t_Year t) (t_Month t) (t_Day t) (time_Hour t + 1) 0
      else t + 1)"

lemma search_unfold:
  "search s deadline iter t =
     (if Before t deadline \<and> iter < maxIterations
      then if cron_matches s t then Some t else search s deadline (iter + 1) (advance s t)
      else None)"
  by (subst search.simps) (auto simp: cron_matches_def advance_def)

lemma day_of_hour: "t div 1440 = (t :: int) div 60 div 24" "t mod 1440 div 60 = (t :: int) div 60 mod 24"
proof -
  show "t div 1440 = t div 60 div 24" using zdiv_zmult2_eq [of 24 t 60] by simp
  have "t mod 1440 = 60 * (t div 60 mod 24) + t mod 60" using zmod_zmult2_eq [of 24 t 60] by simp
  then show "t mod 1440 div 60 = t div 60 mod 24" by simp
qed

lemma before_next_month: "n < date_days (Year n) (Month n + 1) 1"
proof -
  have m: "1 \<le> Month n" "Month n \<le> 12" by (rule civil_spec)+
  show ?thesis
    using civil_spec(4,5) [of n] date_days_next_month [OF m, of "Year n"] date_days_id [OF m, of "Year n" 1]
    by simp
qed

lemma time_Date_id: "time_Date (t_Year t) (t_Month t) (t_Day t) (time_Hour t) (time_Minute t) = t"
proof -
  have "t mod 60 = t mod 1440 mod 60" by (simp add: mod_mod_cancel)
  then have "t div 1440 * 1440 + t mod 1440 div 60 * 60 + t mod 60 = t div 1440 * 1440 + t mod 1440" by simp
  also have "\<dots> = t" by simp
  finally show ?thesis
    by (simp add: time_Date_def t_Year_def t_Month_def t_Day_def date_days_civil time_Hour_def time_Minute_def)
qed

lemma div_same:
  fixes t u k :: int
  assumes "0 < k" "t \<le> u" "u < (t div k + 1) * k"
  shows "u div k = t div k"
proof (rule antisym)
  show "t div k \<le> u div k" using assms by (simp add: zdiv_mono1)
  show "u div k \<le> t div k"
  proof (rule ccontr)
    assume "\<not> ?thesis"
    then have "(t div k + 1) * k \<le> u div k * k" using assms(1) by (intro mult_right_mono) auto
    also have "\<dots> \<le> u" using assms(1) by (simp add: minus_mod_eq_div_mult [symmetric])
    finally show False using assms(3) by simp
  qed
qed

lemma before_next_multiple: "0 < k \<Longrightarrow> (t :: int) < (t div k + 1) * k"
proof -
  assume "0 < k"
  then have "t - t div k * k < k" using pos_mod_bound [of k t] by (simp add: minus_div_mult_eq_mod)
  then show ?thesis by (simp add: distrib_right)
qed

text \<open>Every minute the search steps over fails the test the search failed on.\<close>

lemma advance_skips:
  assumes "\<not> cron_matches s t"
  shows "t < advance s t \<and> (\<forall>u. t \<le> u \<and> u < advance s t \<longrightarrow> \<not> cron_matches s u)"
proof -
  consider (month) "t_Month t \<notin> set (cf_values (s_month s))" "advance s t = firstOfNextMonth t"
    | (day) "\<not> dayOK s t" "advance s t = addOneDay t"
    | (hour) "time_Hour t \<notin> set (cf_values (s_hour s))"
        "advance s t = time_Date (t_Year t) (t_Month t) (t_Day t) (time_Hour t + 1) 0"
    | (minute) "time_Minute t \<notin> set (cf_values (s_minute s))" "advance s t = t + 1"
    using assms unfolding advance_def cron_matches_def by metis
  then show ?thesis
  proof cases
    case month
    have e: "advance s t = date_days (t_Year t) (t_Month t + 1) 1 * 1440"
      using month by (simp add: firstOfNextMonth_def time_Date_def)
    have "t div 1440 < date_days (t_Year t) (t_Month t + 1) 1"
      using before_next_month by (simp add: t_Year_def t_Month_def)
    then have "t < advance s t" using e by linarith
    moreover have "\<not> cron_matches s u" if u: "t \<le> u" "u < advance s t" for u
    proof -
      have "t div 1440 \<le> u div 1440" "u div 1440 < date_days (t_Year t) (t_Month t + 1) 1"
        using u e by (auto simp: zdiv_mono1)
      then have "t_Month u = t_Month t"
        using same_month [of "t div 1440" "u div 1440"] by (simp add: t_Year_def t_Month_def)
      with month show ?thesis by (simp add: cron_matches_def)
    qed
    ultimately show ?thesis by blast
  next
    case day
    have e: "advance s t = (t div 1440 + 1) * 1440"
      using day by (simp add: addOneDay_def time_Date_def date_days_plus t_Year_def t_Month_def t_Day_def date_days_civil)
    moreover have "\<not> cron_matches s u" if u: "t \<le> u" "u < advance s t" for u
    proof -
      have "u div 1440 = t div 1440" using u e by (intro div_same) simp_all
      with day show ?thesis by (simp add: cron_matches_def dayOK_def t_Day_def t_Weekday_def)
    qed
    moreover have "t < (t div 1440 + 1) * 1440" by (rule before_next_multiple) simp
    ultimately show ?thesis by simp
  next
    case hour
    have "advance s t = t div 1440 * 1440 + (t mod 1440 div 60 + 1) * 60"
      using hour by (simp add: time_Date_def t_Year_def t_Month_def t_Day_def date_days_civil time_Hour_def)
    then have "advance s t = t div 60 div 24 * 1440 + (t div 60 mod 24 + 1) * 60" unfolding day_of_hour .
    moreover have "t div 60 div 24 * 24 + t div 60 mod 24 = t div 60" by (rule div_mult_mod_eq)
    moreover have "a = q * 1440 + (r + 1) * 60 \<Longrightarrow> q * 24 + r = hh \<Longrightarrow> a = (hh + 1) * 60" for a q r hh :: int
      by (simp add: algebra_simps)
    ultimately have e: "advance s t = (t div 60 + 1) * 60" by blast
    moreover have "\<not> cron_matches s u" if u: "t \<le> u" "u < advance s t" for u
    proof -
      have "u div 60 = t div 60" using u e by (intro div_same) simp_all
      with hour show ?thesis by (simp add: cron_matches_def time_Hour_def day_of_hour)
    qed
    moreover have "t < (t div 60 + 1) * 60" by (rule before_next_multiple) simp
    ultimately show ?thesis by simp
  next
    case minute
    then show ?thesis by (auto simp: cron_matches_def)
  qed
qed

lemma search_finds:
  assumes "fst deadline + 1 - t \<le> maxIterations - iter"
  shows "(case search s deadline iter t of
      Some u \<Rightarrow> t \<le> u \<and> Before u deadline \<and> cron_matches s u \<and> (\<forall>w. t \<le> w \<and> w < u \<longrightarrow> \<not> cron_matches s w)
    | None \<Rightarrow> \<forall>w. t \<le> w \<and> Before w deadline \<longrightarrow> \<not> cron_matches s w)"
  using assms
proof (induction "nat (maxIterations - iter)" arbitrary: iter t rule: less_induct)
  case less
  show ?case
  proof (cases "Before t deadline")
    case False
    then show ?thesis by (subst search_unfold) (auto simp: Before_def)
  next
    case True
    then have it: "iter < maxIterations" using less.prems by (auto simp: Before_def)
    show ?thesis
    proof (cases "cron_matches s t")
      case m: True
      then show ?thesis using True it by (subst search_unfold) auto
    next
      case False
      note skip = advance_skips [OF False]
      let ?r = "search s deadline (iter + 1) (advance s t)"
      have eq: "search s deadline iter t = ?r" using True False it by (subst search_unfold) simp
      have ih: "case ?r of
          Some u \<Rightarrow> advance s t \<le> u \<and> Before u deadline \<and> cron_matches s u \<and>
            (\<forall>w. advance s t \<le> w \<and> w < u \<longrightarrow> \<not> cron_matches s w)
        | None \<Rightarrow> \<forall>w. advance s t \<le> w \<and> Before w deadline \<longrightarrow> \<not> cron_matches s w"
        using less.hyps [of "iter + 1" "advance s t"] less.prems it skip by simp
      show ?thesis
      proof (cases ?r)
        case None
        with ih have "\<And>w. advance s t \<le> w \<Longrightarrow> Before w deadline \<Longrightarrow> \<not> cron_matches s w" by auto
        then have "\<not> cron_matches s w" if "t \<le> w" "Before w deadline" for w
          using that skip by (cases "w < advance s t") auto
        then show ?thesis unfolding eq None by auto
      next
        case (Some u)
        with ih have u: "advance s t \<le> u" "Before u deadline" "cron_matches s u"
          "\<And>w. advance s t \<le> w \<Longrightarrow> w < u \<Longrightarrow> \<not> cron_matches s w" by auto
        then have "\<not> cron_matches s w" if "t \<le> w" "w < u" for w
          using that skip by (cases "w < advance s t") auto
        with u skip show ?thesis unfolding eq Some by auto
      qed
    qed
  qed
qed

lemma four_years: "fst (add_years from 4) \<le> fst from + 1465 * 1440"
proof -
  let ?n = "fst from div 1440"
  have y1: "year_start (k + 1) \<le> year_start k + 366" for k by (simp add: year_start_next)
  have y4: "year_start (y + 4) \<le> year_start y + 1464" for y
    using y1 [of y] y1 [of "y + 1"] y1 [of "y + 2"] y1 [of "y + 3"] by (simp add: add.assoc)
  have ms: "month_start y' k \<le> month_start y k + 1" if "1 \<le> k" "k \<le> 12" for y y' k
  proof -
    have "k = 1 \<or> k = 2 \<or> k = 3 \<or> k = 4 \<or> k = 5 \<or> k = 6 \<or> k = 7 \<or> k = 8 \<or> k = 9 \<or> k = 10 \<or> k = 11 \<or> k = 12"
      using that by presburger
    then show ?thesis by (elim disjE) (simp_all add: month_start_def month_table_def)
  qed
  have "date_days (Year ?n + 4) (Month ?n) (Day ?n) \<le> date_days (Year ?n) (Month ?n) (Day ?n) + 1465"
    using y4 [of "Year ?n"] ms [of "Month ?n" "Year ?n + 4" "Year ?n"] civil_spec(1,2) [of ?n]
    by (simp add: date_days_id)
  then show ?thesis
    using time_Date_id [of "fst from"]
    by (simp add: add_years_def time_Date_def t_Year_def t_Month_def t_Day_def)
qed

lemma NextTime_search:
  assumes "parse_schedule expr = Some (Inr s)"
  shows "NextTime expr from =
    (case search s (add_years from 4) 0 (fst from + 1) of
       Some t \<Rightarrow> Some (Inr t) | None \<Rightarrow> Some (Inl (NoMatch expr)))"
  using assms by (simp add: NextTime_def and_then_def time_Date_id)

section \<open>Values of a field\<close>

text \<open>The step of a part, if it has one.\<close>

definition part_step :: "string \<Rightarrow> int option" where
  "part_step part = (case SplitN2 part CHR ''/'' of [_, stepStr] \<Rightarrow> Atoi stepStr | _ \<Rightarrow> None)"

lemma parse_step_part_range:
  assumes "parse_step_part part minVal maxVal vals = Some (Inr ws)" "set vals \<subseteq> {minVal..maxVal}"
    and "\<forall>step. part_step part = Some step \<longrightarrow> maxVal + step \<le> max_int" "min_int \<le> minVal"
  shows "set ws \<subseteq> {minVal..maxVal}"
proof -
  from assms(1) obtain step a b where p: "part_step part = Some step" "0 < step"
    "minVal \<le> a" "a \<le> maxVal" "b \<le> maxVal" "step_loop a b step vals = Some ws"
    unfolding parse_step_part_def part_step_def
    by (auto simp: not_less not_le split: list.splits option.splits sum.splits if_splits prod.splits)
  then have "set ws = set vals \<union> {w. a \<le> w \<and> w \<le> b \<and> step dvd (w - a)}"
    using step_loop_values [of step b a vals] assms(3,4) by fastforce
  then show ?thesis using p assms(2) by auto
qed

lemma parseFieldPart_range:
  assumes "parseFieldPart part minVal maxVal vals = Some (Inr ws)" "set vals \<subseteq> {minVal..maxVal}"
    and "\<forall>step. part_step part = Some step \<longrightarrow> maxVal + step \<le> max_int" "min_int \<le> minVal"
  shows "set ws \<subseteq> {minVal..maxVal}"
proof (cases "Contains part ''/''")
  case True
  then show ?thesis
    using assms parse_step_part_range [of part minVal maxVal vals ws] by (simp add: parseFieldPart_def)
next
  case False
  have "set ws \<subseteq> {minVal..maxVal}" if "parse_range_part part minVal maxVal vals = Inr ws"
    using that assms(2) unfolding parse_range_part_def range_values_def
    by (force split: list.splits option.splits if_splits)
  with False assms(1,2) show ?thesis
    by (auto simp: parseFieldPart_def range_values_def subset_iff not_less split: if_splits option.splits)
qed

lemma parse_parts_range:
  assumes "parse_parts parts minVal maxVal vals = Some (Inr ws)" "set vals \<subseteq> {minVal..maxVal}"
    and "\<forall>part \<in> set parts. \<forall>step. part_step part = Some step \<longrightarrow> maxVal + step \<le> max_int" "min_int \<le> minVal"
  shows "set ws \<subseteq> {minVal..maxVal}"
  using assms(1,2,3)
proof (induction parts arbitrary: vals)
  case (Cons part parts)
  from Cons.prems(1) obtain vs where vs: "parseFieldPart part minVal maxVal vals = Some (Inr vs)"
    "parse_parts parts minVal maxVal vs = Some (Inr ws)" by (auto split: option.splits sum.splits)
  have "set vs \<subseteq> {minVal..maxVal}"
    using parseFieldPart_range [OF vs(1) Cons.prems(2)] Cons.prems(3) assms(4) by simp
  with Cons.IH [OF vs(2)] Cons.prems(3) show ?case by simp
qed simp

section \<open>Properties\<close>


text \<open>
  C28. \<^verbatim>\<open>NextTime\<close> returns for every expression and every time: no stepped range, however large its
  step, loops forever, although the loop variable wraps around at 64 bits for steps near the largest
  integer.
\<close>

theorem next_time_returns: "\<exists>r. NextTime expr from = Some r"
  using parse_schedule_returns [of expr]
  by (auto simp: NextTime_def and_then_def Let_def split: sum.split option.split)

text \<open>
  The values of a parsed field lie within its bounds and there is at least one, provided no step
  is so large that adding it to the upper bound overflows 64 bits.
\<close>

theorem field_values_in_range:
  assumes "parseField field minVal maxVal = Some (Inr cf)" "min_int \<le> minVal"
    and "\<forall>part \<in> set (Split field CHR '',''). \<forall>step. part_step part = Some step \<longrightarrow> maxVal + step \<le> max_int"
  shows "cf_values cf \<noteq> [] \<and> set (cf_values cf) \<subseteq> {minVal..maxVal}"
proof -
  from assms(1) obtain ws where "parse_parts (Split field CHR '','') minVal maxVal [] = Some (Inr ws)"
    "ws \<noteq> []" "cf_values cf = ws"
    by (cases "parse_parts (Split field CHR '','') minVal maxVal []")
      (auto simp: parseField_def split: sum.splits if_splits)
  then show ?thesis using parse_parts_range [of _ minVal maxVal "[]" ws] assms by auto
qed

text \<open>
  A step at the largest integer wraps around and adds values that the range does not contain: the
  minute field \<^verbatim>\<open>3/9223372036854775807\<close>, which names minute 3 only, also matches minute 1.
\<close>

theorem cron_step_wraps:
  "\<exists>cf. parseField ''3/9223372036854775807'' 0 59 = Some (Inr cf) \<and>
     3 \<in> set (cf_values cf) \<and> 1 \<in> set (cf_values cf)"
proof -
  have "Split ''3/9223372036854775807'' CHR '','' = [''3/9223372036854775807'']"
    "Contains ''3/9223372036854775807'' ''/''"
    "SplitN2 ''3/9223372036854775807'' CHR ''/'' = [''3'', ''9223372036854775807'']"
    "step_bounds ''3/9223372036854775807'' ''3'' 0 59 = Inr (3, 59)" by code_simp+
  moreover have "Atoi ''9223372036854775807'' = Some max_int"
    by (simp add: parse_digits_def read_nat_def digit_val_def byte_val_def is_digit_def in_range_def
        is_int64_def max_int_def min_int_def)
  moreover have "step_loop 3 59 max_int [] =
      Some [-1, -9223372036854775808, 1, -9223372036854775806, 3]"
    by (simp add: step_loop_go step_loop_stop wrap64_def min_int_def max_int_def)
  ultimately show ?thesis
    by (simp add: parseField_def parseFieldPart_def parse_step_part_def max_int_def)
qed

text \<open>Weekdays at 09:30, asked on Friday 2 January 1970 at 09:30: Monday 5 January.\<close>

definition demo_cron :: string where
  "demo_cron = ''30 9 * * 1-5''"


theorem field_values_in_range_witness:
  "\<exists>cf. parseField ''*/15'' 0 59 = Some (Inr cf) \<and> cf_values cf \<noteq> [] \<and> set (cf_values cf) \<subseteq> {0..59}"
proof -
  have p: "parseField ''*/15'' 0 59 = Some (Inr \<lparr>cf_values = [45, 30, 15, 0], cf_min = 0, cf_max = 59\<rparr>)"
    by code_simp
  have "\<forall>part \<in> set (Split ''*/15'' CHR '',''). part_step part = Some 15" by code_simp
  then show ?thesis
    using field_values_in_range [OF p] p by (auto simp: min_int_def max_int_def)
qed

end
