(* ===== verification/Utf8.thy ===== *)
theory Utf8
  imports Prelude
begin

text \<open>
  What \<^verbatim>\<open>encoding/json\<close> does to strings: \<^verbatim>\<open>Marshal\<close> replaces every byte that is not part of valid
  UTF-8 by the replacement character, so a string that is not valid UTF-8 is read back changed.
\<close>

section \<open>Valid UTF-8\<close>

definition byte_in :: "nat \<Rightarrow> nat \<Rightarrow> string \<Rightarrow> nat \<Rightarrow> bool" where
  "byte_in lo hi s i \<longleftrightarrow> i < length s \<and> in_range lo hi (s ! i)"

text \<open>The length of the encoded character at the start of the text, 0 if there is none.\<close>

definition rune_len :: "string \<Rightarrow> nat" where
  "rune_len s =
     (if byte_in 0 127 s 0 then 1
      else if byte_in 194 223 s 0 \<and> byte_in 128 191 s 1 then 2
      else if (byte_in 224 224 s 0 \<and> byte_in 160 191 s 1 \<or>
               (byte_in 225 236 s 0 \<or> byte_in 238 239 s 0) \<and> byte_in 128 191 s 1 \<or>
               byte_in 237 237 s 0 \<and> byte_in 128 159 s 1) \<and> byte_in 128 191 s 2 then 3
      else if (byte_in 240 240 s 0 \<and> byte_in 144 191 s 1 \<or>
               byte_in 241 243 s 0 \<and> byte_in 128 191 s 1 \<or>
               byte_in 244 244 s 0 \<and> byte_in 128 143 s 1) \<and> byte_in 128 191 s 2 \<and> byte_in 128 191 s 3 then 4
      else 0)"

definition rune_error :: string where
  "rune_error = [CHR 0xEF, CHR 0xBF, CHR 0xBD]"

text \<open>What a string is after it was written to JSON and read back.\<close>

function json_text :: "string \<Rightarrow> string" where
  "json_text s =
     (if s = '''' then ''''
      else if rune_len s = 0 then rune_error @ json_text (tl s)
      else take (rune_len s) s @ json_text (drop (rune_len s) s))"
  by pat_completeness auto

termination json_text
  by (relation "measure length") auto

declare json_text.simps [simp del]

section \<open>Text that JSON keeps\<close>

definition utf8_ok :: "string \<Rightarrow> bool" where
  "utf8_ok s \<longleftrightarrow> json_text s = s"

lemma json_text_ascii: "in_range 0 127 c \<Longrightarrow> json_text (c # s) = c # json_text s"
  by (subst json_text.simps) (simp add: rune_len_def byte_in_def)

lemma json_text_append: "list_all (in_range 0 127) u \<Longrightarrow> json_text (u @ s) = u @ json_text s"
  by (induction u) (auto simp: json_text_ascii)

lemma utf8_ok_ascii: "list_all (in_range 0 127) s \<Longrightarrow> utf8_ok s"
  using json_text_append [of s "''''"] by (simp add: utf8_ok_def json_text.simps)

lemma byte_val_lt: "byte_val c < 256"
  by (simp add: byte_val_def)

lemma hex_ascii: "list_all (in_range 0 127) (EncodeToString bs)"
proof -
  have "in_range 0 127 (hex_digit k)" if "k < 16" for k
    using that by (simp add: hex_digit_def in_range_def byte_val_def)
  then show ?thesis
    using byte_val_lt by (fastforce simp: EncodeToString_def list_all_iff less_mult_imp_div_less)
qed

end
