(* ===== verification/CronStore.thy ===== *)
theory CronStore
  imports CronExpr Utf8 "HOL-Library.AList"
begin

text \<open>
  The files of the cron scheduler: the session store that \<^verbatim>\<open>save\<close> writes and \<^verbatim>\<open>Load\<close> reads
  (\<^verbatim>\<open>internal/cron/scheduler.go\<close>) and the migration of the old store, one bucket of jobs per workspace
  (\<^verbatim>\<open>internal/cron/migration.go\<close>). A disk maps paths to parsed contents; what a system call may
  answer is an argument. Times are nanoseconds since 1970, the zone is UTC.
\<close>

section \<open>Times as text\<close>

abbreviation nsec :: int where "nsec \<equiv> 1000000000"
abbreviation nmin :: int where "nmin \<equiv> 60000000000"

text \<open>\<^verbatim>\<open>time.Time{}\<close>, the first second of the year 1.\<close>

definition zeroTime :: int where
  "zeroTime = - 62135596800 * nsec"

definition pad :: "nat \<Rightarrow> int \<Rightarrow> string" where
  "pad w n = (let d = Itoa n in replicate (w - length d) CHR ''0'' @ d)"

text \<open>\<^verbatim>\<open>Format(time.RFC3339)\<close>\<close>

definition format3339 :: "int \<Rightarrow> string" where
  "format3339 t =
     (let m = t div nmin in
      pad 4 (t_Year m) @ ''-'' @ pad 2 (t_Month m) @ ''-'' @ pad 2 (t_Day m) @ ''T'' @
      pad 2 (time_Hour m) @ '':'' @ pad 2 (time_Minute m) @ '':'' @ pad 2 (t mod nmin div nsec) @ ''Z'')"

text \<open>
  \<^verbatim>\<open>time.Parse(time.RFC3339, s)\<close> for the spellings of RFC 3339: a number of fixed width within bounds
  at each position, then a fraction and a zone.
\<close>

definition num_at :: "nat \<Rightarrow> nat \<Rightarrow> int \<Rightarrow> int \<Rightarrow> string \<Rightarrow> int option" where
  "num_at i w lo hi s =
     (let d = take w (drop i s); n = int (read_nat d) in
      if length d = w \<and> list_all is_digit d \<and> lo \<le> n \<and> n \<le> hi then Some n else None)"

definition parse_zone :: "string \<Rightarrow> int option" where
  "parse_zone z =
     (if z = ''Z'' then Some 0
      else if length z = 6 \<and> z ! 0 \<in> {CHR ''+'', CHR ''-''} \<and> z ! 3 = CHR '':''
      then (case (num_at 1 2 0 23 z, num_at 4 2 0 59 z) of
              (Some hh, Some mm) \<Rightarrow> Some ((if z ! 0 = CHR ''-'' then - 1 else 1) * (hh * 60 + mm))
            | _ \<Rightarrow> None)
      else None)"

text \<open>The fraction in nanoseconds, digits after the ninth dropped, and the text behind it.\<close>

definition parse_frac :: "string \<Rightarrow> int \<times> string" where
  "parse_frac r =
     (if HasPrefix r ''.'' \<and> takeWhile is_digit (tl r) \<noteq> ''''
      then (let d = take 9 (takeWhile is_digit (tl r)) in
            (int (read_nat (d @ replicate (9 - length d) CHR ''0'')), dropWhile is_digit (tl r)))
      else (0, r))"

definition parse3339 :: "string \<Rightarrow> int option" where
  "parse3339 s =
     (if length s < 20 \<or> s ! 4 \<noteq> CHR ''-'' \<or> s ! 7 \<noteq> CHR ''-'' \<or> s ! 10 \<noteq> CHR ''T'' \<or>
         s ! 13 \<noteq> CHR '':'' \<or> s ! 16 \<noteq> CHR '':'' then None
      else (case (num_at 0 4 0 9999 s, num_at 5 2 1 12 s) of
              (Some year, Some month) \<Rightarrow>
                (case (num_at 8 2 1 (month_days year month) s, num_at 11 2 0 23 s,
                       num_at 14 2 0 59 s, num_at 17 2 0 59 s, parse_zone (snd (parse_frac (drop 19 s)))) of
                   (Some day, Some hour, Some minute, Some second, Some zone) \<Rightarrow>
                     Some ((time_Date year month day hour minute - zone) * nmin + second * nsec +
                           fst (parse_frac (drop 19 s)))
                 | _ \<Rightarrow> None)
            | _ \<Rightarrow> None))"

section \<open>Stores\<close>

record jobJSON =
  jj_ID :: string
  jj_CronExpr :: string
  jj_Prompt :: string
  jj_Recurring :: bool
  jj_QueueIfBusy :: bool
  jj_Paused :: bool
  jj_CreatedAt :: string

record workspaceBucket =
  wb_Workspace :: string
  wb_Jobs :: "jobJSON list"
  wb_MigratedTo :: string

text \<open>
  The contents of a file: a \<^verbatim>\<open>sessionStore\<close>, an \<^verbatim>\<open>oldStoreFile\<close> (its keys are hexadecimal, so it is
  also a session store without jobs), or text that is neither.
\<close>

datatype StoreFile =
    SessionStore "jobJSON list"
  | OldStore "(string \<times> workspaceBucket) list"
  | OtherText

type_synonym cron_disk = "string \<Rightarrow> StoreFile option"

fun read_session :: "StoreFile option \<Rightarrow> jobJSON list option" where
  "read_session (Some (SessionStore jobs)) = Some jobs"
| "read_session (Some (OldStore _)) = Some []"
| "read_session _ = None"

fun read_old :: "StoreFile option \<Rightarrow> (string \<times> workspaceBucket) list option" where
  "read_old (Some (OldStore sf)) = Some sf"
| "read_old _ = None"

definition json_job :: "jobJSON \<Rightarrow> jobJSON" where
  "json_job j = j\<lparr>jj_ID := json_text (jj_ID j), jj_CronExpr := json_text (jj_CronExpr j),
     jj_Prompt := json_text (jj_Prompt j), jj_CreatedAt := json_text (jj_CreatedAt j)\<rparr>"

definition json_bucket :: "workspaceBucket \<Rightarrow> workspaceBucket" where
  "json_bucket b = b\<lparr>wb_Workspace := json_text (wb_Workspace b), wb_Jobs := map json_job (wb_Jobs b),
     wb_MigratedTo := json_text (wb_MigratedTo b)\<rparr>"

definition write_old :: "(string \<times> workspaceBucket) list \<Rightarrow> StoreFile" where
  "write_old sf = OldStore (map (\<lambda>(k, b). (json_text k, json_bucket b)) sf)"

text \<open>
  The part of \<^verbatim>\<open>save\<close> that keeps what another process stored: recurring jobs on disk that this
  scheduler does not hold and never held.
\<close>

definition merge_jobs :: "jobJSON list \<Rightarrow> jobJSON list \<Rightarrow> string list \<Rightarrow> jobJSON list" where
  "merge_jobs jobs onDisk knownIDs =
     jobs @ filter (\<lambda>jj. jj_Recurring jj \<and> jj_ID jj \<notin> set (map jj_ID jobs) \<and> jj_ID jj \<notin> set knownIDs) onDisk"

datatype store_error = RemoveStore | RemoveLock | CreateDir | WriteStore

text \<open>What the system calls of one \<^verbatim>\<open>save\<close> answer.\<close>

record save_io =
  io_read :: bool
  io_remove :: bool
  io_removeLock :: bool
  io_mkdir :: bool
  io_write :: bool

definition save_store ::
  "save_io \<Rightarrow> string \<Rightarrow> jobJSON list \<Rightarrow> string list \<Rightarrow> cron_disk \<Rightarrow> cron_disk \<times> store_error option" where
  "save_store io storePath own knownIDs disk =
     (if storePath = '''' then (disk, None)
      else let onDisk = (case (io_read io, read_session (disk storePath)) of
                           (True, Some jobs) \<Rightarrow> jobs
                         | _ \<Rightarrow> []);
               jobs = merge_jobs own onDisk knownIDs in
           if jobs = []
           then if \<not> io_remove io then (disk, Some RemoveStore)
                else (disk(storePath := None), if io_removeLock io then None else Some RemoveLock)
           else if \<not> io_mkdir io then (disk, Some CreateDir)
           else if \<not> io_write io then (disk, Some WriteStore)
           else (disk(storePath \<mapsto> SessionStore (map json_job jobs)), None))"

section \<open>Migration of the old store\<close>

type_synonym sha256_fun = "string \<Rightarrow> string"

definition workspaceKey :: "sha256_fun \<Rightarrow> string \<Rightarrow> string" where
  "workspaceKey sha dir = EncodeToString (sha dir)"

text \<open>What the lock and the system calls of one migration answer.\<close>

record migrate_io =
  mi_lock :: bool
  mi_read :: bool
  mi_tombstone :: bool
  mi_mkdir :: bool
  mi_write :: bool
  mi_back :: bool
  mi_remove :: bool

text \<open>The last part: the bucket leaves the old store, which is rewritten or removed.\<close>

definition drop_bucket ::
  "migrate_io \<Rightarrow> string \<Rightarrow> string \<Rightarrow> (string \<times> workspaceBucket) list \<Rightarrow> cron_disk \<Rightarrow> cron_disk" where
  "drop_bucket io oldStorePath wsKey sf disk =
     (let rest = filter (\<lambda>(k, _). k \<noteq> wsKey) sf in
      if rest \<noteq> [] \<and> mi_back io then disk(oldStorePath \<mapsto> write_old rest)
      else if mi_remove io then disk(oldStorePath := None)
      else disk)"

definition MigrateWorkspaceJobs ::
  "sha256_fun \<Rightarrow> migrate_io \<Rightarrow> string \<Rightarrow> string \<Rightarrow> string \<Rightarrow> cron_disk \<Rightarrow> cron_disk" where
  "MigrateWorkspaceJobs sha io oldStorePath newSessionPath workspaceDir disk =
     (if oldStorePath = '''' \<or> newSessionPath = '''' \<or> workspaceDir = '''' then disk
      else if \<not> mi_lock io then disk
      else if disk newSessionPath \<noteq> None then disk
      else if \<not> mi_read io then disk
      else (case read_old (disk oldStorePath) of
              None \<Rightarrow> disk
            | Some sf \<Rightarrow>
                (let wsKey = workspaceKey sha workspaceDir in
                 case map_of sf wsKey of
                   None \<Rightarrow> disk
                 | Some bucket \<Rightarrow>
                     (let migrated = filter jj_Recurring (wb_Jobs bucket) in
                      if wb_MigratedTo bucket \<noteq> '''' \<and> disk (wb_MigratedTo bucket) \<noteq> None then disk
                      else (let sf1 = AList.update wsKey (bucket\<lparr>wb_MigratedTo := newSessionPath\<rparr>) sf;
                                disk1 = (if mi_tombstone io then disk(oldStorePath \<mapsto> write_old sf1) else disk) in
                            if migrated = [] then drop_bucket io oldStorePath wsKey sf1 disk1
                            else if \<not> mi_mkdir io then disk1
                            else if \<not> mi_write io then disk1
                            else drop_bucket io oldStorePath wsKey sf1
                                   (disk1(newSessionPath \<mapsto> SessionStore (map json_job migrated))))))))"

section \<open>A migration copies a workspace once\<close>

text \<open>
  The ways one migration can end, for an old store that survives a round trip through JSON: nothing
  is written; only the tombstone is; or the jobs are in the new store, if there are any, and the old
  store lost the bucket, or all of its buckets, or kept it with or without the tombstone.
\<close>

definition tombstoned :: "string \<Rightarrow> workspaceBucket \<Rightarrow> string \<Rightarrow> (string \<times> workspaceBucket) list \<Rightarrow> (string \<times> workspaceBucket) list" where
  "tombstoned key b dest sf = AList.update key (b\<lparr>wb_MigratedTo := dest\<rparr>) sf"

text \<open>A bucket and its key that JSON keeps as they are.\<close>

definition json_kept :: "string \<times> workspaceBucket \<Rightarrow> bool" where
  "json_kept p \<longleftrightarrow> json_text (fst p) = fst p \<and> json_bucket (snd p) = snd p"

lemma write_old_kept: "write_old sf = OldStore sf \<longleftrightarrow> list_all json_kept sf"
proof -
  have "map (\<lambda>(k, b). (json_text k, json_bucket b)) sf = sf \<longleftrightarrow> list_all json_kept sf"
    by (induction sf) (auto simp: json_kept_def)
  then show ?thesis by (simp add: write_old_def)
qed

lemma in_alist_update: "p \<in> set (AList.update k v al) \<Longrightarrow> p = (k, v) \<or> p \<in> set al"
  by (induction al) (auto split: if_splits)

lemma write_old_tombstoned:
  assumes "write_old sf = OldStore sf" "map_of sf k = Some b" "utf8_ok dest"
  shows "write_old (tombstoned k b dest sf) = OldStore (tombstoned k b dest sf)"
proof -
  have kept: "list_all json_kept sf" using assms(1) by (simp add: write_old_kept)
  then have "json_kept (k, b)" using map_of_SomeD [OF assms(2)] by (auto simp: list_all_iff)
  then have "json_kept (k, b\<lparr>wb_MigratedTo := dest\<rparr>)"
    using assms(3) by (cases b) (auto simp: json_kept_def json_bucket_def utf8_ok_def)
  then show ?thesis
    using kept unfolding write_old_kept tombstoned_def list_all_iff by (auto dest!: in_alist_update)
qed

lemma migrated_jobs_kept:
  assumes "write_old sf = OldStore sf" "map_of sf k = Some b"
  shows "map json_job (filter P (wb_Jobs b)) = filter P (wb_Jobs b)"
proof -
  have "json_bucket b = b"
    using assms map_of_SomeD [OF assms(2)] by (auto simp: write_old_kept list_all_iff json_kept_def)
  then have "map json_job (wb_Jobs b) = wb_Jobs b" by (cases b) (simp add: json_bucket_def)
  then have "json_job j = j" if "j \<in> set (wb_Jobs b)" for j
    using that map_eq_conv [of json_job "wb_Jobs b" "\<lambda>x. x"] by simp
  then show ?thesis by (intro map_idI) auto
qed

text \<open>The bucket of a workspace in the old store.\<close>

definition old_bucket :: "cron_disk \<Rightarrow> string \<Rightarrow> string \<Rightarrow> workspaceBucket option" where
  "old_bucket disk old key = (case read_old (disk old) of None \<Rightarrow> None | Some sf \<Rightarrow> map_of sf key)"

definition migrated_to :: "workspaceBucket \<Rightarrow> cron_disk \<Rightarrow> string \<Rightarrow> bool" where
  "migrated_to b disk dest \<longleftrightarrow> disk dest = Some (SessionStore (filter jj_Recurring (wb_Jobs b)))"

lemma map_of_filter_key: "map_of (filter (\<lambda>(k, _). k \<noteq> key) sf) key = None"
  by (auto simp: map_of_eq_None_iff)

text \<open>The first migration of a workspace whose tombstone is written.\<close>

lemma first_migration:
  assumes "disk old = Some (OldStore sf)" "write_old sf = OldStore sf"
    and "map_of sf (workspaceKey sha ws) = Some b" "wb_MigratedTo b = ''''"
    and "disk dest = None" "utf8_ok dest" "mi_tombstone io"
  defines "d \<equiv> MigrateWorkspaceJobs sha io old dest ws disk"
  shows "d = disk \<or>
         dest \<noteq> '''' \<and> d = disk(old \<mapsto> OldStore (tombstoned (workspaceKey sha ws) b dest sf)) \<or>
         dest \<noteq> '''' \<and> (filter jj_Recurring (wb_Jobs b) = [] \<and> d dest = None \<or> migrated_to b d dest) \<and>
           (old_bucket d old (workspaceKey sha ws) = None \<or>
            d old = Some (OldStore (tombstoned (workspaceKey sha ws) b dest sf))) \<and>
           (\<forall>q. q \<noteq> old \<and> q \<noteq> dest \<longrightarrow> d q = disk q)"
proof -
  have ne: "dest \<noteq> old" using assms(1,5) by auto
  note sf1 = write_old_tombstoned [OF assms(2,3,6), unfolded tombstoned_def]
  note jobs = migrated_jobs_kept [OF assms(2,3)]
  have rest: "write_old (filter Q (AList.update (workspaceKey sha ws) (b\<lparr>wb_MigratedTo := dest\<rparr>) sf)) =
      OldStore (filter Q (AList.update (workspaceKey sha ws) (b\<lparr>wb_MigratedTo := dest\<rparr>) sf))" for Q
    using sf1 by (auto simp: write_old_kept list_all_iff)
  show ?thesis
    using assms(1,3-5,7) ne unfolding d_def MigrateWorkspaceJobs_def drop_bucket_def
    by (auto simp: Let_def sf1 jobs tombstoned_def migrated_to_def old_bucket_def rest map_of_filter_key)
qed

lemma migration_frame:
  "q \<noteq> old \<Longrightarrow> q \<noteq> dest \<Longrightarrow> MigrateWorkspaceJobs sha io old dest ws disk q = disk q"
  by (simp add: MigrateWorkspaceJobs_def drop_bucket_def Let_def split: option.split)

lemma migration_without_bucket:
  "old_bucket disk old (workspaceKey sha ws) = None \<Longrightarrow> MigrateWorkspaceJobs sha io old dest ws disk = disk"
  by (auto simp: MigrateWorkspaceJobs_def old_bucket_def Let_def split: option.splits)

lemma migration_after_tombstone:
  assumes "old_bucket disk old (workspaceKey sha ws) = Some b" "wb_MigratedTo b \<noteq> ''''"
    "disk (wb_MigratedTo b) \<noteq> None"
  shows "MigrateWorkspaceJobs sha io old dest ws disk = disk"
  using assms by (auto simp: MigrateWorkspaceJobs_def old_bucket_def Let_def split: option.splits)

text \<open>Whatever fails, the recurring jobs of the workspace are still in its bucket or in the new store.\<close>

definition jobs_available :: "workspaceBucket \<Rightarrow> cron_disk \<Rightarrow> string \<Rightarrow> string \<Rightarrow> string \<Rightarrow> bool" where
  "jobs_available b disk old key dest \<longleftrightarrow>
     filter jj_Recurring (wb_Jobs b) = [] \<or> migrated_to b disk dest \<or>
     (\<exists>b'. old_bucket disk old key = Some b' \<and> wb_Jobs b' = wb_Jobs b)"

lemma migration_keeps_jobs:
  assumes "disk old = Some (OldStore sf)" "write_old sf = OldStore sf"
    and "map_of sf (workspaceKey sha ws) = Some b" "utf8_ok dest"
  shows "jobs_available b (MigrateWorkspaceJobs sha io old dest ws disk) old (workspaceKey sha ws) dest"
proof -
  note sf1 = write_old_tombstoned [OF assms(2,3,4), unfolded tombstoned_def]
  note jobs = migrated_jobs_kept [OF assms(2,3)]
  show ?thesis
  proof (cases "dest = old")
    case True
    then show ?thesis using assms(1,3)
      by (simp add: MigrateWorkspaceJobs_def jobs_available_def old_bucket_def)
  next
    case False
    then show ?thesis using assms(1,3) unfolding MigrateWorkspaceJobs_def drop_bucket_def
      by (auto simp: Let_def sf1 jobs jobs_available_def migrated_to_def old_bucket_def update_conv')
  qed
qed

text \<open>
  C32. Migrating a workspace copies its jobs to one session only and loses none. Two sessions migrate
  the same workspace one after the other, each with any pattern of failing system calls, except that
  the first can write its tombstone: then not both session stores exist, and the recurring jobs are in
  one of them or still in the old store.
\<close>

theorem migration_moves_once:
  fixes io1 io2 :: migrate_io
  assumes "disk old = Some (OldStore sf)" "write_old sf = OldStore sf"
    and "map_of sf (workspaceKey sha ws) = Some b" "wb_MigratedTo b = ''''"
    and "disk new1 = None" "disk new2 = None" "new1 \<noteq> new2"
    and "utf8_ok new1" "utf8_ok new2" "mi_tombstone io1"
  defines "d1 \<equiv> MigrateWorkspaceJobs sha io1 old new1 ws disk"
  defines "d2 \<equiv> MigrateWorkspaceJobs sha io2 old new2 ws d1"
  shows "\<not> (d2 new1 \<noteq> None \<and> d2 new2 \<noteq> None) \<and>
         (filter jj_Recurring (wb_Jobs b) = [] \<or> migrated_to b d2 new1 \<or> migrated_to b d2 new2 \<or>
          (\<exists>b'. old_bucket d2 old (workspaceKey sha ws) = Some b' \<and> wb_Jobs b' = wb_Jobs b))"
proof -
  let ?key = "workspaceKey sha ws" and ?jobs = "filter jj_Recurring (wb_Jobs b)"
  let ?b1 = "b\<lparr>wb_MigratedTo := new1\<rparr>" and ?sf1 = "tombstoned (workspaceKey sha ws) b new1 sf"
  have ne: "new1 \<noteq> old" "new2 \<noteq> old" using assms(1,5,6) by auto
  note kept1 = write_old_tombstoned [OF assms(2,3,8)]
  have look1: "map_of ?sf1 ?key = Some ?b1" by (simp add: tombstoned_def update_conv')
  have frame: "d2 new1 = d1 new1" unfolding d2_def using ne assms(7) by (intro migration_frame) auto
  have "d1 new1 = None \<and> (d1 = disk \<or> d1 = disk(old \<mapsto> OldStore ?sf1)) \<or> (?jobs = [] \<and> d1 new1 = None) \<or>
        migrated_to b d1 new1 \<and> d2 = d1 \<and> d1 new2 = None"
    using first_migration [OF assms(1-5,8,10), folded d1_def]
  proof (elim disjE conjE)
    assume m: "migrated_to b d1 new1" "new1 \<noteq> ''''" "\<forall>q. q \<noteq> old \<and> q \<noteq> new1 \<longrightarrow> d1 q = disk q"
      and o: "d1 old = Some (OldStore ?sf1)"
    then have "d2 = d1"
      unfolding d2_def using look1
      by (intro migration_after_tombstone [of _ _ _ _ ?b1]) (auto simp: old_bucket_def migrated_to_def)
    then show ?thesis using m ne assms(6,7) by auto
  next
    assume m: "migrated_to b d1 new1" "\<forall>q. q \<noteq> old \<and> q \<noteq> new1 \<longrightarrow> d1 q = disk q"
      and "old_bucket d1 old ?key = None"
    then have "d2 = d1" unfolding d2_def by (intro migration_without_bucket)
    then show ?thesis using m ne assms(6,7) by auto
  qed (use assms(5) ne in auto)
  then consider "d1 new1 = None" "d1 = disk \<or> d1 = disk(old \<mapsto> OldStore ?sf1)"
    | "?jobs = []" "d1 new1 = None" | "migrated_to b d1 new1" "d2 = d1" "d1 new2 = None" by auto
  then show ?thesis
  proof cases
    case 1
    have "jobs_available b d2 old ?key new2"
    proof (cases "d1 = disk")
      case True
      then show ?thesis unfolding d2_def using migration_keeps_jobs [of disk old, OF assms(1-3,9)] by simp
    next
      case False
      then have "d1 old = Some (OldStore ?sf1)" using 1 by auto
      from migration_keeps_jobs [of d1 old, OF this kept1 look1 assms(9)] show ?thesis
        unfolding d2_def by (simp add: jobs_available_def migrated_to_def)
    qed
    then show ?thesis using 1 frame by (auto simp: jobs_available_def)
  qed (use frame in auto)
qed

definition demo_cron_job :: jobJSON where
  "demo_cron_job = \<lparr>jj_ID = ''cron-1'', jj_CronExpr = ''0 9 * * *'', jj_Prompt = ''standup'', jj_Recurring = True,
     jj_QueueIfBusy = False, jj_Paused = False, jj_CreatedAt = ''2024-05-01T08:00:00Z''\<rparr>"

definition demo_old_store :: "(string \<times> workspaceBucket) list" where
  "demo_old_store = [(workspaceKey (\<lambda>s. s) ''ws'', \<lparr>wb_Workspace = ''ws'', wb_Jobs = [demo_cron_job], wb_MigratedTo = ''''\<rparr>)]"

definition demo_cron_disk :: cron_disk where
  "demo_cron_disk = [''old'' \<mapsto> OldStore demo_old_store]"

definition all_fine :: migrate_io where
  "all_fine = \<lparr>mi_lock = True, mi_read = True, mi_tombstone = True, mi_mkdir = True, mi_write = True,
     mi_back = True, mi_remove = True\<rparr>"

theorem migration_moves_once_witness:
  "(let d1 = MigrateWorkspaceJobs (\<lambda>s. s) (all_fine\<lparr>mi_remove := False\<rparr>) ''old'' ''s1'' ''ws'' demo_cron_disk;
        d2 = MigrateWorkspaceJobs (\<lambda>s. s) all_fine ''old'' ''s2'' ''ws'' d1 in
    d1 ''s1'' = Some (SessionStore [demo_cron_job]) \<and> d2 ''s2'' = None)"
proof -
  let ?b = "\<lparr>wb_Workspace = ''ws'', wb_Jobs = [demo_cron_job], wb_MigratedTo = ''''\<rparr>"
  let ?io = "all_fine\<lparr>mi_remove := False\<rparr>"
  let ?d1 = "MigrateWorkspaceJobs (\<lambda>s. s) ?io ''old'' ''s1'' ''ws'' demo_cron_disk"
  let ?d2 = "MigrateWorkspaceJobs (\<lambda>s. s) all_fine ''old'' ''s2'' ''ws'' ?d1"
  have h: "demo_cron_disk ''old'' = Some (OldStore demo_old_store)" "demo_cron_disk ''s1'' = None" "demo_cron_disk ''s2'' = None"
    by (simp_all add: demo_cron_disk_def)
  have w: "write_old demo_old_store = OldStore demo_old_store" by code_simp
  have m: "map_of demo_old_store (workspaceKey (\<lambda>s. s) ''ws'') = Some ?b" by (simp add: demo_old_store_def)
  have u: "utf8_ok ''s1''" "utf8_ok ''s2''" by code_simp+
  have d1: "?d1 ''s1'' = Some (SessionStore [demo_cron_job])" by code_simp
  have "?d2 ''s1'' = ?d1 ''s1''" by (intro migration_frame) auto
  with d1 migration_moves_once [OF h(1) w m _ h(2,3) _ u, of ?io all_fine]
  show ?thesis by (simp add: all_fine_def)
qed

end
