(* ===== verification/CronSched.thy ===== *)
theory CronSched
  imports CronStore "HOL-Library.Word"
begin

text \<open>
  The cron scheduler (\<^verbatim>\<open>internal/cron/scheduler.go\<close>) as a machine of critical sections. Jobs are heap
  objects: \<^verbatim>\<open>jobs\<close> maps an identifier to the number of its object, and a timer's callback keeps the
  object it was scheduled with, even when another one takes its place. What a call does after it
  released the lock is a thread that waits for its next critical section, so calls, timer callbacks
  and saves interleave in every way the lock allows. A step reads the clock once. The order in which
  the code ranges over a map is the argument \<open>pick\<close>; the answers of the disk are \<^typ>\<open>save_io\<close> and
  \<^typ>\<open>migrate_io\<close>; the random suffix of an identifier is an argument of \<^verbatim>\<open>Create\<close>.
\<close>

section \<open>State\<close>

record Job =
  j_ID :: string
  j_CronExpr :: string
  j_Prompt :: string
  j_Recurring :: bool
  j_QueueIfBusy :: bool
  j_CreatedAt :: int
  j_NextFire :: int
  j_Paused :: bool

text \<open>A timer of the runtime: the callback's arguments, when it is due, and whether it still runs.\<close>

record sched_timer =
  tm_job :: nat
  tm_gen :: "64 word"
  tm_due :: int
  tm_armed :: bool

text \<open>A call of \<^verbatim>\<open>enqueue\<close>: for which job and generation (none for \<^verbatim>\<open>Emit\<close>), when, on which function.\<close>

record enqueue_call =
  eq_job :: "(string \<times> 64 word) option"
  eq_prompt :: string
  eq_queue :: bool
  eq_sink :: nat
  eq_at :: int

text \<open>The locals of \<^verbatim>\<open>Update\<close> that its rollback uses.\<close>

record update_frame =
  uf_id :: string
  uf_job :: nat
  uf_cron :: "string option"
  uf_origCron :: string
  uf_origPrompt :: string
  uf_origQueue :: bool
  uf_origNextFire :: int
  uf_newSnapshot :: Job

text \<open>The callers of \<^verbatim>\<open>save\<close>, with what they need to undo when it fails.\<close>

datatype saver =
    ByCallback
  | ByCreate string nat
  | ByDelete string nat bool
  | ByUpdate update_frame
  | ByPause nat int
  | ByResume string nat

datatype thread =
    TSchedule string nat
  | TSave saver
  | TRollback saver store_error
  | TFire nat "64 word"
  | TReschedule nat "64 word"
  | TMigrate string string string bool
  | TRead bool
  | TLoad "jobJSON list" bool
  | TLoadSchedule nat "jobJSON list" bool
  | TClear

record Scheduler =
  sc_jobs :: "(string \<times> nat) list"
  sc_nextID :: int
  sc_enqueue :: nat
  sc_timers :: "(string \<times> nat) list"
  sc_generations :: "string \<Rightarrow> 64 word option"
  sc_lastEnqueue :: "string \<Rightarrow> int option"
  sc_storePath :: string
  sc_knownIDs :: "string list"
  sc_patrol :: bool

record world = Scheduler +
  w_heap :: "Job list"
  w_timers :: "sched_timer list"
  w_clock :: int
  w_disk :: cron_disk
  w_threads :: "thread list"
  w_calls :: "enqueue_call list"

datatype sched_error =
    JobNotFound string
  | CronError cron_error
  | InvalidExpression string cron_error
  | IntervalTooShort int
  | SaveFailed store_error

datatype sched_result =
    Nothing
  | JobResult Job
  | Failed sched_error
  | Deleted bool "store_error option"

text \<open>A critical section ends the call or leaves a thread that waits for its next one.\<close>

datatype outcome = Return sched_result | Continue thread

type_synonym section_result = "world \<times> outcome"

text \<open>\<^verbatim>\<open>NewScheduler\<close> on a machine with a clock and a disk; the patrol starts with it.\<close>

definition NewScheduler :: "nat \<Rightarrow> string \<Rightarrow> int \<Rightarrow> cron_disk \<Rightarrow> world" where
  "NewScheduler enqueue storePath now disk =
     \<lparr>sc_jobs = [], sc_nextID = 0, sc_enqueue = enqueue, sc_timers = [], sc_generations = Map.empty,
      sc_lastEnqueue = Map.empty, sc_storePath = storePath, sc_knownIDs = [], sc_patrol = True,
      w_heap = [], w_timers = [], w_clock = now, w_disk = disk, w_threads = [], w_calls = []\<rparr>"

section \<open>Timers\<close>

definition defaultPatrolInterval :: int where "defaultPatrolInterval = 30 * nsec"
definition patrolGrace :: int where "patrolGrace = 2 * nsec"
definition minCronIntervalMinutes :: int where "minCronIntervalMinutes = 5"
definition debounce :: int where "debounce = 5 * nsec"

abbreviation job_of :: "world \<Rightarrow> string \<Rightarrow> nat option" where
  "job_of w jid \<equiv> map_of (sc_jobs w) jid"

definition gen_of :: "world \<Rightarrow> string \<Rightarrow> 64 word" where
  "gen_of w jid = (case sc_generations w jid of None \<Rightarrow> 0 | Some g \<Rightarrow> g)"

definition set_job :: "nat \<Rightarrow> (Job \<Rightarrow> Job) \<Rightarrow> world \<Rightarrow> world" where
  "set_job r f w = w\<lparr>w_heap := (w_heap w)[r := f (w_heap w ! r)]\<rparr>"

text \<open>\<^verbatim>\<open>if t, ok := s.timers[id]; ok { t.Stop(); delete(s.timers, id) }\<close>\<close>

definition stop_timer :: "string \<Rightarrow> world \<Rightarrow> world" where
  "stop_timer jid w =
     (case map_of (sc_timers w) jid of
        None \<Rightarrow> w
      | Some k \<Rightarrow> w\<lparr>sc_timers := AList.delete jid (sc_timers w),
                   w_timers := (w_timers w)[k := (w_timers w ! k)\<lparr>tm_armed := False\<rparr>]\<rparr>)"

definition bump_gen :: "string \<Rightarrow> world \<Rightarrow> world" where
  "bump_gen jid w = w\<lparr>sc_generations := (sc_generations w)(jid \<mapsto> gen_of w jid + 1)\<rparr>"

definition scheduleJobLocked :: "nat \<Rightarrow> world \<Rightarrow> world" where
  "scheduleJobLocked r w =
     (let jid = j_ID (w_heap w ! r);
          w1 = bump_gen jid (stop_timer jid w);
          delay = j_NextFire (w_heap w ! r) - w_clock w;
          timer = \<lparr>tm_job = r, tm_gen = gen_of w1 jid, tm_due = w_clock w + (if delay < 0 then 0 else delay),
                   tm_armed = True\<rparr> in
      w1\<lparr>sc_timers := AList.update jid (length (w_timers w1)) (sc_timers w1), w_timers := w_timers w1 @ [timer]\<rparr>)"

definition delete_job :: "string \<Rightarrow> world \<Rightarrow> world" where
  "delete_job jid w = w\<lparr>sc_jobs := AList.delete jid (sc_jobs w)\<rparr>"

definition forget_timer :: "string \<Rightarrow> world \<Rightarrow> world" where
  "forget_timer jid w = w\<lparr>sc_timers := AList.delete jid (sc_timers w)\<rparr>"

text \<open>\<^verbatim>\<open>NextTime\<close> on nanoseconds.\<close>

definition cron_next :: "string \<Rightarrow> int \<Rightarrow> cron_error + int" where
  "cron_next expr t =
     (case NextTime expr (t div nmin, t mod nmin) of
        Some (Inr m) \<Rightarrow> Inr (m * nmin)
      | Some (Inl e) \<Rightarrow> Inl e
      | None \<Rightarrow> Inl (NoMatch expr))"

text \<open>
  The guard of \<^verbatim>\<open>Create\<close> and \<^verbatim>\<open>Update\<close> against short intervals: the distance of the first two firings,
  the second being the zero time if there is none.
\<close>

definition interval_of :: "string \<Rightarrow> int \<Rightarrow> int" where
  "interval_of expr next = (case cron_next expr next of Inr second \<Rightarrow> second | Inl _ \<Rightarrow> zeroTime) - next"

definition too_short :: "int \<Rightarrow> bool" where
  "too_short interval \<longleftrightarrow> 0 < interval \<and> interval < minCronIntervalMinutes * nmin"

section \<open>Saving\<close>

definition job_json :: "Job \<Rightarrow> jobJSON" where
  "job_json j = \<lparr>jj_ID = j_ID j, jj_CronExpr = j_CronExpr j, jj_Prompt = j_Prompt j, jj_Recurring = j_Recurring j,
     jj_QueueIfBusy = j_QueueIfBusy j, jj_Paused = j_Paused j, jj_CreatedAt = format3339 (j_CreatedAt j)\<rparr>"

definition save :: "((string \<times> nat) list \<Rightarrow> (string \<times> nat) list) \<Rightarrow> save_io \<Rightarrow> world \<Rightarrow> world \<times> store_error option" where
  "save pick io w =
     (let own = map job_json (filter j_Recurring (map (\<lambda>(_, r). w_heap w ! r) (range_order pick (sc_jobs w))));
          (disk, err) = save_store io (sc_storePath w) own (sc_knownIDs w) (w_disk w) in
      (w\<lparr>w_disk := disk\<rparr>, err))"

section \<open>Creating and changing jobs\<close>

definition Scheduler_Create :: "string \<Rightarrow> string \<Rightarrow> bool \<Rightarrow> bool \<Rightarrow> string \<Rightarrow> world \<Rightarrow> section_result" where
  "Scheduler_Create cronExpr prompt recurring queueIfBusy sfx w =
     (case cron_next cronExpr (w_clock w) of
        Inl e \<Rightarrow> (w, Return (Failed (CronError e)))
      | Inr next \<Rightarrow>
          (if too_short (interval_of cronExpr next)
           then (w, Return (Failed (IntervalTooShort (interval_of cronExpr next))))
           else let n = wrap64 (sc_nextID w + 1);
                    jid = ''cron-'' @ Itoa n @ ''-'' @ sfx;
                    job = \<lparr>j_ID = jid, j_CronExpr = cronExpr, j_Prompt = prompt, j_Recurring = recurring,
                           j_QueueIfBusy = queueIfBusy, j_CreatedAt = w_clock w, j_NextFire = next, j_Paused = False\<rparr> in
                (w\<lparr>sc_nextID := n, w_heap := w_heap w @ [job], sc_jobs := AList.update jid (length (w_heap w)) (sc_jobs w),
                   sc_knownIDs := jid # sc_knownIDs w\<rparr>,
                 Continue (TSchedule jid (length (w_heap w))))))"

definition DeleteWithError :: "string \<Rightarrow> world \<Rightarrow> section_result" where
  "DeleteWithError jid w =
     (case job_of w jid of
        None \<Rightarrow> (w, Return (Deleted False None))
      | Some r \<Rightarrow> (delete_job jid (stop_timer jid w), Continue (TSave (ByDelete jid r (map_of (sc_timers w) jid \<noteq> None)))))"

definition Scheduler_List :: "world \<Rightarrow> Job list" where
  "Scheduler_List w = map (\<lambda>(_, r). w_heap w ! r) (sc_jobs w)"

definition Scheduler_Get :: "string \<Rightarrow> world \<Rightarrow> Job option" where
  "Scheduler_Get jid w = map_option (\<lambda>r. w_heap w ! r) (job_of w jid)"

definition Scheduler_Update ::
  "string \<Rightarrow> string option \<Rightarrow> string option \<Rightarrow> bool option \<Rightarrow> world \<Rightarrow> section_result" where
  "Scheduler_Update jid cronExpr prompt queueIfBusy w =
     (case job_of w jid of
        None \<Rightarrow> (w, Return (Failed (JobNotFound jid)))
      | Some r \<Rightarrow>
          (let job = w_heap w ! r;
               change = (\<lambda>next.
                 (let job1 = job\<lparr>j_CronExpr := (case cronExpr of None \<Rightarrow> j_CronExpr job | Some c \<Rightarrow> c),
                                j_Prompt := (case prompt of None \<Rightarrow> j_Prompt job | Some p \<Rightarrow> p),
                                j_QueueIfBusy := (case queueIfBusy of None \<Rightarrow> j_QueueIfBusy job | Some q \<Rightarrow> q),
                                j_NextFire := (if j_Paused job then j_NextFire job else next)\<rparr>;
                      w1 = stop_timer jid (set_job r (\<lambda>_. job1) w);
                      w2 = (if j_Paused job then w1 else scheduleJobLocked r w1) in
                  (w2, Continue (TSave (ByUpdate \<lparr>uf_id = jid, uf_job = r, uf_cron = cronExpr,
                     uf_origCron = j_CronExpr job, uf_origPrompt = j_Prompt job, uf_origQueue = j_QueueIfBusy job,
                     uf_origNextFire = j_NextFire job, uf_newSnapshot = job1\<rparr>))))) in
           case cronExpr of
             None \<Rightarrow> change (j_NextFire job)
           | Some c \<Rightarrow>
               (case cron_next c (w_clock w) of
                  Inl e \<Rightarrow> (w, Return (Failed (InvalidExpression c e)))
                | Inr next \<Rightarrow>
                    (if too_short (interval_of c next)
                     then (w, Return (Failed (IntervalTooShort (interval_of c next))))
                     else change next))))"

definition Pause :: "string \<Rightarrow> world \<Rightarrow> section_result" where
  "Pause jid w =
     (case job_of w jid of
        None \<Rightarrow> (w, Return (Failed (JobNotFound jid)))
      | Some r \<Rightarrow>
          (if j_Paused (w_heap w ! r) then (w, Return Nothing)
           else (stop_timer jid (set_job r (\<lambda>j. j\<lparr>j_Paused := True, j_NextFire := zeroTime\<rparr>) w),
                 Continue (TSave (ByPause r (j_NextFire (w_heap w ! r)))))))"

definition Resume :: "string \<Rightarrow> world \<Rightarrow> section_result" where
  "Resume jid w =
     (case job_of w jid of
        None \<Rightarrow> (w, Return (Failed (JobNotFound jid)))
      | Some r \<Rightarrow>
          (if \<not> j_Paused (w_heap w ! r) then (w, Return Nothing)
           else case cron_next (j_CronExpr (w_heap w ! r)) (w_clock w) of
                  Inl e \<Rightarrow> (w, Return (Failed (InvalidExpression jid e)))
                | Inr next \<Rightarrow>
                    (scheduleJobLocked r (set_job r (\<lambda>j. j\<lparr>j_Paused := False, j_NextFire := next\<rparr>) w),
                     Continue (TSave (ByResume jid r)))))"

definition SetEnqueue :: "nat option \<Rightarrow> world \<Rightarrow> world" where
  "SetEnqueue f w = (case f of None \<Rightarrow> w | Some sink \<Rightarrow> w\<lparr>sc_enqueue := sink\<rparr>)"

definition Emit :: "string \<Rightarrow> bool \<Rightarrow> world \<Rightarrow> world" where
  "Emit prompt queueIfBusy w =
     w\<lparr>w_calls := w_calls w @ [\<lparr>eq_job = None, eq_prompt = prompt, eq_queue = queueIfBusy,
        eq_sink = sc_enqueue w, eq_at = w_clock w\<rparr>]\<rparr>"

text \<open>What follows a save that succeeded, and one that failed.\<close>

fun save_done :: "saver \<Rightarrow> world \<Rightarrow> sched_result" where
  "save_done ByCallback w = Nothing"
| "save_done (ByCreate jid r) w = JobResult (w_heap w ! r)"
| "save_done (ByDelete jid r hadTimer) w = Deleted True None"
| "save_done (ByUpdate uf) w = JobResult (uf_newSnapshot uf)"
| "save_done (ByPause r orig) w = Nothing"
| "save_done (ByResume jid r) w = Nothing"

definition update_rollback :: "update_frame \<Rightarrow> world \<Rightarrow> world" where
  "update_rollback uf w =
     (let r = uf_job uf;
          w1 = set_job r (\<lambda>j. j\<lparr>j_CronExpr := uf_origCron uf, j_Prompt := uf_origPrompt uf,
                               j_QueueIfBusy := uf_origQueue uf\<rparr>) w;
          next = (if j_Paused (w_heap w1 ! r) then zeroTime
                  else case cron_next (uf_origCron uf) (w_clock w) of
                         Inl _ \<Rightarrow> uf_origNextFire uf
                       | Inr next \<Rightarrow> next);
          w2 = (if uf_cron uf = None then w1 else set_job r (\<lambda>j. j\<lparr>j_NextFire := next\<rparr>) w1);
          w3 = stop_timer (uf_id uf) w2 in
      if \<not> j_Paused (w_heap w3 ! r) \<and> w_clock w < j_NextFire (w_heap w3 ! r) then scheduleJobLocked r w3 else w3)"

fun rollback :: "saver \<Rightarrow> store_error \<Rightarrow> world \<Rightarrow> section_result" where
  "rollback ByCallback err w = (w, Return Nothing)"
| "rollback (ByCreate jid r) err w = (delete_job jid (stop_timer jid w), Return (Failed (SaveFailed err)))"
| "rollback (ByDelete jid r hadTimer) err w =
     (let w1 = w\<lparr>sc_jobs := AList.update jid r (sc_jobs w)\<rparr> in
      (if hadTimer then scheduleJobLocked r w1 else w1, Return (Deleted True (Some err))))"
| "rollback (ByUpdate uf) err w = (update_rollback uf w, Return (Failed (SaveFailed err)))"
| "rollback (ByPause r orig) err w =
     (scheduleJobLocked r (set_job r (\<lambda>j. j\<lparr>j_Paused := False, j_NextFire := orig\<rparr>) w),
      Return (Failed (SaveFailed err)))"
| "rollback (ByResume jid r) err w =
     (stop_timer jid (set_job r (\<lambda>j. j\<lparr>j_Paused := True, j_NextFire := zeroTime\<rparr>) w),
      Return (Failed (SaveFailed err)))"

section \<open>Timer callbacks\<close>

text \<open>The common end of both critical sections of \<^verbatim>\<open>fireJob\<close> for a recurring job.\<close>

definition fire_again :: "nat \<Rightarrow> world \<Rightarrow> section_result" where
  "fire_again r w =
     (let job = w_heap w ! r in
      case cron_next (j_CronExpr job) (j_NextFire job) of
        Inl e \<Rightarrow> (forget_timer (j_ID job) (delete_job (j_ID job) w), Continue (TSave ByCallback))
      | Inr next \<Rightarrow> (scheduleJobLocked r (set_job r (\<lambda>j. j\<lparr>j_NextFire := next\<rparr>) w), Return Nothing))"

text \<open>A callback of an older generation, or of a job that is gone, does nothing.\<close>

definition stale :: "nat \<Rightarrow> 64 word \<Rightarrow> world \<Rightarrow> bool" where
  "stale r gen w \<longleftrightarrow> gen_of w (j_ID (w_heap w ! r)) \<noteq> gen \<or> job_of w (j_ID (w_heap w ! r)) = None"

text \<open>The first critical section and the call of \<^verbatim>\<open>enqueue\<close> that follows it.\<close>

definition fireJob :: "nat \<Rightarrow> 64 word \<Rightarrow> world \<Rightarrow> section_result" where
  "fireJob r gen w =
     (let job = w_heap w ! r in
      if stale r gen w then (w, Return Nothing)
      else if (case sc_lastEnqueue w (j_ID job) of None \<Rightarrow> False | Some lst \<Rightarrow> w_clock w - lst < debounce)
      then (if j_Recurring job then fire_again r w else (w, Return Nothing))
      else (w\<lparr>sc_lastEnqueue := (sc_lastEnqueue w)(j_ID job \<mapsto> w_clock w),
              w_calls := w_calls w @ [\<lparr>eq_job = Some (j_ID job, gen), eq_prompt = j_Prompt job,
                eq_queue = j_QueueIfBusy job, eq_sink = sc_enqueue w, eq_at = w_clock w\<rparr>]\<rparr>,
            Continue (TReschedule r gen)))"

text \<open>The second one; if \<^verbatim>\<open>enqueue\<close> panicked the callback recovers and ends without it.\<close>

definition fireJob_after :: "bool \<Rightarrow> nat \<Rightarrow> 64 word \<Rightarrow> world \<Rightarrow> section_result" where
  "fireJob_after panicked r gen w =
     (let job = w_heap w ! r in
      if panicked \<or> stale r gen w then (w, Return Nothing)
      else if j_Recurring job then fire_again r w
      else (forget_timer (j_ID job) (delete_job (j_ID job) w), Return Nothing))"

section \<open>Patrol\<close>

definition overdue :: "Job \<Rightarrow> int \<Rightarrow> bool" where
  "overdue job now \<longleftrightarrow> \<not> j_Paused job \<and> j_NextFire job \<noteq> zeroTime \<and> j_NextFire job + patrolGrace < now"

text \<open>One iteration; the flag is \<^verbatim>\<open>removedBroken\<close>.\<close>

definition patrol_job :: "string \<times> nat \<Rightarrow> world \<times> bool \<Rightarrow> world \<times> bool" where
  "patrol_job p s =
     (let (jid, r) = p; (w, removedBroken) = s; job = w_heap w ! r in
      if \<not> overdue job (w_clock w) then (w, removedBroken)
      else let w1 = bump_gen jid (stop_timer jid w) in
           if j_Recurring job
           then (case cron_next (j_CronExpr job) (w_clock w) of
                   Inl e \<Rightarrow> (delete_job jid w1, True)
                 | Inr next \<Rightarrow> (scheduleJobLocked r (set_job r (\<lambda>j. j\<lparr>j_NextFire := next\<rparr>) w1), removedBroken))
           else (scheduleJobLocked r (set_job r (\<lambda>j. j\<lparr>j_NextFire := w_clock w\<rparr>) w1), removedBroken))"

definition patrolCheck :: "((string \<times> nat) list \<Rightarrow> (string \<times> nat) list) \<Rightarrow> world \<Rightarrow> section_result" where
  "patrolCheck pick w =
     (let (w1, removedBroken) = fold patrol_job (range_order pick (sc_jobs w)) (w, False) in
      (w1, if removedBroken then Continue (TSave ByCallback) else Return Nothing))"

section \<open>Loading and sessions\<close>

text \<open>
  \<^verbatim>\<open>Load\<close> reads the file, then takes the lock twice for each job: to insert it and to schedule it. The
  flag is set when \<^verbatim>\<open>SwitchSession\<close> called it and clears \<^verbatim>\<open>lastEnqueue\<close> afterwards.
\<close>

definition load_next :: "jobJSON list \<Rightarrow> bool \<Rightarrow> outcome" where
  "load_next jjs switching =
     (if jjs \<noteq> [] then Continue (TLoad jjs switching) else if switching then Continue TClear else Return Nothing)"

definition load_read :: "bool \<Rightarrow> bool \<Rightarrow> world \<Rightarrow> section_result" where
  "load_read readable switching w =
     (w, if sc_storePath w = '''' \<or> \<not> readable then load_next [] switching
         else case read_session (w_disk w (sc_storePath w)) of
                None \<Rightarrow> load_next [] switching
              | Some jobs \<Rightarrow> load_next (sort_key jj_CreatedAt jobs) switching)"

definition scan_cron_id :: "string \<Rightarrow> int" where
  "scan_cron_id jid =
     (if HasPrefix jid ''cron-'' then (case scan_int (drop 5 jid) of None \<Rightarrow> 0 | Some n \<Rightarrow> n) else 0)"

fun load_job :: "jobJSON list \<Rightarrow> bool \<Rightarrow> world \<Rightarrow> section_result" where
  "load_job [] switching w = (w, load_next [] switching)"
| "load_job (jj # jjs) switching w =
     (if \<not> jj_Recurring jj then (w, load_next jjs switching)
      else case cron_next (jj_CronExpr jj) (w_clock w) of
             Inl e \<Rightarrow> (w, load_next jjs switching)
           | Inr next \<Rightarrow>
               (if job_of w (jj_ID jj) \<noteq> None then (w, load_next jjs switching)
                else let job = \<lparr>j_ID = jj_ID jj, j_CronExpr = jj_CronExpr jj, j_Prompt = jj_Prompt jj,
                                j_Recurring = jj_Recurring jj, j_QueueIfBusy = jj_QueueIfBusy jj,
                                j_CreatedAt = (case parse3339 (jj_CreatedAt jj) of None \<Rightarrow> zeroTime | Some t \<Rightarrow> t),
                                j_NextFire = (if jj_Paused jj then zeroTime else next), j_Paused = jj_Paused jj\<rparr>;
                         n = wrap64 (sc_nextID w + 1); k = scan_cron_id (jj_ID jj) in
                     (w\<lparr>sc_nextID := (if n < k then k else n), w_heap := w_heap w @ [job],
                        sc_jobs := AList.update (jj_ID jj) (length (w_heap w)) (sc_jobs w),
                        sc_knownIDs := jj_ID jj # sc_knownIDs w\<rparr>,
                      if jj_Paused jj then load_next jjs switching
                      else Continue (TLoadSchedule (length (w_heap w)) jjs switching))))"

definition SetSession :: "string \<Rightarrow> string \<Rightarrow> string \<Rightarrow> world \<Rightarrow> section_result" where
  "SetSession storePath oldStorePath workspaceDir w =
     (if storePath = '''' \<or> sc_storePath w \<noteq> '''' then (w, Return Nothing)
      else (w\<lparr>sc_storePath := storePath\<rparr>, Continue (TMigrate oldStorePath storePath workspaceDir False)))"

definition stop_all :: "world \<Rightarrow> world" where
  "stop_all w = fold stop_timer (map fst (sc_timers w)) w"

definition SwitchSession :: "string \<Rightarrow> string \<Rightarrow> string \<Rightarrow> world \<Rightarrow> section_result" where
  "SwitchSession storePath oldStorePath workspaceDir w =
     (if storePath = '''' then (w, Return Nothing)
      else ((stop_all w)\<lparr>sc_jobs := [], sc_generations := (\<lambda>jid. map_option (\<lambda>g. g + 1) (sc_generations w jid)),
              sc_nextID := 0, sc_storePath := storePath\<rparr>,
            Continue (TMigrate oldStorePath storePath workspaceDir True)))"

definition Shutdown :: "world \<Rightarrow> world" where
  "Shutdown w = (stop_all w)\<lparr>sc_patrol := False, sc_jobs := [], sc_lastEnqueue := Map.empty\<rparr>"

section \<open>The machine\<close>

text \<open>The answers of the environment during one section of a thread.\<close>

record env =
  en_pick :: "(string \<times> nat) list \<Rightarrow> (string \<times> nat) list"
  en_save :: save_io
  en_migrate :: migrate_io
  en_sha :: sha256_fun
  en_panicked :: bool
  en_readable :: bool

fun run_section :: "env \<Rightarrow> thread \<Rightarrow> world \<Rightarrow> section_result" where
  "run_section en (TSchedule jid r) w = (scheduleJobLocked r w, Continue (TSave (ByCreate jid r)))"
| "run_section en (TSave by) w =
     (case save (en_pick en) (en_save en) w of
        (w1, None) \<Rightarrow> (w1, Return (save_done by w1))
      | (w1, Some err) \<Rightarrow> (w1, Continue (TRollback by err)))"
| "run_section en (TRollback by err) w = rollback by err w"
| "run_section en (TFire r gen) w = fireJob r gen w"
| "run_section en (TReschedule r gen) w = fireJob_after (en_panicked en) r gen w"
| "run_section en (TMigrate old new ws switching) w =
     (w\<lparr>w_disk := MigrateWorkspaceJobs (en_sha en) (en_migrate en) old new ws (w_disk w)\<rparr>, Continue (TRead switching))"
| "run_section en (TRead switching) w = load_read (en_readable en) switching w"
| "run_section en (TLoad jjs switching) w = load_job jjs switching w"
| "run_section en (TLoadSchedule r jjs switching) w = (scheduleJobLocked r w, load_next jjs switching)"
| "run_section en TClear w = (w\<lparr>sc_lastEnqueue := Map.empty\<rparr>, Return Nothing)"

datatype cron_op =
    OpCreate string string bool bool string
  | OpDelete string
  | OpUpdate string "string option" "string option" "bool option"
  | OpPause string
  | OpResume string
  | OpPatrol "(string \<times> nat) list \<Rightarrow> (string \<times> nat) list"
  | OpLoad
  | OpSetSession string string string
  | OpSwitchSession string string string
  | OpShutdown
  | OpSetEnqueue "nat option"
  | OpEmit string bool
  | OpTick int
  | OpExpire nat
  | OpRun nat env
  | OpForeign string "StoreFile option"

definition proceed :: "section_result \<Rightarrow> world" where
  "proceed p = (case p of (w, Return _) \<Rightarrow> w | (w, Continue t) \<Rightarrow> w\<lparr>w_threads := w_threads w @ [t]\<rparr>)"

text \<open>The clock advances, timers expire, threads take their next section, other processes write files.\<close>

fun cron_step :: "cron_op \<Rightarrow> world \<Rightarrow> world" where
  "cron_step (OpCreate expr prompt recurring queue sfx) w = proceed (Scheduler_Create expr prompt recurring queue sfx w)"
| "cron_step (OpDelete jid) w = proceed (DeleteWithError jid w)"
| "cron_step (OpUpdate jid expr prompt queue) w = proceed (Scheduler_Update jid expr prompt queue w)"
| "cron_step (OpPause jid) w = proceed (Pause jid w)"
| "cron_step (OpResume jid) w = proceed (Resume jid w)"
| "cron_step (OpPatrol pick) w = (if sc_patrol w then proceed (patrolCheck pick w) else w)"
| "cron_step OpLoad w = proceed (w, Continue (TRead False))"
| "cron_step (OpSetSession path old ws) w = proceed (SetSession path old ws w)"
| "cron_step (OpSwitchSession path old ws) w = proceed (SwitchSession path old ws w)"
| "cron_step OpShutdown w = Shutdown w"
| "cron_step (OpSetEnqueue f) w = SetEnqueue f w"
| "cron_step (OpEmit prompt queue) w = Emit prompt queue w"
| "cron_step (OpTick d) w = w\<lparr>w_clock := w_clock w + (if d < 0 then 0 else d)\<rparr>"
| "cron_step (OpExpire k) w =
     (if k < length (w_timers w) \<and> tm_armed (w_timers w ! k) \<and> tm_due (w_timers w ! k) \<le> w_clock w
      then proceed (w\<lparr>w_timers := (w_timers w)[k := (w_timers w ! k)\<lparr>tm_armed := False\<rparr>]\<rparr>,
                    Continue (TFire (tm_job (w_timers w ! k)) (tm_gen (w_timers w ! k))))
      else w)"
| "cron_step (OpRun k en) w =
     (if k < length (w_threads w)
      then proceed (run_section en (w_threads w ! k) (w\<lparr>w_threads := take k (w_threads w) @ drop (Suc k) (w_threads w)\<rparr>))
      else w)"
| "cron_step (OpForeign path f) w = w\<lparr>w_disk := (w_disk w)(path := f)\<rparr>"

end
