(* ===== verification/CronFires.thy ===== *)
theory CronFires
  imports CronSched
begin

text \<open>
  Every scheduling of a cron job fires at most once, never early, and two firings of a job are five
  seconds apart, over every interleaving of the machine of \<open>CronSched\<close>.
\<close>

section \<open>Tokens\<close>

text \<open>
  A token is a job identifier with a generation. An armed timer and a callback that waits for the lock
  may still become a call of \<^verbatim>\<open>enqueue\<close>; with the calls already made they are the tokens of a state.
\<close>

type_synonym token = "string \<times> 64 word"

definition job_tok :: "world \<Rightarrow> nat \<Rightarrow> 64 word \<Rightarrow> token" where
  "job_tok w r g = (j_ID (w_heap w ! r), g)"

definition timer_toks :: "world \<Rightarrow> token multiset" where
  "timer_toks w = mset (map (\<lambda>t. job_tok w (tm_job t) (tm_gen t)) (filter tm_armed (w_timers w)))"

fun fire_of :: "thread \<Rightarrow> (nat \<times> 64 word) option" where
  "fire_of (TFire r g) = Some (r, g)"
| "fire_of _ = None"

definition thread_toks :: "world \<Rightarrow> token multiset" where
  "thread_toks w = mset (map (\<lambda>(r, g). job_tok w r g) (List.map_filter fire_of (w_threads w)))"

definition call_toks :: "world \<Rightarrow> token list" where
  "call_toks w = List.map_filter eq_job (w_calls w)"

definition tokens :: "world \<Rightarrow> token multiset" where
  "tokens w = timer_toks w + thread_toks w + mset (call_toks w)"

section \<open>Invariant\<close>

fun saver_ok :: "world \<Rightarrow> saver \<Rightarrow> bool" where
  "saver_ok w ByCallback = True"
| "saver_ok w (ByCreate jid r) = (r < length (w_heap w))"
| "saver_ok w (ByDelete jid r had) = (r < length (w_heap w) \<and> j_ID (w_heap w ! r) = jid)"
| "saver_ok w (ByUpdate uf) = (uf_job uf < length (w_heap w))"
| "saver_ok w (ByPause r orig) = (r < length (w_heap w))"
| "saver_ok w (ByResume jid r) = (r < length (w_heap w))"

text \<open>What never changes in a timer.\<close>

definition timer_key :: "sched_timer \<Rightarrow> nat \<times> 64 word \<times> int" where
  "timer_key t = (tm_job t, tm_gen t, tm_due t)"

definition fired :: "world \<Rightarrow> nat \<Rightarrow> 64 word \<Rightarrow> bool" where
  "fired w r g \<longleftrightarrow> r < length (w_heap w) \<and>
     (\<exists>due \<le> w_clock w. (r, g, due) \<in> timer_key ` set (w_timers w))"

fun thread_ok :: "world \<Rightarrow> thread \<Rightarrow> bool" where
  "thread_ok w (TSchedule jid r) = (r < length (w_heap w))"
| "thread_ok w (TSave by) = saver_ok w by"
| "thread_ok w (TRollback by err) = saver_ok w by"
| "thread_ok w (TFire r g) = fired w r g"
| "thread_ok w (TReschedule r g) = (r < length (w_heap w))"
| "thread_ok w (TLoadSchedule r jjs switching) = (r < length (w_heap w))"
| "thread_ok w _ = True"

definition call_ok :: "world \<Rightarrow> enqueue_call \<Rightarrow> bool" where
  "call_ok w e \<longleftrightarrow> (\<forall>jid g. eq_job e = Some (jid, g) \<longrightarrow>
     (\<exists>r < length (w_heap w). j_ID (w_heap w ! r) = jid \<and>
        (\<exists>due \<le> eq_at e. (r, g, due) \<in> timer_key ` set (w_timers w))))"

definition job_ok :: "world \<Rightarrow> string \<times> nat \<Rightarrow> bool" where
  "job_ok w p \<longleftrightarrow> snd p < length (w_heap w) \<and> j_ID (w_heap w ! snd p) = fst p"

text \<open>The entry of the timer table under an identifier is a timer of that job.\<close>

definition timer_ok :: "world \<Rightarrow> string \<times> nat \<Rightarrow> bool" where
  "timer_ok w p \<longleftrightarrow> snd p < length (w_timers w) \<and> tm_job (w_timers w ! snd p) < length (w_heap w) \<and>
     j_ID (w_heap w ! tm_job (w_timers w ! snd p)) = fst p"

text \<open>Pointers are valid, jobs are stored under their identifier, calls were earned by a timer.\<close>

definition wf_world :: "world \<Rightarrow> bool" where
  "wf_world w \<longleftrightarrow> distinct (map fst (sc_jobs w)) \<and> list_all (job_ok w) (sc_jobs w) \<and>
     list_all (timer_ok w) (sc_timers w) \<and>
     (\<forall>t \<in> set (w_timers w). tm_job t < length (w_heap w)) \<and>
     (\<forall>t \<in> set (w_threads w). thread_ok w t) \<and> (\<forall>e \<in> set (w_calls w). call_ok w e)"

text \<open>Tokens are unique, their generations not later than the current one, which is bounded.\<close>

definition tokens_ok :: "world \<Rightarrow> bool" where
  "tokens_ok w \<longleftrightarrow> (\<forall>x. count (tokens w) x \<le> 1) \<and> (\<forall>(jid, g) \<in># tokens w. g \<le> gen_of w jid)"

definition sched_inv :: "(string \<Rightarrow> nat) \<Rightarrow> world \<Rightarrow> bool" where
  "sched_inv B w \<longleftrightarrow> wf_world w \<and> tokens_ok w \<and> (\<forall>jid. unat (gen_of w jid) \<le> B jid)"

text \<open>
  How one critical section may change the state: objects keep their identifier, timers stay in the
  history. Well-formed references survive such a change.
\<close>

definition grows :: "world \<Rightarrow> world \<Rightarrow> bool" where
  "grows w w' \<longleftrightarrow> length (w_heap w) \<le> length (w_heap w') \<and>
     (\<forall>r < length (w_heap w). j_ID (w_heap w' ! r) = j_ID (w_heap w ! r)) \<and>
     length (w_timers w) \<le> length (w_timers w') \<and>
     (\<forall>k < length (w_timers w). timer_key (w_timers w' ! k) = timer_key (w_timers w ! k)) \<and>
     w_clock w \<le> w_clock w'"

lemma grows_refl [simp]: "grows w w"
  by (auto simp: grows_def)

lemma grows_keys:
  assumes "grows w w'"
  shows "timer_key ` set (w_timers w) \<subseteq> timer_key ` set (w_timers w')"
proof
  fix x assume "x \<in> timer_key ` set (w_timers w)"
  then obtain k where k: "k < length (w_timers w)" "x = timer_key (w_timers w ! k)"
    by (auto simp: in_set_conv_nth)
  then have "k < length (w_timers w')" "x = timer_key (w_timers w' ! k)" using assms by (auto simp: grows_def)
  then show "x \<in> timer_key ` set (w_timers w')" by simp
qed

lemma grows_timer_ok:
  assumes "grows w w'" "timer_ok w p"
  shows "timer_ok w' p"
proof -
  have "tm_job (w_timers w' ! snd p) = tm_job (w_timers w ! snd p)"
    using assms by (simp add: grows_def timer_ok_def timer_key_def)
  then show ?thesis using assms by (simp add: grows_def timer_ok_def)
qed

lemma grows_saver_ok: "grows w w' \<Longrightarrow> saver_ok w b \<Longrightarrow> saver_ok w' b"
  by (cases b) (auto simp: grows_def)

lemma grows_fired: "grows w w' \<Longrightarrow> fired w r g \<Longrightarrow> fired w' r g"
  using grows_keys [of w w'] unfolding grows_def fired_def by (meson order_trans order_less_le_trans subsetD)

lemma grows_thread_ok: "grows w w' \<Longrightarrow> thread_ok w t \<Longrightarrow> thread_ok w' t"
  by (cases t) (auto simp: grows_saver_ok grows_fired, auto simp: grows_def)

lemma grows_call_ok:
  assumes "grows w w'" "call_ok w e"
  shows "call_ok w' e"
  unfolding call_ok_def
proof (intro allI impI)
  fix jid g assume "eq_job e = Some (jid, g)"
  then obtain r due where "r < length (w_heap w)" "j_ID (w_heap w ! r) = jid" "due \<le> eq_at e"
    "(r, g, due) \<in> timer_key ` set (w_timers w)"
    using assms(2) unfolding call_ok_def by blast
  then show "\<exists>r < length (w_heap w'). j_ID (w_heap w' ! r) = jid \<and>
      (\<exists>due \<le> eq_at e. (r, g, due) \<in> timer_key ` set (w_timers w'))"
    using assms(1) grows_keys [OF assms(1)] unfolding grows_def by (meson order_less_le_trans subsetD)
qed

lemma grows_job_ok: "grows w w' \<Longrightarrow> job_ok w p \<Longrightarrow> job_ok w' p"
  by (auto simp: grows_def job_ok_def)

section \<open>The primitives keep the invariant\<close>

lemma job_tok_grows: "grows w w' \<Longrightarrow> r < length (w_heap w) \<Longrightarrow> job_tok w' r g = job_tok w r g"
  by (simp add: grows_def job_tok_def)

lemma timer_toks_grows:
  assumes "grows w w'" "\<forall>t \<in> set (w_timers w). tm_job t < length (w_heap w)" "w_timers w' = w_timers w"
  shows "timer_toks w' = timer_toks w"
  unfolding timer_toks_def assms(3) using assms(1,2)
  by (intro arg_cong [of _ _ mset] map_cong) (auto simp: job_tok_grows)

lemma thread_fire: "t \<in> set (w_threads w) \<Longrightarrow> fire_of t = Some (r, g) \<Longrightarrow> wf_world w \<Longrightarrow> fired w r g"
  by (cases t) (auto simp: wf_world_def)

lemma set_map_filter: "set (List.map_filter f xs) = {y. \<exists>x \<in> set xs. f x = Some y}"
  by (force simp: List.map_filter_def)

lemma thread_toks_grows:
  assumes "grows w w'" "wf_world w" "w_threads w' = w_threads w"
  shows "thread_toks w' = thread_toks w"
  unfolding thread_toks_def assms(3) using assms(1,2)
  by (intro arg_cong [of _ _ mset] map_cong)
    (auto simp: set_map_filter fired_def job_tok_grows dest!: thread_fire)

lemma tokens_grows:
  assumes "grows w w'" "wf_world w" "w_timers w' = w_timers w" "w_threads w' = w_threads w" "w_calls w' = w_calls w"
  shows "tokens w' = tokens w"
  using assms by (simp add: tokens_def call_toks_def timer_toks_grows thread_toks_grows wf_world_def)

text \<open>Steps that touch neither timers, threads, calls nor generations.\<close>

lemma inv_quiet:
  assumes "sched_inv B w" "grows w w'"
    and "w_timers w' = w_timers w" "w_threads w' = w_threads w" "w_calls w' = w_calls w"
    and "sc_generations w' = sc_generations w" "set (sc_timers w') \<subseteq> set (sc_timers w)"
    and "distinct (map fst (sc_jobs w'))" "list_all (job_ok w') (sc_jobs w')"
  shows "sched_inv B w'"
proof -
  have g: "gen_of w' = gen_of w" using assms(6) by (simp add: gen_of_def fun_eq_iff)
  have wf: "wf_world w" using assms(1) by (simp add: sched_inv_def)
  have "wf_world w'"
    using wf assms(2-9) grows_thread_ok [OF assms(2)] grows_call_ok [OF assms(2)] grows_timer_ok [OF assms(2)]
    unfolding wf_world_def by (auto simp: grows_def list_all_iff)
  then show ?thesis
    using assms(1) tokens_grows [OF assms(2) wf assms(3-5)] by (simp add: sched_inv_def tokens_ok_def g)
qed

lemma jobs_kept:
  assumes "sched_inv B w" "grows w w'"
  shows "distinct (map fst (sc_jobs w))" "list_all (job_ok w') (sc_jobs w)" "list_all (timer_ok w') (sc_timers w)"
  using assms grows_job_ok [OF assms(2)] grows_timer_ok [OF assms(2)] by (auto simp: sched_inv_def wf_world_def list_all_iff)

lemma grows_set_job: "(\<And>j. j_ID (f j) = j_ID j) \<Longrightarrow> grows w (set_job r f w)"
  by (cases "r < length (w_heap w)") (auto simp: grows_def set_job_def nth_list_update)

lemma inv_set_job:
  assumes "\<And>j. j_ID (f j) = j_ID j" "sched_inv B w"
  shows "sched_inv B (set_job r f w)"
  using jobs_kept [OF assms(2) grows_set_job [OF assms(1)]]
  by (intro inv_quiet [OF assms(2) grows_set_job [OF assms(1)]]) (auto simp: set_job_def)

lemma grows_fields:
  assumes "w_heap w' = w_heap w" "w_timers w' = w_timers w" "w_clock w' = w_clock w"
  shows "grows w w'"
  using assms by (simp add: grows_def)

lemma inv_fields:
  assumes "sched_inv B w" "w_heap w' = w_heap w" "w_timers w' = w_timers w" "w_clock w' = w_clock w"
    "w_threads w' = w_threads w" "w_calls w' = w_calls w" "sc_generations w' = sc_generations w"
    "distinct (map fst (sc_jobs w'))" "set (sc_jobs w') \<subseteq> set (sc_jobs w)" "set (sc_timers w') \<subseteq> set (sc_timers w)"
  shows "sched_inv B w'"
  using assms jobs_kept [OF assms(1) grows_fields [OF assms(2-4)]]
  by (intro inv_quiet [OF assms(1) grows_fields [OF assms(2-4)]]) (auto simp: list_all_iff)

lemma distinct_alist_delete: "distinct (map fst al) \<Longrightarrow> distinct (map fst (AList.delete k al))"
  by (simp add: distinct_delete)

lemma in_alist_delete: "p \<in> set (AList.delete k al) \<Longrightarrow> p \<in> set al"
  by (auto simp: AList.delete_eq)

lemma inv_delete_job: "sched_inv B w \<Longrightarrow> sched_inv B (delete_job jid w)"
  by (rule inv_fields [of B w])
    (auto simp: delete_job_def sched_inv_def wf_world_def distinct_alist_delete dest: in_alist_delete)

lemma inv_forget_timer: "sched_inv B w \<Longrightarrow> sched_inv B (forget_timer jid w)"
  by (rule inv_fields [of B w]) (auto simp: forget_timer_def sched_inv_def wf_world_def dest: in_alist_delete)

lemma inv_enter_job:
  assumes "sched_inv B w" "r < length (w_heap w)" "j_ID (w_heap w ! r) = jid"
  shows "sched_inv B (w\<lparr>sc_jobs := AList.update jid r (sc_jobs w)\<rparr>)"
proof -
  have g: "grows w (w\<lparr>sc_jobs := AList.update jid r (sc_jobs w)\<rparr>)" by (intro grows_fields) auto
  show ?thesis
    using assms jobs_kept [OF assms(1) g]
    by (intro inv_quiet [OF assms(1) g])
      (auto simp: distinct_update list_all_iff job_ok_def dest!: in_alist_update)
qed

lemma inv_alloc:
  assumes "sched_inv B w" "j_ID job = jid"
  shows "sched_inv B (w\<lparr>w_heap := w_heap w @ [job], sc_jobs := AList.update jid (length (w_heap w)) (sc_jobs w)\<rparr>)"
proof -
  let ?w = "w\<lparr>w_heap := w_heap w @ [job]\<rparr>"
  have g: "grows w ?w" by (auto simp: grows_def nth_append)
  have "sched_inv B ?w"
    using jobs_kept [OF assms(1) g] by (intro inv_quiet [OF assms(1) g]) auto
  from inv_enter_job [OF this, of "length (w_heap w)" jid] show ?thesis using assms(2) by simp
qed

text \<open>Stopping a timer only removes tokens.\<close>

lemma disarm_subset:
  assumes "\<not> P y"
  shows "mset (map f (filter P (xs[k := y]))) \<subseteq># mset (map f (filter P xs))"
proof (cases "k < length xs")
  case True
  have "xs = take k xs @ xs ! k # drop (Suc k) xs" using True by (rule id_take_nth_drop)
  then have "mset (map f (filter P xs)) =
      mset (map f (filter P (take k xs))) + mset (map f (filter P [xs ! k])) + mset (map f (filter P (drop (Suc k) xs)))"
    by (metis append_Cons append_Nil filter_append map_append mset_append union_assoc)
  moreover have "mset (map f (filter P (xs[k := y]))) =
      mset (map f (filter P (take k xs))) + mset (map f (filter P (drop (Suc k) xs)))"
    using True assms by (simp add: upd_conv_take_nth_drop)
  ultimately show ?thesis by simp
qed (simp add: list_update_beyond)

lemma tokens_ok_subset:
  assumes "tokens_ok w" "tokens w' \<subseteq># tokens w" "\<And>jid. gen_of w jid \<le> gen_of w' jid"
  shows "tokens_ok w'"
  unfolding tokens_ok_def
proof (intro conjI allI ballI)
  fix x show "count (tokens w') x \<le> 1"
    using assms(1) mset_subset_eq_count [OF assms(2), of x] unfolding tokens_ok_def by (meson order_trans)
next
  fix x assume "x \<in># tokens w'"
  then have "x \<in># tokens w" using assms(2) by (rule mset_subset_eqD [rotated])
  then have "snd x \<le> gen_of w (fst x)" using assms(1) by (auto simp: tokens_ok_def)
  also note assms(3)
  finally show "case x of (jid, g) \<Rightarrow> g \<le> gen_of w' jid" by (simp add: case_prod_beta)
qed

definition disarm :: "nat \<Rightarrow> world \<Rightarrow> world" where
  "disarm k w = w\<lparr>w_timers := (w_timers w)[k := (w_timers w ! k)\<lparr>tm_armed := False\<rparr>]\<rparr>"

lemma disarm_key: "timer_key (w_timers (disarm k w) ! i) = timer_key (w_timers w ! i)"
  by (cases "k < length (w_timers w)") (auto simp: disarm_def timer_key_def nth_list_update list_update_beyond)

lemma grows_disarm: "grows w (disarm k w)"
  by (simp add: grows_def disarm_key) (simp add: disarm_def)

lemma disarm_keys: "timer_key ` set (w_timers (disarm k w)) = timer_key ` set (w_timers w)"
proof
  have "grows (disarm k w) w" by (simp add: grows_def disarm_key) (simp add: disarm_def)
  then show "timer_key ` set (w_timers (disarm k w)) \<subseteq> timer_key ` set (w_timers w)" by (rule grows_keys)
qed (rule grows_keys [OF grows_disarm])

lemma tokens_disarm: "tokens (disarm k w) \<subseteq># tokens w"
  using disarm_subset [of tm_armed "(w_timers w ! k)\<lparr>tm_armed := False\<rparr>" "\<lambda>t. job_tok w (tm_job t) (tm_gen t)" "w_timers w" k]
  by (simp add: tokens_def timer_toks_def thread_toks_def call_toks_def disarm_def job_tok_def)

lemma inv_disarm:
  assumes "sched_inv B w"
  shows "sched_inv B (disarm k w)"
proof -
  have "tm_job t < length (w_heap w)" if "t \<in> set (w_timers (disarm k w))" for t
  proof -
    have "timer_key t \<in> timer_key ` set (w_timers w)" using that disarm_keys by blast
    then show ?thesis using assms by (auto simp: timer_key_def sched_inv_def wf_world_def)
  qed
  moreover have "gen_of (disarm k w) = gen_of w" by (simp add: gen_of_def disarm_def fun_eq_iff)
  ultimately show ?thesis
    using assms jobs_kept [OF assms grows_disarm] grows_thread_ok [OF grows_disarm] grows_call_ok [OF grows_disarm]
      tokens_ok_subset [OF _ tokens_disarm]
    unfolding sched_inv_def wf_world_def by (auto simp: disarm_def)
qed

lemma stop_timer_disarm:
  "stop_timer jid w = (case map_of (sc_timers w) jid of None \<Rightarrow> w | Some k \<Rightarrow> forget_timer jid (disarm k w))"
  by (simp add: stop_timer_def forget_timer_def disarm_def split: option.split)

lemma inv_stop_timer: "sched_inv B w \<Longrightarrow> sched_inv B (stop_timer jid w)"
  by (simp add: stop_timer_disarm inv_forget_timer inv_disarm split: option.split)

section \<open>Scheduling adds a fresh token\<close>

lemma gen_of_bump [simp]: "gen_of (bump_gen jid w) k = (if k = jid then gen_of w jid + 1 else gen_of w k)"
  by (simp add: gen_of_def bump_gen_def)

lemma gen_of_stop [simp]: "gen_of (stop_timer jid w) = gen_of w"
  by (simp add: gen_of_def stop_timer_def fun_eq_iff split: option.split)

lemma word_next_le: "unat (g :: 64 word) < 2 ^ 64 - 1 \<Longrightarrow> g < g + 1"
  by (simp add: word_less_nat_alt unat_word_ariths)

lemma unat_next: "unat (g :: 64 word) < 2 ^ 64 - 1 \<Longrightarrow> unat (g + 1) = unat g + 1"
  by (simp add: unat_word_ariths)

lemma inv_bump:
  assumes "sched_inv B w" "B jid < 2 ^ 64 - 1"
  shows "sched_inv (B(jid := B jid + 1)) (bump_gen jid w)"
proof -
  have b: "unat (gen_of w jid) < 2 ^ 64 - 1" using assms by (meson sched_inv_def order_le_less_trans)
  have g: "grows w (bump_gen jid w)" by (intro grows_fields) (auto simp: bump_gen_def)
  have wf: "wf_world w" using assms(1) by (simp add: sched_inv_def)
  have "wf_world (bump_gen jid w)"
    using wf grows_thread_ok [OF g] grows_call_ok [OF g] jobs_kept [OF assms(1) g]
    unfolding wf_world_def by (auto simp: bump_gen_def)
  moreover have "tokens (bump_gen jid w) = tokens w"
    using tokens_grows [OF g wf] by (simp add: bump_gen_def)
  moreover have "gen_of w k \<le> gen_of (bump_gen jid w) k" for k
    using order_less_imp_le [OF word_next_le [OF b]] by simp
  moreover have "tokens_ok w" using assms(1) by (simp add: sched_inv_def)
  ultimately have "wf_world (bump_gen jid w)" "tokens_ok (bump_gen jid w)"
    using tokens_ok_subset [of w "bump_gen jid w"] by simp_all
  moreover have "unat (gen_of (bump_gen jid w) k) \<le> (B(jid := B jid + 1)) k" for k
    using assms(1) unat_next [OF b] by (simp add: sched_inv_def)
  ultimately show ?thesis by (simp add: sched_inv_def)
qed

text \<open>Starting a timer for the current generation, when no token has reached it.\<close>

lemma inv_start_timer:
  assumes inv: "sched_inv B w"
    and r: "r < length (w_heap w)" and t: "tm_job t = r" "tm_gen t = gen_of w (j_ID (w_heap w ! r))" "tm_armed t"
    and ts: "\<And>p. p \<in> set ts \<Longrightarrow> p = (j_ID (w_heap w ! r), length (w_timers w)) \<or> p \<in> set (sc_timers w)"
    and fresh: "\<And>g. (j_ID (w_heap w ! r), g) \<in># tokens w \<Longrightarrow> g \<noteq> tm_gen t"
  shows "sched_inv B (w\<lparr>sc_timers := ts, w_timers := w_timers w @ [t]\<rparr>)"
proof -
  let ?w = "w\<lparr>sc_timers := ts, w_timers := w_timers w @ [t]\<rparr>"
  have g: "grows w ?w" by (auto simp: grows_def nth_append)
  have wf: "wf_world w" using inv by (simp add: sched_inv_def)
  have "tokens ?w = tokens w + {#(j_ID (w_heap w ! r), tm_gen t)#}"
    using t by (simp add: tokens_def timer_toks_def thread_toks_def call_toks_def job_tok_def)
  moreover have "count (tokens w) (j_ID (w_heap w ! r), tm_gen t) = 0"
    using fresh [of "tm_gen t"] by (auto simp flip: not_in_iff)
  moreover have "gen_of ?w = gen_of w" by (simp add: gen_of_def fun_eq_iff)
  ultimately have "tokens_ok ?w" using inv t(2) by (auto simp: tokens_ok_def sched_inv_def)
  moreover have "timer_ok ?w (j_ID (w_heap w ! r), length (w_timers w))" using r t(1) by (simp add: timer_ok_def)
  then have "list_all (timer_ok ?w) ts" using ts jobs_kept(3) [OF inv g] by (auto simp: list_all_iff)
  then have "wf_world ?w"
    using wf r t(1) grows_thread_ok [OF g] grows_call_ok [OF g] jobs_kept [OF inv g]
    unfolding wf_world_def by auto
  moreover note \<open>gen_of ?w = gen_of w\<close>
  ultimately show ?thesis using inv by (simp add: sched_inv_def)
qed

lemma stop_timer_fields [simp]:
  "w_heap (stop_timer jid w) = w_heap w" "sc_jobs (stop_timer jid w) = sc_jobs w"
  "w_clock (stop_timer jid w) = w_clock w" "w_threads (stop_timer jid w) = w_threads w"
  "w_calls (stop_timer jid w) = w_calls w" "sc_generations (stop_timer jid w) = sc_generations w"
  "sc_patrol (stop_timer jid w) = sc_patrol w" "sc_lastEnqueue (stop_timer jid w) = sc_lastEnqueue w"
  by (simp_all add: stop_timer_def split: option.split)

lemma bump_gen_fields [simp]:
  "w_heap (bump_gen jid w) = w_heap w" "sc_jobs (bump_gen jid w) = sc_jobs w"
  "w_clock (bump_gen jid w) = w_clock w" "w_threads (bump_gen jid w) = w_threads w"
  "sc_patrol (bump_gen jid w) = sc_patrol w" "sc_lastEnqueue (bump_gen jid w) = sc_lastEnqueue w"
  "w_calls (bump_gen jid w) = w_calls w" "w_timers (bump_gen jid w) = w_timers w" "sc_timers (bump_gen jid w) = sc_timers w"
  by (simp_all add: bump_gen_def)

lemma inv_schedule:
  assumes inv: "sched_inv B w" and r: "r < length (w_heap w)" and b: "B (j_ID (w_heap w ! r)) < 2 ^ 64 - 1"
  shows "sched_inv (B(j_ID (w_heap w ! r) := B (j_ID (w_heap w ! r)) + 1)) (scheduleJobLocked r w)"
proof -
  let ?jid = "j_ID (w_heap w ! r)"
  let ?w0 = "stop_timer ?jid w" and ?w1 = "bump_gen ?jid (stop_timer ?jid w)"
  have inv0: "sched_inv B ?w0" using inv by (rule inv_stop_timer)
  from inv_bump [OF inv0 b] have inv1: "sched_inv (B(?jid := B ?jid + 1)) ?w1" .
  have "unat (gen_of w ?jid) < 2 ^ 64 - 1" using inv b by (meson sched_inv_def order_le_less_trans)
  then have less: "gen_of w ?jid < gen_of w ?jid + 1" by (rule word_next_le)
  have "g \<noteq> gen_of w ?jid + 1" if "(?jid, g) \<in># tokens ?w1" for g
  proof -
    have "tokens ?w1 = tokens ?w0"
      using tokens_grows [of ?w0 ?w1] inv0 by (auto simp: grows_fields sched_inv_def)
    then have "(?jid, g) \<in># tokens ?w0" using that by simp
    then have "g \<le> gen_of w ?jid" using inv0 by (auto simp: sched_inv_def tokens_ok_def)
    then show ?thesis using less by auto
  qed
  then show ?thesis
    unfolding scheduleJobLocked_def Let_def
    by (intro inv_start_timer [OF inv1, of r]) (use r in \<open>auto dest: in_alist_update in_alist_delete\<close>)
qed

lemma inv_mono: "sched_inv B w \<Longrightarrow> (\<And>jid. B jid \<le> B' jid) \<Longrightarrow> sched_inv B' w"
  by (auto simp: sched_inv_def intro: order_trans)

section \<open>The operations keep the invariant\<close>

text \<open>A critical section raises no generation by more than two and leaves a well-formed thread.\<close>

definition result_ok :: "nat \<Rightarrow> section_result \<Rightarrow> bool" where
  "result_ok n p \<longleftrightarrow> sched_inv (\<lambda>_. n) (fst p) \<and>
     (\<forall>t. snd p = Continue t \<longrightarrow> thread_ok (fst p) t \<and> fire_of t = None)"

lemma result_okI:
  "sched_inv (\<lambda>_. m) w \<Longrightarrow> m \<le> n \<Longrightarrow> (\<And>t. out = Continue t \<Longrightarrow> thread_ok w t \<and> fire_of t = None) \<Longrightarrow> result_ok n (w, out)"
  by (auto simp: result_ok_def intro: inv_mono)

lemma schedule_fields [simp]:
  "w_heap (scheduleJobLocked r w) = w_heap w" "sc_jobs (scheduleJobLocked r w) = sc_jobs w"
  "w_clock (scheduleJobLocked r w) = w_clock w" "w_threads (scheduleJobLocked r w) = w_threads w"
  "w_calls (scheduleJobLocked r w) = w_calls w" "sc_patrol (scheduleJobLocked r w) = sc_patrol w"
  "sc_lastEnqueue (scheduleJobLocked r w) = sc_lastEnqueue w"
  by (simp_all add: scheduleJobLocked_def Let_def)

lemma set_job_fields [simp]:
  "length (w_heap (set_job r f w)) = length (w_heap w)" "sc_jobs (set_job r f w) = sc_jobs w"
  "w_clock (set_job r f w) = w_clock w" "w_threads (set_job r f w) = w_threads w"
  "w_calls (set_job r f w) = w_calls w" "w_timers (set_job r f w) = w_timers w" "gen_of (set_job r f w) = gen_of w"
  "sc_timers (set_job r f w) = sc_timers w" "sc_lastEnqueue (set_job r f w) = sc_lastEnqueue w"
  by (auto simp: set_job_def gen_of_def fun_eq_iff)

lemma set_job_ID:
  "r < length (w_heap w) \<Longrightarrow> j_ID (f (w_heap w ! r)) = j_ID (w_heap w ! r) \<Longrightarrow>
   j_ID (w_heap (set_job r f w) ! q) = j_ID (w_heap w ! q)"
  by (auto simp: set_job_def nth_list_update)

lemma delete_job_fields [simp]:
  "w_heap (delete_job jid w) = w_heap w" "w_calls (delete_job jid w) = w_calls w"
  "sc_lastEnqueue (delete_job jid w) = sc_lastEnqueue w" "w_clock (delete_job jid w) = w_clock w"
  by (auto simp: delete_job_def)

lemma forget_timer_fields [simp]:
  "w_heap (forget_timer jid w) = w_heap w" "sc_jobs (forget_timer jid w) = sc_jobs w" "w_calls (forget_timer jid w) = w_calls w"
  "sc_lastEnqueue (forget_timer jid w) = sc_lastEnqueue w" "w_clock (forget_timer jid w) = w_clock w"
  by (auto simp: forget_timer_def)

lemma inv_schedule_all:
  assumes "sched_inv (\<lambda>_. n) w" "r < length (w_heap w)" "Suc n < 2 ^ 64"
  shows "sched_inv (\<lambda>_. Suc n) (scheduleJobLocked r w)"
  by (rule inv_mono [OF inv_schedule [OF assms(1,2)]]) (use assms(3) in auto)

lemma inv_Suc: "sched_inv (\<lambda>_. n) w \<Longrightarrow> sched_inv (\<lambda>_. Suc n) w"
  by (erule inv_mono) simp

lemma inv_two: "sched_inv (\<lambda>_. n) w \<Longrightarrow> sched_inv (\<lambda>_. Suc (Suc n)) w"
  by (intro inv_Suc)

lemma job_of_ok:
  assumes "sched_inv B w" "job_of w jid = Some r"
  shows "r < length (w_heap w) \<and> j_ID (w_heap w ! r) = jid"
proof -
  have "(jid, r) \<in> set (sc_jobs w)" using assms(2) by (rule map_of_SomeD)
  moreover have "list_all (job_ok w) (sc_jobs w)" using assms(1) by (simp add: sched_inv_def wf_world_def)
  ultimately show ?thesis by (auto simp: list_all_iff job_ok_def)
qed

lemma Create_ok:
  assumes "sched_inv (\<lambda>_. n) w"
  shows "result_ok (n + 2) (Scheduler_Create expr prompt recurring queue sfx w)"
proof -
  have alloc: "sched_inv (\<lambda>_. n) (w\<lparr>w_heap := w_heap w @ [job], sc_jobs := AList.update (j_ID job) (length (w_heap w)) (sc_jobs w)\<rparr>)"
    for job using assms by (rule inv_alloc) simp
  have "sched_inv (\<lambda>_. n) (w\<lparr>sc_nextID := m, w_heap := w_heap w @ [job],
      sc_jobs := AList.update (j_ID job) (length (w_heap w)) (sc_jobs w), sc_knownIDs := ks\<rparr>)" for m ks job
    by (rule inv_fields [OF alloc [of job]]) (use alloc [of job] in \<open>auto simp: sched_inv_def wf_world_def\<close>)
  from this [where job = "\<lparr>j_ID = jid, j_CronExpr = expr, j_Prompt = prompt, j_Recurring = recurring,
    j_QueueIfBusy = queue, j_CreatedAt = w_clock w, j_NextFire = nxt, j_Paused = False\<rparr>" for jid nxt] assms
  show ?thesis
    by (auto simp: Scheduler_Create_def Let_def split: sum.split intro!: result_okI [of n])
qed

lemma Delete_ok: "sched_inv (\<lambda>_. n) w \<Longrightarrow> result_ok (n + 2) (DeleteWithError jid w)"
  using job_of_ok [of "\<lambda>_. n" w jid]
  by (auto simp: DeleteWithError_def inv_delete_job inv_stop_timer split: option.split intro!: result_okI [of n])

lemma Pause_ok: "sched_inv (\<lambda>_. n) w \<Longrightarrow> result_ok (n + 2) (Pause jid w)"
  using job_of_ok [of "\<lambda>_. n" w jid]
  by (auto simp: Pause_def inv_set_job inv_stop_timer split: option.split intro!: result_okI [of n])

lemma Resume_ok: "sched_inv (\<lambda>_. n) w \<Longrightarrow> n + 2 < 2 ^ 64 \<Longrightarrow> result_ok (n + 2) (Resume jid w)"
  using job_of_ok [of "\<lambda>_. n" w jid]
  by (auto simp: Resume_def split: option.split sum.split
    intro!: result_okI [of "Suc n"] inv_schedule_all inv_set_job intro: inv_Suc)

lemma Update_ok:
  assumes "sched_inv (\<lambda>_. n) w" "n + 2 < 2 ^ 64"
  shows "result_ok (n + 2) (Scheduler_Update jid expr prompt queue w)"
proof (cases "job_of w jid")
  case None
  then show ?thesis using assms by (auto simp: Scheduler_Update_def intro!: result_okI [of n])
next
  case (Some r)
  then have r: "r < length (w_heap w)" using job_of_ok assms(1) by auto
  define change where "change p = (if p then stop_timer jid else scheduleJobLocked r \<circ> stop_timer jid)" for p
  have inv: "sched_inv (\<lambda>_. Suc n) (change p (set_job r (\<lambda>_. job1) w))" if "j_ID job1 = j_ID (w_heap w ! r)" for p job1
  proof -
    have "set_job r (\<lambda>_. job1) w = set_job r (\<lambda>j. if j = w_heap w ! r then job1 else j) w" by (simp add: set_job_def)
    moreover have "sched_inv (\<lambda>_. n) (set_job r (\<lambda>j. if j = w_heap w ! r then job1 else j) w)"
      using that assms(1) by (intro inv_set_job) auto
    ultimately have "sched_inv (\<lambda>_. n) (stop_timer jid (set_job r (\<lambda>_. job1) w))" by (simp add: inv_stop_timer)
    then show ?thesis
      using r assms(2) inv_schedule_all by (auto simp: change_def intro: inv_Suc)
  qed
  have "result_ok (n + 2) (change p (set_job r (\<lambda>_. job1) w), Continue (TSave (ByUpdate uf)))"
    if "j_ID job1 = j_ID (w_heap w ! r)" "uf_job uf = r" for p job1 uf
    using inv [OF that(1)] r that(2) by (intro result_okI [of "Suc n"]) (auto simp: change_def)
  from this [where p = True] this [where p = False] Some assms(1) show ?thesis
    by (auto simp: Scheduler_Update_def Let_def change_def split: option.split sum.split intro!: result_okI [of n])
qed

lemma fire_again_ok:
  assumes "sched_inv (\<lambda>_. n) w" "r < length (w_heap w)" "n + 2 < 2 ^ 64"
  shows "result_ok (n + 2) (fire_again r w)"
  using assms
  by (auto simp: fire_again_def Let_def inv_forget_timer inv_delete_job split: sum.split
    intro!: result_okI [of "Suc n"] inv_schedule_all inv_set_job intro: inv_Suc)

lemma fireJob_after_ok:
  assumes "sched_inv (\<lambda>_. n) w" "r < length (w_heap w)" "n + 2 < 2 ^ 64"
  shows "result_ok (n + 2) (fireJob_after panicked r g w)"
  using assms fire_again_ok [OF assms]
  by (auto simp: fireJob_after_def Let_def intro!: result_okI [of n] inv_forget_timer inv_delete_job)

text \<open>The call of \<^verbatim>\<open>enqueue\<close> turns the token of the running callback into one of a call.\<close>

lemma inv_call:
  assumes inv: "sched_inv B w" and f: "fired w r g"
    and new: "(j_ID (w_heap w ! r), g) \<notin># tokens w" "g \<le> gen_of w (j_ID (w_heap w ! r))"
    and e: "eq_job e = Some (j_ID (w_heap w ! r), g)" "eq_at e = w_clock w"
  shows "sched_inv B (w\<lparr>sc_lastEnqueue := le, w_calls := w_calls w @ [e]\<rparr>)"
proof -
  let ?w = "w\<lparr>sc_lastEnqueue := le, w_calls := w_calls w @ [e]\<rparr>"
  have g: "grows w ?w" by (intro grows_fields) auto
  have wf: "wf_world w" using inv by (simp add: sched_inv_def)
  have "call_ok ?w e" using f e unfolding call_ok_def fired_def by auto
  then have "wf_world ?w"
    using wf grows_thread_ok [OF g] grows_call_ok [OF g] jobs_kept [OF inv g] unfolding wf_world_def by auto
  moreover have gen: "gen_of ?w = gen_of w" by (simp add: gen_of_def fun_eq_iff)
  moreover have "tokens ?w = tokens w + {#(j_ID (w_heap w ! r), g)#}"
    using e(1) by (simp add: tokens_def timer_toks_def thread_toks_def call_toks_def job_tok_def List.map_filter_def)
  then have "tokens_ok ?w" using inv new by (auto simp: tokens_ok_def sched_inv_def gen not_in_iff)
  ultimately show ?thesis using inv by (simp add: sched_inv_def)
qed

lemma fireJob_ok:
  assumes "sched_inv (\<lambda>_. n) w" "fired w r g" "n + 2 < 2 ^ 64"
    and "(j_ID (w_heap w ! r), g) \<notin># tokens w" "g \<le> gen_of w (j_ID (w_heap w ! r))"
  shows "result_ok (n + 2) (fireJob r g w)"
proof -
  have r: "r < length (w_heap w)" using assms(2) by (simp add: fired_def)
  have "result_ok (n + 2) (w, Return Nothing)" using assms(1) by (intro result_okI [of n]) auto
  moreover have "result_ok (n + 2) (w\<lparr>sc_lastEnqueue := le, w_calls := w_calls w @ [e]\<rparr>, Continue (TReschedule r g))"
    if "eq_job e = Some (j_ID (w_heap w ! r), g)" "eq_at e = w_clock w" for e le
    using inv_call [OF assms(1,2,4,5) that] r by (intro result_okI [of n]) auto
  ultimately show ?thesis
    using fire_again_ok [OF assms(1) r assms(3)] by (simp add: fireJob_def Let_def)
qed

text \<open>The patrol raises the generation of each overdue job by two.\<close>

lemma inv_patrol_job:
  assumes "sched_inv B w" "r < length (w_heap w)" "j_ID (w_heap w ! r) = jid" "B jid + 2 < 2 ^ 64"
  shows "sched_inv (B(jid := B jid + 2)) (fst (patrol_job (jid, r) (w, b)))"
proof -
  let ?B = "B(jid := B jid + 1)" and ?w1 = "bump_gen jid (stop_timer jid w)"
  have inv1: "sched_inv ?B ?w1" using assms(4) by (intro inv_bump inv_stop_timer assms(1)) simp
  have sched: "sched_inv (B(jid := B jid + 2)) (scheduleJobLocked r (set_job r (\<lambda>j. j\<lparr>j_NextFire := t\<rparr>) ?w1))" for t
  proof -
    let ?w2 = "set_job r (\<lambda>j. j\<lparr>j_NextFire := t\<rparr>) ?w1"
    have jid: "j_ID (w_heap ?w2 ! r) = jid" using assms(2,3) by (simp add: set_job_ID)
    have "sched_inv ?B ?w2" by (intro inv_set_job inv1) simp
    from inv_schedule [OF this, of r] show ?thesis using assms(2,4) by (simp add: jid numeral_2_eq_2)
  qed
  moreover have "sched_inv (B(jid := B jid + 2)) (delete_job jid ?w1)"
    by (intro inv_delete_job inv_mono [OF inv1]) simp
  moreover have "sched_inv (B(jid := B jid + 2)) w" by (intro inv_mono [OF assms(1)]) simp
  ultimately show ?thesis by (simp add: patrol_job_def Let_def split: sum.split)
qed

lemma patrol_job_heap:
  assumes "snd p < length (w_heap w)"
  shows "length (w_heap (fst (patrol_job p (w, b)))) = length (w_heap w)"
    and "j_ID (w_heap (fst (patrol_job p (w, b))) ! q) = j_ID (w_heap w ! q)"
  using assms by (simp_all add: patrol_job_def Let_def case_prod_beta set_job_ID split: sum.split)

lemma inv_patrol:
  assumes "sched_inv B w" "list_all (job_ok w) ps" "distinct (map fst ps)"
    and "\<And>jid. jid \<in> fst ` set ps \<Longrightarrow> B jid + 2 < 2 ^ 64"
  shows "sched_inv (\<lambda>jid. if jid \<in> fst ` set ps then B jid + 2 else B jid) (fst (fold patrol_job ps (w, b)))"
  using assms
proof (induction ps arbitrary: B w b)
  case (Cons p ps)
  obtain jid r where p: "p = (jid, r)" by (cases p)
  obtain w1 b1 where w1: "patrol_job p (w, b) = (w1, b1)" by (cases "patrol_job p (w, b)")
  have inv1: "sched_inv (B(jid := B jid + 2)) w1"
    using inv_patrol_job [of B w r jid b] Cons.prems w1 by (simp add: p job_ok_def)
  have ok1: "list_all (job_ok w1) ps"
    using Cons.prems(2) patrol_job_heap [of p w b] w1 by (simp add: list_all_iff job_ok_def)
  have "sched_inv (\<lambda>k. if k \<in> fst ` set ps then (B(jid := B jid + 2)) k + 2 else (B(jid := B jid + 2)) k)
      (fst (fold patrol_job ps (w1, b1)))"
    by (rule Cons.IH [OF inv1 ok1]) (use Cons.prems(3,4) in \<open>auto simp: p\<close>)
  then have "sched_inv (\<lambda>k. if k \<in> fst ` set ps then (B(jid := B jid + 2)) k + 2 else (B(jid := B jid + 2)) k)
      (fst (fold patrol_job (p # ps) (w, b)))" by (simp add: w1)
  then show ?case by (rule inv_mono) (use Cons.prems(3) in \<open>auto simp: p\<close>)
qed simp

lemma range_jobs:
  assumes "sched_inv B w"
  shows "list_all (job_ok w) (range_order pick (sc_jobs w))" "distinct (map fst (range_order pick (sc_jobs w)))"
proof -
  have "mset (map fst (range_order pick (sc_jobs w))) = mset (map fst (sc_jobs w))" by simp
  then show "distinct (map fst (range_order pick (sc_jobs w)))"
    using assms by (metis mset_eq_imp_distinct_iff sched_inv_def wf_world_def)
  show "list_all (job_ok w) (range_order pick (sc_jobs w))"
    using assms by (auto simp: list_all_iff sched_inv_def wf_world_def)
qed

lemma patrolCheck_ok:
  assumes "sched_inv (\<lambda>_. n) w" "n + 2 < 2 ^ 64"
  shows "result_ok (n + 2) (patrolCheck pick w)"
proof -
  let ?p = "fold patrol_job (range_order pick (sc_jobs w)) (w, False)"
  have "sched_inv (\<lambda>jid. if jid \<in> fst ` set (range_order pick (sc_jobs w)) then n + 2 else n) (fst ?p)"
    using inv_patrol [OF assms(1) range_jobs [OF assms(1)]] assms(2) by simp
  then have "sched_inv (\<lambda>_. n + 2) (fst ?p)" by (rule inv_mono) simp
  then show ?thesis by (cases ?p) (auto simp: patrolCheck_def intro!: result_okI [of "n + 2"])
qed

section \<open>Rollbacks, loading and sessions keep the invariant\<close>

lemma inv_disk: "sched_inv B w \<Longrightarrow> sched_inv B (w\<lparr>w_disk := d\<rparr>)"
  by (rule inv_fields [of B w]) (auto simp: sched_inv_def wf_world_def)

lemma update_rollback_ok:
  assumes "sched_inv (\<lambda>_. n) w" "uf_job uf < length (w_heap w)" "n + 2 < 2 ^ 64"
  shows "sched_inv (\<lambda>_. Suc n) (update_rollback uf w)"
proof -
  define w1 where "w1 = set_job (uf_job uf) (\<lambda>j. j\<lparr>j_CronExpr := uf_origCron uf, j_Prompt := uf_origPrompt uf,
      j_QueueIfBusy := uf_origQueue uf\<rparr>) w"
  define w2 where "w2 t = (if uf_cron uf = None then w1 else set_job (uf_job uf) (\<lambda>j. j\<lparr>j_NextFire := t\<rparr>) w1)" for t
  have "sched_inv (\<lambda>_. n) w1" unfolding w1_def using assms(1) by (intro inv_set_job) auto
  then have inv2: "sched_inv (\<lambda>_. n) (stop_timer (uf_id uf) (w2 t))" for t
    by (auto simp: w2_def intro!: inv_stop_timer inv_set_job)
  then have "sched_inv (\<lambda>_. Suc n) (stop_timer (uf_id uf) (w2 t))" for t by (rule inv_Suc)
  moreover have "sched_inv (\<lambda>_. Suc n) (scheduleJobLocked (uf_job uf) (stop_timer (uf_id uf) (w2 t)))" for t
    using assms(2,3) by (intro inv_schedule_all inv2) (auto simp: w2_def w1_def)
  ultimately show ?thesis
    unfolding update_rollback_def Let_def w1_def [symmetric] by (simp add: w2_def [symmetric])
qed

lemma rollback_ok:
  assumes "sched_inv (\<lambda>_. n) w" "saver_ok w b" "n + 2 < 2 ^ 64"
  shows "result_ok (n + 2) (rollback b err w)"
proof (cases b)
  case (ByDelete jid r had)
  then have "sched_inv (\<lambda>_. n) (w\<lparr>sc_jobs := AList.update jid r (sc_jobs w)\<rparr>)"
    using assms by (intro inv_enter_job) auto
  then show ?thesis
    using ByDelete assms by (auto simp: Let_def intro!: result_okI [of "Suc n"] inv_schedule_all intro: inv_Suc)
next
  case (ByUpdate uf)
  then show ?thesis using assms update_rollback_ok by (auto intro!: result_okI [of "Suc n"])
next
  case (ByPause r orig)
  then show ?thesis using assms by (auto intro!: result_okI [of "Suc n"] inv_schedule_all inv_set_job)
qed (use assms in \<open>auto intro!: result_okI [of n] inv_delete_job inv_stop_timer inv_set_job\<close>)

lemma load_next_thread: "load_next jjs switching = Continue t \<Longrightarrow> thread_ok w t \<and> fire_of t = None"
  by (auto simp: load_next_def split: if_splits)

lemma load_next_ok: "sched_inv (\<lambda>_. n) w \<Longrightarrow> result_ok (n + 2) (w, load_next jjs switching)"
  by (auto intro!: result_okI [of n] dest: load_next_thread)

lemma load_read_ok: "sched_inv (\<lambda>_. n) w \<Longrightarrow> result_ok (n + 2) (load_read readable switching w)"
  using load_next_ok [of n w] by (simp add: load_read_def split: option.split)

lemma load_job_ok:
  assumes "sched_inv (\<lambda>_. n) w"
  shows "result_ok (n + 2) (load_job jjs switching w)"
proof (cases jjs)
  case (Cons jj rest)
  have alloc: "sched_inv (\<lambda>_. n) (w\<lparr>w_heap := w_heap w @ [job], sc_jobs := AList.update (j_ID job) (length (w_heap w)) (sc_jobs w)\<rparr>)"
    for job using assms by (rule inv_alloc) simp
  have "sched_inv (\<lambda>_. n) (w\<lparr>sc_nextID := m, w_heap := w_heap w @ [job],
      sc_jobs := AList.update (j_ID job) (length (w_heap w)) (sc_jobs w), sc_knownIDs := ks\<rparr>)" for m ks job
    by (rule inv_fields [OF alloc [of job]]) (use alloc [of job] in \<open>auto simp: sched_inv_def wf_world_def\<close>)
  from this [where job = "\<lparr>j_ID = jj_ID jj, j_CronExpr = c, j_Prompt = p, j_Recurring = rc,
    j_QueueIfBusy = q, j_CreatedAt = t, j_NextFire = nxt, j_Paused = pa\<rparr>" for c p rc q t nxt pa]
  show ?thesis
    using Cons load_next_ok [OF assms]
    by (auto simp: Let_def split: sum.split intro!: result_okI [of n] dest: load_next_thread)
qed (use load_next_ok [OF assms] in simp)

lemma inv_stop_all: "sched_inv B w \<Longrightarrow> sched_inv B (stop_all w)"
proof -
  have "sched_inv B w \<Longrightarrow> sched_inv B (fold stop_timer js w)" for js
    by (induction js arbitrary: w) (auto simp: inv_stop_timer)
  then show "sched_inv B w \<Longrightarrow> ?thesis" by (simp add: stop_all_def)
qed

lemma inv_no_jobs: "sched_inv B w \<Longrightarrow> sched_inv B (w\<lparr>sc_jobs := []\<rparr>)"
  by (rule inv_fields [of B w]) auto

text \<open>Raising every generation that is present.\<close>

lemma inv_bump_all:
  assumes "sched_inv (\<lambda>_. n) w" "n + 2 < 2 ^ 64"
  shows "sched_inv (\<lambda>_. Suc n) (w\<lparr>sc_generations := \<lambda>jid. map_option (\<lambda>g. g + 1) (sc_generations w jid)\<rparr>)"
    (is "sched_inv _ ?w")
proof -
  have g: "grows w ?w" by (intro grows_fields) auto
  have wf: "wf_world w" using assms(1) by (simp add: sched_inv_def)
  have b: "unat (gen_of w jid) < 2 ^ 64 - 1" for jid
  proof -
    have "unat (gen_of w jid) \<le> n" using assms(1) by (simp add: sched_inv_def)
    then show ?thesis using assms(2) by simp
  qed
  have gen: "gen_of ?w jid = gen_of w jid \<or> gen_of ?w jid = gen_of w jid + 1" for jid
    by (auto simp: gen_of_def split: option.split)
  have up: "gen_of w jid \<le> gen_of ?w jid" "unat (gen_of ?w jid) \<le> Suc (unat (gen_of w jid))" for jid
    using gen [of jid] order_less_imp_le [OF word_next_le [OF b [of jid]]] unat_next [OF b [of jid]] by auto
  have "wf_world ?w"
    using wf grows_thread_ok [OF g] grows_call_ok [OF g] jobs_kept [OF assms(1) g] unfolding wf_world_def by auto
  moreover have "tokens ?w = tokens w" using tokens_grows [OF g wf] by simp
  then have "tokens_ok ?w"
    using assms(1) up(1) by (intro tokens_ok_subset [of w ?w]) (simp_all add: sched_inv_def)
  moreover have "unat (gen_of ?w jid) \<le> Suc n" for jid
    using up(2) [of jid] assms(1) unfolding sched_inv_def by (meson Suc_le_mono order_trans)
  ultimately show ?thesis by (simp add: sched_inv_def)
qed

lemma inv_idle_fields:
  "sched_inv B w \<Longrightarrow> sched_inv B (w\<lparr>sc_nextID := m\<rparr>)" "sched_inv B w \<Longrightarrow> sched_inv B (w\<lparr>sc_storePath := p\<rparr>)"
  "sched_inv B w \<Longrightarrow> sched_inv B (w\<lparr>sc_lastEnqueue := le\<rparr>)" "sched_inv B w \<Longrightarrow> sched_inv B (w\<lparr>sc_patrol := b\<rparr>)"
  "sched_inv B w \<Longrightarrow> sched_inv B (w\<lparr>sc_enqueue := sink\<rparr>)"
  by (rule inv_fields [of B w]; simp add: sched_inv_def wf_world_def)+

lemma SwitchSession_ok:
  assumes "sched_inv (\<lambda>_. n) w" "n + 2 < 2 ^ 64"
  shows "result_ok (n + 2) (SwitchSession path old ws w)"
proof -
  have "sched_inv (\<lambda>_. n) ((stop_all w)\<lparr>sc_jobs := []\<rparr>)" by (intro inv_no_jobs inv_stop_all assms(1))
  from inv_idle_fields(2) [OF inv_idle_fields(1) [OF inv_bump_all [OF this assms(2)]], of path 0]
  have "sched_inv (\<lambda>_. Suc n) ((stop_all w)\<lparr>sc_jobs := [],
      sc_generations := (\<lambda>jid. map_option (\<lambda>g. g + 1) (sc_generations (stop_all w) jid)), sc_nextID := 0, sc_storePath := path\<rparr>)"
    by simp
  moreover have "sc_generations (stop_all w) = sc_generations w"
  proof -
    have "sc_generations (fold stop_timer js w) = sc_generations w" for js
      by (induction js arbitrary: w) auto
    then show ?thesis by (simp add: stop_all_def)
  qed
  ultimately show ?thesis using assms(1)
    by (auto simp: SwitchSession_def intro!: result_okI [of n] result_okI [of "Suc n"] intro: inv_Suc)
qed

lemma SetSession_ok: "sched_inv (\<lambda>_. n) w \<Longrightarrow> result_ok (n + 2) (SetSession path old ws w)"
  by (auto simp: SetSession_def intro!: result_okI [of n] inv_idle_fields)

lemma inv_Shutdown: "sched_inv B w \<Longrightarrow> sched_inv B (Shutdown w)"
proof -
  assume "sched_inv B w"
  then have "sched_inv B ((stop_all w)\<lparr>sc_patrol := False\<rparr>)" by (intro inv_idle_fields inv_stop_all)
  from inv_idle_fields(3) [OF inv_no_jobs [OF this], of Map.empty] show ?thesis
    by (simp add: Shutdown_def)
qed

section \<open>Threads and runs\<close>

lemma inv_threads:
  assumes "sched_inv B w" "\<forall>t \<in> set ts. thread_ok w t"
    and "mset (map (\<lambda>(r, g). job_tok w r g) (List.map_filter fire_of ts)) \<subseteq># thread_toks w"
  shows "sched_inv B (w\<lparr>w_threads := ts\<rparr>)"
proof -
  let ?w = "w\<lparr>w_threads := ts\<rparr>"
  have g: "grows w ?w" by (intro grows_fields) auto
  have "wf_world ?w"
    using assms(1,2) grows_thread_ok [OF g] grows_call_ok [OF g] jobs_kept [OF assms(1) g]
    unfolding sched_inv_def wf_world_def by auto
  moreover have "tokens ?w \<subseteq># tokens w"
    using assms(3) by (simp add: tokens_def timer_toks_def thread_toks_def call_toks_def job_tok_def)
  moreover have gen: "gen_of ?w = gen_of w" by (simp add: gen_of_def fun_eq_iff)
  ultimately show ?thesis
    using assms(1) tokens_ok_subset [of w ?w] by (simp add: sched_inv_def)
qed

lemma map_filter_append: "List.map_filter f (xs @ ys) = List.map_filter f xs @ List.map_filter f ys"
  by (simp add: List.map_filter_def)

lemma threads_of_inv: "sched_inv B w \<Longrightarrow> t \<in> set (w_threads w) \<Longrightarrow> thread_ok w t"
  by (simp add: sched_inv_def wf_world_def)

lemma proceed_ok: "result_ok n p \<Longrightarrow> sched_inv (\<lambda>_. n) (proceed p)"
  using inv_threads [of "\<lambda>_. n" "fst p"] threads_of_inv [of "\<lambda>_. n" "fst p"]
  by (auto simp: result_ok_def proceed_def thread_toks_def map_filter_append List.map_filter_simps(2)
      List.map_filter_simps(1) case_prod_beta split: outcome.split)

definition drop_thread :: "nat \<Rightarrow> world \<Rightarrow> world" where
  "drop_thread k w = w\<lparr>w_threads := take k (w_threads w) @ drop (Suc k) (w_threads w)\<rparr>"

lemma drop_thread_fields [simp]:
  "w_heap (drop_thread k w) = w_heap w" "gen_of (drop_thread k w) = gen_of w" "fired (drop_thread k w) = fired w"
  "thread_ok (drop_thread k w) = thread_ok w" "sc_jobs (drop_thread k w) = sc_jobs w" "w_clock (drop_thread k w) = w_clock w"
  "w_calls (drop_thread k w) = w_calls w" "sc_lastEnqueue (drop_thread k w) = sc_lastEnqueue w"
proof -
  have s: "saver_ok (drop_thread k w) b = saver_ok w b" for b by (cases b) (auto simp: drop_thread_def)
  have f: "fired (drop_thread k w) = fired w" by (simp add: fired_def drop_thread_def fun_eq_iff)
  show "thread_ok (drop_thread k w) = thread_ok w"
  proof
    fix t show "thread_ok (drop_thread k w) t = thread_ok w t"
      by (cases t) (auto simp: s f, auto simp: drop_thread_def)
  qed
  show "fired (drop_thread k w) = fired w" by (rule f)
qed (auto simp: drop_thread_def gen_of_def fun_eq_iff)

lemma inv_drop_thread:
  assumes inv: "sched_inv B w" and k: "k < length (w_threads w)"
  shows "sched_inv B (drop_thread k w)" "thread_ok w (w_threads w ! k)"
    and "w_threads w ! k = TFire r g \<Longrightarrow> (job_tok w r g) \<notin># tokens (drop_thread k w) \<and> g \<le> gen_of w (j_ID (w_heap w ! r))"
proof -
  let ?ts = "take k (w_threads w) @ drop (Suc k) (w_threads w)"
  have ts: "w_threads w = take k (w_threads w) @ w_threads w ! k # drop (Suc k) (w_threads w)"
    using k by (rule id_take_nth_drop)
  have split: "thread_toks w = mset (map (\<lambda>(r, g). job_tok w r g) (List.map_filter fire_of ?ts)) +
      mset (map (\<lambda>(r, g). job_tok w r g) (List.map_filter fire_of [w_threads w ! k]))"
    unfolding thread_toks_def by (subst ts) (simp add: List.map_filter_def)
  have "set ?ts \<subseteq> set (w_threads w)" by (auto dest: in_set_takeD in_set_dropD)
  then show "sched_inv B (drop_thread k w)"
    unfolding drop_thread_def using threads_of_inv [OF inv] split by (intro inv_threads inv) auto
  show "thread_ok w (w_threads w ! k)" using threads_of_inv [OF inv] k by simp
  assume t: "w_threads w ! k = TFire r g"
  have "tokens w = tokens (drop_thread k w) + {#job_tok w r g#}"
    using split t by (simp add: tokens_def timer_toks_def thread_toks_def call_toks_def drop_thread_def job_tok_def
      List.map_filter_def)
  then have c: "count (tokens w) (job_tok w r g) = Suc (count (tokens (drop_thread k w)) (job_tok w r g))" by simp
  have "count (tokens w) (job_tok w r g) \<le> 1" "job_tok w r g \<in># tokens w \<Longrightarrow> g \<le> gen_of w (j_ID (w_heap w ! r))"
    using inv by (auto simp: sched_inv_def tokens_ok_def job_tok_def)
  then show "(job_tok w r g) \<notin># tokens (drop_thread k w) \<and> g \<le> gen_of w (j_ID (w_heap w ! r))"
    using c by (auto simp: not_in_iff count_greater_zero_iff [symmetric] simp del: count_greater_zero_iff)
qed

lemma run_section_ok:
  assumes "sched_inv (\<lambda>_. n) w" "thread_ok w t" "n + 2 < 2 ^ 64"
    and "\<And>r g. t = TFire r g \<Longrightarrow> job_tok w r g \<notin># tokens w \<and> g \<le> gen_of w (j_ID (w_heap w ! r))"
  shows "result_ok (n + 2) (run_section en t w)"
proof (cases t)
  case (TSchedule jid r)
  then show ?thesis using assms by (auto intro!: result_okI [of "Suc n"] inv_schedule_all)
next
  case (TSave b)
  have s: "saver_ok (w\<lparr>w_disk := d\<rparr>) b = saver_ok w b" for d by (cases b) auto
  then show ?thesis using assms TSave
    by (auto simp: save_def Let_def intro!: result_okI [of n] inv_disk split: prod.split option.split)
next
  case (TRollback b err)
  then show ?thesis using assms rollback_ok by simp
next
  case (TFire r g)
  then show ?thesis using assms(1-3) assms(4) [OF TFire] fireJob_ok [of n w r g] by (simp add: job_tok_def)
next
  case (TReschedule r g)
  then show ?thesis using assms(1-3) fireJob_after_ok by simp
next
  case (TMigrate old new ws switching)
  then show ?thesis using assms(1) by (auto intro!: result_okI [of n] inv_disk)
next
  case (TRead switching)
  then show ?thesis using assms(1) load_read_ok by simp
next
  case (TLoad jjs switching)
  then show ?thesis using assms(1) load_job_ok by simp
next
  case (TLoadSchedule r jjs switching)
  then show ?thesis using assms
    by (auto intro!: result_okI [of "Suc n"] inv_schedule_all dest: load_next_thread)
next
  case TClear
  then show ?thesis using assms(1) by (auto intro!: result_okI [of n] inv_idle_fields)
qed

text \<open>A timer that expires hands its token to the callback.\<close>

lemma inv_expire:
  assumes inv: "sched_inv B w" and k: "k < length (w_timers w)" "tm_armed (w_timers w ! k)" "tm_due (w_timers w ! k) \<le> w_clock w"
  shows "sched_inv B ((disarm k w)\<lparr>w_threads := w_threads w @ [TFire (tm_job (w_timers w ! k)) (tm_gen (w_timers w ! k))]\<rparr>)"
proof -
  let ?t = "w_timers w ! k" and ?th = "TFire (tm_job (w_timers w ! k)) (tm_gen (w_timers w ! k))"
  let ?w = "(disarm k w)\<lparr>w_threads := w_threads w @ [?th]\<rparr>"
  have ts: "w_timers w = take k (w_timers w) @ ?t # drop (Suc k) (w_timers w)" using k(1) by (rule id_take_nth_drop)
  have "(w_timers w)[k := ?t\<lparr>tm_armed := False\<rparr>] = take k (w_timers w) @ ?t\<lparr>tm_armed := False\<rparr> # drop (Suc k) (w_timers w)"
    using k(1) by (rule upd_conv_take_nth_drop)
  moreover have "timer_toks w = mset (map (\<lambda>t. job_tok w (tm_job t) (tm_gen t)) (filter tm_armed (take k (w_timers w)))) +
      {#job_tok w (tm_job ?t) (tm_gen ?t)#} + mset (map (\<lambda>t. job_tok w (tm_job t) (tm_gen t)) (filter tm_armed (drop (Suc k) (w_timers w))))"
    unfolding timer_toks_def by (subst ts) (simp add: k(2))
  ultimately have toks: "tokens ?w = tokens w"
    by (simp add: tokens_def timer_toks_def thread_toks_def call_toks_def disarm_def job_tok_def List.map_filter_def)
  have wfd: "sched_inv B (disarm k w)" using inv by (rule inv_disarm)
  have g: "grows (disarm k w) ?w" by (intro grows_fields) auto
  have "?t \<in> set (w_timers w)" using k(1) by simp
  then have "timer_key ?t \<in> timer_key ` set (w_timers (disarm k w))" using disarm_keys by blast
  moreover have "tm_job ?t < length (w_heap w)" using inv \<open>?t \<in> set (w_timers w)\<close> by (simp add: sched_inv_def wf_world_def)
  ultimately have "thread_ok ?w ?th" using k(3) by (auto simp: fired_def disarm_def timer_key_def)
  then have "wf_world ?w"
    using wfd grows_thread_ok [OF g] grows_call_ok [OF g] jobs_kept [OF wfd g]
    unfolding sched_inv_def wf_world_def by (auto simp: disarm_def)
  moreover have "gen_of ?w = gen_of w" by (simp add: gen_of_def disarm_def fun_eq_iff)
  ultimately show ?thesis using inv toks by (simp add: sched_inv_def tokens_ok_def)
qed

lemma inv_tick: "sched_inv B w \<Longrightarrow> 0 \<le> d \<Longrightarrow> sched_inv B (w\<lparr>w_clock := w_clock w + d\<rparr>)"
proof -
  assume inv: "sched_inv B w" and d: "0 \<le> d"
  have g: "grows w (w\<lparr>w_clock := w_clock w + d\<rparr>)" using d by (simp add: grows_def)
  then show ?thesis using inv jobs_kept [OF inv g] by (intro inv_quiet [OF inv g]) auto
qed

lemma inv_Emit: "sched_inv B w \<Longrightarrow> sched_inv B (Emit prompt queue w)"
proof -
  assume inv: "sched_inv B w"
  let ?w = "Emit prompt queue w"
  have g: "grows w ?w" by (intro grows_fields) (auto simp: Emit_def)
  have "wf_world ?w"
    using inv grows_thread_ok [OF g] grows_call_ok [OF g] jobs_kept [OF inv g]
    unfolding sched_inv_def wf_world_def by (auto simp: Emit_def call_ok_def)
  moreover have "tokens ?w = tokens w" "gen_of ?w = gen_of w"
    by (simp_all add: Emit_def tokens_def timer_toks_def thread_toks_def call_toks_def job_tok_def List.map_filter_def gen_of_def fun_eq_iff)
  ultimately show "sched_inv B ?w" using inv by (simp add: sched_inv_def tokens_ok_def)
qed

lemma cron_step_ok:
  assumes "sched_inv (\<lambda>_. n) w" "n + 2 < 2 ^ 64"
  shows "sched_inv (\<lambda>_. n + 2) (cron_step op w)"
proof -
  have up: "sched_inv (\<lambda>_. n + 2) w" using assms(1) by (rule inv_mono) simp
  show ?thesis
  proof (cases op)
    case (OpRun k en)
    then show ?thesis
    proof (cases "k < length (w_threads w)")
      case True
      note d = inv_drop_thread [OF assms(1) True]
      have "result_ok (n + 2) (run_section en (w_threads w ! k) (drop_thread k w))"
        using d by (intro run_section_ok assms(2)) (auto simp: job_tok_def)
      from proceed_ok [OF this] show ?thesis using OpRun True by (simp add: drop_thread_def)
    qed (use up OpRun in simp)
  next
    case (OpExpire k)
    then show ?thesis using up inv_expire [of "\<lambda>_. n + 2" w k] OpExpire
      by (simp add: disarm_def proceed_def)
  next
    case (OpTick d)
    then show ?thesis using up inv_tick [of "\<lambda>_. n + 2" w d] inv_tick [of "\<lambda>_. n + 2" w 0] OpTick by simp
  next
    case (OpPatrol pick)
    then show ?thesis using up proceed_ok [OF patrolCheck_ok [OF assms]] OpPatrol by simp
  next
    case OpLoad
    have "result_ok (n + 2) (w, Continue (TRead False))" using assms(1) by (intro result_okI [of n]) auto
    then show ?thesis using proceed_ok OpLoad by simp
  next
    case (OpSetEnqueue f)
    then show ?thesis using up OpSetEnqueue by (auto simp: SetEnqueue_def intro: inv_idle_fields split: option.split)
  next
    case (OpEmit prompt queue)
    then show ?thesis using up OpEmit inv_Emit by simp
  next
    case OpShutdown
    then show ?thesis using up OpShutdown inv_Shutdown by simp
  next
    case (OpForeign path f)
    then show ?thesis using up OpForeign inv_disk by simp
  qed (use proceed_ok Create_ok Delete_ok Update_ok Pause_ok Resume_ok SetSession_ok SwitchSession_ok assms in simp_all)
qed

interpretation cron: counted_machine cron_step "\<lambda>_. True" "\<lambda>k w. 0 \<le> k \<and> sched_inv (\<lambda>_. nat (2 * k)) w" "2 ^ 63 - 1"
proof
  fix op k w assume h: "0 \<le> k \<and> sched_inv (\<lambda>_. nat (2 * k)) w" "k < (2 ^ 63 - 1 :: int)"
  then have "nat (2 * (k + 1)) = nat (2 * k) + 2" "nat (2 * k) + 2 < 2 ^ 64" by auto
  then show "0 \<le> k + 1 \<and> sched_inv (\<lambda>_. nat (2 * (k + 1))) (cron_step op w)"
    using h cron_step_ok [of "nat (2 * k)" w op] by simp
qed

lemma new_inv: "sched_inv (\<lambda>_. 0) (NewScheduler f path now disk)"
  by (simp add: sched_inv_def wf_world_def tokens_ok_def tokens_def timer_toks_def thread_toks_def call_toks_def
      NewScheduler_def gen_of_def List.map_filter_def)

lemma run_cron_inv:
  assumes "int (length ops) < 2 ^ 63"
  shows "sched_inv (\<lambda>_. 2 * length ops) (fold cron_step ops (NewScheduler f path now disk))"
proof -
  have "list_all (\<lambda>_. True) ops" by (simp add: list_all_iff)
  from cron.counted_run [OF this, of 0] show ?thesis
    using assms new_inv [of f path now disk] by (simp add: nat_mult_distrib)
qed

section \<open>Five seconds between two calls\<close>

text \<open>Threads that lead to the reset of \<^verbatim>\<open>lastEnqueue\<close> at the end of \<^verbatim>\<open>SwitchSession\<close>.\<close>

fun switching :: "thread \<Rightarrow> bool" where
  "switching (TMigrate _ _ _ b) = b"
| "switching (TRead b) = b"
| "switching (TLoad _ b) = b"
| "switching (TLoadSchedule _ _ b) = b"
| "switching TClear = True"
| "switching _ = False"

fun same_session :: "cron_op \<Rightarrow> bool" where
  "same_session (OpSwitchSession _ _ _) = False"
| "same_session OpShutdown = False"
| "same_session _ = True"

definition apart :: "enqueue_call \<Rightarrow> enqueue_call \<Rightarrow> bool" where
  "apart e f \<longleftrightarrow> (\<forall>jid g g'. eq_job e = Some (jid, g) \<longrightarrow> eq_job f = Some (jid, g') \<longrightarrow> eq_at e + debounce \<le> eq_at f)"

definition spaced :: "world \<Rightarrow> bool" where
  "spaced w \<longleftrightarrow> sorted_wrt apart (w_calls w) \<and>
     (\<forall>e \<in> set (w_calls w). \<forall>jid g. eq_job e = Some (jid, g) \<longrightarrow> (\<exists>t. sc_lastEnqueue w jid = Some t \<and> eq_at e \<le> t)) \<and>
     (\<forall>t \<in> set (w_threads w). \<not> switching t)"

text \<open>Sections that make no call.\<close>

definition silent :: "world \<Rightarrow> section_result \<Rightarrow> bool" where
  "silent w p \<longleftrightarrow> w_calls (fst p) = w_calls w \<and> sc_lastEnqueue (fst p) = sc_lastEnqueue w \<and>
     w_threads (fst p) = w_threads w \<and> (\<forall>t. snd p = Continue t \<longrightarrow> \<not> switching t)"

lemma spaced_proceed: "spaced w \<Longrightarrow> silent w p \<Longrightarrow> spaced (proceed p)"
  by (cases p; cases "snd p") (auto simp: spaced_def silent_def proceed_def)

lemma thread_fields [simp]:
  "w_threads (delete_job jid w) = w_threads w" "w_threads (forget_timer jid w) = w_threads w"
  by (simp_all add: delete_job_def forget_timer_def)

lemma silent_fire_again: "silent w (fire_again r w)"
  by (auto simp: silent_def fire_again_def Let_def split: sum.split)

lemma silent_patrol: "silent w (patrolCheck pick w)"
proof -
  have "w_calls (fst (fold patrol_job ps (w, b))) = w_calls w \<and>
      sc_lastEnqueue (fst (fold patrol_job ps (w, b))) = sc_lastEnqueue w \<and>
      w_threads (fst (fold patrol_job ps (w, b))) = w_threads w" for ps b
  proof (induction ps arbitrary: w b)
    case (Cons p ps)
    have "w_calls (fst (patrol_job p (w, b))) = w_calls w \<and> sc_lastEnqueue (fst (patrol_job p (w, b))) = sc_lastEnqueue w \<and>
        w_threads (fst (patrol_job p (w, b))) = w_threads w"
      by (simp add: patrol_job_def Let_def case_prod_beta split: sum.split)
    then show ?case using Cons.IH [of "fst (patrol_job p (w, b))" "snd (patrol_job p (w, b))"] by simp
  qed simp
  then show ?thesis by (auto simp: silent_def patrolCheck_def case_prod_beta split: if_splits)
qed

lemma silent_load_next: "\<not> b \<Longrightarrow> load_next jjs b = Continue t \<Longrightarrow> \<not> switching t"
  by (auto simp: load_next_def split: if_splits)

lemma silent_load_job: "\<not> b \<Longrightarrow> silent w (load_job jjs b w)"
  by (cases jjs) (auto simp: silent_def Let_def dest: silent_load_next split: sum.split if_splits)

lemma silent_rollback: "silent w (rollback b err w)"
  by (cases b) (auto simp: silent_def update_rollback_def Let_def)

lemma silent_simple:
  "silent w (Scheduler_Create expr prompt rc queue sfx w)" "silent w (DeleteWithError jid w)" "silent w (Pause jid w)"
  "silent w (Resume jid w)" "silent w (Scheduler_Update jid e p q w)" "silent w (SetSession path old ws w)"
  "silent w (fireJob_after panicked r g w)" "\<not> b \<Longrightarrow> silent w (load_read readable b w)"
       apply (simp add: silent_def Scheduler_Create_def Let_def split: sum.split)
      apply (simp add: silent_def DeleteWithError_def split: option.split)
     apply (simp add: silent_def Pause_def split: option.split)
    apply (simp add: silent_def Resume_def split: option.split sum.split)
   apply (simp add: silent_def Scheduler_Update_def Let_def split: option.split sum.split)
  apply (simp add: silent_def SetSession_def)
 apply (use silent_fire_again [of w r] in \<open>auto simp: fireJob_after_def Let_def, auto simp: silent_def\<close>)
apply (auto simp: silent_def load_read_def dest: silent_load_next split: option.splits if_splits)
done

lemma spaced_call:
  assumes "spaced w" and idle: "\<not> (case sc_lastEnqueue w jid of None \<Rightarrow> False | Some lst \<Rightarrow> w_clock w - lst < debounce)"
    and f: "eq_job f = Some (jid, g)" "eq_at f = w_clock w"
  shows "spaced (w\<lparr>sc_lastEnqueue := (sc_lastEnqueue w)(jid \<mapsto> w_clock w), w_calls := w_calls w @ [f],
      w_threads := w_threads w @ [TReschedule r g]\<rparr>)"
proof -
  have seen: "\<exists>t. sc_lastEnqueue w k = Some t \<and> eq_at e \<le> t" if "e \<in> set (w_calls w)" "eq_job e = Some (k, h)" for e k h
    using assms(1) that unfolding spaced_def by blast
  have late: "eq_at e + debounce \<le> w_clock w" if "e \<in> set (w_calls w)" "eq_job e = Some (jid, h)" for e h
    using seen [OF that] idle by auto
  have "0 < debounce" by (simp add: debounce_def)
  have "\<exists>t. ((sc_lastEnqueue w)(jid \<mapsto> w_clock w)) k = Some t \<and> eq_at e \<le> t"
    if "e \<in> set (w_calls w @ [f])" "eq_job e = Some (k, h)" for e k h
    using that seen late f \<open>0 < debounce\<close> by (cases "k = jid") fastforce+
  moreover have "sorted_wrt apart (w_calls w @ [f])"
    using assms(1) late f by (auto simp: spaced_def sorted_wrt_append apart_def)
  ultimately show ?thesis using assms(1) by (simp add: spaced_def)
qed

lemma spaced_fireJob:
  assumes "spaced w"
  shows "spaced (proceed (fireJob r g w))"
proof -
  have "spaced (proceed (fire_again r w))" by (rule spaced_proceed [OF assms silent_fire_again])
  then show ?thesis
    unfolding fireJob_def Let_def using assms
    by (auto simp: proceed_def intro!: spaced_call simp del: fun_upd_apply)
qed

lemma spaced_step:
  assumes "spaced w" "same_session op"
  shows "spaced (cron_step op w)"
proof (cases op)
  case (OpRun k en)
  show ?thesis
  proof (cases "k < length (w_threads w)")
    case True
    let ?w = "drop_thread k w" and ?t = "w_threads w ! k"
    have w: "spaced ?w" using assms(1)
      by (auto simp: spaced_def) (auto simp: drop_thread_def dest: in_set_takeD in_set_dropD)
    have t: "\<not> switching ?t" using assms(1) True by (simp add: spaced_def)
    have "spaced (proceed (run_section en ?t ?w))"
    proof (cases ?t)
      case (TFire r g)
      then show ?thesis using spaced_fireJob [OF w] by simp
    next
      case (TSave b)
      have "silent ?w (case save (en_pick en) (en_save en) ?w of
          (w1, None) \<Rightarrow> (w1, Return (save_done b w1)) | (w1, Some err) \<Rightarrow> (w1, Continue (TRollback b err)))"
        by (auto simp: save_def silent_def Let_def split: prod.split option.split)
      then show ?thesis using TSave spaced_proceed [OF w] by simp
    next
      case (TLoadSchedule r jjs b)
      then show ?thesis using t by (auto intro!: spaced_proceed [OF w] simp: silent_def dest: silent_load_next [of False, simplified])
    qed (use t in \<open>auto intro!: spaced_proceed [OF w] silent_simple silent_rollback silent_load_job, auto simp: silent_def\<close>)
    then show ?thesis using OpRun True by (simp add: drop_thread_def)
  qed (use assms OpRun in simp)
next
  case (OpExpire k)
  then show ?thesis using assms(1) by (auto simp: spaced_def proceed_def)
next
  case (OpEmit prompt queue)
  then show ?thesis using assms(1) by (auto simp: spaced_def Emit_def sorted_wrt_append apart_def)
next
  case (OpSetEnqueue f)
  then show ?thesis using assms(1) by (auto simp: spaced_def SetEnqueue_def split: option.split)
next
  case OpLoad
  then show ?thesis using spaced_proceed [OF assms(1), of "(w, Continue (TRead False))"] by (simp add: silent_def)
qed (use assms in \<open>auto intro!: spaced_proceed silent_simple silent_patrol, auto simp: spaced_def\<close>)

interpretation cron_calls: guarded_machine cron_step same_session spaced
  by unfold_locales (rule spaced_step)

section \<open>Every scheduling fires at most once\<close>

text \<open>
  C33. Timers and callbacks of the cron scheduler, in every interleaving of up to \<open>2 ^ 63\<close> steps with
  failing saves, restarts of jobs, patrols and foreign writes to the store: each scheduling of a job
  leads to at most one call of \<^verbatim>\<open>enqueue\<close>, each call is made at or after the time its timer was set
  to, and while the session is neither switched nor shut down two calls for the same job are at least
  five seconds apart.
\<close>

theorem cron_fires_once:
  assumes "int (length ops) < 2 ^ 63" and w: "w = fold cron_step ops (NewScheduler f path now disk)"
  shows "distinct (List.map_filter eq_job (w_calls w)) \<and>
    (\<forall>e \<in> set (w_calls w). \<forall>jid g. eq_job e = Some (jid, g) \<longrightarrow>
       (\<exists>t \<in> set (w_timers w). tm_gen t = g \<and> j_ID (w_heap w ! tm_job t) = jid \<and> tm_due t \<le> eq_at e)) \<and>
    (list_all same_session ops \<longrightarrow>
       sorted_wrt (\<lambda>e e'. \<forall>jid g g'. eq_job e = Some (jid, g) \<longrightarrow> eq_job e' = Some (jid, g') \<longrightarrow>
                     eq_at e + 5 * nsec \<le> eq_at e') (w_calls w))"
proof (intro conjI impI)
  have inv: "sched_inv (\<lambda>_. 2 * length ops) w" unfolding w using assms(1) by (rule run_cron_inv)
  have "count (mset (call_toks w)) x \<le> 1" for x
  proof -
    have "mset (call_toks w) \<subseteq># tokens w" by (simp add: tokens_def)
    then have "count (mset (call_toks w)) x \<le> count (tokens w) x" by (rule mset_subset_eq_count)
    also have "\<dots> \<le> 1" using inv unfolding sched_inv_def tokens_ok_def by blast
    finally show ?thesis .
  qed
  then show "distinct (List.map_filter eq_job (w_calls w))"
    unfolding call_toks_def distinct_count_atmost_1 by (metis count_mset_0_iff le_antisym less_one not_le_imp_less)
  have "call_ok w e" if "e \<in> set (w_calls w)" for e using inv that by (simp add: sched_inv_def wf_world_def)
  then show "\<forall>e \<in> set (w_calls w). \<forall>jid g. eq_job e = Some (jid, g) \<longrightarrow>
       (\<exists>t \<in> set (w_timers w). tm_gen t = g \<and> j_ID (w_heap w ! tm_job t) = jid \<and> tm_due t \<le> eq_at e)"
    unfolding call_ok_def timer_key_def by fastforce
  assume "list_all same_session ops"
  then have "spaced w" unfolding w
    by (rule cron_calls.ok_run_inv) (simp add: spaced_def NewScheduler_def)
  then show "sorted_wrt (\<lambda>e e'. \<forall>jid g g'. eq_job e = Some (jid, g) \<longrightarrow> eq_job e' = Some (jid, g') \<longrightarrow>
                     eq_at e + 5 * nsec \<le> eq_at e') (w_calls w)"
    unfolding spaced_def apart_def debounce_def by simp
qed

definition demo_save :: save_io where
  "demo_save = \<lparr>io_read = True, io_remove = True, io_removeLock = True, io_mkdir = True, io_write = True\<rparr>"

definition demo_cron_env :: env where
  "demo_cron_env = \<lparr>en_pick = (\<lambda>x. x), en_save = demo_save, en_migrate = all_fine, en_sha = (\<lambda>s. s),
     en_panicked = False, en_readable = True\<rparr>"

text \<open>Create a daily job, let it be scheduled and saved, wait for nine o'clock and let it fire.\<close>

definition demo_cron_ops :: "cron_op list" where
  "demo_cron_ops = [OpCreate ''0 9 * * *'' ''standup'' True False ''ab'', OpRun 0 demo_cron_env, OpRun 0 demo_cron_env,
     OpTick (540 * nmin), OpExpire 0, OpRun 0 demo_cron_env, OpRun 0 demo_cron_env]"

text \<open>Evaluation of such runs, with the times of the demonstration.\<close>

lemma nine_o_clock: "cron_next ''0 9 * * *'' 0 = Inr 32400000000000" "cron_next ''0 9 * * *'' 32400000000000 = Inr 118800000000000"
  by code_simp+

lemma Itoa_one: "Itoa 1 = ''1''"
  by code_simp

lemmas cron_run = proceed_def Scheduler_Create_def too_short_def interval_of_def minCronIntervalMinutes_def
  scheduleJobLocked_def stop_timer_def bump_gen_def gen_of_def Let_def save_def save_store_def merge_jobs_def fireJob_def stale_def
  fireJob_after_def fire_again_def set_job_def NewScheduler_def range_order_def demo_cron_env_def demo_save_def job_json_def
  nine_o_clock Itoa_one wrap64_small

theorem cron_fires_once_witness:
  "w_calls (fold cron_step demo_cron_ops (NewScheduler 0 ''s1'' 0 Map.empty)) =
     [\<lparr>eq_job = Some (''cron-1-ab'', 1), eq_prompt = ''standup'', eq_queue = False, eq_sink = 0, eq_at = 540 * nmin\<rparr>] \<and>
   distinct (List.map_filter eq_job (w_calls (fold cron_step demo_cron_ops (NewScheduler 0 ''s1'' 0 Map.empty))))"
proof
  show "w_calls (fold cron_step demo_cron_ops (NewScheduler 0 ''s1'' 0 Map.empty)) =
     [\<lparr>eq_job = Some (''cron-1-ab'', 1), eq_prompt = ''standup'', eq_queue = False, eq_sink = 0, eq_at = 540 * nmin\<rparr>]"
    by (simp add: demo_cron_ops_def cron_run)
  have "int (length demo_cron_ops) < 2 ^ 63" by (simp add: demo_cron_ops_def)
  from cron_fires_once [OF this refl, of 0 "''s1''" 0 Map.empty]
  show "distinct (List.map_filter eq_job (w_calls (fold cron_step demo_cron_ops (NewScheduler 0 ''s1'' 0 Map.empty))))"
    by blast
qed

end
