(* ===== verification/CronPatrol.thy ===== *)
theory CronPatrol
  imports CronFires
begin

text \<open>
  Liveness of the cron scheduler: an overdue job is rescheduled by the patrol and delivered when its
  timer expires; and what goes wrong when a job is paused while its callback runs.
\<close>

section \<open>An overdue job is delivered\<close>

text \<open>The job's timer runs, for the current generation.\<close>

definition scheduled :: "world \<Rightarrow> string \<Rightarrow> nat \<Rightarrow> nat \<Rightarrow> int \<Rightarrow> bool" where
  "scheduled w jid r k due \<longleftrightarrow> map_of (sc_timers w) jid = Some k \<and> k < length (w_timers w) \<and>
     w_timers w ! k = \<lparr>tm_job = r, tm_gen = gen_of w jid, tm_due = due, tm_armed = True\<rparr>"

text \<open>What a step on another job leaves alone.\<close>

definition untouched :: "string \<Rightarrow> nat \<Rightarrow> world \<Rightarrow> world \<Rightarrow> bool" where
  "untouched jid r w w' \<longleftrightarrow> job_of w' jid = job_of w jid \<and> w_heap w' ! r = w_heap w ! r \<and> w_clock w' = w_clock w \<and>
     w_calls w' = w_calls w \<and> sc_lastEnqueue w' = sc_lastEnqueue w \<and> sc_enqueue w' = sc_enqueue w \<and>
     length (w_heap w') = length (w_heap w) \<and> (\<forall>k due. scheduled w jid r k due \<longrightarrow> scheduled w' jid r k due)"

lemma untouched_trans: "untouched jid r w w' \<Longrightarrow> untouched jid r w' w'' \<Longrightarrow> untouched jid r w w''"
  by (simp add: untouched_def)

lemma untouched_refl: "untouched jid r w w"
  by (simp add: untouched_def)

lemma untouched_stop:
  assumes "sched_inv B w" "r < length (w_heap w)" "j_ID (w_heap w ! r) = jid" "jid' \<noteq> jid"
  shows "untouched jid r w (stop_timer jid' w)"
proof (cases "map_of (sc_timers w) jid'")
  case None
  then show ?thesis by (simp add: stop_timer_def untouched_refl)
next
  case (Some k')
  have "timer_ok w (jid', k')"
    using assms(1) map_of_SomeD [OF Some] by (auto simp: sched_inv_def wf_world_def list_all_iff)
  then have "j_ID (w_heap w ! tm_job (w_timers w ! k')) = jid'" by (simp add: timer_ok_def)
  then have "k' \<noteq> k" if "scheduled w jid r k due" for k due
    using that assms(3,4) by (auto simp: scheduled_def)
  then show ?thesis
    using Some assms(4) by (auto simp: untouched_def stop_timer_def scheduled_def gen_of_def delete_conv')
qed

lemma untouched_bump: "jid' \<noteq> jid \<Longrightarrow> untouched jid r w (bump_gen jid' w)"
  by (auto simp: untouched_def scheduled_def gen_of_def bump_gen_def)

lemma untouched_delete: "jid' \<noteq> jid \<Longrightarrow> untouched jid r w (delete_job jid' w)"
  by (auto simp: untouched_def scheduled_def gen_of_def delete_job_def delete_conv')

lemma untouched_set_job: "r' \<noteq> r \<Longrightarrow> untouched jid r w (set_job r' f w)"
  by (auto simp: untouched_def scheduled_def gen_of_def set_job_def)

lemma untouched_schedule:
  assumes "sched_inv B w" "r < length (w_heap w)" "j_ID (w_heap w ! r) = jid" "j_ID (w_heap w ! r') \<noteq> jid"
  shows "untouched jid r w (scheduleJobLocked r' w)"
proof -
  let ?w = "bump_gen (j_ID (w_heap w ! r')) (stop_timer (j_ID (w_heap w ! r')) w)"
  have "untouched jid r w ?w"
    by (rule untouched_trans [OF untouched_stop [OF assms] untouched_bump [OF assms(4)]])
  moreover have "untouched jid r ?w (scheduleJobLocked r' w)"
    using assms(4) by (auto simp: scheduleJobLocked_def Let_def untouched_def scheduled_def gen_of_def update_conv' nth_append)
  ultimately show ?thesis by (rule untouched_trans)
qed

lemma untouched_patrol_job:
  assumes inv: "sched_inv B w" and r: "r < length (w_heap w)" "j_ID (w_heap w ! r) = jid"
    and p: "job_ok w (jid', r')" "jid' \<noteq> jid" and b: "B jid' + 2 < 2 ^ 64"
  shows "untouched jid r w (fst (patrol_job (jid', r') (w, rb)))"
proof -
  let ?w1 = "bump_gen jid' (stop_timer jid' w)"
  have ne: "r' \<noteq> r" and r': "r' < length (w_heap w)" "j_ID (w_heap w ! r') = jid'" using p r by (auto simp: job_ok_def)
  have inv1: "sched_inv (B(jid' := B jid' + 1)) ?w1" using b by (intro inv_bump inv_stop_timer inv) simp
  have u1: "untouched jid r w ?w1"
    by (rule untouched_trans [OF untouched_stop [OF inv r p(2)] untouched_bump [OF p(2)]])
  have "untouched jid r w (scheduleJobLocked r' (set_job r' (\<lambda>j. j\<lparr>j_NextFire := t\<rparr>) ?w1))" for t
  proof -
    let ?w2 = "set_job r' (\<lambda>j. j\<lparr>j_NextFire := t\<rparr>) ?w1"
    have "sched_inv (B(jid' := B jid' + 1)) ?w2" by (intro inv_set_job inv1) simp
    then have "untouched jid r ?w2 (scheduleJobLocked r' ?w2)"
      using r r' p(2) by (intro untouched_schedule) (auto simp: set_job_ID)
    then show ?thesis by (rule untouched_trans [OF untouched_trans [OF u1 untouched_set_job [OF ne]]])
  qed
  moreover have "untouched jid r w (delete_job jid' ?w1)"
    by (rule untouched_trans [OF u1 untouched_delete [OF p(2)]])
  ultimately show ?thesis by (simp add: patrol_job_def Let_def untouched_refl split: sum.split)
qed

lemma untouched_patrol:
  assumes "sched_inv B w" "r < length (w_heap w)" "j_ID (w_heap w ! r) = jid"
    and "list_all (job_ok w) ps" "distinct (map fst ps)" "jid \<notin> fst ` set ps"
    and "\<And>k. k \<in> fst ` set ps \<Longrightarrow> B k + 2 < 2 ^ 64"
  shows "untouched jid r w (fst (fold patrol_job ps (w, b)))"
  using assms
proof (induction ps arbitrary: B w b)
  case (Cons p ps)
  obtain jid' r' where p: "p = (jid', r')" by (cases p)
  obtain w1 b1 where w1: "patrol_job p (w, b) = (w1, b1)" by (cases "patrol_job p (w, b)")
  have ok: "job_ok w (jid', r')" "jid' \<noteq> jid" "B jid' + 2 < 2 ^ 64" using Cons.prems by (auto simp: p)
  have u: "untouched jid r w w1"
    using untouched_patrol_job [OF Cons.prems(1-3) ok, of b] w1 by (simp add: p)
  have inv1: "sched_inv (B(jid' := B jid' + 2)) w1"
    using inv_patrol_job [of B w r' jid' b] Cons.prems(1) ok w1 by (simp add: p job_ok_def)
  have "untouched jid r w1 (fst (fold patrol_job ps (w1, b1)))"
  proof (rule Cons.IH [OF inv1])
    show "list_all (job_ok w1) ps"
      using Cons.prems(4) patrol_job_heap [of p w b] w1 by (simp add: list_all_iff job_ok_def)
  qed (use Cons.prems u in \<open>auto simp: p untouched_def\<close>)
  then show ?case using u w1 by (simp add: untouched_trans)
qed (simp add: untouched_refl)

lemma schedule_scheduled:
  assumes "j_ID (w_heap w ! r) = jid"
  shows "\<exists>k. scheduled (scheduleJobLocked r w) jid r k (max (w_clock w) (j_NextFire (w_heap w ! r)))"
  using assms by (auto simp: scheduled_def scheduleJobLocked_def Let_def update_conv' gen_of_def bump_gen_def)

lemma patrol_heap:
  "list_all (\<lambda>p. snd p < length (w_heap w)) ps \<Longrightarrow>
   length (w_heap (fst (fold patrol_job ps (w, b)))) = length (w_heap w) \<and>
   (\<forall>q. j_ID (w_heap (fst (fold patrol_job ps (w, b))) ! q) = j_ID (w_heap w ! q))"
proof (induction ps arbitrary: w b)
  case (Cons p ps)
  obtain w1 b1 where w1: "patrol_job p (w, b) = (w1, b1)" by (cases "patrol_job p (w, b)")
  have "length (w_heap w1) = length (w_heap w)" "\<And>q. j_ID (w_heap w1 ! q) = j_ID (w_heap w ! q)"
    using patrol_job_heap [of p w b] Cons.prems w1 by simp_all
  then show ?case using Cons.IH [of w1 b1] Cons.prems w1 by simp
qed simp

text \<open>The patrol's own step on an overdue job.\<close>

lemma patrol_job_schedules:
  fixes b :: bool
  assumes "r < length (w_heap w)" "j_ID (w_heap w ! r) = jid" "overdue (w_heap w ! r) (w_clock w)"
    and "if j_Recurring (w_heap w ! r) then cron_next (j_CronExpr (w_heap w ! r)) (w_clock w) = Inr t else t = w_clock w"
  defines "w' \<equiv> fst (patrol_job (jid, r) (w, b))"
  shows "\<exists>k. scheduled w' jid r k (max (w_clock w) t)" "w_heap w' = (w_heap w)[r := (w_heap w ! r)\<lparr>j_NextFire := t\<rparr>]"
    and "sc_jobs w' = sc_jobs w" "w_clock w' = w_clock w" "w_calls w' = w_calls w"
    and "sc_lastEnqueue w' = sc_lastEnqueue w" "sc_enqueue w' = sc_enqueue w"
proof -
  let ?w2 = "set_job r (\<lambda>j. j\<lparr>j_NextFire := t\<rparr>) (bump_gen jid (stop_timer jid w))"
  have w': "w' = scheduleJobLocked r ?w2"
    using assms(3,4) by (auto simp: w'_def patrol_job_def Let_def split: if_splits)
  have heap: "w_heap ?w2 = (w_heap w)[r := (w_heap w ! r)\<lparr>j_NextFire := t\<rparr>]" by (simp add: set_job_def)
  have "j_ID (w_heap ?w2 ! r) = jid" "j_NextFire (w_heap ?w2 ! r) = t" using assms(1,2) by (simp_all add: heap)
  then show "\<exists>k. scheduled w' jid r k (max (w_clock w) t)"
    using schedule_scheduled [of ?w2 r jid] by (simp add: w')
  have "sc_enqueue (stop_timer k v) = sc_enqueue v" "sc_enqueue (bump_gen k v) = sc_enqueue v" for k v
    by (simp_all add: stop_timer_def bump_gen_def split: option.split)
  then show "sc_enqueue w' = sc_enqueue w"
    by (simp add: w' scheduleJobLocked_def Let_def) (simp add: set_job_def)
  show "w_heap w' = (w_heap w)[r := (w_heap w ! r)\<lparr>j_NextFire := t\<rparr>]" by (simp add: w' heap)
qed (use assms(3,4) in \<open>auto simp: w'_def patrol_job_def Let_def split: if_splits\<close>)

text \<open>The patrol schedules an overdue job, whatever it does to the others.\<close>

lemma patrol_schedules:
  fixes pick :: "(string \<times> nat) list \<Rightarrow> (string \<times> nat) list"
  assumes inv: "sched_inv (\<lambda>_. n) w" and n: "n + 2 < 2 ^ 64"
    and job: "job_of w jid = Some r" "overdue (w_heap w ! r) (w_clock w)"
    and nxt: "if j_Recurring (w_heap w ! r) then cron_next (j_CronExpr (w_heap w ! r)) (w_clock w) = Inr t else t = w_clock w"
  defines "w' \<equiv> fst (patrolCheck pick w)"
  shows "\<exists>k. scheduled w' jid r k (max (w_clock w) t)"
    and "w_heap w' ! r = (w_heap w ! r)\<lparr>j_NextFire := t\<rparr>" "job_of w' jid = Some r" "w_clock w' = w_clock w"
    and "w_calls w' = w_calls w" "sc_lastEnqueue w' = sc_lastEnqueue w" "sc_enqueue w' = sc_enqueue w"
proof -
  let ?ps = "range_order pick (sc_jobs w)"
  have r: "r < length (w_heap w)" "j_ID (w_heap w ! r) = jid" using job_of_ok [OF inv job(1)] by auto
  have mem: "(jid, r) \<in> set ?ps" using map_of_SomeD [OF job(1)] by simp
  from split_list [OF mem] obtain xs ys where ps: "?ps = xs @ (jid, r) # ys" by blast
  have ok: "list_all (job_ok w) (xs @ (jid, r) # ys)" "distinct (map fst (xs @ (jid, r) # ys))"
    using range_jobs [OF inv, of pick] by (simp_all add: ps)
  obtain w1 b1 where w1: "fold patrol_job xs (w, False) = (w1, b1)" by (cases "fold patrol_job xs (w, False)")
  obtain w2 b2 where w2: "patrol_job (jid, r) (w1, b1) = (w2, b2)" by (cases "patrol_job (jid, r) (w1, b1)")
  obtain w3 b3 where w3: "fold patrol_job ys (w2, b2) = (w3, b3)" by (cases "fold patrol_job ys (w2, b2)")
  have w': "w' = w3" by (simp add: w'_def patrolCheck_def ps w1 w2 w3)
  let ?B1 = "\<lambda>k. if k \<in> fst ` set xs then n + 2 else n"
  have inv1: "sched_inv ?B1 w1" using inv_patrol [OF inv, of xs False] ok n by (simp add: w1)
  have u1: "untouched jid r w w1" using untouched_patrol [OF inv r, of xs False] ok n by (simp add: w1)
  have "list_all (\<lambda>p. snd p < length (w_heap w)) xs" using ok(1) by (simp add: list_all_iff job_ok_def)
  from patrol_heap [OF this, of False]
  have IDs: "length (w_heap w1) = length (w_heap w)" "j_ID (w_heap w1 ! q) = j_ID (w_heap w ! q)" for q by (simp_all add: w1)
  have r1: "r < length (w_heap w1)" "j_ID (w_heap w1 ! r) = jid" using r IDs by simp_all
  have j1: "w_heap w1 ! r = w_heap w ! r" "w_clock w1 = w_clock w" using u1 by (simp_all add: untouched_def)
  note s = patrol_job_schedules [OF r1, of t b1, unfolded j1, OF job(2) nxt, unfolded w2, simplified]
  have IDs2: "j_ID (w_heap w2 ! q) = j_ID (w_heap w ! q)" for q
    using r1(1) IDs(2) [of q] by (cases "q = r") (simp_all add: s(2) j1)
  have inv2: "sched_inv (?B1(jid := ?B1 jid + 2)) w2"
    using inv_patrol_job [OF inv1 r1, of b1] ok(2) n by (simp add: w2)
  have r2: "r < length (w_heap w2)" "j_ID (w_heap w2 ! r) = jid" using r1 j1 r(2) by (simp_all add: s(2))
  have l2: "list_all (job_ok w2) ys"
    using ok(1) IDs(1) IDs2 by (simp add: list_all_iff job_ok_def s(2))
  have bound: "(?B1(jid := ?B1 jid + 2)) k + 2 < 2 ^ 64" if "k \<in> fst ` set ys" for k
  proof -
    have "k \<noteq> jid" "k \<notin> fst ` set xs" using that ok(2) by auto
    then show ?thesis using n by simp
  qed
  have u2: "untouched jid r w2 w3"
    using untouched_patrol [OF inv2 r2 l2 _ _ bound, of b2] ok(2) by (simp add: w3)
  show "\<exists>k. scheduled w' jid r k (max (w_clock w) t)" using s(1) u2 by (auto simp: w' untouched_def)
  show "w_heap w' ! r = (w_heap w ! r)\<lparr>j_NextFire := t\<rparr>" using u2 s(2) r1(1) by (simp add: w' untouched_def j1)
  show "job_of w' jid = Some r" "w_clock w' = w_clock w" "w_calls w' = w_calls w"
    "sc_lastEnqueue w' = sc_lastEnqueue w" "sc_enqueue w' = sc_enqueue w"
    using u1 u2 s(3-7) job(1) by (simp_all add: w' untouched_def)
qed

lemma sc_patrol_proceed: "w_threads (proceed (w, out)) = w_threads w @ (case out of Return _ \<Rightarrow> [] | Continue t \<Rightarrow> [t])"
  by (simp add: proceed_def split: outcome.split)

lemma proceed_fields:
  "w_heap (proceed p) = w_heap (fst p)" "w_timers (proceed p) = w_timers (fst p)" "sc_timers (proceed p) = sc_timers (fst p)"
  "sc_jobs (proceed p) = sc_jobs (fst p)" "gen_of (proceed p) = gen_of (fst p)" "w_clock (proceed p) = w_clock (fst p)"
  "w_calls (proceed p) = w_calls (fst p)" "sc_lastEnqueue (proceed p) = sc_lastEnqueue (fst p)"
  "sc_enqueue (proceed p) = sc_enqueue (fst p)"
  by (auto simp: proceed_def gen_of_def fun_eq_iff split: prod.split outcome.split)

lemma fireJob_delivers:
  assumes "\<not> stale r g w" and "\<not> (case sc_lastEnqueue w (j_ID (w_heap w ! r)) of None \<Rightarrow> False | Some lst \<Rightarrow> w_clock w - lst < debounce)"
  shows "w_calls (proceed (fireJob r g w)) = w_calls w @ [\<lparr>eq_job = Some (j_ID (w_heap w ! r), g), eq_prompt = j_Prompt (w_heap w ! r),
    eq_queue = j_QueueIfBusy (w_heap w ! r), eq_sink = sc_enqueue w, eq_at = w_clock w\<rparr>]"
  using assms by (simp add: proceed_fields fireJob_def Let_def)

text \<open>A running timer of an existing job that was idle for five seconds is delivered when it expires.\<close>

lemma scheduled_delivered:
  assumes "scheduled w jid r k due" "job_of w jid = Some r" "j_ID (w_heap w ! r) = jid"
    and "w_clock w + (if d < 0 then 0 else d) = now" "due \<le> now"
    and "\<And>t. sc_lastEnqueue w jid = Some t \<Longrightarrow> t + debounce \<le> now"
  shows "w_calls (fold cron_step [OpTick d, OpExpire k, OpRun (length (w_threads w)) en] w) =
    w_calls w @ [\<lparr>eq_job = Some (jid, gen_of w jid), eq_prompt = j_Prompt (w_heap w ! r),
      eq_queue = j_QueueIfBusy (w_heap w ! r), eq_sink = sc_enqueue w, eq_at = now\<rparr>]"
proof -
  let ?w1 = "w\<lparr>w_clock := now\<rparr>"
  let ?w2 = "(disarm k ?w1)\<lparr>w_threads := w_threads w @ [TFire r (gen_of w jid)]\<rparr>"
  have k: "k < length (w_timers w)" "w_timers w ! k = \<lparr>tm_job = r, tm_gen = gen_of w jid, tm_due = due, tm_armed = True\<rparr>"
    using assms(1) by (simp_all add: scheduled_def)
  have w1: "cron_step (OpTick d) w = ?w1" using assms(4) by simp
  have w2: "cron_step (OpExpire k) ?w1 = ?w2" using k assms(5) by (simp add: proceed_def disarm_def)
  let ?w3 = "drop_thread (length (w_threads w)) ?w2"
  have w3: "cron_step (OpRun (length (w_threads w)) en) ?w2 = proceed (fireJob r (gen_of w jid) ?w3)"
    by (simp add: drop_thread_def)
  have f: "w_heap ?w3 = w_heap w" "sc_jobs ?w3 = sc_jobs w" "gen_of ?w3 = gen_of w" "w_clock ?w3 = now"
    "w_calls ?w3 = w_calls w" "sc_lastEnqueue ?w3 = sc_lastEnqueue w" "sc_enqueue ?w3 = sc_enqueue w"
    by (simp_all add: disarm_def) (simp_all add: gen_of_def drop_thread_def fun_eq_iff)
  have "\<not> (case sc_lastEnqueue w jid of None \<Rightarrow> False | Some lst \<Rightarrow> now - lst < debounce)"
    using assms(6) by (auto split: option.split)
  moreover have "\<not> stale r (gen_of w jid) ?w3" unfolding stale_def f using assms(2,3) by simp
  ultimately have "w_calls (proceed (fireJob r (gen_of w jid) ?w3)) = w_calls w @ [\<lparr>eq_job = Some (jid, gen_of w jid),
      eq_prompt = j_Prompt (w_heap w ! r), eq_queue = j_QueueIfBusy (w_heap w ! r), eq_sink = sc_enqueue w, eq_at = now\<rparr>]"
    using fireJob_delivers [of r "gen_of w jid" ?w3, unfolded f] assms(3) by simp
  then show ?thesis by (simp only: fold_simps w1 w2 w3)
qed

text \<open>
  C34. The cron scheduler loses no job: in every reachable state, an active job that is overdue (its timer
  was lost, its last firing was debounced, a call panicked) is put right by the next patrol, whatever
  the patrol does to other jobs. A one-shot job is then due at once, a recurring one at its next time,
  and when that timer expires the job's prompt is enqueued, provided its last call is five seconds
  old by then.
\<close>

theorem overdue_job_delivered:
  assumes "int (length ops) < 2 ^ 63 - 1" and w: "w = fold cron_step ops (NewScheduler f path now disk)"
    and "sc_patrol w" "map_of (sc_jobs w) jid = Some r" "overdue (w_heap w ! r) (w_clock w)"
    and nxt: "if j_Recurring (w_heap w ! r) then cron_next (j_CronExpr (w_heap w ! r)) (w_clock w) = Inr t else t = w_clock w"
    and idle: "\<forall>u. sc_lastEnqueue w jid = Some u \<longrightarrow> u + 5 * nsec \<le> max (w_clock w) t"
  shows "\<exists>k n g. w_calls (fold cron_step [OpPatrol pick, OpTick (t - w_clock w), OpExpire k, OpRun n en] w) =
    w_calls w @ [\<lparr>eq_job = Some (jid, g), eq_prompt = j_Prompt (w_heap w ! r),
      eq_queue = j_QueueIfBusy (w_heap w ! r), eq_sink = sc_enqueue w, eq_at = max (w_clock w) t\<rparr>]"
proof -
  have inv: "sched_inv (\<lambda>_. 2 * length ops) w" unfolding w using assms(1) by (intro run_cron_inv) simp
  have n: "2 * length ops + 2 < 2 ^ 64" using assms(1) by simp
  define w' where "w' = proceed (patrolCheck pick w)"
  note p = patrol_schedules [OF inv n assms(4,5) nxt, of pick]
  obtain k where k: "scheduled (fst (patrolCheck pick w)) jid r k (max (w_clock w) t)" using p(1) by blast
  then have "scheduled w' jid r k (max (w_clock w) t)" by (simp add: scheduled_def w'_def proceed_fields)
  moreover have "job_of w' jid = Some r" "w_clock w' = w_clock w" "w_calls w' = w_calls w"
    "sc_lastEnqueue w' = sc_lastEnqueue w" "sc_enqueue w' = sc_enqueue w"
    "w_heap w' ! r = (w_heap w ! r)\<lparr>j_NextFire := t\<rparr>"
    using p(2-7) by (simp_all add: w'_def proceed_fields)
  moreover have "j_ID (w_heap w ! r) = jid" using job_of_ok [OF inv assms(4)] by simp
  moreover have "w_clock w' + (if t - w_clock w < 0 then 0 else t - w_clock w) = max (w_clock w) t"
    using calculation(3) by (simp add: max_def)
  moreover have "u + debounce \<le> max (w_clock w) t" if "sc_lastEnqueue w' jid = Some u" for u
    using that idle calculation(5) by (simp add: debounce_def)
  ultimately have "w_calls (fold cron_step [OpTick (t - w_clock w), OpExpire k, OpRun (length (w_threads w')) en] w') =
      w_calls w @ [\<lparr>eq_job = Some (jid, gen_of w' jid), eq_prompt = j_Prompt (w_heap w ! r),
        eq_queue = j_QueueIfBusy (w_heap w ! r), eq_sink = sc_enqueue w, eq_at = max (w_clock w) t\<rparr>]"
    using scheduled_delivered [of w' jid r k "max (w_clock w) t" "t - w_clock w" "max (w_clock w) t" en] by simp
  moreover have "cron_step (OpPatrol pick) w = w'" using assms(3) by (simp add: w'_def)
  ultimately show ?thesis by (metis fold_simps(2))
qed

text \<open>A one-shot job whose callback panicked inside \<^verbatim>\<open>enqueue\<close> is fired again.\<close>

definition demo_panic_ops :: "cron_op list" where
  "demo_panic_ops = [OpCreate ''0 9 * * *'' ''standup'' False False ''ab'', OpRun 0 demo_cron_env, OpRun 0 demo_cron_env,
     OpTick (540 * nmin), OpExpire 0, OpRun 0 demo_cron_env, OpRun 0 (demo_cron_env\<lparr>en_panicked := True\<rparr>), OpTick (30 * nsec)]"

theorem overdue_job_delivered_witness:
  "(let w = fold cron_step demo_panic_ops (NewScheduler 0 ''s1'' 0 Map.empty) in
    \<exists>k n g. w_calls (fold cron_step [OpPatrol (\<lambda>x. x), OpTick 0, OpExpire k, OpRun n demo_cron_env] w) =
      w_calls w @ [\<lparr>eq_job = Some (''cron-1-ab'', g), eq_prompt = ''standup'', eq_queue = False, eq_sink = 0,
        eq_at = 540 * nmin + 30 * nsec\<rparr>])"
proof -
  let ?w = "fold cron_step demo_panic_ops (NewScheduler 0 ''s1'' 0 Map.empty)"
  have h: "sc_patrol ?w" "map_of (sc_jobs ?w) ''cron-1-ab'' = Some 0" "overdue (w_heap ?w ! 0) (w_clock ?w)"
    "\<not> j_Recurring (w_heap ?w ! 0)" "j_Prompt (w_heap ?w ! 0) = ''standup''" "\<not> j_QueueIfBusy (w_heap ?w ! 0)"
    "sc_enqueue ?w = 0" "w_clock ?w = 540 * nmin + 30 * nsec" "sc_lastEnqueue ?w ''cron-1-ab'' = Some (540 * nmin)"
    by (simp_all add: demo_panic_ops_def cron_run overdue_def patrolGrace_def zeroTime_def)
  have "int (length demo_panic_ops) < 2 ^ 63 - 1" by (simp add: demo_panic_ops_def)
  from overdue_job_delivered [OF this refl h(1-3), of "w_clock ?w" "\<lambda>x. x" demo_cron_env] show ?thesis
    by (simp add: h(4-9))
qed

lemma set_job_heap: "r < length (w_heap w) \<Longrightarrow> w_heap (set_job r f w) ! r = f (w_heap w ! r)"
  by (simp add: set_job_def)

section \<open>Pausing a job whose callback runs\<close>

text \<open>
  \<^verbatim>\<open>Pause\<close> stops the job's timer, but not a callback that already runs: the generation stays. The
  callback reschedules the job from its next firing, which \<^verbatim>\<open>Pause\<close> has set to the zero time.
\<close>

text \<open>
  C35. What happens when a recurring job is paused while its callback is inside \<^verbatim>\<open>enqueue\<close>: when the
  callback goes on, the paused job has a running timer again that is due at once (its next firing is
  computed from the year 1), and when that expires the paused job is enqueued if the last call is
  five seconds old.
\<close>

theorem paused_job_fires_again:
  assumes "int (length ops) < 2 ^ 63 - 2" and w: "w = fold cron_step ops (NewScheduler f path now disk)"
    and "map_of (sc_jobs w) jid = Some r" "j_Recurring (w_heap w ! r)" "\<not> j_Paused (w_heap w ! r)"
    and thread: "n < length (w_threads w)" "w_threads w ! n = TReschedule r (gen_of w jid)" "\<not> en_panicked en"
    and past: "cron_next (j_CronExpr (w_heap w ! r)) zeroTime = Inr t" "t \<le> w_clock w"
    and w': "w' = fold cron_step [OpPause jid, OpRun n en] w"
  shows "map_of (sc_jobs w') jid = Some r \<and> j_Paused (w_heap w' ! r) \<and>
    (\<exists>k. tm_armed (w_timers w' ! k) \<and> tm_job (w_timers w' ! k) = r \<and> tm_due (w_timers w' ! k) = w_clock w') \<and>
    (\<forall>d en'. (\<forall>u. sc_lastEnqueue w' jid = Some u \<longrightarrow> u + 5 * nsec \<le> w_clock w' + d) \<longrightarrow> 0 \<le> d \<longrightarrow>
       (\<exists>k m g. w_calls (fold cron_step [OpTick d, OpExpire k, OpRun m en'] w') =
          w_calls w' @ [\<lparr>eq_job = Some (jid, g), eq_prompt = j_Prompt (w_heap w' ! r),
            eq_queue = j_QueueIfBusy (w_heap w' ! r), eq_sink = sc_enqueue w', eq_at = w_clock w' + d\<rparr>]))"
proof -
  let ?w1 = "stop_timer jid (set_job r (\<lambda>j. j\<lparr>j_Paused := True, j_NextFire := zeroTime\<rparr>) w)"
  let ?save = "TSave (ByPause r (j_NextFire (w_heap w ! r)))"
  let ?v = "drop_thread n (proceed (?w1, Continue ?save))"
  let ?u = "set_job r (\<lambda>j. j\<lparr>j_NextFire := t\<rparr>) ?v"
  have inv: "sched_inv (\<lambda>_. 2 * length ops) w" unfolding w using assms(1) by (intro run_cron_inv) simp
  have r: "r < length (w_heap w)" "j_ID (w_heap w ! r) = jid" using job_of_ok [OF inv assms(3)] by auto
  have w1: "cron_step (OpPause jid) w = proceed (?w1, Continue ?save)" using assms(3,5) by (simp add: Pause_def)
  have heap: "w_heap ?v = (w_heap w)[r := (w_heap w ! r)\<lparr>j_Paused := True, j_NextFire := zeroTime\<rparr>]"
    by (simp add: proceed_fields) (simp add: set_job_def)
  have f: "sc_jobs ?v = sc_jobs w" "gen_of ?v = gen_of w" "w_clock ?v = w_clock w" "w_calls ?v = w_calls w"
    "sc_lastEnqueue ?v = sc_lastEnqueue w"
    by (simp_all add: proceed_fields)
  have j: "w_heap ?v ! r = (w_heap w ! r)\<lparr>j_Paused := True, j_NextFire := zeroTime\<rparr>" unfolding heap using r(1) by simp
  have "\<not> stale r (gen_of w jid) ?v" unfolding stale_def f j using r(2) assms(3) by simp
  then have "fireJob_after (en_panicked en) r (gen_of w jid) ?v = fire_again r ?v"
    using thread(3) assms(4) unfolding fireJob_after_def Let_def j by simp
  also have "\<dots> = (scheduleJobLocked r ?u, Return Nothing)"
    unfolding fire_again_def Let_def j using past(1) by simp
  finally have "cron_step (OpRun n en) (proceed (?w1, Continue ?save)) = scheduleJobLocked r ?u"
    using thread(1,2) by (simp add: drop_thread_def proceed_def nth_append)
  then have w2: "w' = scheduleJobLocked r ?u" unfolding w' by (simp only: fold_simps w1)
  have "r < length (w_heap ?v)" unfolding heap using r(1) by simp
  from set_job_heap [OF this, of "\<lambda>j. j\<lparr>j_NextFire := t\<rparr>"]
  have u: "w_heap ?u ! r = (w_heap w ! r)\<lparr>j_Paused := True, j_NextFire := t\<rparr>" unfolding j by simp
  have us: "sc_jobs ?u = sc_jobs w" "w_clock ?u = w_clock w" unfolding set_job_fields f by (rule refl)+
  have jid: "j_ID (w_heap ?u ! r) = jid" unfolding u using r(2) by simp
  obtain k where k: "scheduled w' jid r k (w_clock w')"
    using schedule_scheduled [OF jid] past(2) unfolding w2 schedule_fields us u by (auto simp: max_def split: if_splits)
  have j': "w_heap w' ! r = (w_heap w ! r)\<lparr>j_Paused := True, j_NextFire := t\<rparr>" "sc_jobs w' = sc_jobs w"
    by (simp_all only: w2 schedule_fields u us)
  have "\<exists>k m g. w_calls (fold cron_step [OpTick d, OpExpire k, OpRun m en'] w') =
          w_calls w' @ [\<lparr>eq_job = Some (jid, g), eq_prompt = j_Prompt (w_heap w' ! r),
            eq_queue = j_QueueIfBusy (w_heap w' ! r), eq_sink = sc_enqueue w', eq_at = w_clock w' + d\<rparr>]"
    if "\<forall>x. sc_lastEnqueue w' jid = Some x \<longrightarrow> x + 5 * nsec \<le> w_clock w' + d" "0 \<le> d" for d en'
  proof -
    have job': "map_of (sc_jobs w') jid = Some r" "j_ID (w_heap w' ! r) = jid" using assms(3) r(2) by (simp_all add: j')
    have "x + debounce \<le> w_clock w' + d" if "sc_lastEnqueue w' jid = Some x" for x
      using that \<open>\<forall>x. sc_lastEnqueue w' jid = Some x \<longrightarrow> _\<close> by (simp add: debounce_def)
    with scheduled_delivered [OF k job', of d "w_clock w' + d" en'] \<open>0 \<le> d\<close>
    have "w_calls (fold cron_step [OpTick d, OpExpire k, OpRun (length (w_threads w')) en'] w') =
        w_calls w' @ [\<lparr>eq_job = Some (jid, gen_of w' jid), eq_prompt = j_Prompt (w_heap w' ! r),
          eq_queue = j_QueueIfBusy (w_heap w' ! r), eq_sink = sc_enqueue w', eq_at = w_clock w' + d\<rparr>]" by simp
    then show ?thesis by blast
  qed
  moreover have "map_of (sc_jobs w') jid = Some r" "j_Paused (w_heap w' ! r)" using assms(3) by (simp_all add: j')
  moreover have "tm_armed (w_timers w' ! k) \<and> tm_job (w_timers w' ! k) = r \<and> tm_due (w_timers w' ! k) = w_clock w'"
    using k by (simp add: scheduled_def)
  ultimately show ?thesis by blast
qed

definition demo_pause_ops :: "cron_op list" where
  "demo_pause_ops = [OpCreate ''0 9 * * *'' ''standup'' True False ''ab'', OpRun 0 demo_cron_env, OpRun 0 demo_cron_env,
     OpTick (540 * nmin), OpExpire 0, OpRun 0 demo_cron_env]"

text \<open>Paused while nine o'clock is being enqueued, the job fires again five seconds later.\<close>

theorem paused_job_fires_again_witness:
  "(let w = fold cron_step (demo_pause_ops @ [OpPause ''cron-1-ab'', OpRun 0 demo_cron_env]) (NewScheduler 0 ''s1'' 0 Map.empty) in
    j_Paused (w_heap w ! 0) \<and>
    (\<exists>k m g. w_calls (fold cron_step [OpTick (5 * nsec), OpExpire k, OpRun m demo_cron_env] w) =
      w_calls w @ [\<lparr>eq_job = Some (''cron-1-ab'', g), eq_prompt = ''standup'', eq_queue = False, eq_sink = 0,
        eq_at = 540 * nmin + 5 * nsec\<rparr>]))"
proof -
  let ?before = "fold cron_step demo_pause_ops (NewScheduler 0 ''s1'' 0 Map.empty)"
  let ?after = "fold cron_step [OpPause ''cron-1-ab'', OpRun 0 demo_cron_env] ?before"
  have y1: "cron_next ''0 9 * * *'' zeroTime = Inr (- 62135564400000000000)" by code_simp
  have h: "map_of (sc_jobs ?before) ''cron-1-ab'' = Some 0" "j_Recurring (w_heap ?before ! 0)" "\<not> j_Paused (w_heap ?before ! 0)"
    "0 < length (w_threads ?before)" "w_threads ?before ! 0 = TReschedule 0 (gen_of ?before ''cron-1-ab'')"
    "j_CronExpr (w_heap ?before ! 0) = ''0 9 * * *''" "w_clock ?before = 540 * nmin"
    by (simp_all add: demo_pause_ops_def cron_run)
  define u where u: "u = ?after"
  have v: "w_clock u = 540 * nmin" "sc_lastEnqueue u ''cron-1-ab'' = Some (540 * nmin)" "sc_enqueue u = 0"
    "j_Prompt (w_heap u ! 0) = ''standup''" "\<not> j_QueueIfBusy (w_heap u ! 0)"
    unfolding u by (simp_all add: demo_pause_ops_def cron_run Pause_def y1)
  have len: "int (length demo_pause_ops) < 2 ^ 63 - 2" by (simp add: demo_pause_ops_def)
  have e: "\<not> en_panicked demo_cron_env" by (simp add: demo_cron_env_def)
  have past: "cron_next (j_CronExpr (w_heap ?before ! 0)) zeroTime = Inr (- 62135564400000000000)"
    "- 62135564400000000000 \<le> w_clock ?before" by (simp_all only: h y1)
  have eq: "fold cron_step (demo_pause_ops @ [OpPause ''cron-1-ab'', OpRun 0 demo_cron_env]) (NewScheduler 0 ''s1'' 0 Map.empty) = u"
    by (simp only: fold_append u o_apply)
  have paused: "j_Paused (w_heap u ! 0)" and
    fires: "(\<forall>x. sc_lastEnqueue u ''cron-1-ab'' = Some x \<longrightarrow> x + 5 * nsec \<le> w_clock u + 5 * nsec) \<longrightarrow> 0 \<le> 5 * nsec \<longrightarrow>
      (\<exists>k m g. w_calls (fold cron_step [OpTick (5 * nsec), OpExpire k, OpRun m demo_cron_env] u) =
          w_calls u @ [\<lparr>eq_job = Some (''cron-1-ab'', g), eq_prompt = j_Prompt (w_heap u ! 0),
            eq_queue = j_QueueIfBusy (w_heap u ! 0), eq_sink = sc_enqueue u, eq_at = w_clock u + 5 * nsec\<rparr>])"
    using paused_job_fires_again [OF len refl h(1-5) e past u] by blast+
  have "\<forall>x. sc_lastEnqueue u ''cron-1-ab'' = Some x \<longrightarrow> x + 5 * nsec \<le> w_clock u + 5 * nsec" using v(1,2) by simp
  from fires [THEN mp, OF this, THEN mp, unfolded v(1,3,4)] v(5) paused show ?thesis unfolding Let_def eq by simp
qed

end
