(* ===== verification/AuditLedger.thy ===== *)
theory AuditLedger
  imports GoNum Utf8
begin

text \<open>
  The audit ledger (\<^verbatim>\<open>internal/audit/audit.go\<close>): a file with one JSON entry per line, each sealed by a
  hash that covers the hash of the entry before. A file is a list of tokens: the JSON text of an
  entry, text that is no JSON entry, and the newline; a line with exactly one entry token is read as
  that entry, any other line that is not blank as malformed. SHA-256 is the argument \<open>sha\<close>, the clock
  an argument of \<^verbatim>\<open>Append\<close>. \<^verbatim>\<open>json.Marshal\<close> replaces every byte that is not part of valid UTF-8 by
  the replacement character, which is modelled.
\<close>

section \<open>Events and entries\<close>

definition GenesisPrevHash :: string where
  "GenesisPrevHash = replicate 64 CHR ''0''"

definition headVersion :: int where
  "headVersion = 1"

record Event =
  ev_Tool :: string
  ev_Status :: string
  ev_InputHash :: string
  ev_DurationMS :: int
  ev_Err :: string
  ev_Session :: string
  ev_InvariantID :: string
  ev_Peer :: string
  ev_TaskID :: string

record Entry =
  Seq :: int
  Time :: string
  Session :: string
  Tool :: string
  Status :: string
  InputHash :: string
  DurationMS :: int
  Err :: string
  InvariantID :: string
  Peer :: string
  TaskID :: string
  PrevHash :: string
  Hash :: string

text \<open>Eight bytes, little endian, then the field.\<close>

fun le_bytes :: "nat \<Rightarrow> nat \<Rightarrow> string" where
  "le_bytes 0 n = ''''"
| "le_bytes (Suc k) n = char_of (n mod 256) # le_bytes k (n div 256)"

definition writeField :: "string \<Rightarrow> string" where
  "writeField s = le_bytes 8 (length s) @ s"

definition writeTagged :: "nat \<Rightarrow> string \<Rightarrow> string" where
  "writeTagged tag s = char_of tag # writeField s"

definition entry_bytes :: "Entry \<Rightarrow> string" where
  "entry_bytes e =
     writeField (Itoa (Seq e)) @ writeField (Time e) @ writeField (Session e) @ writeField (Tool e) @
     writeField (Status e) @ writeField (InputHash e) @ writeField (Itoa (DurationMS e)) @ writeField (Err e) @
     (if InvariantID e \<noteq> '''' \<or> Peer e \<noteq> '''' \<or> TaskID e \<noteq> ''''
      then writeTagged 1 (InvariantID e) @ writeTagged 2 (Peer e) @ writeTagged 3 (TaskID e) else '''') @
     writeField (PrevHash e)"

type_synonym sha256 = "string \<Rightarrow> string"

definition hashEntry :: "sha256 \<Rightarrow> Entry \<Rightarrow> string" where
  "hashEntry sha e = EncodeToString (sha (entry_bytes e))"

section \<open>The file\<close>

datatype tok = J Entry | Junk | NL

type_synonym ledger_file = "tok list"

text \<open>An entry as the file holds it.\<close>

definition stored :: "Entry \<Rightarrow> Entry" where
  "stored e = e\<lparr>Time := json_text (Time e), Session := json_text (Session e), Tool := json_text (Tool e),
     Status := json_text (Status e), InputHash := json_text (InputHash e), Err := json_text (Err e),
     InvariantID := json_text (InvariantID e), Peer := json_text (Peer e), TaskID := json_text (TaskID e),
     PrevHash := json_text (PrevHash e), Hash := json_text (Hash e)\<rparr>"

definition malformed :: Entry where
  "malformed = \<lparr>Seq = 0, Time = '''', Session = '''', Tool = ''malformed line'', Status = '''', InputHash = '''',
     DurationMS = 0, Err = '''', InvariantID = '''', Peer = '''', TaskID = '''', PrevHash = '''', Hash = ''''\<rparr>"

definition isMalformedSentinel :: "Entry \<Rightarrow> bool" where
  "isMalformedSentinel e \<longleftrightarrow> Seq e = 0 \<and> Tool e = ''malformed line''"

fun unmarshal_line :: "tok list \<Rightarrow> Entry option" where
  "unmarshal_line [J e] = Some e"
| "unmarshal_line _ = None"

text \<open>\<open>scan_lines l ts\<close> reads on with the line \<open>l\<close>, last token first, begun.\<close>

definition line_entries :: "tok list \<Rightarrow> Entry list" where
  "line_entries line =
     (if line = [] then [] else case unmarshal_line line of Some e \<Rightarrow> [e] | None \<Rightarrow> [malformed])"

fun scan_lines :: "tok list \<Rightarrow> ledger_file \<Rightarrow> Entry list" where
  "scan_lines l [] = line_entries (rev l)"
| "scan_lines l (t # ts) =
     (if t = NL then line_entries (rev l) @ scan_lines [] ts else scan_lines (t # l) ts)"

definition scanEntries :: "ledger_file \<Rightarrow> Entry list" where
  "scanEntries data = scan_lines [] data"

text \<open>
  \<^verbatim>\<open>truncateTornTail\<close>, on the reversed file: cut off lines from the end until one is blank or an entry.
\<close>

function cut_tail :: "tok list \<Rightarrow> tok list" where
  "cut_tail r =
     (let d = (case r of NL # d \<Rightarrow> d | _ \<Rightarrow> r) in
      if d = [] then r
      else let line = rev (takeWhile (\<lambda>t. t \<noteq> NL) d) in
           if line = [] then r
           else if unmarshal_line line \<noteq> None then r
           else cut_tail (dropWhile (\<lambda>t. t \<noteq> NL) d))"
  by pat_completeness auto

lemma length_dropWhile_lt: "takeWhile P xs \<noteq> [] \<Longrightarrow> length (dropWhile P xs) < length xs"
  by (metis length_append length_greater_0_conv less_add_same_cancel2 takeWhile_dropWhile_id)

termination cut_tail
proof (relation "measure length", goal_cases)
  case (2 r d line)
  have "length d \<le> length r" using 2(1) by (auto split: list.splits tok.splits)
  moreover have "length (dropWhile (\<lambda>t. t \<noteq> NL) d) < length d"
    using 2 by (intro length_dropWhile_lt) auto
  ultimately show ?case by simp
qed simp

declare cut_tail.simps [simp del]

definition truncateTornTail :: "ledger_file \<Rightarrow> ledger_file" where
  "truncateTornTail data = rev (cut_tail (rev data))"

section \<open>The ledger\<close>

record Ledger =
  session :: string
  f_open :: bool
  l_seq :: int
  l_prev :: string

datatype audit_error = LedgerClosed | WriteEntry

definition Open :: "string \<Rightarrow> ledger_file \<Rightarrow> Ledger \<times> ledger_file" where
  "Open sess data =
     (let entries = scanEntries data;
          torn = entries \<noteq> [] \<and> isMalformedSentinel (last entries);
          data' = (if torn then truncateTornTail data else data);
          entries' = scanEntries data';
          l = \<lparr>session = sess, f_open = True, l_seq = 0, l_prev = GenesisPrevHash\<rparr>
      in (if entries' \<noteq> [] \<and> \<not> isMalformedSentinel (last entries')
          then l\<lparr>l_seq := Seq (last entries'), l_prev := Hash (last entries')\<rparr> else l, data'))"

text \<open>How a write of an entry's line ends: whole, or with an error after nothing, a part of the entry, or all but the newline.\<close>

datatype write_end = Whole | NoBytesOut | PartOut | NoNewlineOut

definition make_entry :: "sha256 \<Rightarrow> Ledger \<Rightarrow> Event \<Rightarrow> string \<Rightarrow> Entry" where
  "make_entry sha l ev now =
     (let e = \<lparr>Seq = wrap64 (l_seq l + 1), Time = now,
               Session = (if ev_Session ev \<noteq> '''' then ev_Session ev else session l),
               Tool = ev_Tool ev, Status = ev_Status ev, InputHash = ev_InputHash ev,
               DurationMS = ev_DurationMS ev, Err = ev_Err ev, InvariantID = ev_InvariantID ev,
               Peer = ev_Peer ev, TaskID = ev_TaskID ev, PrevHash = l_prev l, Hash = ''''\<rparr>
      in e\<lparr>Hash := hashEntry sha e\<rparr>)"

definition Append ::
  "sha256 \<Rightarrow> Event \<Rightarrow> string \<Rightarrow> write_end \<Rightarrow> Ledger \<times> ledger_file \<Rightarrow> (audit_error + Entry) \<times> Ledger \<times> ledger_file" where
  "Append sha ev now w lf =
     (let (l, data) = lf in
      if \<not> f_open l then (Inl LedgerClosed, l, data)
      else let e = make_entry sha l ev now in
           case w of
             Whole \<Rightarrow> (Inr e, l\<lparr>l_seq := Seq e, l_prev := Hash e\<rparr>, data @ [J (stored e), NL])
           | NoBytesOut \<Rightarrow> (Inl WriteEntry, l, data)
           | PartOut \<Rightarrow> (Inl WriteEntry, l, data @ [Junk])
           | NoNewlineOut \<Rightarrow> (Inl WriteEntry, l, data @ [J (stored e)]))"

definition Close :: "Ledger \<Rightarrow> Ledger" where
  "Close l = l\<lparr>f_open := False\<rparr>"

section \<open>Anchor and verification\<close>

record headFile =
  hf_Version :: int
  hf_Seq :: int
  hf_Hash :: string
  hf_Time :: string

definition Anchor :: "Ledger \<Rightarrow> string \<Rightarrow> headFile" where
  "Anchor l now = \<lparr>hf_Version = headVersion, hf_Seq = l_seq l, hf_Hash = l_prev l, hf_Time = now\<rparr>"

datatype break_reason = SequenceGap int | PrevHashMismatch | HashMismatch

record Report =
  Entries :: int
  LastHash :: string
  FirstBreak :: "(int \<times> break_reason) option"
  HeadAnchored :: bool
  Truncated :: "(int \<times> int) option"

definition Report_OK :: "Report \<Rightarrow> bool" where
  "Report_OK r \<longleftrightarrow> FirstBreak r = None \<and> Truncated r = None"

text \<open>The loop of \<^verbatim>\<open>Verify\<close>: the last good hash and the first break.\<close>

fun verify_loop ::
  "sha256 \<Rightarrow> string \<Rightarrow> int \<Rightarrow> string \<Rightarrow> Entry list \<Rightarrow> string \<times> (int \<times> break_reason) option" where
  "verify_loop sha prev expect lastHash [] = (lastHash, None)"
| "verify_loop sha prev expect lastHash (e # es) =
     (if Seq e \<noteq> expect then (lastHash, Some (Seq e, SequenceGap expect))
      else if PrevHash e \<noteq> prev then (lastHash, Some (Seq e, PrevHashMismatch))
      else if Hash e \<noteq> hashEntry sha e then (lastHash, Some (Seq e, HashMismatch))
      else verify_loop sha (Hash e) (wrap64 (expect + 1)) (Hash e) es)"

definition finalize :: "headFile option \<Rightarrow> int \<Rightarrow> Report \<Rightarrow> Report" where
  "finalize head lastSeq r =
     (case head of
        None \<Rightarrow> r
      | Some hf \<Rightarrow>
          let r = r\<lparr>HeadAnchored := True\<rparr> in
          if hf_Version hf \<noteq> headVersion then r
          else if hf_Seq hf > lastSeq then r\<lparr>Truncated := Some (hf_Seq hf, lastSeq)\<rparr>
          else r)"

definition Verify :: "sha256 \<Rightarrow> ledger_file \<Rightarrow> headFile option \<Rightarrow> Report" where
  "Verify sha data head =
     (let entries = scanEntries data;
          (lastHash, firstBreak) = verify_loop sha GenesisPrevHash 1 '''' entries
      in finalize head (int (length entries))
           \<lparr>Entries = int (length entries), LastHash = lastHash, FirstBreak = firstBreak,
            HeadAnchored = False, Truncated = None\<rparr>)"

section \<open>What is hashed determines the entry\<close>

lemma length_le_bytes [simp]: "length (le_bytes k n) = k"
  by (induction k arbitrary: n) auto

lemma le_bytes_inj: "n < 256 ^ k \<Longrightarrow> m < 256 ^ k \<Longrightarrow> le_bytes k n = le_bytes k m \<Longrightarrow> n = m"
proof (induction k arbitrary: n m)
  case (Suc k)
  have "of_char (char_of (n mod 256) :: char) = (of_char (char_of (m mod 256) :: char) :: nat)"
    using Suc.prems(3) by simp
  then have "n mod 256 = m mod 256" by simp
  moreover have "n div 256 = m div 256"
    using Suc.prems by (intro Suc.IH) (auto simp: less_mult_imp_div_less mult.commute)
  ultimately show ?case by (metis div_mult_mod_eq)
qed simp

definition small :: "string \<Rightarrow> bool" where
  "small s \<longleftrightarrow> length s < 256 ^ 8"

lemma writeField_cancel:
  assumes "writeField a @ x = writeField b @ y" "small a" "small b"
  shows "a = b \<and> x = y"
proof -
  have "le_bytes 8 (length a) = le_bytes 8 (length b)" and t: "a @ x = b @ y"
    using assms(1) by (simp_all add: writeField_def append_eq_append_conv)
  then have "length a = length b" using assms(2,3) le_bytes_inj unfolding small_def by blast
  with t show ?thesis by simp
qed

definition entry_small :: "Entry \<Rightarrow> bool" where
  "entry_small e \<longleftrightarrow> small (Itoa (Seq e)) \<and> small (Time e) \<and> small (Session e) \<and> small (Tool e) \<and>
     small (Status e) \<and> small (InputHash e) \<and> small (Itoa (DurationMS e)) \<and> small (Err e) \<and>
     small (InvariantID e) \<and> small (Peer e) \<and> small (TaskID e)"

lemma writeTagged_cancel:
  assumes "writeTagged k a @ x = writeTagged k b @ y" "small a" "small b"
  shows "a = b \<and> x = y"
  using assms writeField_cancel [of a x b y] by (simp only: writeTagged_def append_Cons list.inject)

definition entry_tail :: "Entry \<Rightarrow> string" where
  "entry_tail e =
     (if InvariantID e \<noteq> '''' \<or> Peer e \<noteq> '''' \<or> TaskID e \<noteq> ''''
      then writeTagged 1 (InvariantID e) @ writeTagged 2 (Peer e) @ writeTagged 3 (TaskID e) else '''') @
     writeField (PrevHash e)"

lemma small_64: "length s = 64 \<Longrightarrow> small s"
  by (simp add: small_def)

lemma hash_field_hd: "length s = 64 \<Longrightarrow> \<exists>r. writeField s = char_of (64 :: nat) # r"
  using le_bytes.simps(2) [of 7 64] by (simp add: writeField_def del: le_bytes.simps)

lemma entry_tail_inj:
  assumes "entry_tail e = entry_tail e'" "entry_small e" "entry_small e'"
    and "length (PrevHash e) = 64" "length (PrevHash e') = 64"
  shows "InvariantID e = InvariantID e' \<and> Peer e = Peer e' \<and> TaskID e = TaskID e' \<and> PrevHash e = PrevHash e'"
proof -
  have ne: "char_of (1 :: nat) \<noteq> (char_of (64 :: nat) :: char)" by simp
  have s: "small (PrevHash e)" "small (PrevHash e')" using assms(4,5) by (simp_all add: small_64)
  let ?t = "\<lambda>e. InvariantID e \<noteq> '''' \<or> Peer e \<noteq> '''' \<or> TaskID e \<noteq> ''''"
  have hd_t: "hd (entry_tail e) = char_of (1 :: nat)" if "?t e" for e
    using that by (simp add: entry_tail_def writeTagged_def)
  have hd_n: "hd (entry_tail e) = char_of (64 :: nat)" if "\<not> ?t e" "length (PrevHash e) = 64" for e
    using that hash_field_hd [of "PrevHash e"] by (auto simp: entry_tail_def)
  show ?thesis
  proof (cases "?t e")
    case True
    moreover have "?t e'" using True assms(1,5) hd_t hd_n ne by metis
    ultimately have eq: "writeTagged 1 (InvariantID e) @ writeTagged 2 (Peer e) @ writeTagged 3 (TaskID e) @ writeField (PrevHash e) =
        writeTagged 1 (InvariantID e') @ writeTagged 2 (Peer e') @ writeTagged 3 (TaskID e') @ writeField (PrevHash e')"
      using assms(1) by (simp add: entry_tail_def)
    note sm = assms(2,3) [unfolded entry_small_def]
    have 1: "InvariantID e = InvariantID e'" and e1: "writeTagged 2 (Peer e) @ writeTagged 3 (TaskID e) @ writeField (PrevHash e) =
        writeTagged 2 (Peer e') @ writeTagged 3 (TaskID e') @ writeField (PrevHash e')"
      using writeTagged_cancel [OF eq] sm by auto
    have 2: "Peer e = Peer e'" and e2: "writeTagged 3 (TaskID e) @ writeField (PrevHash e) =
        writeTagged 3 (TaskID e') @ writeField (PrevHash e')"
      using writeTagged_cancel [OF e1] sm by auto
    have 3: "TaskID e = TaskID e'" and e3: "writeField (PrevHash e) = writeField (PrevHash e')"
      using writeTagged_cancel [OF e2] sm by auto
    from writeField_cancel [of "PrevHash e" "[]" "PrevHash e'" "[]"] e3 s 1 2 3 show ?thesis by simp
  next
    case False
    moreover have "\<not> ?t e'" using False assms(1,4) hd_t hd_n ne by metis
    ultimately show ?thesis
      using assms(1) writeField_cancel [of "PrevHash e" "[]" "PrevHash e'" "[]"] s by (simp add: entry_tail_def)
  qed
qed

lemma entry_bytes_tail:
  "entry_bytes e = writeField (Itoa (Seq e)) @ writeField (Time e) @ writeField (Session e) @ writeField (Tool e) @
     writeField (Status e) @ writeField (InputHash e) @ writeField (Itoa (DurationMS e)) @ writeField (Err e) @ entry_tail e"
  by (simp add: entry_bytes_def entry_tail_def)

lemma entry_bytes_inj:
  assumes "entry_bytes e = entry_bytes e'" "entry_small e" "entry_small e'"
    and "length (PrevHash e) = 64" "length (PrevHash e') = 64" "Hash e = Hash e'"
  shows "e = e'"
proof -
  note sm = assms(2,3) [unfolded entry_small_def]
  have "Itoa (Seq e) = Itoa (Seq e')" "Time e = Time e'" "Session e = Session e'" "Tool e = Tool e'"
    "Status e = Status e'" "InputHash e = InputHash e'" "Itoa (DurationMS e) = Itoa (DurationMS e')"
    "Err e = Err e'" "entry_tail e = entry_tail e'"
    using assms(1) sm unfolding entry_bytes_tail by (blast dest: writeField_cancel)+
  with entry_tail_inj [OF _ assms(2-5)] assms(6) show ?thesis by simp
qed

section \<open>Hexadecimal digests\<close>

lemma byte_val_inj: "byte_val c = byte_val d \<Longrightarrow> c = d"
  by (metis byte_val_def char_of_char)

lemma hex_digit_inj: "m < 16 \<Longrightarrow> n < 16 \<Longrightarrow> hex_digit m = hex_digit n \<Longrightarrow> m = n"
proof -
  assume b: "m < 16" "n < 16" and eq: "hex_digit m = hex_digit n"
  have v: "byte_val (hex_digit k) = (if k < 10 then 48 + k else 87 + k)" if "k < 16" for k
    using that by (simp add: hex_digit_def byte_val_def)
  have "(if m < 10 then 48 + m else 87 + m) = (if n < 10 then 48 + n else 87 + n)"
    using v [OF b(1)] v [OF b(2)] eq by metis
  then show "m = n" using b by (simp split: if_splits)
qed

lemma length_hex [simp]: "length (EncodeToString bs) = 2 * length bs"
  by (induction bs) (auto simp: EncodeToString_def)

lemma hex_inj: "EncodeToString as = EncodeToString bs \<Longrightarrow> as = bs"
proof (induction as arbitrary: bs)
  case Nil
  then show ?case by (cases bs) (auto simp: EncodeToString_def)
next
  case (Cons a as)
  then obtain b bs' where bs: "bs = b # bs'" by (cases bs) (auto simp: EncodeToString_def)
  have h: "hex_digit (byte_val a div 16) = hex_digit (byte_val b div 16)"
    "hex_digit (byte_val a mod 16) = hex_digit (byte_val b mod 16)" "EncodeToString as = EncodeToString bs'"
    using Cons.prems bs by (simp_all add: EncodeToString_def)
  have "byte_val a div 16 = byte_val b div 16" "byte_val a mod 16 = byte_val b mod 16"
    using h(1,2) byte_val_lt [of a] byte_val_lt [of b] by (auto intro!: hex_digit_inj)
  then have "byte_val a = byte_val b" by (metis div_mult_mod_eq)
  with Cons.IH [OF h(3)] bs byte_val_inj show ?case by blast
qed

section \<open>Chains\<close>

definition chain_prev :: "Entry list \<Rightarrow> string" where
  "chain_prev es = (if es = [] then GenesisPrevHash else Hash (last es))"

text \<open>Entry by entry: its number, the hash before it, its own hash.\<close>

definition chained :: "sha256 \<Rightarrow> Entry list \<Rightarrow> bool" where
  "chained sha es \<longleftrightarrow> (\<forall>i < length es. Seq (es ! i) = int i + 1 \<and> PrevHash (es ! i) = chain_prev (take i es) \<and>
     Hash (es ! i) = hashEntry sha (es ! i))"

lemma chained_snoc:
  "chained sha (es @ [e]) \<longleftrightarrow> chained sha es \<and> Seq e = int (length es) + 1 \<and> PrevHash e = chain_prev es \<and>
     Hash e = hashEntry sha e"
  by (auto simp: chained_def nth_append less_Suc_eq)

lemma chained_Nil [simp]: "chained sha []"
  by (simp add: chained_def)

lemma verify_loop_snoc:
  "verify_loop sha prev expect lh (es @ [e]) =
     (case verify_loop sha prev expect lh es of
        (lh', Some b) \<Rightarrow> (lh', Some b)
      | (lh', None) \<Rightarrow>
          verify_loop sha (if es = [] then prev else Hash (last es))
            (((\<lambda>k. wrap64 (k + 1)) ^^ length es) expect) lh' [e])"
proof (induction es arbitrary: prev expect lh)
  case (Cons a es)
  have f: "((\<lambda>k. wrap64 (k + 1)) ^^ length (a # es)) k = ((\<lambda>k. wrap64 (k + 1)) ^^ length es) (wrap64 (k + 1))" for k
    by (simp only: length_Cons funpow_Suc_right o_apply)
  have l: "(if a # es = [] then prev else Hash (last (a # es))) = (if es = [] then Hash a else Hash (last es))"
    by simp
  show ?case
    unfolding f l using Cons.IH [of "Hash a" "wrap64 (expect + 1)" "Hash a"]
    by (simp only: append_Cons verify_loop.simps) simp
qed simp

lemma wrap_count: "int n < max_int \<Longrightarrow> ((\<lambda>k. wrap64 (k + 1)) ^^ n) 1 = int n + 1"
proof (induction n)
  case (Suc n)
  then show ?case by (simp add: is_int64_def min_int_def max_int_def)
qed simp

lemma verify_chained:
  assumes "int (length es) \<le> max_int"
  shows "snd (verify_loop sha GenesisPrevHash 1 '''' es) = None \<longleftrightarrow> chained sha es"
    and "chained sha es \<Longrightarrow> fst (verify_loop sha GenesisPrevHash 1 '''' es) = (if es = [] then '''' else Hash (last es))"
proof -
  have "(snd (verify_loop sha GenesisPrevHash 1 '''' es) = None \<longleftrightarrow> chained sha es) \<and>
    (chained sha es \<longrightarrow> fst (verify_loop sha GenesisPrevHash 1 '''' es) = (if es = [] then '''' else Hash (last es)))"
    using assms
  proof (induction es rule: rev_induct)
    case (snoc e es)
    then have n: "((\<lambda>k. wrap64 (k + 1)) ^^ length es) 1 = int (length es) + 1" by (intro wrap_count) simp
    obtain lh b where v: "verify_loop sha GenesisPrevHash 1 '''' es = (lh, b)" by fastforce
    with snoc have ih: "b = None \<longleftrightarrow> chained sha es" by simp
    show ?case
      using ih by (cases b) (auto simp: verify_loop_snoc v n chained_snoc chain_prev_def)
  qed simp
  then show "snd (verify_loop sha GenesisPrevHash 1 '''' es) = None \<longleftrightarrow> chained sha es"
    "chained sha es \<Longrightarrow> fst (verify_loop sha GenesisPrevHash 1 '''' es) = (if es = [] then '''' else Hash (last es))"
    by auto
qed

lemma Verify_FirstBreak: "FirstBreak (Verify sha data head) = snd (verify_loop sha GenesisPrevHash 1 '''' (scanEntries data))"
  by (simp add: Verify_def finalize_def case_prod_beta Let_def split: option.split)

lemma Verify_LastHash: "LastHash (Verify sha data head) = fst (verify_loop sha GenesisPrevHash 1 '''' (scanEntries data))"
  by (simp add: Verify_def finalize_def case_prod_beta Let_def split: option.split)

lemma Verify_Truncated:
  "Truncated (Verify sha data head) =
     (case head of None \<Rightarrow> None
      | Some hf \<Rightarrow> if hf_Version hf = headVersion \<and> hf_Seq hf > int (length (scanEntries data))
                   then Some (hf_Seq hf, int (length (scanEntries data))) else None)"
  by (auto simp: Verify_def finalize_def case_prod_beta Let_def split: option.split)

lemma length_prev:
  assumes "chained sha es" "\<And>x. length (sha x) = 32" "i < length es"
  shows "length (PrevHash (es ! i)) = 64"
proof (cases i)
  case 0
  then show ?thesis using assms by (simp add: chained_def chain_prev_def GenesisPrevHash_def)
next
  case (Suc j)
  then have "PrevHash (es ! i) = Hash (es ! j)" "Hash (es ! j) = hashEntry sha (es ! j)"
    using assms by (auto simp: chained_def chain_prev_def take_Suc_conv_app_nth)
  then show ?thesis by (simp add: hashEntry_def assms(2))
qed

text \<open>Two chains with the same last hash are the same chain.\<close>

lemma chain_determined:
  assumes "\<And>x. length (sha x) = 32"
    and "\<forall>e \<in> set es. \<forall>e' \<in> set es'. sha (entry_bytes e) = sha (entry_bytes e') \<longrightarrow> entry_bytes e = entry_bytes e'"
    and "\<forall>e \<in> set es \<union> set es'. entry_small e"
    and "chained sha es" "chained sha es'" "es \<noteq> []" "es' \<noteq> []" "Hash (last es) = Hash (last es')"
  shows "es = es'"
  using assms(2-)
proof (induction es arbitrary: es' rule: rev_induct)
  case (snoc e es)
  from snoc.prems(6) obtain us u where es': "es' = us @ [u]" by (metis rev_exhaust)
  have c: "chained sha es" "Seq e = int (length es) + 1" "PrevHash e = chain_prev es" "Hash e = hashEntry sha e"
    "chained sha us" "Seq u = int (length us) + 1" "PrevHash u = chain_prev us" "Hash u = hashEntry sha u"
    using snoc.prems(3,4) by (simp_all add: es' chained_snoc)
  have "hashEntry sha e = hashEntry sha u" using snoc.prems(7) c by (simp add: es')
  then have "entry_bytes e = entry_bytes u"
    using snoc.prems(1) hex_inj unfolding hashEntry_def es' by fastforce
  moreover have "length (PrevHash e) = 64" "length (PrevHash u) = 64"
    using length_prev [OF snoc.prems(3) assms(1), of "length es"]
      length_prev [OF snoc.prems(4) assms(1), of "length us"] by (simp_all add: es')
  ultimately have eq: "e = u"
    using snoc.prems(2,7) by (intro entry_bytes_inj) (auto simp: es')
  then have len: "length es = length us" using c by simp
  show ?case
  proof (cases "es = []")
    case True
    then show ?thesis using len eq by (simp add: es')
  next
    case False
    then have "us \<noteq> []" using len by auto
    moreover have "Hash (last es) = Hash (last us)" using c eq False calculation by (simp add: chain_prev_def)
    ultimately have "es = us" using snoc.prems(1,2) c False by (intro snoc.IH) (auto simp: es')
    then show ?thesis using eq by (simp add: es')
  qed
qed simp

section \<open>Text that JSON keeps\<close>

lemma utf8_ok_hash: "utf8_ok (hashEntry sha e)"
  unfolding hashEntry_def by (intro utf8_ok_ascii hex_ascii)

lemma utf8_ok_genesis: "utf8_ok GenesisPrevHash"
  by (intro utf8_ok_ascii) (simp add: GenesisPrevHash_def list_all_iff in_range_def byte_val_def)

lemma chain_prev_ok: "chained sha es \<Longrightarrow> utf8_ok (chain_prev es)"
  by (cases es rule: rev_cases) (auto simp: chain_prev_def utf8_ok_genesis chained_snoc utf8_ok_hash)

definition event_ok :: "Event \<Rightarrow> bool" where
  "event_ok ev \<longleftrightarrow> utf8_ok (ev_Tool ev) \<and> utf8_ok (ev_Status ev) \<and> utf8_ok (ev_InputHash ev) \<and>
     utf8_ok (ev_Err ev) \<and> utf8_ok (ev_Session ev) \<and> utf8_ok (ev_InvariantID ev) \<and> utf8_ok (ev_Peer ev) \<and>
     utf8_ok (ev_TaskID ev)"

lemma make_entry_simps [simp]:
  "Seq (make_entry sha l ev now) = wrap64 (l_seq l + 1)" "PrevHash (make_entry sha l ev now) = l_prev l"
  by (simp_all add: make_entry_def Let_def)

lemma make_entry_hash: "Hash (make_entry sha l ev now) = hashEntry sha (make_entry sha l ev now)"
  by (simp add: make_entry_def Let_def hashEntry_def entry_bytes_def)

lemma stored_make_entry:
  "event_ok ev \<Longrightarrow> utf8_ok now \<Longrightarrow> utf8_ok (session l) \<Longrightarrow> utf8_ok (l_prev l) \<Longrightarrow>
   stored (make_entry sha l ev now) = make_entry sha l ev now"
  using utf8_ok_hash [of sha] by (simp add: stored_def make_entry_def Let_def event_ok_def utf8_ok_def)

section \<open>Files without a torn tail\<close>

definition clean :: "Entry list \<Rightarrow> ledger_file" where
  "clean es = concat (map (\<lambda>e. [J e, NL]) es)"

lemma clean_simps [simp]: "clean [] = []" "clean (es @ [e]) = clean es @ [J e, NL]"
  by (simp_all add: clean_def)

lemma scan_clean: "scan_lines [] (clean es @ rest) = es @ scan_lines [] rest"
  by (induction es) (auto simp: clean_def line_entries_def)

lemma scanEntries_clean [simp]:
  "scanEntries (clean es) = es" "scanEntries (clean es @ [Junk]) = es @ [malformed]"
  "scanEntries (clean es @ [J e]) = es @ [e]" "scanEntries (clean es @ [J e, J e', NL]) = es @ [malformed]"
  using scan_clean [of es "[]"] scan_clean [of es "[Junk]"] scan_clean [of es "[J e]"]
    scan_clean [of es "[J e, J e', NL]"]
  by (simp_all add: scanEntries_def line_entries_def)

lemma cut_tail_clean: "cut_tail (rev (clean es)) = rev (clean es)"
proof (cases es rule: rev_cases)
  case (snoc us e)
  have "takeWhile (\<lambda>t. t \<noteq> NL) (rev (clean us)) = []" by (cases us rule: rev_cases) auto
  then show ?thesis by (subst cut_tail.simps) (simp add: snoc)
qed (simp add: cut_tail.simps)

lemma truncate_torn [simp]: "truncateTornTail (clean es @ [Junk]) = clean es"
proof -
  have "takeWhile (\<lambda>t. t \<noteq> NL) (rev (clean es)) = []" "dropWhile (\<lambda>t. t \<noteq> NL) (rev (clean es)) = rev (clean es)"
    by (cases es rule: rev_cases; simp)+
  then have "cut_tail (Junk # rev (clean es)) = cut_tail (rev (clean es))"
    by (subst cut_tail.simps) simp
  then show ?thesis by (simp add: truncateTornTail_def cut_tail_clean)
qed

definition at_end :: "sha256 \<Rightarrow> Entry list \<Rightarrow> Ledger \<Rightarrow> bool" where
  "at_end sha es l \<longleftrightarrow> f_open l \<and> utf8_ok (session l) \<and> chained sha es \<and>
     l_seq l = int (length es) \<and> l_prev l = chain_prev es"

lemma chained_not_sentinel: "chained sha es \<Longrightarrow> es \<noteq> [] \<Longrightarrow> \<not> isMalformedSentinel (last es)"
  by (cases es rule: rev_cases) (auto simp: chained_snoc isMalformedSentinel_def)

lemma Open_clean:
  assumes "chained sha es" "utf8_ok sess" "data = clean es \<or> data = clean es @ [Junk]"
  shows "\<exists>l. Open sess data = (l, clean es) \<and> at_end sha es l \<and> session l = sess"
proof -
  have sent: "isMalformedSentinel malformed" by (simp add: isMalformedSentinel_def malformed_def)
  have ns: "es \<noteq> [] \<Longrightarrow> \<not> isMalformedSentinel (last es)" by (rule chained_not_sentinel [OF assms(1)])
  let ?l = "\<lparr>session = sess, f_open = True, l_seq = 0, l_prev = GenesisPrevHash\<rparr>"
  have "(let entries = scanEntries data in
      if entries \<noteq> [] \<and> isMalformedSentinel (last entries) then truncateTornTail data else data) = clean es"
    using assms(3)
  proof
    assume "data = clean es"
    then show ?thesis using ns by (simp only: scanEntries_clean Let_def) (auto split: if_split)
  next
    assume "data = clean es @ [Junk]"
    then show ?thesis using sent by (simp add: Let_def)
  qed
  then have o: "Open sess data = (if es \<noteq> [] \<and> \<not> isMalformedSentinel (last es)
      then ?l\<lparr>l_seq := Seq (last es), l_prev := Hash (last es)\<rparr> else ?l, clean es)"
    unfolding Open_def Let_def by (simp only: scanEntries_clean)
  have "Seq (last es) = int (length es)" if "es \<noteq> []"
    using assms(1) that by (cases es rule: rev_cases) (auto simp: chained_snoc)
  with o ns assms(1,2) show ?thesis by (cases "es = []") (simp_all add: at_end_def chain_prev_def)
qed

lemma Append_whole:
  assumes "at_end sha es l" "event_ok ev" "utf8_ok now" "int (length es) < max_int"
  shows "\<exists>e l'. Append sha ev now Whole (l, clean es) = (Inr e, l', clean (es @ [e])) \<and>
     e = make_entry sha l ev now \<and> at_end sha (es @ [e]) l' \<and> session l' = session l"
proof -
  have st: "stored (make_entry sha l ev now) = make_entry sha l ev now"
    using assms chain_prev_ok by (intro stored_make_entry) (auto simp: at_end_def)
  have "wrap64 (int (length es) + 1) = int (length es) + 1"
    using assms(4) by (simp add: is_int64_def min_int_def)
  then show ?thesis
    using assms(1) st make_entry_hash [of sha l ev now]
    by (auto simp: Append_def Let_def at_end_def chained_snoc chain_prev_def)
qed

section \<open>Runs with crashes\<close>

text \<open>
  \<open>ACrash w\<close>: the process dies while an entry is written, the write having got as far as \<open>w\<close> says, and
  the ledger is opened again.
\<close>

datatype audit_op = AAppend Event string | ACrash write_end Event string

fun audit_step :: "sha256 \<Rightarrow> audit_op \<Rightarrow> Ledger \<times> ledger_file \<Rightarrow> Ledger \<times> ledger_file" where
  "audit_step sha (AAppend ev now) lf = snd (Append sha ev now Whole lf)"
| "audit_step sha (ACrash w ev now) lf = Open (session (fst lf)) (snd (snd (Append sha ev now w lf)))"

fun audit_op_ok :: "audit_op \<Rightarrow> bool" where
  "audit_op_ok (AAppend ev now) = (event_ok ev \<and> utf8_ok now)"
| "audit_op_ok (ACrash w ev now) = (event_ok ev \<and> utf8_ok now \<and> w \<noteq> NoNewlineOut)"

text \<open>The events whose line was written whole.\<close>

fun logged :: "audit_op \<Rightarrow> Event list" where
  "logged (AAppend ev now) = [ev]"
| "logged (ACrash w ev now) = (if w = Whole then [ev] else [])"

definition records :: "Event \<Rightarrow> Entry \<Rightarrow> bool" where
  "records ev e \<longleftrightarrow> Tool e = ev_Tool ev \<and> Status e = ev_Status ev \<and> InputHash e = ev_InputHash ev \<and>
     DurationMS e = ev_DurationMS ev \<and> Err e = ev_Err ev \<and> InvariantID e = ev_InvariantID ev \<and>
     Peer e = ev_Peer ev \<and> TaskID e = ev_TaskID ev"

definition audit_inv :: "sha256 \<Rightarrow> int \<Rightarrow> Ledger \<times> ledger_file \<Rightarrow> bool" where
  "audit_inv sha k lf \<longleftrightarrow> (\<exists>es. snd lf = clean es \<and> at_end sha es (fst lf) \<and> int (length es) \<le> k)"

lemma audit_step_ok:
  assumes ok: "audit_op_ok op" and at: "at_end sha es l" and small: "int (length es) < max_int"
  shows "\<exists>us l'. audit_step sha op (l, clean es) = (l', clean (es @ us)) \<and> at_end sha (es @ us) l' \<and>
     list_all2 records (logged op) us \<and> length us \<le> 1"
proof (cases op)
  case (AAppend ev now)
  then show ?thesis
    using ok Append_whole [OF at _ _ small, of ev now]
    by (auto simp: records_def make_entry_def Let_def intro!: exI [of _ "[make_entry sha l ev now]"])
next
  case (ACrash w ev now)
  have sess: "utf8_ok (session l)" and ch: "chained sha es" using at by (simp_all add: at_end_def)
  show ?thesis
  proof (cases "w = Whole")
    case True
    obtain e l' where e: "Append sha ev now Whole (l, clean es) = (Inr e, l', clean (es @ [e]))"
      "e = make_entry sha l ev now" "at_end sha (es @ [e]) l'"
      using ok ACrash Append_whole [OF at _ _ small, of ev now] by auto
    have "chained sha (es @ [e])" using e(3) by (simp add: at_end_def)
    from Open_clean [OF this sess] obtain l'' where
      "Open (session l) (clean (es @ [e])) = (l'', clean (es @ [e]))" "at_end sha (es @ [e]) l''" by blast
    then show ?thesis
      using ACrash True e(1,2) by (auto simp: records_def make_entry_def Let_def intro!: exI [of _ "[e]"])
  next
    case False
    then have "snd (snd (Append sha ev now w (l, clean es))) \<in> {clean es, clean es @ [Junk]}"
      using ok ACrash at by (cases w) (auto simp: Append_def at_end_def Let_def)
    then obtain l' where "Open (session l) (snd (snd (Append sha ev now w (l, clean es)))) = (l', clean es)"
      "at_end sha es l'" using Open_clean [OF ch sess] by blast
    then show ?thesis using ACrash False by (intro exI [of _ "[]"]) simp
  qed
qed

interpretation ledger: counted_machine "audit_step sha" audit_op_ok "audit_inv sha" max_int for sha
proof
  fix op k s
  assume ok: "audit_op_ok op" and inv: "audit_inv sha k s" and k: "k < max_int"
  from inv obtain es where es: "snd s = clean es" "at_end sha es (fst s)" "int (length es) \<le> k"
    by (auto simp: audit_inv_def)
  then have s: "s = (fst s, clean es)" by (metis prod.collapse)
  from audit_step_ok [OF ok es(2)] es(3) k obtain us l' where
    "audit_step sha op (fst s, clean es) = (l', clean (es @ us))" "at_end sha (es @ us) l'" "length us \<le> 1" by force
  with es(3) show "audit_inv sha (k + 1) (audit_step sha op s)"
    by (subst s) (auto simp: audit_inv_def intro!: exI [of _ "es @ us"])
qed

lemma audit_start: "utf8_ok sess \<Longrightarrow> audit_inv sha 0 (Open sess [])"
  using Open_clean [of sha "[]" sess "[]"] by (auto simp: audit_inv_def intro!: exI [of _ "[]"])

lemma audit_run:
  assumes "list_all audit_op_ok ops" "int (length ops) \<le> max_int" "utf8_ok sess"
  shows "\<exists>es l. fold (audit_step sha) ops (Open sess []) = (l, clean es) \<and> at_end sha es l \<and>
     int (length es) \<le> int (length ops) \<and> list_all2 records (concat (map logged ops)) es"
  using assms
proof (induction ops rule: rev_induct)
  case Nil
  then show ?case using Open_clean [of sha "[]" sess "[]"] by auto
next
  case (snoc op ops)
  then obtain es l where es: "fold (audit_step sha) ops (Open sess []) = (l, clean es)" "at_end sha es l"
    "int (length es) \<le> int (length ops)" "list_all2 records (concat (map logged ops)) es" by auto
  moreover obtain us l' where "audit_step sha op (l, clean es) = (l', clean (es @ us))" "at_end sha (es @ us) l'"
    "list_all2 records (logged op) us" "length us \<le> 1"
    using audit_step_ok [OF _ es(2), of op] snoc.prems es(3) by auto
  ultimately show ?case
    by (intro exI [of _ "es @ us"] exI [of _ l']) (auto intro: list_all2_appendI)
qed

lemma take_clean: "take (2 * k) (clean es) = clean (take k es)"
proof (induction es arbitrary: k)
  case (Cons e es)
  then show ?case by (cases k) (auto simp: clean_def)
qed (simp add: clean_def)

lemma clean_eq_Nil [simp]: "clean es = [] \<longleftrightarrow> es = []"
  by (cases es) (auto simp: clean_def)

section \<open>What the agent records of a tool call\<close>

definition ledgerErrMax :: nat where
  "ledgerErrMax = 300"

text \<open>\<^verbatim>\<open>auditToolResult\<close> of \<^verbatim>\<open>internal/agent/audit_ledger.go\<close>: long error texts are cut at a byte.\<close>

definition toolResultEvent :: "string \<Rightarrow> string \<Rightarrow> string \<Rightarrow> string \<Rightarrow> int \<Rightarrow> string \<Rightarrow> string option \<Rightarrow> Event" where
  "toolResultEvent name inputHash status errMsg dur sess invariant =
     \<lparr>ev_Tool = name, ev_Status = status, ev_InputHash = inputHash, ev_DurationMS = dur,
      ev_Err = (if errMsg \<noteq> '''' \<and> length errMsg > ledgerErrMax then take ledgerErrMax errMsg else errMsg),
      ev_Session = sess, ev_InvariantID = case_option '''' id invariant, ev_Peer = '''', ev_TaskID = ''''\<rparr>"

section \<open>Properties\<close>


text \<open>
  C29. The ledger is tamper evident: a file that verifies is determined by its last hash. If two files
  verify without a break and report the same last hash, they hold the same entries, field by field,
  as long as SHA-256 has no collision among what is hashed in them. In particular the encoding that
  is hashed is injective: no text can be moved from one field to another.
\<close>

theorem audit_tamper_evident:
  assumes "\<And>x. length (sha x) = 32"
    and "\<forall>e \<in> set (scanEntries data). \<forall>e' \<in> set (scanEntries data').
           sha (entry_bytes e) = sha (entry_bytes e') \<longrightarrow> entry_bytes e = entry_bytes e'"
    and "\<forall>e \<in> set (scanEntries data) \<union> set (scanEntries data'). entry_small e"
    and "int (length (scanEntries data)) \<le> max_int" "int (length (scanEntries data')) \<le> max_int"
    and "FirstBreak (Verify sha data head) = None" "FirstBreak (Verify sha data' head') = None"
    and "LastHash (Verify sha data head) = LastHash (Verify sha data' head')"
    and "LastHash (Verify sha data head) \<noteq> ''''"
  shows "scanEntries data = scanEntries data'"
proof -
  have ch: "chained sha (scanEntries data)" "chained sha (scanEntries data')"
    using assms(4-7) by (simp_all add: Verify_FirstBreak verify_chained(1))
  have h: "(if scanEntries data = [] then '''' else Hash (last (scanEntries data))) =
      (if scanEntries data' = [] then '''' else Hash (last (scanEntries data')))"
    "(if scanEntries data = [] then '''' else Hash (last (scanEntries data))) \<noteq> ''''"
    using assms(8,9) verify_chained(2) [OF assms(4) ch(1)] verify_chained(2) [OF assms(5) ch(2)]
    unfolding Verify_LastHash by simp_all
  have ne: "scanEntries data \<noteq> []" using h(2) by (auto split: if_splits)
  moreover have "scanEntries data' \<noteq> []" using h by (metis (full_types))
  ultimately show ?thesis using h(1) by (intro chain_determined [OF assms(1-3) ch]) simp_all
qed

text \<open>
  A crash that loses only the newline of a line is not repaired. The line is complete, so \<^verbatim>\<open>Open\<close>
  keeps it and continues after it; the next entry lands on the same line, and from then on
  verification reports a break.
\<close>

theorem audit_lost_newline_breaks:
  assumes "list_all audit_op_ok ops" "int (length ops) + 1 < max_int" "utf8_ok sess"
    and run: "fold (audit_step sha) ops (Open sess []) = lf"
  shows "FirstBreak (Verify sha (snd (audit_step sha (AAppend ev' now') (audit_step sha (ACrash NoNewlineOut ev now) lf))) head) \<noteq> None"
proof -
  have "audit_inv sha (int (length ops)) lf"
    using ledger.counted_run [OF assms(1) audit_start [OF assms(3)], of sha] assms(2) run by simp
  then obtain es where es: "snd lf = clean es" "at_end sha es (fst lf)" "int (length es) \<le> int (length ops)"
    by (auto simp: audit_inv_def)
  have lf: "lf = (fst lf, clean es)" using es(1) by (metis prod.collapse)
  let ?e = "stored (make_entry sha (fst lf) ev now)"
  have seq: "Seq ?e = int (length es) + 1"
    using es assms(2) by (simp add: stored_def at_end_def is_int64_def min_int_def)
  have ns: "\<not> isMalformedSentinel ?e" using seq by (simp add: isMalformedSentinel_def)
  have "snd (snd (Append sha ev now NoNewlineOut lf)) = clean es @ [J ?e]"
    using es(2) by (subst lf) (simp add: Append_def at_end_def Let_def)
  moreover have "snd (Open sess' (clean es @ [J ?e])) = clean es @ [J ?e] \<and> f_open (fst (Open sess' (clean es @ [J ?e])))" for sess'
    using ns by (simp add: Open_def Let_def)
  ultimately obtain e' where "snd (audit_step sha (AAppend ev' now') (audit_step sha (ACrash NoNewlineOut ev now) lf)) =
      clean es @ [J ?e, J e', NL]"
    by (auto simp: Append_def Let_def case_prod_beta)
  moreover have "\<not> chained sha (es @ [malformed])" by (simp add: chained_snoc malformed_def)
  ultimately show ?thesis
    using verify_chained(1) [of "es @ [malformed]" sha] es(3) assms(2) by (simp add: Verify_FirstBreak)
qed

text \<open>
  An error text that is valid UTF-8 but longer than 300 bytes may be cut inside a character. The
  hash then covers the raw bytes while the file holds the replacement character, and verification
  reports an edited entry although nothing was edited.
\<close>

theorem audit_cut_text_breaks:
  fixes sha :: sha256 and now :: string
  defines "msg \<equiv> replicate 299 CHR ''x'' @ [CHR 0xC3, CHR 0xA9]"
  defines "ev \<equiv> toolResultEvent ''run_command'' '''' ''error'' msg 5 '''' None"
  defines "lf \<equiv> Open '''' []"
  defines "e \<equiv> make_entry sha (fst lf) ev now"
  assumes "utf8_ok now" and sep: "sha (entry_bytes (stored e)) \<noteq> sha (entry_bytes e)"
  shows "utf8_ok msg \<and> FirstBreak (Verify sha (snd (snd (Append sha ev now Whole lf))) None) = Some (1, HashMismatch)"
proof -
  have "list_all (in_range 0 127) (replicate 299 CHR ''x'')" by (simp add: list_all_iff in_range_def byte_val_def)
  from json_text_append [OF this, of "[CHR 0xC3, CHR 0xA9]"] have "utf8_ok msg"
    by (simp add: utf8_ok_def msg_def json_text.simps rune_len_def byte_in_def in_range_def byte_val_def)
  moreover have "lf = (\<lparr>session = '''', f_open = True, l_seq = 0, l_prev = GenesisPrevHash\<rparr>, [])"
    by (simp add: lf_def Open_def scanEntries_def line_entries_def)
  moreover from this have "Seq (stored e) = 1" "PrevHash (stored e) = GenesisPrevHash" "Hash (stored e) = hashEntry sha e"
    using utf8_ok_genesis utf8_ok_hash [of sha e] make_entry_hash [of sha "fst lf" ev now]
    by (simp_all add: stored_def e_def utf8_ok_def is_int64_def min_int_def max_int_def)
  moreover have "hashEntry sha e \<noteq> hashEntry sha (stored e)" using sep hex_inj by (auto simp: hashEntry_def)
  ultimately show ?thesis
    by (simp add: Append_def Let_def e_def Verify_FirstBreak scanEntries_def line_entries_def)
qed

section \<open>Concrete ledgers\<close>

text \<open>A stand-in for SHA-256 with digests of its length.\<close>

definition demo_sha :: sha256 where
  "demo_sha s = replicate 32 (char_of (length s mod 256))"

definition demo_event :: Event where
  "demo_event = toolResultEvent ''read_file'' ''ab12'' ''ok'' '''' 3 ''s1'' None"

definition demo_audit_ops :: "audit_op list" where
  "demo_audit_ops = [AAppend demo_event ''t1'', ACrash PartOut demo_event ''t2'', AAppend demo_event ''t3'']"

lemma demo_audit_ok: "list_all audit_op_ok demo_audit_ops" "utf8_ok ''s0''"
proof -
  have "event_ok demo_event" "utf8_ok ''t1''" "utf8_ok ''t2''" "utf8_ok ''t3''" "utf8_ok ''s0''"
    unfolding event_ok_def utf8_ok_def by code_simp+
  then show "list_all audit_op_ok demo_audit_ops" "utf8_ok ''s0''" by (simp_all add: demo_audit_ops_def)
qed


definition demo_line :: ledger_file where
  "demo_line = snd (snd (Append demo_sha demo_event ''t1'' Whole (Open ''s0'' [])))"

theorem audit_tamper_evident_witness:
  "scanEntries demo_line = scanEntries (NL # demo_line)"
proof -
  obtain l where l: "Open ''s0'' [] = (l, clean [])" "at_end demo_sha [] l"
    using Open_clean [of demo_sha "[]" "''s0''" "[]"] demo_audit_ok(2) by auto
  have ok: "event_ok demo_event" "utf8_ok ''t1''" using demo_audit_ok(1) by (simp_all add: demo_audit_ops_def)
  obtain e where e: "demo_line = clean [e]" "e = make_entry demo_sha l demo_event ''t1''" "chained demo_sha [e]"
    using Append_whole [OF l(2) ok] unfolding demo_line_def l(1) by (auto simp: max_int_def at_end_def)
  have sc: "scanEntries demo_line = [e]" "scanEntries (NL # demo_line) = [e]"
    by (simp_all add: e(1) clean_def scanEntries_def line_entries_def)
  have v: "Seq e = 1" "PrevHash e = GenesisPrevHash" "Hash e = hashEntry demo_sha e"
    using e(3) by (simp_all add: chained_def chain_prev_def)
  have len: "length x \<le> 100 \<Longrightarrow> small x" for x by (simp add: small_def)
  have "l_seq l = 0" using l(2) by (simp add: at_end_def)
  then have "entry_small e" unfolding e(2) entry_small_def
    by (intro conjI; intro len)
      (simp_all add: make_entry_def Let_def demo_event_def toolResultEvent_def Itoa_def show_nat.simps
        is_int64_def min_int_def max_int_def)
  moreover have "length (demo_sha x) = 32" for x by (simp add: demo_sha_def)
  moreover have "Hash e \<noteq> ''''" using e(2) make_entry_hash [of demo_sha l demo_event "''t1''"] calculation(2)
    by (auto simp: hashEntry_def simp flip: length_0_conv)
  ultimately show ?thesis
    by (intro audit_tamper_evident [of demo_sha demo_line "NL # demo_line" None None])
      (simp_all add: sc max_int_def Verify_FirstBreak Verify_LastHash v)
qed

theorem audit_lost_newline_breaks_witness:
  "FirstBreak (Verify demo_sha (snd (audit_step demo_sha (AAppend demo_event ''t6'')
     (audit_step demo_sha (ACrash NoNewlineOut demo_event ''t5'')
       (fold (audit_step demo_sha) demo_audit_ops (Open ''s0'' []))))) None) \<noteq> None"
  by (rule audit_lost_newline_breaks [OF demo_audit_ok(1) _ demo_audit_ok(2) refl])
    (simp add: demo_audit_ops_def max_int_def)

lemma demo_sha_differs: "length a mod 256 \<noteq> length b mod 256 \<Longrightarrow> demo_sha a \<noteq> demo_sha b"
proof
  assume "length a mod 256 \<noteq> length b mod 256" "demo_sha a = demo_sha b"
  then have "(of_char (char_of (length a mod 256) :: char) :: nat) = of_char (char_of (length b mod 256) :: char)"
    unfolding demo_sha_def by (metis replicate_eq_replicate zero_neq_numeral)
  with \<open>length a mod 256 \<noteq> length b mod 256\<close> show False by simp
qed

lemma length_entry_bytes_Err:
  "length (entry_bytes (e\<lparr>Err := x\<rparr>)) + length (Err e) = length (entry_bytes e) + length x"
  by (simp add: entry_bytes_def writeField_def writeTagged_def)

theorem audit_cut_text_breaks_witness:
  "FirstBreak (Verify demo_sha (snd (snd (Append demo_sha (toolResultEvent ''run_command'' '''' ''error''
     (replicate 299 CHR ''x'' @ [CHR 0xC3, CHR 0xA9]) 5 '''' None) ''t1'' Whole (Open '''' [])))) None) = Some (1, HashMismatch)"
proof -
  let ?ev = "toolResultEvent ''run_command'' '''' ''error'' (replicate 299 CHR ''x'' @ [CHR 0xC3, CHR 0xA9]) 5 '''' None"
  define e where "e = make_entry demo_sha (fst (Open '''' [])) ?ev ''t1''"
  have ok: "utf8_ok ''t1''" "utf8_ok ''run_command''" "utf8_ok ''error''" "utf8_ok ''''" unfolding utf8_ok_def by code_simp+
  have lf: "fst (Open '''' []) = \<lparr>session = '''', f_open = True, l_seq = 0, l_prev = GenesisPrevHash\<rparr>"
    by (simp add: Open_def scanEntries_def line_entries_def)
  have err: "Err e = replicate 299 CHR ''x'' @ [CHR 0xC3]"
    by (simp add: e_def make_entry_def Let_def toolResultEvent_def ledgerErrMax_def)
  have "list_all (in_range 0 127) (replicate 299 CHR ''x'')" by (simp add: list_all_iff in_range_def byte_val_def)
  from json_text_append [OF this, of "[CHR 0xC3]"] have "length (json_text (Err e)) = 302"
    unfolding err by (simp add: json_text.simps rune_len_def byte_in_def in_range_def byte_val_def rune_error_def)
  moreover have "stored e = e\<lparr>Err := json_text (Err e)\<rparr>"
    using ok utf8_ok_hash [of demo_sha] utf8_ok_genesis
    by (simp add: stored_def e_def make_entry_def Let_def toolResultEvent_def lf utf8_ok_def)
  ultimately have "length (entry_bytes (stored e)) = length (entry_bytes e) + 2"
    using length_entry_bytes_Err [of "json_text (Err e)" e] err by simp
  moreover have "(n + 2) mod 256 \<noteq> n mod (256 :: nat)" for n
    using mod_eq_dvd_iff_nat [of n "n + 2" 256] by (simp add: nat_dvd_not_less)
  ultimately have "demo_sha (entry_bytes (stored e)) \<noteq> demo_sha (entry_bytes e)"
    by (intro demo_sha_differs) simp
  with audit_cut_text_breaks [of "''t1''" demo_sha] ok(1) show ?thesis unfolding e_def by blast
qed

end
