(* ===== verification/PreExec.thy ===== *)
theory PreExec
  imports GoPath Json
begin

text \<open>
  Which read-only calls of a batch run ahead of their turn, concurrently with nothing that could change
  what they read (\<^verbatim>\<open>internal/agent/parallel_scheduling.go\<close>, \<^verbatim>\<open>buildPreExecBatch\<close> of \<^verbatim>\<open>parallel_tools.go\<close>). The
  caches the batch consults are the argument \<open>cached\<close>.
\<close>

section \<open>Tool tables\<close>

definition sourceMutatingTools :: "string list" where
  "sourceMutatingTools =
     [''edit_file'', ''write_file'', ''multi_edit_file'', ''multi_file_edit'', ''multi_file_write'',
      ''batch_replace'', ''lsp_rename'', ''file_ops'', ''notebook_edit'']"

definition gitFileModifyingTools :: "string list" where
  "gitFileModifyingTools = [''git_stash'', ''enter_worktree'', ''exit_worktree'']"

definition gitWholeTreeTools :: "string list" where
  "gitWholeTreeTools = [''git_checkout'', ''git_reset'', ''git_revert'']"

definition mutatesSourceTree :: "string \<Rightarrow> bool" where
  "mutatesSourceTree toolName \<longleftrightarrow>
     toolName \<in> set sourceMutatingTools \<or> toolName \<in> set gitFileModifyingTools \<or>
     toolName \<in> set gitWholeTreeTools \<or> toolName \<in> {''undo_edit'', ''apply_patch'', ''scaffold_project''}"

definition speculativeSafeTools :: "string list" where
  "speculativeSafeTools =
     [''read_file'', ''multi_file_read'', ''grep'', ''glob'', ''search_files'', ''list_directory'',
      ''lsp_hover'', ''lsp_definition'', ''lsp_references'', ''lsp_symbols'', ''lsp_workspace_symbols'',
      ''lsp_diagnostics'', ''lsp_implementation'', ''lsp_incoming_calls'', ''lsp_outgoing_calls'',
      ''lsp_document_highlights'', ''git_status'', ''git_diff'', ''git_log'', ''git_branch_list'',
      ''git_show'', ''git_blame'']"

section \<open>Arguments\<close>

text \<open>A struct with several string fields: the call succeeds if it does for every field.\<close>

definition struct_ok :: "string list \<Rightarrow> raw_message \<Rightarrow> bool" where
  "struct_ok tags args = list_all (\<lambda>tag. snd (unmarshal_struct tag args)) tags"

definition struct_field :: "string \<Rightarrow> raw_message \<Rightarrow> string" where
  "struct_field tag args = fst (unmarshal_struct tag args)"

text \<open>A field of type \<^verbatim>\<open>json.RawMessage\<close>: the value under the last key that spells the tag.\<close>

fun raw_field :: "string \<Rightarrow> raw_message \<Rightarrow> raw_message" where
  "raw_field tag (Some (JObj kvs)) = map_option snd (find (\<lambda>kv. EqualFold (fst kv) tag) (rev kvs))"
| "raw_field tag _ = None"

definition fileScopedMutationPath :: "string \<Rightarrow> raw_message \<Rightarrow> string option" where
  "fileScopedMutationPath toolName args =
     (if \<not> struct_ok [''path'', ''file_path'', ''notebook_path''] args then None
      else if toolName \<in> {''edit_file'', ''multi_edit_file''}
        then (if struct_field ''file_path'' args \<noteq> '''' then Some (Clean (struct_field ''file_path'' args)) else None)
      else if toolName = ''write_file''
        then (if struct_field ''path'' args \<noteq> '''' then Some (Clean (struct_field ''path'' args)) else None)
      else if toolName = ''notebook_edit''
        then (if struct_field ''notebook_path'' args \<noteq> '''' then Some (Clean (struct_field ''notebook_path'' args)) else None)
      else None)"

datatype readScanScope =
    scanUnknown
  | scanExact string
  | scanDir string
  | scanTree

text \<open>The element type \<^verbatim>\<open>struct { Path string }\<close> of \<^verbatim>\<open>files\<close>.\<close>

definition file_objs :: "raw_message \<Rightarrow> string list option" where
  "file_objs files =
     (case files of
        Some JNull \<Rightarrow> Some []
      | Some (JArr vs) \<Rightarrow>
          all_some (\<lambda>v. let r = unmarshal_struct ''path'' (Some v) in if snd r then Some (fst r) else None) vs
      | _ \<Rightarrow> None)"

definition nul :: char where "nul = CHR 0x00"

definition readScanScopeOf :: "string \<Rightarrow> raw_message \<Rightarrow> readScanScope" where
  "readScanScopeOf toolName args =
     (if \<not> struct_ok [''path'', ''directory''] args then scanUnknown
      else let path = struct_field ''path'' args; directory = struct_field ''directory'' args in
      if toolName = ''read_file''
        then (if path = '''' then scanUnknown else scanExact (Clean path))
      else if toolName \<in> {''grep'', ''search_files'', ''list_directory'', ''glob''}
        then (let d = (if path = '''' then directory else path) in
              if d = '''' then scanDir ''.'' else scanDir (Clean d))
      else if toolName = ''multi_file_read''
        then (case raw_field ''files'' args of
                None \<Rightarrow> scanUnknown
              | Some v \<Rightarrow>
                  (case file_objs (Some v) of
                     None \<Rightarrow> scanUnknown
                   | Some objs \<Rightarrow>
                       let paths = map Clean (filter (\<lambda>p. p \<noteq> '''') objs) in
                       if paths = [] then scanUnknown else scanExact (Join paths [nul])))
      else if toolName \<in> {''lsp_hover'', ''lsp_definition'', ''lsp_references'', ''lsp_symbols'',
              ''lsp_workspace_symbols'', ''lsp_diagnostics'', ''lsp_implementation'', ''lsp_incoming_calls'',
              ''lsp_outgoing_calls'', ''lsp_document_highlights''}
        then (if path = '''' then scanUnknown else scanExact (Clean path))
      else if toolName \<in> {''git_status'', ''git_diff'', ''git_log'', ''git_branch_list'', ''git_show'', ''git_blame''}
        then scanTree
      else scanUnknown)"

definition samePath :: "string \<Rightarrow> string \<Rightarrow> bool" where
  "samePath a b \<longleftrightarrow> a = b \<or> IsAbs a \<noteq> IsAbs b \<or> Clean a = Clean b"

fun scope_affected :: "readScanScope \<Rightarrow> string list \<Rightarrow> bool" where
  "scope_affected scanTree mutatedPaths = True"
| "scope_affected scanUnknown mutatedPaths = True"
| "scope_affected (scanExact exact) mutatedPaths =
     list_ex (\<lambda>t. list_ex (\<lambda>m. samePath t m) mutatedPaths) (Split exact nul)"
| "scope_affected (scanDir dir) mutatedPaths =
     (dir = '''' \<or> dir = ''.'' \<or>
      list_ex (\<lambda>m. samePath m dir \<or> HasPrefix m (dir @ [slash])) mutatedPaths)"

definition readAffectedByMutation :: "string \<Rightarrow> raw_message \<Rightarrow> string list \<Rightarrow> bool" where
  "readAffectedByMutation toolName args mutatedPaths =
     scope_affected (readScanScopeOf toolName args) mutatedPaths"

section \<open>The batch\<close>

record ToolCallDelta =
  tc_name :: string
  tc_args :: raw_message

definition blocking_tools :: "string list" where
  "blocking_tools =
     [''run_command'', ''start_command'', ''delegate'', ''spawn_agent'', ''teammate_spawn'', ''send_message'',
      ''swarm_task_create'', ''a2a_send_task'', ''a2a_remote'', ''warp'']"

fun partitionBatchForParallelism :: "ToolCallDelta list \<Rightarrow> string list option" where
  "partitionBatchForParallelism [] = Some []"
| "partitionBatchForParallelism (tc # calls) =
     (if tc_name tc \<in> set blocking_tools then None
      else if mutatesSourceTree (tc_name tc)
      then (case fileScopedMutationPath (tc_name tc) (tc_args tc) of
              None \<Rightarrow> None
            | Some p \<Rightarrow> map_option (\<lambda>ps. p # ps) (partitionBatchForParallelism calls))
      else partitionBatchForParallelism calls)"

record pending =
  p_index :: nat
  p_name :: string
  p_args :: raw_message

definition buildPreExecBatch ::
  "(string \<Rightarrow> raw_message \<Rightarrow> bool) \<Rightarrow> ToolCallDelta list \<Rightarrow> pending list option" where
  "buildPreExecBatch cached toolCalls =
     map_option (\<lambda>mutatedPaths.
       map (\<lambda>(i, tc). \<lparr>p_index = i, p_name = tc_name tc, p_args = tc_args tc\<rparr>)
         (filter (\<lambda>(i, tc). tc_name tc \<in> set speculativeSafeTools \<and>
             \<not> (mutatedPaths \<noteq> [] \<and> readAffectedByMutation (tc_name tc) (tc_args tc) mutatedPaths) \<and>
             \<not> cached (tc_name tc) (tc_args tc))
           (enumerate 0 toolCalls)))
       (partitionBatchForParallelism toolCalls)"

section \<open>What is in the batch\<close>

lemma partition_calls:
  assumes "partitionBatchForParallelism calls = Some ms" "tc \<in> set calls"
  shows "tc_name tc \<notin> set blocking_tools"
    and "mutatesSourceTree (tc_name tc) \<Longrightarrow>
         \<exists>m \<in> set ms. fileScopedMutationPath (tc_name tc) (tc_args tc) = Some m"
  using assms
  by (induction calls arbitrary: ms) (auto split: if_splits option.splits)

lemma fileScoped_Clean:
  "fileScopedMutationPath name args = Some m \<Longrightarrow> \<exists>p. p \<noteq> '''' \<and> m = Clean p"
  by (auto simp: fileScopedMutationPath_def split: if_splits)

text \<open>An absolute directory other than the root holds a clean path exactly if its segments are a prefix.\<close>

lemma dir_holds_iff:
  assumes "IsAbs d" "IsAbs m" "Clean d \<noteq> ''/''"
  shows "Clean m = Clean d \<or> HasPrefix (Clean m) (Clean d @ [slash]) \<longleftrightarrow> prefix (abs_segs d) (abs_segs m)"
proof -
  have d: "abs_segs d \<noteq> []" using assms(1,3) Clean_abs [of d] by auto
  have plain: "list_all plain_seg (abs_segs d)" "list_all plain_seg (abs_segs m)" by (rule abs_segs_plain)+
  have "Clean m = Clean d \<longleftrightarrow> abs_segs m = abs_segs d"
    using assms(1,2) abs_segs_Clean by (metis Clean_abs)
  moreover have "HasPrefix (Clean m) (Clean d @ [slash]) \<longleftrightarrow>
      prefix (Join (abs_segs d) [slash] @ [slash]) (Join (abs_segs m) [slash])"
    unfolding HasPrefix_def Clean_abs [OF assms(1)] Clean_abs [OF assms(2)] by simp
  moreover have "\<dots> \<longleftrightarrow> strict_prefix (abs_segs d) (abs_segs m)"
    using Join_prefix_segs [OF _ d plain] segs_prefix_Join [OF _ d] by blast
  ultimately show ?thesis by (metis prefix_order.le_less)
qed

lemma clean_segs_ne: "seg \<in> set (clean_segs r (Split p slash)) \<Longrightarrow> seg \<noteq> '''' \<and> slash \<notin> set seg"
proof -
  have "\<forall>s \<in> set (fold (clean_step r) segs stk). s \<noteq> '''' \<and> slash \<notin> set s"
    if "\<forall>s \<in> set segs. slash \<notin> set s" "\<forall>s \<in> set stk. s \<noteq> '''' \<and> slash \<notin> set s" for segs stk
    using that
  proof (induction segs arbitrary: stk)
    case (Cons s segs)
    have "\<forall>s \<in> set (clean_step r s stk). s \<noteq> '''' \<and> slash \<notin> set s"
      using Cons.prems by (cases stk) (simp_all add: clean_step_def)
    with Cons.IH [of "clean_step r s stk"] Cons.prems(1) show ?case by simp
  qed simp
  from this [of "Split p slash" "[]"] show "seg \<in> set (clean_segs r (Split p slash)) \<Longrightarrow> ?thesis"
    using Split_elem by (auto simp: clean_segs_def)
qed

lemma IsAbs_Clean_iff [simp]: "IsAbs (Clean p) \<longleftrightarrow> IsAbs p"
proof (cases "IsAbs p")
  case False
  let ?segs = "clean_segs False (Split p slash)"
  have "\<not> prefix [slash] (Join ?segs [slash])"
  proof (cases ?segs)
    case (Cons x xs)
    then have "x \<noteq> ''''" "slash \<notin> set x" using clean_segs_ne [of x False p] by auto
    then show ?thesis unfolding Cons by (cases x) (auto simp: Join_Cons)
  qed simp
  then show ?thesis using False by (auto simp: Clean_def path_of_def IsAbs_def HasPrefix_def)
qed (simp add: IsAbs_Clean)

text \<open>The paths a scope stands for do not meet the path of a pending edit.\<close>

fun reads_apart :: "readScanScope \<Rightarrow> string \<Rightarrow> bool" where
  "reads_apart (scanExact exact) m \<longleftrightarrow>
     (\<forall>t \<in> set (Split exact nul). IsAbs t = IsAbs m \<and> Clean t \<noteq> Clean m)"
| "reads_apart (scanDir dir) m \<longleftrightarrow>
     dir \<noteq> ''.'' \<and> IsAbs dir = IsAbs m \<and>
     (IsAbs dir \<and> dir \<noteq> ''/'' \<longrightarrow> \<not> prefix (abs_segs dir) (abs_segs m))"
| "reads_apart _ m \<longleftrightarrow> False"

lemma scan_dir_Clean: "readScanScopeOf name args = scanDir d \<Longrightarrow> d = ''.'' \<or> (\<exists>d0. d = Clean d0)"
  by (auto simp: readScanScopeOf_def Let_def split: if_splits option.splits)

lemma not_affected_apart:
  assumes "\<not> readAffectedByMutation name args ms" "Clean q \<in> set ms"
  shows "reads_apart (readScanScopeOf name args) (Clean q)"
proof (cases "readScanScopeOf name args")
  case (scanExact exact)
  then show ?thesis
    using assms by (fastforce simp: readAffectedByMutation_def samePath_def list_ex_iff)
next
  case (scanDir dir)
  have "\<not> prefix (abs_segs dir) (abs_segs (Clean q))" if a: "IsAbs dir" "dir \<noteq> ''/''"
  proof -
    have "\<not> IsAbs ''.''" by (simp add: IsAbs_def HasPrefix_def)
    with scan_dir_Clean [OF scanDir] a obtain d0 where d0: "dir = Clean d0" "IsAbs d0"
      by (metis IsAbs_Clean_iff)
    then have cl: "Clean dir = dir" by (simp add: Clean_idem_abs)
    have q: "IsAbs q" using assms scanDir a by (auto simp: readAffectedByMutation_def samePath_def list_ex_iff)
    have "\<not> (Clean q = dir \<or> HasPrefix (Clean q) (dir @ [slash]))"
      using assms scanDir by (auto simp: readAffectedByMutation_def samePath_def list_ex_iff)
    then show ?thesis
      using dir_holds_iff [of dir "Clean q"] a q cl by (simp add: Clean_idem_abs)
  qed
  then show ?thesis
    using assms scanDir by (auto simp: readAffectedByMutation_def samePath_def list_ex_iff)
qed (use assms in \<open>auto simp: readAffectedByMutation_def\<close>)

section \<open>Properties\<close>


text \<open>
  A search of the root is not withheld: the containment test appends a separator to the directory, and
  no clean path starts with two. A write to a file below the root does not hold it back.
\<close>

theorem preexec_root_search_not_withheld:
  "map_option (map p_name) (buildPreExecBatch (\<lambda>_ _. False)
     [\<lparr>tc_name = ''write_file'', tc_args = Some (JObj [(''path'', JStr ''/work/a.go'')])\<rparr>,
      \<lparr>tc_name = ''grep'', tc_args = Some (JObj [(''path'', JStr ''/'')])\<rparr>]) = Some [''grep'']"
  by code_simp


end
