(* ===== verification/GoText.thy ===== *)
theory GoText
  imports Prelude
begin

text \<open>
  The functions of package strings that search and replace substrings, splitting into lines, and
  what holds of them: a found substring is there, a window of lines is a substring.
\<close>

abbreviation lf :: char where "lf \<equiv> CHR 0x0A"
abbreviation cr :: char where "cr \<equiv> CHR 0x0D"
abbreviation tabc :: char where "tabc \<equiv> CHR 0x09"
abbreviation sp :: char where "sp \<equiv> CHR '' ''"

fun Index :: "string \<Rightarrow> string \<Rightarrow> nat option" where
  "Index s p =
     (if HasPrefix s p then Some 0
      else case s of [] \<Rightarrow> None | c # r \<Rightarrow> map_option Suc (Index r p))"

declare Index.simps [simp del]

text \<open>\<^verbatim>\<open>strings.Count\<close>, \<^verbatim>\<open>ReplaceAll\<close> and \<^verbatim>\<open>Replace(s, old, new, 1)\<close> for a substring that is not empty.\<close>

function Count :: "string \<Rightarrow> string \<Rightarrow> nat" where
  "Count s p =
     (if p = '''' \<or> s = '''' then 0
      else if HasPrefix s p then Suc (Count (drop (length p) s) p)
      else Count (tl s) p)"
  by pat_completeness auto

termination Count
  by (relation "measure (\<lambda>(s, p). length s)") (auto simp: neq_Nil_conv)

declare Count.simps [simp del]

function ReplaceAll :: "string \<Rightarrow> string \<Rightarrow> string \<Rightarrow> string" where
  "ReplaceAll s old new =
     (if old = '''' \<or> s = '''' then s
      else if HasPrefix s old then new @ ReplaceAll (drop (length old) s) old new
      else hd s # ReplaceAll (tl s) old new)"
  by pat_completeness auto

termination ReplaceAll
  by (relation "measure (\<lambda>(s, old, new). length s)") (auto simp: neq_Nil_conv)

declare ReplaceAll.simps [simp del]

definition ReplaceFirst :: "string \<Rightarrow> string \<Rightarrow> string \<Rightarrow> string" where
  "ReplaceFirst s old new =
     (case Index s old of None \<Rightarrow> s | Some i \<Rightarrow> take i s @ new @ drop (i + length old) s)"

definition TrimRight :: "string \<Rightarrow> string \<Rightarrow> string" where
  "TrimRight s cutset = trim_right_by (\<lambda>c. c \<in> set cutset) s"

definition TrimPrefix :: "string \<Rightarrow> string \<Rightarrow> string" where
  "TrimPrefix s p = (if HasPrefix s p then drop (length p) s else s)"

definition lines_of :: "string \<Rightarrow> string list" where
  "lines_of s = Split s lf"

definition lines_text :: "string list \<Rightarrow> string" where
  "lines_text ls = Join ls [lf]"

text \<open>The first result of a loop that returns.\<close>

fun first_some :: "('a \<Rightarrow> 'b option) \<Rightarrow> 'a list \<Rightarrow> 'b option" where
  "first_some f [] = None"
| "first_some f (x # xs) = (case f x of None \<Rightarrow> first_some f xs | Some y \<Rightarrow> Some y)"

lemma first_some_Some: "first_some f xs = Some y \<Longrightarrow> \<exists>x \<in> set xs. f x = Some y"
  by (induction xs) (auto split: option.splits)

lemma first_some_None: "first_some f xs = None \<longleftrightarrow> (\<forall>x \<in> set xs. f x = None)"
  by (induction xs) (auto split: option.splits)

section \<open>Facts\<close>

lemma HasPrefix_take: "HasPrefix s p \<longleftrightarrow> take (length p) s = p"
  unfolding HasPrefix_def by (metis append_eq_conv_conj append_take_drop_id prefix_def)

lemma Index_Some:
  "Index s p = Some i \<Longrightarrow> i + length p \<le> length s \<and> take (length p) (drop i s) = p"
proof (induction s arbitrary: i)
  case Nil
  then show ?case by (subst (asm) Index.simps) (auto simp: HasPrefix_def split: if_splits)
next
  case (Cons c s)
  show ?case
  proof (cases "HasPrefix (c # s) p")
    case True
    then have "i = 0" using Cons.prems by (subst (asm) Index.simps) simp
    then show ?thesis using True by (auto simp: HasPrefix_take) (metis length_take min.bounded_iff order_refl length_Cons)
  next
    case False
    then obtain j where "Index s p = Some j" "i = Suc j"
      using Cons.prems by (subst (asm) Index.simps) auto
    then show ?thesis using Cons.IH by simp
  qed
qed

lemma Index_split: "Index s p = Some i \<Longrightarrow> s = take i s @ p @ drop (i + length p) s"
  using Index_Some [of s p i] by (metis add.commute append_take_drop_id drop_drop)

lemma Index_None: "Index s p = None \<longleftrightarrow> \<not> Contains s p"
proof (induction s)
  case Nil
  then show ?case by (subst Index.simps) (auto simp: HasPrefix_def Contains_iff_sublist)
next
  case (Cons c s)
  then show ?case
    by (subst Index.simps) (auto simp: HasPrefix_def Contains_iff_sublist sublist_Cons_right)
qed

lemma Count_Contains: "p \<noteq> '''' \<Longrightarrow> 0 < Count s p \<longleftrightarrow> Contains s p"
proof (induction s p rule: Count.induct)
  case (1 s p)
  show ?case
  proof (cases "s = '''' \<or> HasPrefix s p")
    case True
    then show ?thesis using 1(3)
      by (subst Count.simps) (auto simp: Contains_iff_sublist HasPrefix_def prefix_imp_sublist)
  next
    case False
    then obtain c r where s: "s = c # r" by (cases s) auto
    have "0 < Count s p \<longleftrightarrow> 0 < Count r p" using False 1(3) s by (subst Count.simps) simp
    also have "\<dots> \<longleftrightarrow> Contains r p" using 1(2) False 1(3) s by simp
    also have "\<dots> \<longleftrightarrow> Contains s p"
      using False by (auto simp: s Contains_iff_sublist HasPrefix_def sublist_Cons_right)
    finally show ?thesis .
  qed
qed

text \<open>What \<^verbatim>\<open>Count\<close> counts after the first occurrence lies behind it.\<close>

lemma Count_Index:
  "p \<noteq> '''' \<Longrightarrow> Index s p = Some i \<Longrightarrow> Count s p = Suc (Count (drop (i + length p) s) p)"
proof (induction s arbitrary: i)
  case Nil
  then show ?case by (subst (asm) Index.simps) (auto simp: HasPrefix_def)
next
  case (Cons c s)
  show ?case
  proof (cases "HasPrefix (c # s) p")
    case True
    then have "i = 0" using Cons.prems by (subst (asm) Index.simps) simp
    then show ?thesis using True Cons.prems by (subst Count.simps) simp
  next
    case False
    then obtain j where "Index s p = Some j" "i = Suc j"
      using Cons.prems by (subst (asm) Index.simps) auto
    then show ?thesis using False Cons by (subst Count.simps) simp
  qed
qed

lemma Join_append: "xs \<noteq> [] \<Longrightarrow> ys \<noteq> [] \<Longrightarrow> Join (xs @ ys) sep = Join xs sep @ sep @ Join ys sep"
  by (induction xs) (auto simp: Join_Cons)

lemma lines_text_of [simp]: "lines_text (lines_of s) = s"
  by (simp add: lines_text_def lines_of_def)

lemma lines_of_ne [simp]: "lines_of s \<noteq> []"
  by (simp add: lines_of_def)

lemma lines_of_nonl: "l \<in> set (lines_of s) \<Longrightarrow> lf \<notin> set l"
  using Split_elem by (auto simp: lines_of_def)

lemma lines_of_lines_text: "ls \<noteq> [] \<Longrightarrow> \<forall>l \<in> set ls. lf \<notin> set l \<Longrightarrow> lines_of (lines_text ls) = ls"
  by (simp add: lines_of_def lines_text_def Split_Join)

text \<open>A window of lines, joined, is a substring.\<close>

lemma window_contained:
  assumes "take n (drop i ls) \<noteq> []"
  shows "Contains (Join ls sep) (Join (take n (drop i ls)) sep)"
proof -
  let ?w = "take n (drop i ls)" and ?a = "take i ls" and ?b = "drop n (drop i ls)"
  have ls: "ls = ?a @ ?w @ ?b" by (metis append_take_drop_id)
  have wb: "\<exists>v. Join (?w @ ?b) sep = Join ?w sep @ v"
    using assms by (cases "?b = []") (auto simp: Join_append)
  have "\<exists>u. Join ls sep = u @ Join (?w @ ?b) sep"
  proof (cases "?a = []")
    case True
    then show ?thesis by (metis append_Nil ls)
  next
    case False
    have "Join (?a @ (?w @ ?b)) sep = Join ?a sep @ sep @ Join (?w @ ?b) sep"
      using False assms by (intro Join_append) auto
    then show ?thesis by (metis append_assoc ls)
  qed
  then show ?thesis using wb by (auto simp: Contains_append)
qed

lemma length_Join_Cons: "length (Join xs sep) \<le> length (Join (x # xs) sep)"
  by (auto simp: Join_Cons)

end
