(* ===== verification/EditMatch.thy ===== *)
theory EditMatch
  imports GoText GoNum
begin

text \<open>
  The matching rules of the edit tools (\<^verbatim>\<open>internal/tool/edit_match.go\<close>, the indentation rules of
  \<^verbatim>\<open>edit_file.go\<close>, \<^verbatim>\<open>gcd\<close> of \<^verbatim>\<open>read_file.go\<close>): \<^verbatim>\<open>resolveOldText\<close> turns the text a model quotes into the text
  that stands in the file, by an exact match, by the line numbers that read_file printed, or by
  one of the tolerant rules. The patterns of the code are a run of white space, a run of digits and
  what follows, so they are written as such; a line is what \<^verbatim>\<open>strings.Split\<close> gives, and holds no newline.
\<close>

section \<open>The lines that read\_file prints\<close>

definition re_space :: "char \<Rightarrow> bool" where
  "re_space c \<longleftrightarrow> byte_val c \<in> {9, 10, 12, 13, 32}"

text \<open>The white space, the digits and the rest of a line.\<close>

definition number_prefix :: "string \<Rightarrow> string \<times> string \<times> string" where
  "number_prefix l =
     (let r = dropWhile re_space l in
      (takeWhile re_space l, takeWhile is_digit r, dropWhile is_digit r))"

definition readFileLineRE :: "string \<Rightarrow> (string \<times> string) option" where
  "readFileLineRE l =
     (case number_prefix l of (ws, ds, r) \<Rightarrow>
        if length ws \<le> 12 \<and> ds \<noteq> '''' \<and> HasPrefix r [tabc] then Some (ds, tl r) else None)"

definition readFileLineNumberOnlyRE :: "string \<Rightarrow> bool" where
  "readFileLineNumberOnlyRE l =
     (case number_prefix l of (ws, ds, r) \<Rightarrow> length ws \<le> 12 \<and> ds \<noteq> '''' \<and> list_all re_space r)"

definition lineNumberPrefixRE :: "string \<Rightarrow> string option" where
  "lineNumberPrefixRE l =
     (case number_prefix l of (ws, ds, r) \<Rightarrow>
        if length ws \<le> 12 \<and> ds \<noteq> '''' \<and> HasPrefix r [tabc] then Some (tl r) else None)"

definition paddedLineNumberPrefixRE :: "string \<Rightarrow> (string \<times> string) option" where
  "paddedLineNumberPrefixRE l =
     (case number_prefix l of (ws, ds, r) \<Rightarrow>
        if 1 \<le> length ws \<and> length ws \<le> 12 \<and> ds \<noteq> '''' \<and> HasPrefix r [tabc]
        then Some (ws @ ds @ [tabc], tl r) else None)"

definition bareLineNumberPrefixRE :: "string \<Rightarrow> (string \<times> string) option" where
  "bareLineNumberPrefixRE l =
     (case number_prefix l of (ws, ds, r) \<Rightarrow>
        if ws = '''' \<and> ds \<noteq> '''' \<and> HasPrefix r [tabc] then Some (ds, tl r) else None)"

definition readFileWrapperLineRE :: "string \<Rightarrow> bool" where
  "readFileWrapperLineRE l \<longleftrightarrow>
     list_ex (HasPrefix l)
       [''[indent:'', ''[encoding:'', ''[Extracted from '', ''[File truncated:'', ''[File has '',
        ''[multi_file_read summary'', ''=== FILE: '', ''=== ERROR: '', ''[skipped:''] \<or>
     l = ''[end file]'' \<or> l = ''[end error]''"

definition blank_line :: "string \<Rightarrow> bool" where
  "blank_line l \<longleftrightarrow> TrimSpace l = ''''"

definition parseReadFileLine :: "string \<Rightarrow> (int \<times> string) option" where
  "parseReadFileLine line =
     (case readFileLineRE line of
        Some (ds, body) \<Rightarrow>
          (let lineNumber = (case scan_int ds of Some n \<Rightarrow> n | None \<Rightarrow> 0) in
           if lineNumber \<le> 0 then None else Some (lineNumber, body))
      | None \<Rightarrow>
          if readFileLineNumberOnlyRE line
          then (let lineNumber = (case scan_int (TrimSpace line) of Some n \<Rightarrow> n | None \<Rightarrow> 0) in
                if lineNumber \<le> 0 then None else Some (lineNumber, ''''))
          else None)"

definition trimDanglingReadFileLineNumberOnlyLines :: "string list \<Rightarrow> string list" where
  "trimDanglingReadFileLineNumberOnlyLines ls =
     (if list_ex (\<lambda>l. readFileLineRE l \<noteq> None \<or> readFileLineNumberOnlyRE l) ls
      then rev (dropWhile readFileLineNumberOnlyRE (rev (dropWhile readFileLineNumberOnlyRE ls)))
      else ls)"

fun numbered_body :: "int \<Rightarrow> string list \<Rightarrow> string list option" where
  "numbered_body n [] = Some []"
| "numbered_body n (l # ls) =
     (case parseReadFileLine l of
        None \<Rightarrow> None
      | Some (m, body) \<Rightarrow>
          if m \<noteq> n then None else map_option (\<lambda>bs. body # bs) (numbered_body (n + 1) ls))"

definition parseReadFileNumberedBlock :: "string \<Rightarrow> (int \<times> string list) option" where
  "parseReadFileNumberedBlock text =
     (case trimDanglingReadFileLineNumberOnlyLines (lines_of text) of
        [] \<Rightarrow> None
      | l # ls \<Rightarrow>
          (case parseReadFileLine l of
             None \<Rightarrow> None
           | Some (n, body) \<Rightarrow> map_option (\<lambda>bs. (n, body # bs)) (numbered_body (n + 1) ls)))"

text \<open>
  The range of lines that is left when the wrapper lines at both ends are taken away, and the text
  of it: \<^const>\<open>None\<close> where the code returns the text unchanged and false.
\<close>

definition skip_line :: "string \<Rightarrow> bool" where
  "skip_line l \<longleftrightarrow> blank_line l \<or> readFileWrapperLineRE l"

definition wrapper_start :: "string list \<Rightarrow> nat" where
  "wrapper_start ls =
     (let firstContent = length (takeWhile blank_line ls) in
      if firstContent < length ls \<and> readFileWrapperLineRE (ls ! firstContent)
      then firstContent + 1 + length (takeWhile skip_line (drop (firstContent + 1) ls))
      else 0)"

definition wrapper_end :: "string list \<Rightarrow> nat \<Rightarrow> nat" where
  "wrapper_end ls start =
     (let n = length ls;
          after = n - length (takeWhile blank_line (rev (drop start ls)))
      in if start < after \<and> readFileWrapperLineRE (ls ! (after - 1))
         then (after - 1) - length (takeWhile skip_line (rev (drop start (take (after - 1) ls))))
         else n)"

definition trimReadFileWrapperLines :: "string \<Rightarrow> string option" where
  "trimReadFileWrapperLines text =
     (let ls = lines_of text; start = wrapper_start ls; stop = wrapper_end ls start in
      if start = 0 \<and> stop = length ls then None
      else let trimmed = lines_text (drop start (take stop ls)) in
           if trimmed = '''' then None else Some trimmed)"

section \<open>Removing line numbers\<close>

definition strip_number_line :: "string \<Rightarrow> string" where
  "strip_number_line l =
     (if readFileLineNumberOnlyRE l then ''''
      else case lineNumberPrefixRE l of Some r \<Rightarrow> r | None \<Rightarrow> l)"

definition stripLineNumberPrefix :: "string \<Rightarrow> string" where
  "stripLineNumberPrefix text =
     (let ls = trimDanglingReadFileLineNumberOnlyLines (lines_of text);
          nonEmpty = filter (\<lambda>l. \<not> blank_line l) ls;
          matched = length (filter (\<lambda>l. lineNumberPrefixRE l \<noteq> None \<or> readFileLineNumberOnlyRE l) nonEmpty)
      in if matched < 2 \<or> matched < length nonEmpty div 2 + 1 then text
         else lines_text (map strip_number_line ls))"

definition stripAllLineNumberPrefixes :: "string \<Rightarrow> string" where
  "stripAllLineNumberPrefixes text =
     lines_text (map strip_number_line (trimDanglingReadFileLineNumberOnlyLines (lines_of text)))"

fun atoi_loop :: "int \<Rightarrow> string \<Rightarrow> int" where
  "atoi_loop n [] = n"
| "atoi_loop n (c # s) =
     (if \<not> is_digit c then - 1
      else let m = n * 10 + int (digit_val c) in if m > 1073741824 then - 1 else atoi_loop m s)"

definition atoiSafe4442 :: "string \<Rightarrow> int" where
  "atoiSafe4442 s = atoi_loop 0 s"

definition line_number_of :: "string \<Rightarrow> int" where
  "line_number_of l =
     (case paddedLineNumberPrefixRE l of
        Some (m, r) \<Rightarrow> atoiSafe4442 (TrimRight (TrimLeft m [sp, tabc]) [sp, tabc])
      | None \<Rightarrow> (case bareLineNumberPrefixRE l of Some (ds, r) \<Rightarrow> atoiSafe4442 ds | None \<Rightarrow> - 1))"

text \<open>One step of the counting loop: \<^verbatim>\<open>(ascending, prev)\<close>.\<close>

definition ascend_step :: "int \<Rightarrow> nat \<times> int \<Rightarrow> nat \<times> int" where
  "ascend_step num st = (if num > snd st then (fst st + 1, num) else st)"

definition guardedStripAllLineNumberPrefixes :: "string \<Rightarrow> string" where
  "guardedStripAllLineNumberPrefixes text =
     (let nonEmpty = filter (\<lambda>l. \<not> blank_line l) (lines_of text);
          nums = filter (\<lambda>n. 0 \<le> n) (map line_number_of nonEmpty);
          matched = length nums;
          ascending = fst (fold ascend_step nums (0, - 1))
      in if matched < 2 \<or> matched < length nonEmpty div 2 + 1 \<or> ascending \<noteq> matched then text
         else stripAllLineNumberPrefixes text)"

definition strip_padded_line :: "int \<Rightarrow> string \<Rightarrow> string" where
  "strip_padded_line maxLine l =
     (if readFileLineNumberOnlyRE l then ''''
      else case paddedLineNumberPrefixRE l of
             Some (m, r) \<Rightarrow> r
           | None \<Rightarrow>
               (case bareLineNumberPrefixRE l of
                  None \<Rightarrow> l
                | Some (ds, r) \<Rightarrow>
                    (case Atoi ds of
                       None \<Rightarrow> l
                     | Some n \<Rightarrow> if 1 \<le> n \<and> n \<le> maxLine then r else l)))"

definition stripPaddedLineNumberPrefixes :: "string \<Rightarrow> string \<Rightarrow> string" where
  "stripPaddedLineNumberPrefixes text content =
     lines_text (map (strip_padded_line (int (Count content [lf]) + 1))
       (trimDanglingReadFileLineNumberOnlyLines (lines_of text)))"

section \<open>Indentation\<close>

text \<open>\<^verbatim>\<open>gcd\<close> of \<^verbatim>\<open>read_file.go\<close>, as its loop.\<close>

function go_gcd :: "nat \<Rightarrow> nat \<Rightarrow> nat" where
  "go_gcd a b = (if b = 0 then a else go_gcd b (a mod b))"
  by pat_completeness auto

termination go_gcd
  by (relation "measure snd") auto

declare go_gcd.simps [simp del]

text \<open>
  The widths of the leading runs of spaces, and the unit they give. The code keeps the widths as
  the keys of a map, whose order is random: \<^verbatim>\<open>pick\<close> stands for the order of the run.
\<close>

definition space_widths :: "string list \<Rightarrow> nat list" where
  "space_widths ls =
     remdups (filter (\<lambda>n. 2 \<le> n) (map (\<lambda>l. length (takeWhile (\<lambda>c. c = sp) l)) ls))"

definition tab_width :: "(nat list \<Rightarrow> nat list) \<Rightarrow> string list \<Rightarrow> nat" where
  "tab_width pick ls =
     (case range_order pick (space_widths ls) of
        [] \<Rightarrow> 4
      | w # ws \<Rightarrow> let g = foldl go_gcd w ws in if g < 2 then 2 else g)"

definition file_uses_tabs :: "string list \<Rightarrow> bool" where
  "file_uses_tabs ls \<longleftrightarrow>
     length (filter (\<lambda>l. HasPrefix l [tabc]) ls) > length (filter (\<lambda>l. HasPrefix l [sp]) ls)"

definition spaces_to_tabs_line :: "nat \<Rightarrow> string \<Rightarrow> string" where
  "spaces_to_tabs_line w line =
     (let spaces = length (takeWhile (\<lambda>c. c = sp) line) in
      if spaces = 0 then line
      else let tabs = spaces div w; remainder = spaces mod w in
           if tabs = 0 then [tabc] @ drop spaces line
           else replicate tabs tabc @ replicate remainder sp @ drop spaces line)"

definition convertSpacesToTabs :: "string \<Rightarrow> nat \<Rightarrow> string" where
  "convertSpacesToTabs text w = lines_text (map (spaces_to_tabs_line w) (lines_of text))"

definition tabs_to_spaces_line :: "nat \<Rightarrow> string \<Rightarrow> string" where
  "tabs_to_spaces_line w line =
     (let tabs = length (takeWhile (\<lambda>c. c = tabc) line) in
      if tabs = 0 then line else replicate (tabs * w) sp @ drop tabs line)"

definition convertTabsToSpaces :: "string \<Rightarrow> nat \<Rightarrow> string" where
  "convertTabsToSpaces text w = lines_text (map (tabs_to_spaces_line w) (lines_of text))"

definition normalizeIndentation :: "(nat list \<Rightarrow> nat list) \<Rightarrow> string \<Rightarrow> string \<Rightarrow> string" where
  "normalizeIndentation pick fileContent text =
     (let ls = take 200 (lines_of fileContent);
          fileUsesTabs = file_uses_tabs ls;
          fileTabWidth = tab_width pick ls;
          textHasTabs = list_ex (\<lambda>l. HasPrefix l [tabc]) (lines_of text);
          textHasLeadingSpaces = list_ex (\<lambda>l. HasPrefix l [sp]) (lines_of text)
      in if fileUsesTabs \<and> \<not> textHasTabs \<and> textHasLeadingSpaces then convertSpacesToTabs text fileTabWidth
         else if \<not> fileUsesTabs \<and> textHasTabs then convertTabsToSpaces text fileTabWidth
         else text)"

section \<open>Line endings\<close>

abbreviation crlf :: string where "crlf \<equiv> [cr, lf]"

definition tryCRLFMatch :: "string \<Rightarrow> string \<Rightarrow> string" where
  "tryCRLFMatch content oldText =
     (if \<not> Contains content crlf then ''''
      else if Contains oldText crlf then ''''
      else if \<not> Contains oldText [lf] then ''''
      else let candidate = ReplaceAll oldText [lf] crlf in
           if Contains content candidate then candidate else '''')"

definition fileUsesCRLF :: "string \<Rightarrow> bool" where
  "fileUsesCRLF content =
     (let n = Count content crlf in
      if n = 0 then False else int n > int (Count content [lf]) - int n)"

definition normalizeNewTextEOL :: "string \<Rightarrow> string \<Rightarrow> string" where
  "normalizeNewTextEOL content newText =
     (if \<not> Contains newText [lf] \<or> Contains newText crlf then newText
      else if \<not> fileUsesCRLF content then newText
      else ReplaceAll newText [lf] crlf)"

section \<open>Matching windows of lines\<close>

text \<open>
  The windows of \<^verbatim>\<open>n\<close> lines, in order of their first line. A search for the lines \<^verbatim>\<open>old\<close> looks at each
  window, line against line.
\<close>

definition windows :: "nat \<Rightarrow> 'a list \<Rightarrow> 'a list list" where
  "windows n ls = map (\<lambda>i. take n (drop i ls)) [0..<length ls + 1 - n]"

definition leadingWhitespace :: "string \<Rightarrow> string" where
  "leadingWhitespace s = takeWhile (\<lambda>c. c = sp \<or> c = tabc) s"

definition shift_window :: "string list \<Rightarrow> string list \<Rightarrow> (string \<times> string \<times> string) option" where
  "shift_window old win =
     (if map TrimSpace win \<noteq> map TrimSpace old then None
      else let fne = length (takeWhile blank_line old);
               baseFile = leadingWhitespace (win ! fne);
               baseOld = leadingWhitespace (old ! fne);
               lines = filter (\<lambda>p. \<not> blank_line (snd p)) (zip win old)
           in if HasPrefix baseFile baseOld
              then let extraFile = drop (length baseOld) baseFile in
                   if extraFile = '''' then None
                   else if list_all (\<lambda>p. leadingWhitespace (fst p) = extraFile @ leadingWhitespace (snd p)) lines
                   then Some (lines_text win, extraFile, '''') else None
              else if HasPrefix baseOld baseFile
              then let extraOld = drop (length baseFile) baseOld in
                   if extraOld = '''' then None
                   else if list_all (\<lambda>p. leadingWhitespace (snd p) = extraOld @ leadingWhitespace (fst p)) lines
                   then Some (lines_text win, '''', extraOld) else None
              else None)"

definition tryLeadingIndentShift :: "string \<Rightarrow> string \<Rightarrow> string \<times> string \<times> string" where
  "tryLeadingIndentShift content oldText =
     (let oldLines = lines_of oldText; contentLines = lines_of content in
      if length oldLines > length contentLines then ('''', '''', '''')
      else if list_all blank_line oldLines then ('''', '''', '''')
      else case first_some (shift_window oldLines) (windows (length oldLines) contentLines) of
             Some r \<Rightarrow> r | None \<Rightarrow> ('''', '''', ''''))"

definition apply_shift_line :: "string \<Rightarrow> string \<Rightarrow> string" where
  "apply_shift_line sh l = (if l = '''' then l else sh @ l)"

definition applyLeadingIndentShift :: "string \<Rightarrow> string \<Rightarrow> string" where
  "applyLeadingIndentShift text sh =
     (if sh = '''' then text else lines_text (map (apply_shift_line sh) (lines_of text)))"

definition trim_shift_line :: "string \<Rightarrow> string \<Rightarrow> string" where
  "trim_shift_line tr l = (if l = '''' then l else if HasPrefix l tr then drop (length tr) l else l)"

definition trimLeadingIndentShift :: "string \<Rightarrow> string \<Rightarrow> string" where
  "trimLeadingIndentShift text tr =
     (if tr = '''' then text else lines_text (map (trim_shift_line tr) (lines_of text)))"

definition rstrip :: "string \<Rightarrow> string" where
  "rstrip s = TrimRight s [sp, tabc]"

definition trailing_window :: "string list \<Rightarrow> string list \<Rightarrow> string option" where
  "trailing_window old win = (if map rstrip win = map rstrip old then Some (lines_text win) else None)"

definition tryTrailingWhitespaceMatch :: "string \<Rightarrow> string \<Rightarrow> string" where
  "tryTrailingWhitespaceMatch content oldText =
     (let contentLines = lines_of content; oldLines = lines_of oldText in
      if length oldLines > length contentLines then ''''
      else case first_some (trailing_window oldLines) (windows (length oldLines) contentLines) of
             Some c \<Rightarrow> c | None \<Rightarrow> '''')"

definition fuzzy_window :: "string list \<Rightarrow> string list \<Rightarrow> string option" where
  "fuzzy_window old win = (if map TrimSpace win = map TrimSpace old then Some (lines_text win) else None)"

definition tryFuzzyLineMatch :: "string \<Rightarrow> string \<Rightarrow> string" where
  "tryFuzzyLineMatch content oldText =
     (let oldLines = lines_of oldText in
      case first_some (fuzzy_window oldLines) (windows (length oldLines) (lines_of content)) of
        Some c \<Rightarrow> c | None \<Rightarrow> '''')"

section \<open>Anchored matches\<close>

record fileLine =
  fl_text :: string
  fl_start :: nat
  fl_end :: nat

function split_from :: "nat \<Rightarrow> string \<Rightarrow> fileLine list" where
  "split_from start s =
     (if s = '''' then []
      else case IndexByte s lf of
             None \<Rightarrow> [\<lparr>fl_text = s, fl_start = start, fl_end = start + length s\<rparr>]
           | Some rel \<Rightarrow>
               \<lparr>fl_text = take rel s, fl_start = start, fl_end = start + rel\<rparr> #
               split_from (start + rel + 1) (drop (rel + 1) s))"
  by pat_completeness auto

termination split_from
  by (relation "measure (\<lambda>(start, s). length s)") auto

declare split_from.simps [simp del]

definition splitFileLines :: "string \<Rightarrow> fileLine list" where
  "splitFileLines content = split_from 0 content"

record matchResult =
  canonical :: string
  transform :: string
  mr_shift :: string
  mr_trim :: string
  mr_start :: nat
  anchored :: bool

definition no_match :: matchResult where
  "no_match = \<lparr>canonical = '''', transform = '''', mr_shift = '''', mr_trim = '''', mr_start = 0, anchored = False\<rparr>"

definition matched_as :: "string \<Rightarrow> string \<Rightarrow> matchResult" where
  "matched_as c t = no_match\<lparr>canonical := c, transform := t\<rparr>"

definition prependTransform :: "string \<Rightarrow> string \<Rightarrow> string" where
  "prependTransform pre suf = (if pre = '''' then suf else if suf = '''' then pre else pre @ ''+'' @ suf)"

definition resolveAnchoredCandidate ::
  "(nat list \<Rightarrow> nat list) \<Rightarrow> string \<Rightarrow> string \<Rightarrow> string \<Rightarrow> matchResult" where
  "resolveAnchoredCandidate pick content candidate oldText =
     (if candidate = oldText then matched_as candidate ''''
      else if normalizeIndentation pick content oldText = candidate then matched_as candidate ''indent-normalized''
      else if Contains candidate crlf \<and> \<not> Contains oldText crlf \<and> ReplaceAll oldText [lf] crlf = candidate
      then matched_as candidate ''crlf-converted''
      else case tryLeadingIndentShift candidate oldText of (c, sh, tr) \<Rightarrow>
        if c = candidate
        then (matched_as candidate ''leading-indent-shift'')\<lparr>mr_shift := sh, mr_trim := tr\<rparr>
        else if tryTrailingWhitespaceMatch candidate oldText = candidate
        then matched_as candidate ''trailing-whitespace-tolerant''
        else no_match)"

definition tryReadFileLineAnchor :: "(nat list \<Rightarrow> nat list) \<Rightarrow> string \<Rightarrow> string \<Rightarrow> matchResult" where
  "tryReadFileLineAnchor pick content oldText =
     (case parseReadFileNumberedBlock oldText of
        None \<Rightarrow> no_match
      | Some (startLine, body) \<Rightarrow>
          let fls = splitFileLines content in
          if startLine \<le> 0 \<or> startLine + int (length body) - 1 > int (length fls) then no_match
          else let startIdx = nat (startLine - 1);
                   endIdx = startIdx + length body - 1;
                   lo = fl_start (fls ! startIdx);
                   hi = fl_end (fls ! endIdx);
                   candidate = take (hi - lo) (drop lo content);
                   mr = resolveAnchoredCandidate pick content candidate (lines_text body)
               in if canonical mr = '''' then no_match
                  else mr\<lparr>canonical := candidate,
                          transform := prependTransform ''line-numbers-stripped'' (transform mr),
                          mr_start := lo, anchored := True\<rparr>)"

section \<open>resolveOldText\<close>

text \<open>The wrapper lines that are removed leave a shorter text.\<close>

lemma Join_drop_length: "length (Join (drop n xs) sep) \<le> length (Join xs sep)"
proof (induction n arbitrary: xs)
  case (Suc n)
  then show ?case using length_Join_Cons le_trans by (cases xs) (simp, fastforce)
qed simp

lemma Join_take_length: "length (Join (take n xs) sep) \<le> length (Join xs sep)"
proof (induction xs arbitrary: n)
  case (Cons x xs)
  then show ?case by (cases n) (auto simp: Join_Cons)
qed simp

lemma Join_drop_lt:
  "0 < n \<Longrightarrow> drop n xs \<noteq> [] \<Longrightarrow> sep \<noteq> [] \<Longrightarrow> length (Join (drop n xs) sep) < length (Join xs sep)"
proof (cases xs; cases n)
  fix x ys m
  assume xs: "xs = x # ys" "n = Suc m" and "drop n xs \<noteq> []" "sep \<noteq> []"
  then have "ys \<noteq> []" by auto
  moreover have "Suc 0 \<le> length sep" using \<open>sep \<noteq> []\<close> by (cases sep) auto
  ultimately show ?thesis using xs Join_drop_length [of m ys sep]
    by (simp add: Join_Cons del: length_greater_0_conv)
qed auto

lemma Join_take_lt:
  "n < length xs \<Longrightarrow> take n xs \<noteq> [] \<Longrightarrow> sep \<noteq> [] \<Longrightarrow> length (Join (take n xs) sep) < length (Join xs sep)"
proof -
  assume n: "n < length xs" and ne: "take n xs \<noteq> []" and sep: "sep \<noteq> []"
  have "Join xs sep = Join (take n xs @ drop n xs) sep" by simp
  also have "\<dots> = Join (take n xs) sep @ sep @ Join (drop n xs) sep"
    using ne n by (intro Join_append) auto
  finally show ?thesis using sep by simp
qed

lemma trimReadFileWrapperLines_shorter:
  assumes "trimReadFileWrapperLines text = Some t"
  shows "length t < length text"
proof -
  define a where "a = wrapper_start (lines_of text)"
  define b where "b = wrapper_end (lines_of text) a"
  have t: "t = lines_text (drop a (take b (lines_of text)))" "t \<noteq> []"
    and ab: "\<not> (a = 0 \<and> b = length (lines_of text))"
    using assms by (auto simp: a_def b_def trimReadFileWrapperLines_def Let_def split: if_splits)
  have b: "b \<le> length (lines_of text)"
    unfolding b_def wrapper_end_def Let_def by simp
  have ne: "drop a (take b (lines_of text)) \<noteq> []" using t by (auto simp: lines_text_def)
  have le: "length t \<le> length (Join (take b (lines_of text)) [lf])"
    using Join_drop_length t by (simp add: lines_text_def)
  have le2: "length (Join (take b (lines_of text)) [lf]) \<le> length text"
    using Join_take_length [of b "lines_of text" "[lf]"] lines_text_of [of "text"] by (simp add: lines_text_def)
  show ?thesis
  proof (cases "a = 0")
    case True
    then have "b < length (lines_of text)" using ab b by simp
    then show ?thesis
      using Join_take_lt [of b "lines_of text" "[lf]"] ne le lines_text_of [of "text"] by (auto simp: lines_text_def)
  next
    case False
    then show ?thesis
      using Join_drop_lt [of a "take b (lines_of text)" "[lf]"] ne le2 t by (auto simp: lines_text_def)
  qed
qed

text \<open>The rules after the wrapper lines, in the order of the code.\<close>

definition resolve_rules :: "(nat list \<Rightarrow> nat list) \<Rightarrow> string \<Rightarrow> string \<Rightarrow> matchResult" where
  "resolve_rules pick content oldText =
     (let anch = tryReadFileLineAnchor pick content oldText;
          normalized = normalizeIndentation pick content oldText;
          stripped = stripLineNumberPrefix oldText;
          normalized' = normalizeIndentation pick content stripped;
          crlf' = tryCRLFMatch content oldText
      in if canonical anch \<noteq> '''' then anch
         else if normalized \<noteq> oldText \<and> Contains content normalized then matched_as normalized ''indent-normalized''
         else if stripped \<noteq> oldText \<and> Contains content stripped then matched_as stripped ''line-numbers-stripped''
         else if stripped \<noteq> oldText \<and> normalized' \<noteq> stripped \<and> Contains content normalized'
         then matched_as normalized' ''line-numbers-stripped+indent-normalized''
         else if crlf' \<noteq> '''' then matched_as crlf' ''crlf-converted''
         else case tryLeadingIndentShift content oldText of (c, sh, tr) \<Rightarrow>
           if c \<noteq> '''' then (matched_as c ''leading-indent-shift'')\<lparr>mr_shift := sh, mr_trim := tr\<rparr>
           else let trailing = tryTrailingWhitespaceMatch content oldText in
             if trailing \<noteq> '''' then matched_as trailing ''trailing-whitespace-tolerant''
             else let fuzzy = tryFuzzyLineMatch content oldText in
               if fuzzy \<noteq> '''' then matched_as fuzzy ''fuzzy-line-match'' else no_match)"

function resolveOldText :: "(nat list \<Rightarrow> nat list) \<Rightarrow> string \<Rightarrow> string \<Rightarrow> matchResult" where
  "resolveOldText pick content oldText =
     (if oldText = '''' then no_match
      else if Contains content oldText then matched_as oldText ''''
      else case trimReadFileWrapperLines oldText of
             None \<Rightarrow> resolve_rules pick content oldText
           | Some trimmed \<Rightarrow>
               (let mr = resolveOldText pick content trimmed in
                if canonical mr \<noteq> ''''
                then mr\<lparr>transform := prependTransform ''read-file-wrapper-stripped'' (transform mr)\<rparr>
                else resolve_rules pick content oldText))"
  by pat_completeness auto

termination resolveOldText
  by (relation "measure (\<lambda>(pick, content, oldText). length oldText)")
    (auto simp: trimReadFileWrapperLines_shorter)

declare resolveOldText.simps [simp del]

section \<open>The replacement text\<close>

definition adjustNewText :: "(nat list \<Rightarrow> nat list) \<Rightarrow> string \<Rightarrow> string \<Rightarrow> matchResult \<Rightarrow> string" where
  "adjustNewText pick content newText mr =
     (let t = transform mr;
          o1 = (if Contains t ''read-file-wrapper-stripped''
                then (case trimReadFileWrapperLines newText of Some u \<Rightarrow> u | None \<Rightarrow> newText) else newText);
          o2 = (if Contains t ''line-numbers-stripped'' then stripPaddedLineNumberPrefixes o1 content else o1);
          o3 = (if Contains t ''indent-normalized'' then normalizeIndentation pick content o2 else o2);
          o4 = (if Contains t ''crlf-converted'' \<and> \<not> Contains o3 crlf then ReplaceAll o3 [lf] crlf else o3)
      in if Contains t ''leading-indent-shift''
         then let o5 = (if mr_shift mr \<noteq> '''' then applyLeadingIndentShift o4 (mr_shift mr) else o4)
              in if mr_trim mr \<noteq> '''' then trimLeadingIndentShift o5 (mr_trim mr) else o5
         else o4)"

section \<open>Counting again, less strictly\<close>

definition countLineAligned :: "string \<Rightarrow> string \<Rightarrow> nat" where
  "countLineAligned s multi =
     (if \<not> Contains multi [lf] then Count s multi
      else let needle = lines_of multi in
           length (filter (\<lambda>w. w = needle) (windows (length needle) (lines_of s))))"

text \<open>The windows that are equal to \<^verbatim>\<open>old\<close> up to \<^verbatim>\<open>norm\<close>, as 1-based numbers of their first lines.\<close>

definition loose_lines :: "(string \<Rightarrow> string) \<Rightarrow> string list \<Rightarrow> string list \<Rightarrow> nat list" where
  "loose_lines norm ls old =
     map (\<lambda>p. fst p + 1)
       (filter (\<lambda>p. map norm (snd p) = map norm old) (enumerate 0 (windows (length old) ls)))"

definition lenientRecountRaw :: "string \<Rightarrow> string \<Rightarrow> string \<Rightarrow> nat \<times> nat list" where
  "lenientRecountRaw content rawOld t =
     (let p1 = (if Contains t ''read-file-wrapper-stripped''
                then (case trimReadFileWrapperLines rawOld of Some u \<Rightarrow> u | None \<Rightarrow> rawOld) else rawOld);
          probe = (if Contains t ''line-numbers-stripped'' then stripAllLineNumberPrefixes p1 else p1)
      in if probe = '''' then (0, [])
         else if Contains t ''crlf-converted'' then (Count content (ReplaceAll probe [lf] crlf), [])
         else if Contains t ''line-numbers-stripped''
         then (countLineAligned (guardedStripAllLineNumberPrefixes content) probe, [])
         else let norm = (if Contains t ''trailing-whitespace-tolerant'' then rstrip else TrimSpace);
                  found = loose_lines norm (lines_of content) (lines_of probe)
              in (length found, take 10 found))"

definition lenientRecount :: "string \<Rightarrow> string \<Rightarrow> matchResult \<Rightarrow> nat \<times> nat list" where
  "lenientRecount content rawOld mr =
     (if anchored mr \<or> transform mr = '''' then (0, [])
      else lenientRecountRaw content rawOld (transform mr))"

definition maxMatchLineHint :: nat where "maxMatchLineHint = 10"

fun find_match_lines :: "string \<Rightarrow> string \<Rightarrow> nat \<Rightarrow> nat \<Rightarrow> nat list" where
  "find_match_lines content old pos 0 = []"
| "find_match_lines content old pos (Suc k) =
     (case Index (drop pos content) old of
        None \<Rightarrow> []
      | Some idx \<Rightarrow>
          (let at = pos + idx in
           (1 + Count (take at content) [lf]) #
           (if at + length old \<ge> length content then []
            else find_match_lines content old (at + length old) k)))"

definition findMatchLineNumbers :: "string \<Rightarrow> string \<Rightarrow> nat list" where
  "findMatchLineNumbers content old =
     (if old = '''' then [] else find_match_lines content old 0 maxMatchLineHint)"

definition formatMatchLines :: "nat list \<Rightarrow> string" where
  "formatMatchLines ns = Join (map show_nat ns) '', ''"

definition MatchLineHint :: "nat \<Rightarrow> nat list \<Rightarrow> string" where
  "MatchLineHint cnt ns =
     (if ns = [] then ''''
      else ''Matches start at line(s): '' @ formatMatchLines ns @
           (if cnt > length ns then '' (showing first '' @ show_nat (length ns) @ '')'' else '''') @ ''.'')"

end
