(* ===== verification/EditFile.thy ===== *)
theory EditFile
  imports EditMatch GoPath
begin

text \<open>
  The tools that read and edit one file: \<^verbatim>\<open>readFileRangeWithOptions\<close> (\<^verbatim>\<open>internal/tool/read_file_range.go\<close>),
  \<^verbatim>\<open>EditFile.Execute\<close> (\<^verbatim>\<open>edit_file.go\<close>), \<^verbatim>\<open>planTextEdits\<close> (\<^verbatim>\<open>file_batch_helpers.go\<close>),
  \<^verbatim>\<open>MultiEditFile.Execute\<close> (\<^verbatim>\<open>multi_edit.go\<close>) and what they call on the way (\<^verbatim>\<open>CheckRequired\<close>,
  \<^verbatim>\<open>resolveToolPath\<close>, \<^verbatim>\<open>formatGoBytes\<close>). The file system is a map from paths to contents; what the system
  decides (the home directory, the formatter of package go/format, the sandbox, whether a read or a
  write succeeds) is a field of the environment. The hints that are appended to messages are not modelled.
\<close>

section \<open>read\_file\<close>

text \<open>\<^verbatim>\<open>%6d\<close>: right-aligned in six columns.\<close>

definition pad6 :: "string \<Rightarrow> string" where
  "pad6 s = replicate (6 - length s) sp @ s"

definition numbered_line :: "nat \<Rightarrow> string \<Rightarrow> string" where
  "numbered_line n l = pad6 (show_nat n) @ [tabc] @ l"

record read_opts =
  defaultLimit :: int
  moreHint :: string

definition maxOutputLines :: int where "maxOutputLines = 2000"

definition readFileRangeWithOptions :: "string \<Rightarrow> int \<Rightarrow> int \<Rightarrow> read_opts \<Rightarrow> string" where
  "readFileRangeWithOptions content offset limit opts =
     (let ls0 = lines_of content;
          ls = (if last ls0 = '''' then butlast ls0 else ls0);
          totalLines = int (length ls);
          deflt = (if defaultLimit opts \<le> 0 then maxOutputLines else defaultLimit opts);
          hint = (if moreHint opts = '''' then ''Use read_file with offset/limit for more.'' else moreHint opts);
          startIdx = (if wrap64 (offset - 1) < 0 then 0 else wrap64 (offset - 1))
      in if startIdx \<ge> totalLines
         then ''[File has '' @ Itoa totalLines @ '' lines. Offset '' @ Itoa offset @ '' is beyond end.]''
         else let e = wrap64 (startIdx + (if limit > 0 then limit else deflt));
                  endIdx = (if e > totalLines then totalLines else e)
              in concat (map (\<lambda>i. numbered_line (i + 1) (ls ! i) @ [lf]) [nat startIdx..<nat endIdx]) @
                 (if endIdx < totalLines
                  then ''[File truncated: showing lines '' @ Itoa (startIdx + 1) @ ''-'' @ Itoa endIdx @ '' of '' @
                       Itoa totalLines @ ''. '' @ hint @ '']'' @ [lf]
                  else ''''))"

section \<open>The environment\<close>

record edit_env =
  ee_home :: "string option"
  ee_workdir :: string
  ee_sandbox :: "(string \<Rightarrow> bool) option"
  ee_gofmt :: "string \<Rightarrow> string option"
  ee_write_ok :: "string \<Rightarrow> bool"
  ee_pick :: "nat list \<Rightarrow> nat list"

definition expandHomePath :: "string option \<Rightarrow> string \<Rightarrow> string" where
  "expandHomePath home path =
     (case path of
        c # r \<Rightarrow>
          (if c \<noteq> CHR ''~'' then path
           else if r = '''' \<or> hd r = CHR ''/''
           then (case home of
                   None \<Rightarrow> path
                 | Some h \<Rightarrow> if h = '''' then path else if r = '''' then h else JoinPath [h, tl r])
           else path)
      | [] \<Rightarrow> path)"

definition resolveToolPath :: "edit_env \<Rightarrow> string \<Rightarrow> string option" where
  "resolveToolPath ee path0 =
     (let p0 = TrimSpace path0 in
      if p0 = '''' then None
      else let p = expandHomePath (ee_home ee) p0 in
           Some (Clean (if IsAbs p then p else JoinPath [ee_workdir ee, p])))"

definition formatGoBytes :: "edit_env \<Rightarrow> string \<Rightarrow> string \<Rightarrow> string \<times> bool" where
  "formatGoBytes ee path content =
     (if Ext path \<noteq> ''.go'' then (content, False)
      else case ee_gofmt ee content of
             None \<Rightarrow> (content, False)
           | Some f \<Rightarrow> if f = content then (content, False) else (f, True))"

definition CheckRequired :: "(string \<times> string) list \<Rightarrow> string list" where
  "CheckRequired params = map fst (filter (\<lambda>p. TrimSpace (snd p) = '''') params)"

type_synonym file_store = "string \<Rightarrow> string option"

text \<open>What the tools answer: errors by kind, with the values their messages show.\<close>

datatype edit_error =
    MissingParams "string list"
  | PathRequired
  | EmptyEdits
  | NotAllowed
  | ReadFailed
  | NotFound
  | LooseMatches nat string "nat list"
  | NotUnique nat "nat list"
  | BadEdits "(nat \<times> edit_error) list" "(nat \<times> nat) list"
  | WriteFailed

datatype edit_ok =
    NoChange
  | Replaced nat nat nat bool
  | AppliedEdits nat bool

record edit_args =
  ea_path :: string
  ea_old :: string
  ea_new :: string
  ea_all :: bool

section \<open>One edit\<close>

text \<open>The unique text an edit stands for, or why there is none.\<close>

definition locate_edit :: "(nat list \<Rightarrow> nat list) \<Rightarrow> string \<Rightarrow> string \<Rightarrow> bool \<Rightarrow> edit_error + matchResult" where
  "locate_edit pick content old replaceAll =
     (let mr = resolveOldText pick content old in
      if canonical mr = '''' then Inl NotFound
      else let cnt = Count content (canonical mr);
               loose = lenientRecount content old mr
           in if \<not> replaceAll \<and> \<not> anchored mr \<and> cnt \<le> 1 \<and> fst loose > 1
              then Inl (LooseMatches (fst loose) (transform mr) (snd loose))
              else if \<not> replaceAll \<and> cnt > 1 \<and> \<not> anchored mr
              then Inl (NotUnique cnt (findMatchLineNumbers content (canonical mr)))
              else Inr mr)"

definition replacement :: "(nat list \<Rightarrow> nat list) \<Rightarrow> string \<Rightarrow> string \<Rightarrow> matchResult \<Rightarrow> string" where
  "replacement pick content new mr =
     normalizeNewTextEOL content
       (if transform mr \<noteq> '''' then adjustNewText pick content new mr else new)"

definition apply_edit :: "(nat list \<Rightarrow> nat list) \<Rightarrow> string \<Rightarrow> string \<Rightarrow> matchResult \<Rightarrow> bool \<Rightarrow> string" where
  "apply_edit pick content new mr replaceAll =
     (let old = canonical mr; nt = replacement pick content new mr in
      if replaceAll then ReplaceAll content old nt
      else if anchored mr
      then take (mr_start mr) content @ nt @ drop (mr_start mr + length old) content
      else ReplaceFirst content old nt)"

definition EditFile_Execute ::
  "edit_env \<Rightarrow> edit_args \<Rightarrow> file_store \<Rightarrow> (edit_error + edit_ok) \<times> file_store" where
  "EditFile_Execute ee args fs =
     (let missing = CheckRequired [(''file_path'', ea_path args), (''old_text'', ea_old args)] in
      if missing \<noteq> [] then (Inl (MissingParams missing), fs)
      else case resolveToolPath ee (ea_path args) of
        None \<Rightarrow> (Inl PathRequired, fs)
      | Some path \<Rightarrow>
          if (case ee_sandbox ee of Some ok \<Rightarrow> \<not> ok path | None \<Rightarrow> False) then (Inl NotAllowed, fs)
          else case fs path of
            None \<Rightarrow> (Inl ReadFailed, fs)
          | Some content \<Rightarrow>
              (case locate_edit (ee_pick ee) content (ea_old args) (ea_all args) of
                 Inl e \<Rightarrow> (Inl e, fs)
               | Inr mr \<Rightarrow>
                   let newContent = apply_edit (ee_pick ee) content (ea_new args) mr (ea_all args) in
                   if newContent = content then (Inr NoChange, fs)
                   else let (writeData, fmtChanged) = formatGoBytes ee path newContent in
                        if \<not> ee_write_ok ee path then (Inl WriteFailed, fs)
                        else (Inr (Replaced (if ea_all args then Count content (canonical mr) else 1)
                                    (Count (ea_old args) [lf] + 1) (Count (ea_new args) [lf] + 1) fmtChanged),
                              fs(path \<mapsto> writeData))))"

section \<open>Several edits\<close>

record editPos =
  ep_start :: nat
  ep_end :: nat
  ep_idx :: nat
  ep_new :: string

definition plan_edit ::
  "(nat list \<Rightarrow> nat list) \<Rightarrow> string \<Rightarrow> nat \<times> string \<times> string \<Rightarrow> (nat \<times> edit_error) + editPos" where
  "plan_edit pick content e =
     (case e of (i, old, new) \<Rightarrow>
        if old = '''' then Inl (i, MissingParams [''old_text''])
        else case locate_edit pick content old False of
               Inl err \<Rightarrow> Inl (i, err)
             | Inr mr \<Rightarrow>
                 let idx = (if anchored mr then mr_start mr
                            else case Index content (canonical mr) of Some k \<Rightarrow> k | None \<Rightarrow> 0)
                 in Inr \<lparr>ep_start = idx, ep_end = idx + length (canonical mr), ep_idx = i,
                         ep_new = replacement pick content new mr\<rparr>)"

definition lefts :: "('a + 'b) list \<Rightarrow> 'a list" where
  "lefts xs = concat (map (\<lambda>x. case x of Inl a \<Rightarrow> [a] | Inr b \<Rightarrow> []) xs)"

definition rights :: "('a + 'b) list \<Rightarrow> 'b list" where
  "rights xs = concat (map (\<lambda>x. case x of Inl a \<Rightarrow> [] | Inr b \<Rightarrow> [b]) xs)"

fun overlaps :: "editPos list \<Rightarrow> (nat \<times> nat) list" where
  "overlaps (p # q # ps) =
     (if ep_start q < ep_end p then [(ep_idx p, ep_idx q)] else []) @ overlaps (q # ps)"
| "overlaps ps = []"

definition apply_pos :: "editPos \<Rightarrow> string \<Rightarrow> string" where
  "apply_pos p out = take (ep_start p) out @ ep_new p @ drop (ep_end p) out"

definition planTextEdits ::
  "(nat list \<Rightarrow> nat list) \<Rightarrow> string \<Rightarrow> (string \<times> string) list \<Rightarrow> edit_error + string" where
  "planTextEdits pick content edits =
     (let rs = map (plan_edit pick content) (enumerate 0 edits);
          positions = sort_key ep_start (rights rs);
          problems = lefts rs;
          clashes = overlaps positions
      in if problems \<noteq> [] \<or> clashes \<noteq> [] then Inl (BadEdits problems clashes)
         else Inr (foldr apply_pos positions content))"

definition MultiEditFile_Execute ::
  "edit_env \<Rightarrow> string \<Rightarrow> (string \<times> string) list \<Rightarrow> file_store \<Rightarrow> (edit_error + edit_ok) \<times> file_store" where
  "MultiEditFile_Execute ee path0 edits fs =
     (if path0 = '''' then (Inl (MissingParams [''file_path'']), fs)
      else if edits = [] then (Inl EmptyEdits, fs)
      else case resolveToolPath ee path0 of
        None \<Rightarrow> (Inl PathRequired, fs)
      | Some path \<Rightarrow>
          if (case ee_sandbox ee of Some ok \<Rightarrow> \<not> ok path | None \<Rightarrow> False) then (Inl NotAllowed, fs)
          else case fs path of
            None \<Rightarrow> (Inl ReadFailed, fs)
          | Some content \<Rightarrow>
              (case planTextEdits (ee_pick ee) content edits of
                 Inl e \<Rightarrow> (Inl e, fs)
               | Inr new \<Rightarrow>
                   if new = content then (Inr NoChange, fs)
                   else let (writeData, fmtChanged) = formatGoBytes ee path new in
                        if \<not> ee_write_ok ee path then (Inl WriteFailed, fs)
                        else (Inr (AppliedEdits (length edits) fmtChanged), fs(path \<mapsto> writeData))))"

end
