(* ===== verification/EditFacts.thy ===== *)
theory EditFacts
  imports EditFile
begin

text \<open>
  What the edit tools guarantee: the text that is found stands in the file, it differs from the text
  that was quoted in white space only, a single edit changes one place, several edits are applied to the
  original and all or none of them, and the lines that read\_file printed lead back to themselves.
\<close>

section \<open>The match is in the file\<close>

definition match_ok :: "string \<Rightarrow> matchResult \<Rightarrow> bool" where
  "match_ok content mr \<longleftrightarrow>
     Contains content (canonical mr) \<and>
     (anchored mr \<longrightarrow> take (length (canonical mr)) (drop (mr_start mr) content) = canonical mr)"

lemma no_match_simps [simp]:
  "canonical no_match = ''''" "transform no_match = ''''" "anchored no_match = False"
  by (simp_all add: no_match_def)

lemma matched_as_simps [simp]:
  "canonical (matched_as c t) = c" "transform (matched_as c t) = t" "anchored (matched_as c t) = False"
  by (simp_all add: matched_as_def)

lemma Contains_slice: "Contains s (take n (drop i s))"
  by (metis Contains_append append_take_drop_id)

lemma windows_iff: "w \<in> set (windows n ls) \<longleftrightarrow> (\<exists>i. i + n \<le> length ls \<and> w = take n (drop i ls))"
  unfolding windows_def by (auto simp: image_iff) (metis Suc_le_eq le_diff_conv2 add_leD2 less_diff_conv add.commute less_Suc_eq_le not_less_eq_eq)+

lemma windows_length: "w \<in> set (windows n ls) \<Longrightarrow> length w = n"
  by (auto simp: windows_iff)

lemma windows_sub: "w \<in> set (windows n ls) \<Longrightarrow> set w \<subseteq> set ls"
  by (auto simp: windows_iff dest: in_set_takeD in_set_dropD)

lemma windows_contained: "w \<in> set (windows n (lines_of s)) \<Longrightarrow> Contains s (lines_text w)"
proof -
  assume "w \<in> set (windows n (lines_of s))"
  then obtain i where w: "w = take n (drop i (lines_of s))" by (auto simp: windows_iff)
  show ?thesis
  proof (cases "w = []")
    case True
    then show ?thesis by (simp add: lines_text_def Contains_iff_sublist)
  next
    case False
    then show ?thesis
      using window_contained [of n i "lines_of s" "[lf]"] lines_text_of [of s] by (simp add: w lines_text_def)
  qed
qed

text \<open>The three searches give a window whose lines are those of the old text up to white space.\<close>

lemma shift_window_Some:
  "shift_window old win = Some (c, sh, tr) \<Longrightarrow> c = lines_text win \<and> map TrimSpace win = map TrimSpace old"
  by (auto simp: shift_window_def Let_def split: if_splits)

lemma shift_match:
  assumes "tryLeadingIndentShift content old = (c, sh, tr)" "c \<noteq> ''''"
  shows "\<exists>w \<in> set (windows (length (lines_of old)) (lines_of content)).
    c = lines_text w \<and> map TrimSpace w = map TrimSpace (lines_of old)"
  using assms by (auto simp: tryLeadingIndentShift_def Let_def split: if_splits option.splits
      dest!: first_some_Some shift_window_Some)

lemma trailing_match:
  assumes "tryTrailingWhitespaceMatch content old \<noteq> ''''"
  shows "\<exists>w \<in> set (windows (length (lines_of old)) (lines_of content)).
    tryTrailingWhitespaceMatch content old = lines_text w \<and> map rstrip w = map rstrip (lines_of old)"
  using assms by (auto simp: tryTrailingWhitespaceMatch_def trailing_window_def Let_def
      split: if_splits option.splits dest!: first_some_Some)

lemma fuzzy_match:
  assumes "tryFuzzyLineMatch content old \<noteq> ''''"
  shows "\<exists>w \<in> set (windows (length (lines_of old)) (lines_of content)).
    tryFuzzyLineMatch content old = lines_text w \<and> map TrimSpace w = map TrimSpace (lines_of old)"
  using assms by (auto simp: tryFuzzyLineMatch_def fuzzy_window_def Let_def
      split: if_splits option.splits dest!: first_some_Some)

lemma crlf_match:
  "tryCRLFMatch content old \<noteq> '''' \<Longrightarrow>
     tryCRLFMatch content old = ReplaceAll old [lf] crlf \<and> Contains content (tryCRLFMatch content old)"
  by (auto simp: tryCRLFMatch_def Let_def split: if_splits)

lemma anchor_cases:
  assumes "canonical (tryReadFileLineAnchor pick content old) \<noteq> []"
  obtains n body where "parseReadFileNumberedBlock old = Some (n, body)" "0 < n"
    "n + int (length body) - 1 \<le> int (length (splitFileLines content))"
    "canonical (tryReadFileLineAnchor pick content old) =
       take (fl_end (splitFileLines content ! (nat (n - 1) + length body - 1)) -
             fl_start (splitFileLines content ! nat (n - 1)))
         (drop (fl_start (splitFileLines content ! nat (n - 1))) content)"
    "canonical (resolveAnchoredCandidate pick content (canonical (tryReadFileLineAnchor pick content old))
       (lines_text body)) \<noteq> []"
    "mr_start (tryReadFileLineAnchor pick content old) = fl_start (splitFileLines content ! nat (n - 1))"
    "anchored (tryReadFileLineAnchor pick content old)"
  using assms that
  by (cases "parseReadFileNumberedBlock old") (auto simp: tryReadFileLineAnchor_def Let_def split: if_splits)

lemma anchor_match_ok:
  assumes "canonical (tryReadFileLineAnchor pick content old) \<noteq> []"
  shows "match_ok content (tryReadFileLineAnchor pick content old)"
  using assms
proof (rule anchor_cases)
  fix n body
  let ?mr = "tryReadFileLineAnchor pick content old" and ?fl = "splitFileLines content"
  assume c: "canonical ?mr = take (fl_end (?fl ! (nat (n - 1) + length body - 1)) - fl_start (?fl ! nat (n - 1)))
         (drop (fl_start (?fl ! nat (n - 1))) content)"
    and s: "mr_start ?mr = fl_start (?fl ! nat (n - 1))"
  have "take (length (take k xs)) xs = take k xs" for k :: nat and xs :: string by (cases "k \<le> length xs") auto
  then show ?thesis unfolding match_ok_def s c using Contains_slice by blast
qed

text \<open>The rules, one case each.\<close>

lemma resolve_rules_cases:
  assumes "canonical (resolve_rules pick content old) \<noteq> []"
  obtains
    (anchor) "resolve_rules pick content old = tryReadFileLineAnchor pick content old"
  | (indent) "resolve_rules pick content old = matched_as (normalizeIndentation pick content old) ''indent-normalized''"
      "Contains content (normalizeIndentation pick content old)"
  | (numbers) "resolve_rules pick content old = matched_as (stripLineNumberPrefix old) ''line-numbers-stripped''"
      "Contains content (stripLineNumberPrefix old)"
  | (numbers_indent) "resolve_rules pick content old =
        matched_as (normalizeIndentation pick content (stripLineNumberPrefix old)) ''line-numbers-stripped+indent-normalized''"
      "Contains content (normalizeIndentation pick content (stripLineNumberPrefix old))"
  | (crlf) "resolve_rules pick content old = matched_as (tryCRLFMatch content old) ''crlf-converted''"
      "tryCRLFMatch content old \<noteq> []"
  | (shift) c sh tr where "tryLeadingIndentShift content old = (c, sh, tr)" "c \<noteq> []"
      "resolve_rules pick content old = (matched_as c ''leading-indent-shift'')\<lparr>mr_shift := sh, mr_trim := tr\<rparr>"
  | (trailing) "resolve_rules pick content old =
        matched_as (tryTrailingWhitespaceMatch content old) ''trailing-whitespace-tolerant''"
      "tryTrailingWhitespaceMatch content old \<noteq> []"
  | (fuzzy) "resolve_rules pick content old = matched_as (tryFuzzyLineMatch content old) ''fuzzy-line-match''"
      "tryFuzzyLineMatch content old \<noteq> []"
proof -
  obtain c sh tr where p: "tryLeadingIndentShift content old = (c, sh, tr)" by (metis prod_cases3)
  let ?n = "normalizeIndentation pick content" and ?s = "stripLineNumberPrefix old"
  consider (1) "canonical (tryReadFileLineAnchor pick content old) \<noteq> []"
    | (2) "canonical (tryReadFileLineAnchor pick content old) = []" "?n old \<noteq> old \<and> Contains content (?n old)"
    | (3) "canonical (tryReadFileLineAnchor pick content old) = []" "\<not> (?n old \<noteq> old \<and> Contains content (?n old))"
        "?s \<noteq> old \<and> Contains content ?s"
    | (4) "canonical (tryReadFileLineAnchor pick content old) = []" "\<not> (?n old \<noteq> old \<and> Contains content (?n old))"
        "\<not> (?s \<noteq> old \<and> Contains content ?s)" "?s \<noteq> old \<and> ?n ?s \<noteq> ?s \<and> Contains content (?n ?s)"
    | (5) "canonical (tryReadFileLineAnchor pick content old) = []" "\<not> (?n old \<noteq> old \<and> Contains content (?n old))"
        "\<not> (?s \<noteq> old \<and> Contains content ?s)" "\<not> (?s \<noteq> old \<and> ?n ?s \<noteq> ?s \<and> Contains content (?n ?s))"
    by blast
  then show thesis
  proof cases
    case 1
    then show thesis by (intro anchor) (simp add: resolve_rules_def)
  next
    case 2
    then show thesis by (intro indent) (simp_all add: resolve_rules_def Let_def)
  next
    case 3
    then show thesis by (intro numbers) (simp_all only: resolve_rules_def Let_def simp_thms if_True if_False)
  next
    case 4
    then show thesis by (intro numbers_indent) (simp_all only: resolve_rules_def Let_def simp_thms if_True if_False)
  next
    case 5
    then have r: "resolve_rules pick content old =
        (if tryCRLFMatch content old \<noteq> [] then matched_as (tryCRLFMatch content old) ''crlf-converted''
         else if c \<noteq> [] then (matched_as c ''leading-indent-shift'')\<lparr>mr_shift := sh, mr_trim := tr\<rparr>
         else if tryTrailingWhitespaceMatch content old \<noteq> []
         then matched_as (tryTrailingWhitespaceMatch content old) ''trailing-whitespace-tolerant''
         else if tryFuzzyLineMatch content old \<noteq> [] then matched_as (tryFuzzyLineMatch content old) ''fuzzy-line-match''
         else no_match)"
      by (simp only: resolve_rules_def Let_def p prod.case simp_thms if_True if_False)
    show thesis
      using crlf shift [OF p] trailing fuzzy assms unfolding r
      by (cases "tryCRLFMatch content old = []"; cases "c = []"; cases "tryTrailingWhitespaceMatch content old = []";
          cases "tryFuzzyLineMatch content old = []") simp_all
  qed
qed

lemma resolve_rules_ok:
  assumes "canonical (resolve_rules pick content old) \<noteq> []"
  shows "match_ok content (resolve_rules pick content old)"
  using assms
proof (cases rule: resolve_rules_cases)
  case anchor
  then show ?thesis using assms anchor_match_ok by simp
next
  case crlf
  then show ?thesis using crlf_match [OF crlf(2)] by (metis match_ok_def matched_as_simps(1,3))
next
  case (shift c sh tr)
  then show ?thesis using shift_match [OF shift(1,2)] windows_contained by (auto simp: match_ok_def)
next
  case trailing
  obtain w where "w \<in> set (windows (length (lines_of old)) (lines_of content))"
    "tryTrailingWhitespaceMatch content old = lines_text w"
    using trailing_match [OF trailing(2)] by blast
  then show ?thesis using trailing(1) windows_contained by (simp add: match_ok_def)
next
  case fuzzy
  obtain w where "w \<in> set (windows (length (lines_of old)) (lines_of content))"
    "tryFuzzyLineMatch content old = lines_text w"
    using fuzzy_match [OF fuzzy(2)] by blast
  then show ?thesis using fuzzy(1) windows_contained by (simp add: match_ok_def)
qed (simp_all add: match_ok_def)

lemma match_ok_transform [simp]: "match_ok content (mr\<lparr>transform := t\<rparr>) = match_ok content mr"
  by (simp add: match_ok_def)

lemma resolve_ok:
  "canonical (resolveOldText pick content old) \<noteq> '''' \<Longrightarrow> match_ok content (resolveOldText pick content old)"
proof (induction pick content old rule: resolveOldText.induct)
  case (1 pick content old)
  show ?case
  proof (cases "old = '''' \<or> Contains content old")
    case True
    then show ?thesis using 1(2) by (auto simp: resolveOldText.simps match_ok_def)
  next
    case False
    show ?thesis
    proof (cases "trimReadFileWrapperLines old")
      case None
      then show ?thesis using 1(2) False resolve_rules_ok by (simp add: resolveOldText.simps)
    next
      case (Some t)
      then show ?thesis using 1 False resolve_rules_ok
        by (subst resolveOldText.simps, subst (asm) (4) resolveOldText.simps) (auto simp: Let_def)
    qed
  qed
qed

section \<open>One edit changes one place\<close>

lemma locate_edit_Inr:
  assumes "locate_edit pick content old replaceAll = Inr mr"
  shows "mr = resolveOldText pick content old" "canonical mr \<noteq> ''''" "match_ok content mr"
    and "\<not> replaceAll \<Longrightarrow> \<not> anchored mr \<Longrightarrow> Count content (canonical mr) = 1 \<and> fst (lenientRecount content old mr) \<le> 1"
proof -
  show mr: "mr = resolveOldText pick content old" and ne: "canonical mr \<noteq> ''''"
    using assms by (auto simp: locate_edit_def Let_def split: if_splits)
  then show ok: "match_ok content mr" using resolve_ok by simp
  assume "\<not> replaceAll" "\<not> anchored mr"
  then have "\<not> Count content (canonical mr) > 1" "\<not> fst (lenientRecount content old mr) > 1"
    using assms by (auto simp: locate_edit_def Let_def split: if_splits)
  moreover have "0 < Count content (canonical mr)"
    using ok ne by (simp add: match_ok_def Count_Contains)
  ultimately show "Count content (canonical mr) = 1 \<and> fst (lenientRecount content old mr) \<le> 1" by simp
qed

definition edit_offset :: "string \<Rightarrow> matchResult \<Rightarrow> nat" where
  "edit_offset content mr =
     (if anchored mr then mr_start mr
      else case Index content (canonical mr) of Some k \<Rightarrow> k | None \<Rightarrow> 0)"

lemma match_split:
  assumes "match_ok content mr"
  shows "content = take (edit_offset content mr) content @ canonical mr @
    drop (edit_offset content mr + length (canonical mr)) content"
proof (cases "anchored mr")
  case True
  then show ?thesis using assms
    by (simp add: edit_offset_def match_ok_def) (metis append_take_drop_id drop_drop add.commute)
next
  case False
  then obtain i where "Index content (canonical mr) = Some i"
    using assms Index_None by (fastforce simp: match_ok_def)
  then show ?thesis using False Index_split by (simp add: edit_offset_def)
qed

lemma edit_offset_bound:
  assumes "match_ok content mr" "canonical mr \<noteq> []"
  shows "edit_offset content mr + length (canonical mr) \<le> length content"
proof (rule ccontr)
  assume big: "\<not> ?thesis"
  then have "content = take (edit_offset content mr) content @ canonical mr"
    using match_split [OF assms(1)] by (metis append.right_neutral drop_all nle_le)
  then have "length content = min (length content) (edit_offset content mr) + length (canonical mr)"
    by (metis length_append length_take)
  then show False using big assms(2) by (auto simp: min_def split: if_splits)
qed

lemma apply_edit_single:
  assumes "match_ok content mr"
  shows "apply_edit pick content new mr False =
    take (edit_offset content mr) content @ replacement pick content new mr @
    drop (edit_offset content mr + length (canonical mr)) content"
proof (cases "anchored mr")
  case False
  then obtain i where "Index content (canonical mr) = Some i"
    using assms Index_None by (fastforce simp: match_ok_def)
  then show ?thesis using False by (simp add: apply_edit_def edit_offset_def ReplaceFirst_def)
qed (simp add: apply_edit_def edit_offset_def)

lemma after_unique:
  assumes "match_ok content mr" "\<not> anchored mr" "canonical mr \<noteq> []" "Count content (canonical mr) = 1"
  shows "\<not> Contains (drop (edit_offset content mr + length (canonical mr)) content) (canonical mr)"
proof -
  obtain i where i: "Index content (canonical mr) = Some i"
    using assms Index_None by (fastforce simp: match_ok_def)
  then have "Count (drop (i + length (canonical mr)) content) (canonical mr) = 0"
    using Count_Index [OF assms(3) i] assms(4) by simp
  then have "\<not> Contains (drop (i + length (canonical mr)) content) (canonical mr)"
    using Count_Contains [OF assms(3)] by (metis less_irrefl)
  then show ?thesis using assms(2) i by (simp add: edit_offset_def)
qed

definition demo_edit_env :: edit_env where
  "demo_edit_env = \<lparr>ee_home = None, ee_workdir = ''/w'', ee_sandbox = None, ee_gofmt = (\<lambda>s. None),
     ee_write_ok = (\<lambda>p. True), ee_pick = (\<lambda>ws. ws)\<rparr>"

definition demo_files :: file_store where
  "demo_files = [''/w/f'' \<mapsto> ''ab'']"

lemma Execute_Replaced:
  assumes "EditFile_Execute ee args fs = (Inr (Replaced k m n f), fs')"
  obtains path content mr where "resolveToolPath ee (ea_path args) = Some path" "fs path = Some content"
    "locate_edit (ee_pick ee) content (ea_old args) (ea_all args) = Inr mr"
    "apply_edit (ee_pick ee) content (ea_new args) mr (ea_all args) \<noteq> content"
    "fs' = fs(path \<mapsto> fst (formatGoBytes ee path (apply_edit (ee_pick ee) content (ea_new args) mr (ea_all args))))"
    "\<not> ea_all args \<Longrightarrow> k = 1"
  using assms that unfolding EditFile_Execute_def Let_def
  by (auto split: if_splits option.splits sum.splits prod.splits)



section \<open>Several edits are applied to the original, all or none\<close>

text \<open>
  The specification: the new texts in place of their ranges, from left to right, in the original; the
  code replaces from right to left in the text it is changing.
\<close>

fun splice_edits :: "nat \<Rightarrow> string \<Rightarrow> editPos list \<Rightarrow> string" where
  "splice_edits at s [] = drop at s"
| "splice_edits at s (p # ps) = take (ep_start p - at) (drop at s) @ ep_new p @ splice_edits (ep_end p) s ps"

fun disjoint_from :: "nat \<Rightarrow> nat \<Rightarrow> editPos list \<Rightarrow> bool" where
  "disjoint_from at n [] \<longleftrightarrow> at \<le> n"
| "disjoint_from at n (p # ps) \<longleftrightarrow> at \<le> ep_start p \<and> ep_start p < ep_end p \<and> disjoint_from (ep_end p) n ps"

lemma disjoint_from_le: "disjoint_from at n ps \<Longrightarrow> at \<le> n"
  by (induction ps arbitrary: at) fastforce+

lemma foldr_splice:
  "disjoint_from at (length s) ps \<Longrightarrow> foldr apply_pos ps s = take at s @ splice_edits at s ps"
proof (induction ps arbitrary: at)
  case (Cons p ps)
  then have d: "at \<le> ep_start p" "ep_start p < ep_end p" "ep_end p \<le> length s"
    and ih: "foldr apply_pos ps s = take (ep_end p) s @ splice_edits (ep_end p) s ps"
    using disjoint_from_le by auto
  have "take (ep_start p) s = take at s @ take (ep_start p - at) (drop at s)"
    using d(1) by (metis le_add_diff_inverse take_add)
  then have "apply_pos p (foldr apply_pos ps s) = take at s @ splice_edits at s (p # ps)"
    using d by (simp add: ih apply_pos_def)
  then show ?case by simp
qed simp

lemma disjoint_overlaps:
  assumes "sorted (map ep_start ps)" "overlaps ps = []"
    and "\<forall>p \<in> set ps. ep_start p < ep_end p \<and> ep_end p \<le> n" "ps \<noteq> [] \<Longrightarrow> at \<le> ep_start (hd ps)" "at \<le> n"
  shows "disjoint_from at n ps"
  using assms
proof (induction ps arbitrary: at rule: overlaps.induct)
  case (1 q r ps)
  have "disjoint_from (ep_end q) n (r # ps)"
    using 1(2-) by (intro 1(1)) (auto split: if_splits)
  then show ?case using 1(2-) by auto
qed auto

lemma lefts_Nil: "lefts xs = [] \<Longrightarrow> xs = map Inr (rights xs)"
  by (induction xs) (auto simp: lefts_def rights_def split: sum.splits)

lemma set_rights: "set (rights xs) = {b. Inr b \<in> set xs}"
  by (induction xs) (auto simp: rights_def split: sum.splits)

definition plan_ok :: "(nat list \<Rightarrow> nat list) \<Rightarrow> string \<Rightarrow> string \<times> string \<Rightarrow> editPos \<Rightarrow> bool" where
  "plan_ok pick content e p \<longleftrightarrow>
     (let mr = resolveOldText pick content (fst e) in
      canonical mr \<noteq> '''' \<and> ep_end p = ep_start p + length (canonical mr) \<and> ep_end p \<le> length content \<and>
      take (length (canonical mr)) (drop (ep_start p) content) = canonical mr \<and>
      (anchored mr \<or> Count content (canonical mr) = 1) \<and>
      ep_new p = replacement pick content (snd e) mr)"

lemma plan_edit_Inr:
  assumes "plan_edit pick content (i, e) = Inr p"
  shows "ep_idx p = i \<and> plan_ok pick content e p"
proof -
  obtain old new where e: "e = (old, new)" by (cases e)
  obtain mr where l: "locate_edit pick content old False = Inr mr"
    and p: "p = \<lparr>ep_start = edit_offset content mr, ep_end = edit_offset content mr + length (canonical mr),
      ep_idx = i, ep_new = replacement pick content new mr\<rparr>"
    using assms by (auto simp: e plan_edit_def edit_offset_def Let_def split: if_splits sum.splits)
  note l = locate_edit_Inr [OF l]
  have "take (length (canonical mr)) (drop (edit_offset content mr) content) = canonical mr"
    using match_split [OF l(3)] edit_offset_bound [OF l(3,2)]
    by (metis (no_types) add_diff_cancel_left' add_leD1 append_eq_conv_conj drop_append drop_drop drop_take
        length_take min.absorb2 self_append_conv2 take_drop diff_self_eq_0 drop0 append_take_drop_id same_append_eq)
  then show ?thesis
    using l edit_offset_bound [OF l(3,2)] by (auto simp: e p plan_ok_def Let_def)
qed

lemma planned:
  assumes "planTextEdits pick content edits = Inr out"
  obtains ps where "out = foldr apply_pos (sort_key ep_start ps) content" "overlaps (sort_key ep_start ps) = []"
    "map Inr ps = map (plan_edit pick content) (enumerate 0 edits)"
proof -
  let ?rs = "map (plan_edit pick content) (enumerate 0 edits)"
  have "lefts ?rs = []" "overlaps (sort_key ep_start (rights ?rs)) = []"
    "out = foldr apply_pos (sort_key ep_start (rights ?rs)) content"
    using assms by (auto simp: planTextEdits_def Let_def split: if_splits)
  then show thesis using that lefts_Nil by metis
qed

lemma planned_elems:
  assumes "map Inr ps = map (plan_edit pick content) (enumerate 0 edits)"
  shows "map ep_idx ps = [0..<length edits]" "\<forall>p \<in> set ps. plan_ok pick content (edits ! ep_idx p) p"
proof -
  have len: "length ps = length edits" using arg_cong [OF assms, of length] by simp
  have nth: "plan_edit pick content (i, edits ! i) = Inr (ps ! i)" if "i < length edits" for i
    using that len arg_cong [OF assms, of "\<lambda>xs. xs ! i"] by (simp add: nth_enumerate_eq)
  then show "map ep_idx ps = [0..<length edits]"
    using plan_edit_Inr [OF nth] len by (intro nth_equalityI) auto
  show "\<forall>p \<in> set ps. plan_ok pick content (edits ! ep_idx p) p"
    using nth plan_edit_Inr len by (metis in_set_conv_nth)
qed

text \<open>
  C37. The edits of one call are one simultaneous replacement: each edit is located in the original file,
  the ranges are disjoint, and the result has the new texts in place of them, as the left-to-right
  specification builds it, whatever the order in which the edits were given.
\<close>

theorem edits_are_simultaneous:
  assumes "planTextEdits pick content edits = Inr out"
  shows "\<exists>ps. out = splice_edits 0 content ps \<and> disjoint_from 0 (length content) ps \<and>
    mset (map ep_idx ps) = mset [0..<length edits] \<and>
    list_all (\<lambda>p. plan_ok pick content (edits ! ep_idx p) p) ps"
  using assms
proof (rule planned)
  fix ps :: "editPos list"
  let ?ps = "sort_key ep_start ps"
  assume out: "out = foldr apply_pos ?ps content" and o: "overlaps ?ps = []"
    and m: "map Inr ps = map (plan_edit pick content) (enumerate 0 edits)"
  note e = planned_elems [OF m]
  have "disjoint_from 0 (length content) ?ps"
    using o e(2) by (intro disjoint_overlaps) (auto simp: plan_ok_def Let_def)
  moreover have "mset (map ep_idx ?ps) = mset [0..<length edits]"
    using e(1) by (metis mset_map mset_sort)
  ultimately show ?thesis using out e(2) foldr_splice [of 0 content ?ps] by (auto simp: list_all_iff)
qed

theorem edits_are_simultaneous_witness:
  "\<exists>ps. ''bx'' = splice_edits 0 ''ab'' ps \<and> length ps = 2"
proof -
  have "planTextEdits (\<lambda>ws. ws) ''ab'' [(''b'', ''x''), (''a'', ''b'')] = Inr ''bx''" by code_simp
  from edits_are_simultaneous [OF this] obtain ps where "''bx'' = splice_edits 0 ''ab'' ps"
    "mset (map ep_idx ps) = mset [0..<length [(''b'', ''x''), (''a'', ''b'')]]" by blast
  moreover from this(2) have "length ps = 2" by (metis length_map mset_eq_length length_upt length_Cons list.size(3) diff_zero Suc_1 One_nat_def)
  ultimately show ?thesis by blast
qed

lemma Execute_changes:
  assumes "EditFile_Execute ee args fs = (r, fs')" "fs' \<noteq> fs"
  shows "\<exists>k m n f. r = Inr (Replaced k m n f)"
  using assms unfolding EditFile_Execute_def Let_def
  by (auto split: if_split_asm option.split_asm sum.split_asm prod.split_asm)

lemma MultiExecute_changes:
  assumes "MultiEditFile_Execute ee path edits fs = (r, fs')" "fs' \<noteq> fs"
  shows "\<exists>k f. r = Inr (AppliedEdits k f)"
  using assms unfolding MultiEditFile_Execute_def Let_def
  by (auto split: if_split_asm option.split_asm sum.split_asm prod.split_asm)



section \<open>Where the counting is not enough\<close>

text \<open>
  A tolerant match is located by the first place where its text occurs, which need not be the lines
  that matched: the lines quoted are the second and third, and the edit changes the first and second. An
  occurrence that overlaps the counted one is not counted either, so a text that occurs twice is edited.
\<close>

theorem tolerant_edit_elsewhere:
  "(\<exists>mr. locate_edit (\<lambda>ws. ws) (''ax'' @ [lf] @ ''x'' @ [lf] @ ''x'') ('' x'' @ [lf] @ '' x'') False = Inr mr \<and>
     apply_edit (\<lambda>ws. ws) (''ax'' @ [lf] @ ''x'' @ [lf] @ ''x'') ''y'' mr False = ''ay'' @ [lf] @ ''x'') \<and>
   (\<exists>mr. locate_edit (\<lambda>ws. ws) ''aXaXa'' ''aXa'' False = Inr mr \<and>
     apply_edit (\<lambda>ws. ws) ''aXaXa'' ''b'' mr False = ''bXa'')"
proof -
  have 1: "locate_edit (\<lambda>ws. ws) (''ax'' @ [lf] @ ''x'' @ [lf] @ ''x'') ('' x'' @ [lf] @ '' x'') False =
      Inr ((matched_as (''x'' @ [lf] @ ''x'') ''leading-indent-shift'')\<lparr>mr_trim := '' ''\<rparr>)"
    by code_simp
  have 2: "apply_edit (\<lambda>ws. ws) (''ax'' @ [lf] @ ''x'' @ [lf] @ ''x'') ''y''
      ((matched_as (''x'' @ [lf] @ ''x'') ''leading-indent-shift'')\<lparr>mr_trim := '' ''\<rparr>) False = ''ay'' @ [lf] @ ''x''"
    by code_simp
  have 3: "locate_edit (\<lambda>ws. ws) ''aXaXa'' ''aXa'' False = Inr (matched_as ''aXa'' '''')" by code_simp
  have 4: "apply_edit (\<lambda>ws. ws) ''aXaXa'' ''b'' (matched_as ''aXa'' '''') False = ''bXa''" by code_simp
  from 1 2 3 4 show ?thesis by blast
qed

end
