(* ===== verification/EditSpace.thy ===== *)
theory EditSpace
  imports EditFacts
begin

text \<open>
  The tolerant rules of \<^verbatim>\<open>resolveOldText\<close> only tolerate white space: the lines of the text that is replaced
  are the lines that were quoted, up to white space at their ends, once the line numbers and wrapper
  lines of read\_file are taken away.
\<close>

definition same_text :: "string \<Rightarrow> string \<Rightarrow> bool" where
  "same_text a b \<longleftrightarrow> map TrimSpace (lines_of a) = map TrimSpace (lines_of b)"

lemma same_text_refl [simp]: "same_text a a"
  by (simp add: same_text_def)

text \<open>The texts an old text may be quoted from: itself, and itself without what read\_file adds.\<close>

function edit_sources :: "string \<Rightarrow> string list" where
  "edit_sources old =
     [old, stripLineNumberPrefix old] @
     (case parseReadFileNumberedBlock old of Some (n, b) \<Rightarrow> [lines_text b] | None \<Rightarrow> []) @
     (case trimReadFileWrapperLines old of Some t \<Rightarrow> edit_sources t | None \<Rightarrow> [])"
  by pat_completeness auto

termination edit_sources
  by (relation "measure length") (auto simp: trimReadFileWrapperLines_shorter)

declare edit_sources.simps [simp del]

section \<open>White space at the ends of a line\<close>

lemma space_chars [simp]: "is_space sp" "is_space tabc" "is_space cr" "is_space lf"
  by (simp_all add: is_space_def in_range_def byte_val_def)

lemma TrimSpace_lead: "list_all is_space u \<Longrightarrow> TrimSpace (u @ s) = TrimSpace s"
  by (simp add: TrimSpace_def trim_left_by_def list_all_iff dropWhile_append2)

lemma dropWhile_rev_append:
  "list_all P u \<Longrightarrow> rev (dropWhile P (rev (s @ u))) = rev (dropWhile P (rev s))"
  using dropWhile_append2 [of "rev u" P "rev s"] by (simp add: list_all_iff)

lemma TrimSpace_trail: "list_all is_space u \<Longrightarrow> TrimSpace (s @ u) = TrimSpace s"
proof (cases "list_all is_space s")
  case True
  assume "list_all is_space u"
  then show ?thesis using True TrimSpace_lead [of "s @ u" "[]"] TrimSpace_lead [of s "[]"] by simp
next
  case False
  assume u: "list_all is_space u"
  from False have "dropWhile is_space (s @ u) = dropWhile is_space s @ u"
    by (auto simp: list_all_iff intro: dropWhile_append1)
  then show ?thesis
    using dropWhile_rev_append [OF u] by (simp add: TrimSpace_def trim_left_by_def trim_right_by_def)
qed

lemma TrimSpace_replace_lead:
  "list_all is_space u \<Longrightarrow> list_all is_space (take n l) \<Longrightarrow> TrimSpace (u @ drop n l) = TrimSpace l"
  by (metis TrimSpace_lead append_take_drop_id)

lemma rstrip_split: "\<exists>u. l = rstrip l @ u \<and> list_all is_space u"
proof -
  have "l = rstrip l @ rev (takeWhile (\<lambda>c. c \<in> set [sp, tabc]) (rev l))"
    unfolding rstrip_def TrimRight_def trim_right_by_def by (metis rev_append rev_rev_ident takeWhile_dropWhile_id)
  moreover have "list_all is_space (rev (takeWhile (\<lambda>c. c \<in> set [sp, tabc]) (rev l)))"
    by (auto simp: list_all_iff dest!: set_takeWhileD)
  ultimately show ?thesis by blast
qed

lemma TrimSpace_rstrip [simp]: "TrimSpace (rstrip l) = TrimSpace l"
  using rstrip_split [of l] TrimSpace_trail by metis

lemma rstrip_TrimSpace_eq: "map rstrip a = map rstrip b \<Longrightarrow> map TrimSpace a = map TrimSpace b"
proof -
  assume "map rstrip a = map rstrip b"
  then have "map TrimSpace (map rstrip a) = map TrimSpace (map rstrip b)" by simp
  then show ?thesis by (simp add: comp_def)
qed

section \<open>The rules keep the text\<close>

lemma same_text_map:
  assumes "\<And>l. lf \<notin> set l \<Longrightarrow> lf \<notin> set (f l) \<and> TrimSpace (f l) = TrimSpace l"
  shows "same_text (lines_text (map f (lines_of t))) t"
proof -
  have "lines_of (lines_text (map f (lines_of t))) = map f (lines_of t)"
    using assms lines_of_nonl by (intro lines_of_lines_text) auto
  then show ?thesis using assms lines_of_nonl by (simp add: same_text_def)
qed

lemma take_run: "list_all is_space (take (length (takeWhile P l)) l)" if "\<And>c. P c \<Longrightarrow> is_space c"
  using that by (auto simp: list_all_iff takeWhile_eq_take [symmetric] dest!: set_takeWhileD)

lemma spaces_to_tabs_line_text:
  assumes "lf \<notin> set l"
  shows "lf \<notin> set (spaces_to_tabs_line w l) \<and> TrimSpace (spaces_to_tabs_line w l) = TrimSpace l"
proof -
  let ?n = "length (takeWhile (\<lambda>c. c = sp) l)"
  have "list_all is_space (take ?n l)" by (rule take_run) simp
  then have "TrimSpace (u @ drop ?n l) = TrimSpace l" if "list_all is_space u" for u
    using that TrimSpace_replace_lead by blast
  from this [of "[tabc]"] this [of "replicate a tabc @ replicate b sp" for a b]
  show ?thesis
    using assms by (auto simp: spaces_to_tabs_line_def Let_def list_all_iff dest: in_set_dropD)
qed

lemma tabs_to_spaces_line_text:
  assumes "lf \<notin> set l"
  shows "lf \<notin> set (tabs_to_spaces_line w l) \<and> TrimSpace (tabs_to_spaces_line w l) = TrimSpace l"
proof -
  let ?n = "length (takeWhile (\<lambda>c. c = tabc) l)"
  have "list_all is_space (take ?n l)" by (rule take_run) simp
  then have "TrimSpace (replicate k sp @ drop ?n l) = TrimSpace l" for k
    by (intro TrimSpace_replace_lead) (simp_all add: list_all_iff)
  then show ?thesis
    using assms by (auto simp: tabs_to_spaces_line_def Let_def dest: in_set_dropD)
qed

lemma normalizeIndentation_text: "same_text (normalizeIndentation pick c t) t"
  using same_text_map [OF spaces_to_tabs_line_text] same_text_map [OF tabs_to_spaces_line_text]
  by (simp add: normalizeIndentation_def convertSpacesToTabs_def convertTabsToSpaces_def Let_def)

text \<open>Line feeds that become CR LF.\<close>

lemma ReplaceAll_nonl: "lf \<notin> set l \<Longrightarrow> ReplaceAll (l @ s) [lf] r = l @ ReplaceAll s [lf] r"
proof (induction l)
  case (Cons a l)
  then show ?case by (subst ReplaceAll.simps) (auto simp: HasPrefix_def)
qed simp

lemma ReplaceAll_Nil [simp]: "ReplaceAll [] old new = []"
  by (subst ReplaceAll.simps) simp

lemma ReplaceAll_nl: "ReplaceAll (lf # s) [lf] r = r @ ReplaceAll s [lf] r"
  by (subst ReplaceAll.simps) (simp add: HasPrefix_def)

lemma ReplaceAll_lines:
  "\<forall>l \<in> set ls. lf \<notin> set l \<Longrightarrow> ReplaceAll (lines_text ls) [lf] crlf = Join ls crlf"
proof (induction ls)
  case (Cons l ls)
  then show ?case
    using ReplaceAll_nonl [of l "[]"] by (cases "ls = []") (auto simp: lines_text_def Join_Cons ReplaceAll_nonl ReplaceAll_nl)
qed (simp add: lines_text_def)

lemma lines_of_crlf:
  "ls \<noteq> [] \<Longrightarrow> \<forall>l \<in> set ls. lf \<notin> set l \<Longrightarrow>
     map TrimSpace (lines_of (Join ls crlf)) = map TrimSpace ls"
proof (induction ls)
  case (Cons l ls)
  show ?case
  proof (cases "ls = []")
    case True
    then show ?thesis using Cons.prems by (simp add: lines_of_def Split_nosep)
  next
    case False
    have "lines_of (Join (l # ls) crlf) = (l @ [cr]) # lines_of (Join ls crlf)"
      using Cons.prems False Split_Cons [of lf "l @ [cr]" "Join ls crlf"] by (simp add: Join_Cons lines_of_def)
    then show ?thesis using Cons False TrimSpace_trail [of "[cr]" l] by simp
  qed
qed simp

lemma crlf_text: "same_text (ReplaceAll t [lf] crlf) t"
  using ReplaceAll_lines [of "lines_of t"] lines_of_crlf [of "lines_of t"] lines_of_nonl
  by (simp add: same_text_def)

lemma window_lines:
  assumes "w \<in> set (windows (length (lines_of t)) (lines_of content))"
  shows "lines_of (lines_text w) = w"
proof (rule lines_of_lines_text)
  show "w \<noteq> []" using windows_length [OF assms] by auto
  show "\<forall>l \<in> set w. lf \<notin> set l" using windows_sub [OF assms] lines_of_nonl by blast
qed

lemma window_text:
  assumes "w \<in> set (windows (length (lines_of old)) (lines_of content))" "map TrimSpace w = map TrimSpace (lines_of old)"
  shows "same_text (lines_text w) old"
  using assms(2) by (simp add: same_text_def window_lines [OF assms(1)])

lemma shift_text: "tryLeadingIndentShift content old = (c, sh, tr) \<Longrightarrow> c \<noteq> '''' \<Longrightarrow> same_text c old"
  using shift_match [of content old c sh tr] window_text by blast

lemma trailing_text:
  "tryTrailingWhitespaceMatch content old \<noteq> '''' \<Longrightarrow> same_text (tryTrailingWhitespaceMatch content old) old"
  using trailing_match [of content old] window_text rstrip_TrimSpace_eq by metis

lemma fuzzy_text: "tryFuzzyLineMatch content old \<noteq> '''' \<Longrightarrow> same_text (tryFuzzyLineMatch content old) old"
  using fuzzy_match [of content old] window_text by metis

text \<open>The same for a block of numbered lines, and for every rule.\<close>

lemma candidate_text:
  assumes "canonical (resolveAnchoredCandidate pick content cand old) \<noteq> []"
  shows "same_text cand old"
proof -
  obtain c sh tr where p: "tryLeadingIndentShift cand old = (c, sh, tr)" by (metis prod_cases3)
  consider "cand = old" | "normalizeIndentation pick content old = cand" | "ReplaceAll old [lf] crlf = cand"
    | "c = cand" "cand \<noteq> []" | "tryTrailingWhitespaceMatch cand old = cand" "cand \<noteq> []"
    using assms by (auto simp: resolveAnchoredCandidate_def p split: if_splits)
  then show ?thesis
    using normalizeIndentation_text crlf_text shift_text [OF p] trailing_text [of cand old] by cases auto
qed

lemma anchor_text:
  assumes "canonical (tryReadFileLineAnchor pick content old) \<noteq> []"
  shows "\<exists>src \<in> set (edit_sources old). same_text (canonical (tryReadFileLineAnchor pick content old)) src"
  using assms
proof (rule anchor_cases)
  fix n body
  let ?c = "canonical (tryReadFileLineAnchor pick content old)"
  assume "parseReadFileNumberedBlock old = Some (n, body)"
    and "canonical (resolveAnchoredCandidate pick content ?c (lines_text body)) \<noteq> []"
  then show ?thesis using candidate_text by (subst edit_sources.simps) auto
qed

lemma rules_text:
  assumes "canonical (resolve_rules pick content old) \<noteq> []"
  shows "\<exists>src \<in> set (edit_sources old). same_text (canonical (resolve_rules pick content old)) src"
proof -
  have o: "old \<in> set (edit_sources old)" and s: "stripLineNumberPrefix old \<in> set (edit_sources old)"
    by (subst edit_sources.simps, simp)+
  from assms show ?thesis
  proof (cases rule: resolve_rules_cases)
    case anchor
    then show ?thesis using assms anchor_text by metis
  next
    case indent
    then show ?thesis using o normalizeIndentation_text by (metis matched_as_simps(1))
  next
    case numbers
    then show ?thesis using s by (metis matched_as_simps(1) same_text_refl)
  next
    case numbers_indent
    then show ?thesis using s normalizeIndentation_text by (metis matched_as_simps(1))
  next
    case crlf
    then show ?thesis using o crlf_text crlf_match by (metis matched_as_simps(1))
  next
    case (shift c sh tr)
    then show ?thesis using o shift_text [OF shift(1,2)] by auto
  next
    case trailing
    then show ?thesis using o trailing_text by (metis matched_as_simps(1))
  next
    case fuzzy
    then show ?thesis using o fuzzy_text by (metis matched_as_simps(1))
  qed
qed

lemma resolve_text:
  "canonical (resolveOldText pick content old) \<noteq> [] \<Longrightarrow>
     \<exists>src \<in> set (edit_sources old). same_text (canonical (resolveOldText pick content old)) src"
proof (induction pick content old rule: resolveOldText.induct)
  case (1 pick content old)
  have o: "old \<in> set (edit_sources old)" by (subst edit_sources.simps, simp)
  show ?case
  proof (cases "old = '''' \<or> Contains content old")
    case True
    then show ?thesis using 1(2) by (auto simp: resolveOldText.simps intro!: bexI [OF _ o])
  next
    case False
    show ?thesis
    proof (cases "trimReadFileWrapperLines old")
      case None
      then show ?thesis using 1(2) False rules_text by (simp add: resolveOldText.simps)
    next
      case (Some t)
      then have sub: "set (edit_sources t) \<subseteq> set (edit_sources old)"
        by (subst (2) edit_sources.simps) auto
      show ?thesis
      proof (cases "canonical (resolveOldText pick content t) = []")
        case True
        then have "resolveOldText pick content old = resolve_rules pick content old"
          using False Some by (subst resolveOldText.simps) (simp add: Let_def)
        then show ?thesis using 1(2) rules_text by simp
      next
        case False
        then have "canonical (resolveOldText pick content old) = canonical (resolveOldText pick content t)"
          using \<open>\<not> (old = '''' \<or> Contains content old)\<close> Some by (subst resolveOldText.simps) (simp add: Let_def)
        then show ?thesis using 1(1) False \<open>\<not> (old = '''' \<or> Contains content old)\<close> Some sub by auto
      qed
    qed
  qed
qed

text \<open>
  C38. Tolerant matching tolerates white space only: a text that \<^verbatim>\<open>resolveOldText\<close> finds stands in the file,
  and its lines are, up to white space at their ends, the lines of the quoted text or of the quoted text without
  the line numbers and wrapper lines of read\_file.
\<close>

theorem tolerant_match_keeps_text:
  assumes "canonical (resolveOldText pick content old) \<noteq> ''''"
  shows "Contains content (canonical (resolveOldText pick content old)) \<and>
    (\<exists>src \<in> set (edit_sources old). same_text (canonical (resolveOldText pick content old)) src)"
  using resolve_ok [OF assms] resolve_text [OF assms] by (simp add: match_ok_def)

theorem tolerant_match_keeps_text_witness:
  "Contains ''  x = 1'' (canonical (resolveOldText (\<lambda>ws. ws) ''  x = 1'' ''x = 1  '')) \<and>
   canonical (resolveOldText (\<lambda>ws. ws) ''  x = 1'' ''x = 1  '') = ''  x = 1''"
proof -
  have c: "canonical (resolveOldText (\<lambda>ws. ws) ''  x = 1'' ''x = 1  '') = ''  x = 1''" by code_simp
  then have "canonical (resolveOldText (\<lambda>ws. ws) ''  x = 1'' ''x = 1  '') \<noteq> ''''" by simp
  from tolerant_match_keeps_text [OF this] show ?thesis using c by blast
qed

section \<open>A tolerant match is the only one\<close>

lemma loose_lines_length:
  "length (loose_lines norm ls old) =
     length (filter (\<lambda>w. map norm w = map norm old) (windows (length old) ls))"
proof -
  have "length (filter (\<lambda>p. Q (snd p)) (enumerate n xs)) = length (filter Q xs)" for Q n and xs :: "'b list"
    by (induction xs arbitrary: n) auto
  then show ?thesis by (simp add: loose_lines_def)
qed

lemma plain_transform:
  assumes "transform (resolveOldText pick content old) \<in>
      {''leading-indent-shift'', ''fuzzy-line-match'', ''trailing-whitespace-tolerant''}"
  shows "resolveOldText pick content old = resolve_rules pick content old"
proof -
  have ne: "\<not> (old = '''' \<or> Contains content old)"
    using assms by (auto simp: resolveOldText.simps split: if_splits)
  have "\<not> (\<exists>t. trimReadFileWrapperLines old = Some t \<and> canonical (resolveOldText pick content t) \<noteq> '''')"
  proof
    assume "\<exists>t. trimReadFileWrapperLines old = Some t \<and> canonical (resolveOldText pick content t) \<noteq> ''''"
    then have "\<exists>u. transform (resolveOldText pick content old) = prependTransform ''read-file-wrapper-stripped'' u"
      using ne by (subst resolveOldText.simps) (auto simp: Let_def)
    then show False using assms by (auto simp: prependTransform_def split: if_splits)
  qed
  then show ?thesis using ne by (subst resolveOldText.simps) (auto simp: Let_def split: option.splits)
qed

definition loose_norm :: "string \<Rightarrow> string \<Rightarrow> string" where
  "loose_norm t = (if t = ''trailing-whitespace-tolerant'' then rstrip else TrimSpace)"

lemma recount_plain:
  assumes "t \<in> {''leading-indent-shift'', ''fuzzy-line-match'', ''trailing-whitespace-tolerant''}" "old \<noteq> ''''"
  shows "fst (lenientRecountRaw content old t) =
    length (filter (\<lambda>w. map (loose_norm t) w = map (loose_norm t) (lines_of old))
      (windows (length (lines_of old)) (lines_of content)))"
proof -
  have "\<not> Contains t ''read-file-wrapper-stripped''" "\<not> Contains t ''line-numbers-stripped''"
    "\<not> Contains t ''crlf-converted''"
    "Contains t ''trailing-whitespace-tolerant'' = (t = ''trailing-whitespace-tolerant'')"
    using assms(1) by (elim insertE emptyE; simp add: HasPrefix_def)+
  then show ?thesis using assms(2)
    by (simp add: lenientRecountRaw_def Let_def loose_lines_length loose_norm_def)
qed

lemma rules_window:
  assumes "canonical (resolve_rules pick content old) \<noteq> []" "\<not> anchored (resolve_rules pick content old)"
    and "transform (resolve_rules pick content old) \<in>
      {''leading-indent-shift'', ''fuzzy-line-match'', ''trailing-whitespace-tolerant''}"
  shows "\<exists>w \<in> set (windows (length (lines_of old)) (lines_of content)).
    canonical (resolve_rules pick content old) = lines_text w \<and>
    map (loose_norm (transform (resolve_rules pick content old))) w =
    map (loose_norm (transform (resolve_rules pick content old))) (lines_of old)"
  using assms(1)
proof (cases rule: resolve_rules_cases)
  case anchor
  then show ?thesis using assms anchor_cases by metis
next
  case (shift c sh tr)
  then show ?thesis using shift_match [OF shift(1,2)] by (simp add: loose_norm_def)
next
  case trailing
  then show ?thesis using trailing_match [OF trailing(2)] by (simp add: loose_norm_def)
next
  case fuzzy
  then show ?thesis using fuzzy_match [OF fuzzy(2)] by (simp add: loose_norm_def)
qed (use assms(3) in simp_all)

text \<open>
  A match that ignores white space is used for a single edit only if no other block of lines in the
  file matches in the same way: exactly one window of the file's lines is the quoted one up to that white space.
\<close>

theorem tolerant_match_unique:
  assumes "locate_edit pick content old False = Inr mr" and "\<not> anchored mr"
    and "transform mr \<in> {''leading-indent-shift'', ''fuzzy-line-match'', ''trailing-whitespace-tolerant''}"
  shows "\<exists>w. filter (\<lambda>w. map (loose_norm (transform mr)) w = map (loose_norm (transform mr)) (lines_of old))
      (windows (length (lines_of old)) (lines_of content)) = [w] \<and> canonical mr = lines_text w"
proof -
  note l = locate_edit_Inr [OF assms(1)]
  have r: "mr = resolve_rules pick content old" using l(1) plain_transform assms(3) by simp
  have old: "old \<noteq> ''''" using l(1,2) by (auto simp: resolveOldText.simps)
  let ?f = "filter (\<lambda>w. map (loose_norm (transform mr)) w = map (loose_norm (transform mr)) (lines_of old))
      (windows (length (lines_of old)) (lines_of content))"
  have "transform mr \<noteq> ''''" using assms(3) by auto
  then have "length ?f \<le> 1"
    using l(4) assms(2) recount_plain [OF assms(3) old] by (simp add: lenientRecount_def)
  moreover obtain w where "w \<in> set ?f" "canonical mr = lines_text w"
    using rules_window [of pick content old] l(2) assms(2,3) by (auto simp: r)
  ultimately show ?thesis
    by (cases ?f) (auto simp del: filter_set)
qed

theorem tolerant_match_unique_witness:
  "\<exists>w. filter (\<lambda>w. map (loose_norm ''leading-indent-shift'') w =
        map (loose_norm ''leading-indent-shift'') (lines_of ''x = 1  ''))
      (windows (length (lines_of ''x = 1  '')) (lines_of ''  x = 1'')) = [w] \<and> ''  x = 1'' = lines_text w"
proof -
  have l: "locate_edit (\<lambda>ws. ws) ''  x = 1'' ''x = 1  '' False =
      Inr ((matched_as ''  x = 1'' ''leading-indent-shift'')\<lparr>mr_shift := ''  ''\<rparr>)"
    by code_simp
  show ?thesis using tolerant_match_unique [OF l] by simp
qed

end
