(* ===== verification/EditRound.thy ===== *)
theory EditRound
  imports EditSpace
begin

text \<open>
  From read\_file to edit\_file and back: the numbered lines that \<^verbatim>\<open>readFileRangeWithOptions\<close> prints, quoted as
  old text, are anchored to the lines they were printed from, and the edit replaces exactly those.
\<close>

section \<open>A printed line is read back\<close>

lemma re_space_tab [simp]: "re_space tabc" "re_space sp"
  by (simp_all add: re_space_def byte_val_def)

lemma digit_not_re_space: "is_digit c \<Longrightarrow> \<not> re_space c"
  using digit_not_blank by (auto simp: re_space_def is_digit_def in_range_def)

lemma show_nat_cons: "\<exists>d ds. show_nat n = d # ds \<and> is_digit d"
  using show_nat_digits [of n] show_nat_ne [of n] by (cases "show_nat n") auto

lemma tab_not_digit: "\<not> is_digit tabc"
  by (simp add: is_digit_def in_range_def byte_val_def)

lemma number_prefix_line:
  "number_prefix (numbered_line n l) = (replicate (6 - length (show_nat n)) sp, show_nat n, tabc # l)"
proof -
  obtain d ds where d: "show_nat n = d # ds" "is_digit d" using show_nat_cons by blast
  have "takeWhile re_space (replicate k sp @ d # xs) = replicate k sp"
    "dropWhile re_space (replicate k sp @ d # xs) = d # xs" for k xs
    using digit_not_re_space [OF d(2)] by (induction k) auto
  moreover have "takeWhile is_digit (show_nat n @ tabc # l) = show_nat n"
    "dropWhile is_digit (show_nat n @ tabc # l) = tabc # l"
    using show_nat_digits [of n] tab_not_digit by (auto simp: list_all_iff takeWhile_append2 dropWhile_append2)
  ultimately show ?thesis
    by (simp add: number_prefix_def numbered_line_def pad6_def d)
qed

lemma readFileLineRE_line: "readFileLineRE (numbered_line n l) = Some (show_nat n, l)"
  by (simp add: readFileLineRE_def number_prefix_line HasPrefix_def)

lemma number_only_line: "readFileLineNumberOnlyRE (numbered_line n l) \<longleftrightarrow> list_all re_space l"
  by (auto simp: readFileLineNumberOnlyRE_def number_prefix_line)

lemma parse_printed_line:
  assumes "0 < n" "is_int64 (int n)"
  shows "parseReadFileLine (numbered_line n l) = Some (int n, l)"
proof -
  have "scan_int (show_nat n) = Some (int n)"
    using scan_int_Itoa [of "int n"] assms(2) by (simp add: Itoa_def)
  then show ?thesis using assms(1) by (simp add: parseReadFileLine_def readFileLineRE_line)
qed

text \<open>The block of the lines \<open>a + 1\<close> to \<open>b\<close>, as it is printed.\<close>

definition printed_lines :: "nat \<Rightarrow> string list \<Rightarrow> string list" where
  "printed_lines a ls = map (\<lambda>(i, l). numbered_line (i + 1) l) (enumerate a ls)"

lemma printed_lines_Cons [simp]: "printed_lines a (l # ls) = numbered_line (a + 1) l # printed_lines (Suc a) ls"
  by (simp add: printed_lines_def)

lemma printed_lines_Nil [simp]: "printed_lines a [] = []"
  by (simp add: printed_lines_def)

lemma printed_lines_iff [simp]: "printed_lines a ls = [] \<longleftrightarrow> ls = []"
  by (cases ls) auto

lemma printed_lines_append: "printed_lines a (xs @ ys) = printed_lines a xs @ printed_lines (a + length xs) ys"
  by (induction xs arbitrary: a) auto

lemma printed_lines_nonl:
  "\<forall>l \<in> set ls. lf \<notin> set l \<Longrightarrow> \<forall>l \<in> set (printed_lines a ls). lf \<notin> set l"
proof -
  have "lf \<notin> set (show_nat n)" for n
    using show_nat_digits [of n] by (auto simp: list_all_iff is_digit_def in_range_def byte_val_def)
  then show "\<forall>l \<in> set ls. lf \<notin> set l \<Longrightarrow> ?thesis"
    by (induction ls arbitrary: a) (auto simp: numbered_line_def pad6_def)
qed

lemma numbered_body_printed:
  "is_int64 (int (a + length ls)) \<Longrightarrow> numbered_body (int (a + 1)) (printed_lines a ls) = Some ls"
proof (induction ls arbitrary: a)
  case (Cons l ls)
  have "is_int64 (int (a + 1))" using Cons.prems by (auto simp: is_int64_def min_int_def max_int_def)
  then show ?case using Cons.IH [of "Suc a"] Cons.prems parse_printed_line [of "a + 1" l]
    by (simp add: add.commute)
qed simp

text \<open>A block whose first and last lines are not blank.\<close>

definition solid :: "string list \<Rightarrow> bool" where
  "solid ls \<longleftrightarrow> ls \<noteq> [] \<and> \<not> list_all re_space (hd ls) \<and> \<not> list_all re_space (last ls)"

lemma printed_ends:
  assumes "solid ls"
  shows "\<exists>x xs. printed_lines a ls = x # xs \<and> \<not> readFileLineNumberOnlyRE x"
    and "\<exists>y ys. rev (printed_lines a ls) = y # ys \<and> \<not> readFileLineNumberOnlyRE y"
proof -
  obtain x xs where x: "ls = x # xs" using assms by (cases ls) (auto simp: solid_def)
  then show "\<exists>x xs. printed_lines a ls = x # xs \<and> \<not> readFileLineNumberOnlyRE x"
    using assms number_only_line by (auto simp: solid_def)
  obtain ys y where "ls = ys @ [y]" using assms by (cases ls rule: rev_cases) (auto simp: solid_def)
  then show "\<exists>y ys. rev (printed_lines a ls) = y # ys \<and> \<not> readFileLineNumberOnlyRE y"
    using assms number_only_line by (auto simp: solid_def printed_lines_append)
qed

lemma dangling_printed:
  assumes "solid ls"
  shows "trimDanglingReadFileLineNumberOnlyLines (printed_lines a ls) = printed_lines a ls"
proof -
  obtain x xs where x: "printed_lines a ls = x # xs" "\<not> readFileLineNumberOnlyRE x"
    using printed_ends(1) [OF assms] by blast
  obtain y ys where y: "rev (printed_lines a ls) = y # ys" "\<not> readFileLineNumberOnlyRE y"
    using printed_ends(2) [OF assms] by blast
  have "dropWhile readFileLineNumberOnlyRE (printed_lines a ls) = printed_lines a ls" using x by simp
  moreover have "dropWhile readFileLineNumberOnlyRE (rev (printed_lines a ls)) = rev (printed_lines a ls)"
    using y by simp
  ultimately show ?thesis by (simp only: trimDanglingReadFileLineNumberOnlyLines_def rev_rev_ident if_cancel)
qed

lemma parse_printed_block:
  assumes "solid ls" "\<forall>l \<in> set ls. lf \<notin> set l" "is_int64 (int (a + length ls))"
  shows "parseReadFileNumberedBlock (lines_text (printed_lines a ls)) = Some (int (a + 1), ls)"
proof -
  obtain x xs where ls: "ls = x # xs" using assms(1) by (cases ls) (auto simp: solid_def)
  have "lines_of (lines_text (printed_lines a ls)) = printed_lines a ls"
    using assms(1) printed_lines_nonl [OF assms(2)] by (intro lines_of_lines_text) (auto simp: solid_def)
  moreover have "is_int64 (int (a + 1))" using assms(3) by (auto simp: ls is_int64_def min_int_def max_int_def)
  moreover have "numbered_body (int (a + 1) + 1) (printed_lines (Suc a) xs) = Some xs"
    using numbered_body_printed [of "Suc a" xs] assms(3) by (simp add: ls add.commute add.left_commute)
  ultimately show ?thesis
    using dangling_printed [OF assms(1), of a] parse_printed_line [of "a + 1" x]
    by (simp add: parseReadFileNumberedBlock_def ls)
qed

lemma printed_no_wrapper: "\<not> blank_line (numbered_line n l)" "\<not> readFileWrapperLineRE (numbered_line n l)"
proof -
  obtain d ds where d: "show_nat n = d # ds" "is_digit d" using show_nat_cons by blast
  have "\<not> is_space d" using digit_not_blank [OF d(2)] d(2) by (auto simp: is_space_def is_digit_def in_range_def)
  then have "dropWhile is_space (replicate k sp @ d # xs) = d # xs" for k xs by (induction k) auto
  then have "dropWhile is_space (numbered_line n l) = d # ds @ tabc # l"
    by (simp add: numbered_line_def pad6_def d)
  then show "\<not> blank_line (numbered_line n l)"
    using \<open>\<not> is_space d\<close>
    by (auto simp: blank_line_def TrimSpace_def trim_left_by_def trim_right_by_def)
  have "d \<noteq> CHR ''['' \<and> d \<noteq> CHR ''=''" using d(2) by (auto simp: is_digit_def in_range_def byte_val_def)
  then have "\<exists>c r. numbered_line n l = c # r \<and> c \<noteq> CHR ''['' \<and> c \<noteq> CHR ''=''"
    by (cases "6 - length (show_nat n)") (auto simp: numbered_line_def pad6_def d)
  then show "\<not> readFileWrapperLineRE (numbered_line n l)"
    by (auto simp: readFileWrapperLineRE_def HasPrefix_def)
qed

lemma wrapper_bounds_none:
  assumes "ls \<noteq> []" "\<not> blank_line (hd ls)" "\<not> readFileWrapperLineRE (hd ls)"
    and "\<not> blank_line (last ls)" "\<not> readFileWrapperLineRE (last ls)"
  shows "wrapper_start ls = 0 \<and> wrapper_end ls 0 = length ls"
proof -
  obtain x xs where x: "ls = x # xs" using assms(1) by (cases ls) auto
  obtain ys y where y: "ls = ys @ [y]" using assms(1) by (cases ls rule: rev_cases) auto
  have "wrapper_start ls = 0" using assms(2,3) by (simp add: wrapper_start_def x)
  moreover have "wrapper_end ls 0 = length ls" using assms(4,5) by (simp add: wrapper_end_def y)
  ultimately show ?thesis by simp
qed

lemma trim_printed:
  assumes "solid ls" "\<forall>l \<in> set ls. lf \<notin> set l"
  shows "trimReadFileWrapperLines (lines_text (printed_lines a ls)) = None"
proof -
  have "lines_of (lines_text (printed_lines a ls)) = printed_lines a ls"
    using assms printed_lines_nonl [OF assms(2)] by (intro lines_of_lines_text) (auto simp: solid_def)
  moreover have "x \<in> set (printed_lines a ls) \<Longrightarrow> \<not> blank_line x \<and> \<not> readFileWrapperLineRE x" for x
    using printed_no_wrapper by (auto simp: printed_lines_def)
  moreover have "printed_lines a ls \<noteq> []" using assms(1) by (simp add: solid_def)
  ultimately show ?thesis
    using wrapper_bounds_none [of "printed_lines a ls"] by (simp add: trimReadFileWrapperLines_def Let_def)
qed

section \<open>The offsets of lines\<close>

definition nl_lines :: "string list \<Rightarrow> string" where
  "nl_lines ls = concat (map (\<lambda>l. l @ [lf]) ls)"

lemma nl_lines_simps [simp]: "nl_lines [] = []" "nl_lines (l # ls) = l @ lf # nl_lines ls"
  "nl_lines (xs @ ys) = nl_lines xs @ nl_lines ys"
  by (simp_all add: nl_lines_def)

lemma join_nl_lines: "ys \<noteq> [] \<Longrightarrow> lines_text (xs @ ys) = nl_lines xs @ lines_text ys"
  by (induction xs) (auto simp: lines_text_def Join_Cons)

lemma nl_lines_join: "ls \<noteq> [] \<Longrightarrow> nl_lines ls = lines_text ls @ [lf]"
  by (induction ls) (auto simp: lines_text_def Join_Cons)

text \<open>The lines of a file as \<^verbatim>\<open>read_file\<close> and \<^verbatim>\<open>splitFileLines\<close> see them: no line behind the last newline.\<close>

definition file_lines :: "string \<Rightarrow> string list" where
  "file_lines s = (if last (lines_of s) = '''' then butlast (lines_of s) else lines_of s)"

lemma lines_of_index:
  "IndexByte s lf = Some r \<Longrightarrow> lines_of s = take r s # lines_of (drop (r + 1) s)"
proof -
  assume i: "IndexByte s lf = Some r"
  then have lt: "r < length s" and nth: "s ! r = lf" and before: "lf \<notin> set (take r s)"
    using index_by_Some [of "\<lambda>c. c = lf" s r] by (auto simp: IndexByte_def in_set_conv_nth)
  have "s = take r s @ lf # drop (r + 1) s" using id_take_nth_drop [OF lt] nth by simp
  then show ?thesis using Split_Cons [OF before, of "drop (r + 1) s"] by (simp add: lines_of_def)
qed

lemma file_lines_Nil [simp]: "file_lines [] = []"
  by (simp add: file_lines_def lines_of_def Split_nosep)

lemma file_lines_None: "s \<noteq> [] \<Longrightarrow> IndexByte s lf = None \<Longrightarrow> file_lines s = [s]"
proof -
  assume s: "s \<noteq> []" "IndexByte s lf = None"
  then have "lf \<notin> set s" using index_by_None [of "\<lambda>c. c = lf" s] by (auto simp: IndexByte_def)
  then have "lines_of s = [s]" by (simp add: lines_of_def Split_nosep)
  then show ?thesis using s(1) by (simp add: file_lines_def)
qed

lemma file_lines_Some:
  assumes "IndexByte s lf = Some r"
  shows "file_lines s = take r s # file_lines (drop (r + 1) s)"
  using lines_of_index [OF assms] by (simp add: file_lines_def)

lemma split_from_offsets:
  "length (split_from o' s) = length (file_lines s) \<and>
   (\<forall>i < length (file_lines s).
      fl_start (split_from o' s ! i) = o' + length (nl_lines (take i (file_lines s))) \<and>
      fl_end (split_from o' s ! i) = o' + length (nl_lines (take i (file_lines s))) + length (file_lines s ! i))"
proof (induction o' s rule: split_from.induct)
  case (1 o' s)
  show ?case
  proof (cases "s = []")
    case True
    then show ?thesis by (simp add: split_from.simps)
  next
    case False
    show ?thesis
    proof (cases "IndexByte s lf")
      case None
      then show ?thesis using False by (simp add: split_from.simps file_lines_None)
    next
      case (Some r)
      have "length (take r s) = r" using IndexByte_lt [OF Some] by simp
      then show ?thesis using 1 [OF False Some] False Some
        by (auto simp: split_from.simps [of o' s] file_lines_Some nth_Cons' take_Cons')
    qed
  qed
qed

lemma file_lines_prefix: "\<exists>e. lines_of s = file_lines s @ e"
  by (auto simp: file_lines_def) (metis append_butlast_last_id lines_of_ne)

lemma lines_parts:
  assumes "a < b" "b \<le> length (file_lines s)"
  defines "L \<equiv> lines_of s" and "w \<equiv> take (b - a) (drop a (file_lines s))"
  shows "L = take a L @ w @ drop b L" "w \<noteq> []" "\<And>i. i \<le> b \<Longrightarrow> take i (file_lines s) = take i L"
proof -
  obtain e where e: "L = file_lines s @ e" using file_lines_prefix L_def by blast
  show "w \<noteq> []" using assms by simp
  show "\<And>i. i \<le> b \<Longrightarrow> take i (file_lines s) = take i L" using assms(2) by (simp add: e)
  have "w = take (b - a) (drop a L)" using assms(1,2) by (simp add: e w_def)
  then show "L = take a L @ w @ drop b L"
    by (metis append_take_drop_id assms(1) drop_drop le_add_diff_inverse2 less_imp_le_nat)
qed

section \<open>The round trip\<close>

lemma join_window:
  assumes "w \<noteq> []"
  shows "lines_text (xs @ w @ ys) = nl_lines xs @ lines_text w @ (if ys = [] then [] else lf # lines_text ys)"
  using assms by (cases "ys = []") (auto simp: join_nl_lines nl_lines_join)

lemma anchored_window:
  assumes "a < b" "b \<le> length (file_lines s)"
  defines "fls \<equiv> splitFileLines s" and "w \<equiv> take (b - a) (drop a (file_lines s))"
  shows "fl_start (fls ! a) = length (nl_lines (take a (lines_of s)))"
    and "fl_end (fls ! (b - 1)) - fl_start (fls ! a) = length (lines_text w)"
proof -
  let ?F = "file_lines s"
  note o = split_from_offsets [of 0 s, folded splitFileLines_def]
  have start: "fl_start (fls ! a) = length (nl_lines (take a ?F))"
    and stop: "fl_end (fls ! (b - 1)) = length (nl_lines (take (b - 1) ?F)) + length (?F ! (b - 1))"
    using o assms(1,2) by (auto simp: fls_def)
  show "fl_start (fls ! a) = length (nl_lines (take a (lines_of s)))"
    using start lines_parts(3) [OF assms(1,2), of a] assms(1) by simp
  have "take b ?F = take (b - 1) ?F @ [?F ! (b - 1)]"
    using take_Suc_conv_app_nth [of "b - 1" ?F] assms(1,2) by simp
  moreover have "take b ?F = take a ?F @ w"
    using assms(1) take_add [of a "b - a" ?F] by (simp add: w_def)
  moreover have "nl_lines w = lines_text w @ [lf]"
    using lines_parts(2) [OF assms(1,2)] by (intro nl_lines_join) (simp add: w_def)
  ultimately have "length (nl_lines (take (b - 1) ?F)) + length (?F ! (b - 1)) + 1 =
      length (nl_lines (take a ?F)) + length (lines_text w) + 1"
    by (metis (no_types) length_append nl_lines_simps(1,2,3) length_Cons append_Nil2 list.size(3) add.assoc add_0 One_nat_def add_Suc_right)
  then show "fl_end (fls ! (b - 1)) - fl_start (fls ! a) = length (lines_text w)"
    using start stop by simp
qed

lemma resolve_printed:
  assumes ab: "a < b" "b \<le> length (file_lines content)" "is_int64 (int b)"
    and w: "w = take (b - a) (drop a (file_lines content))" and solid: "solid w"
    and quoted: "\<not> Contains content (lines_text (printed_lines a w))"
  shows "resolveOldText pick content (lines_text (printed_lines a w)) =
    \<lparr>canonical = lines_text w, transform = ''line-numbers-stripped'', mr_shift = '''', mr_trim = '''',
     mr_start = length (nl_lines (take a (lines_of content))), anchored = True\<rparr>"
proof -
  let ?old = "lines_text (printed_lines a w)" and ?fls = "splitFileLines content"
  have len: "length w = b - a" using ab by (simp add: w)
  have "set w \<subseteq> set (lines_of content)"
    using file_lines_prefix [of content] by (auto simp: w dest!: in_set_takeD in_set_dropD)
  then have nonl: "\<forall>l \<in> set w. lf \<notin> set l" using lines_of_nonl by blast
  have block: "parseReadFileNumberedBlock ?old = Some (int (a + 1), w)"
    using parse_printed_block [OF solid nonl] ab len by simp
  have start: "fl_start (?fls ! a) = length (nl_lines (take a (lines_of content)))"
    and wid: "fl_end (?fls ! (b - 1)) - fl_start (?fls ! a) = length (lines_text w)"
    using anchored_window [OF ab(1,2)] by (simp_all add: w)
  have "content = nl_lines (take a (lines_of content)) @ lines_text w @
      (if drop b (lines_of content) = [] then [] else lf # lines_text (drop b (lines_of content)))"
    using join_window [of w "take a (lines_of content)" "drop b (lines_of content)"] solid
      lines_parts(1) [OF ab(1,2)] lines_text_of [of content] by (simp add: solid_def w)
  then have cand: "take (length (lines_text w)) (drop (fl_start (?fls ! a)) content) = lines_text w"
    by (metis start append_eq_conv_conj)
  have ne: "lines_text w \<noteq> []" using solid by (cases w) (auto simp: solid_def lines_text_def Join_Cons split: if_splits)
  have fl: "length ?fls = length (file_lines content)"
    using split_from_offsets [of 0 content] by (simp add: splitFileLines_def)
  have idx: "a + length w - 1 = b - 1" "nat (int (a + 1) - 1) = a" using ab len by auto
  have inside: "(int (a + 1) \<le> 0 \<or> int (a + 1) + int (length w) - 1 > int (length ?fls)) = False"
    using ab len fl by simp
  have same: "resolveAnchoredCandidate pick content (lines_text w) (lines_text w) = matched_as (lines_text w) ''''"
    by (simp add: resolveAnchoredCandidate_def)
  have "tryReadFileLineAnchor pick content ?old =
      (matched_as (lines_text w) '''')\<lparr>canonical := lines_text w, transform := ''line-numbers-stripped'',
        mr_start := fl_start (?fls ! a), anchored := True\<rparr>"
    unfolding tryReadFileLineAnchor_def block option.case prod.case Let_def inside idx wid cand same if_False
    using ne by (simp add: prependTransform_def)
  then have anch: "tryReadFileLineAnchor pick content ?old =
      \<lparr>canonical = lines_text w, transform = ''line-numbers-stripped'', mr_shift = '''', mr_trim = '''',
       mr_start = length (nl_lines (take a (lines_of content))), anchored = True\<rparr>"
    by (simp add: matched_as_def no_match_def start)
  have "resolveOldText pick content ?old = resolve_rules pick content ?old"
    using quoted trim_printed [OF solid nonl, of a]
    by (subst resolveOldText.simps) (auto simp: Contains_iff_sublist)
  also have "\<dots> = tryReadFileLineAnchor pick content ?old"
    using ne by (simp add: resolve_rules_def anch)
  finally show ?thesis using anch by simp
qed

lemma printed_edit:
  assumes ab: "a < b" "b \<le> length (file_lines content)" "is_int64 (int b)"
    and w: "w = take (b - a) (drop a (file_lines content))" and solid: "solid w"
    and quoted: "\<not> Contains content (lines_text (printed_lines a w))"
  shows "\<exists>mr. locate_edit pick content (lines_text (printed_lines a w)) False = Inr mr \<and>
    apply_edit pick content new mr False =
      lines_text (take a (lines_of content) @ replacement pick content new mr # drop b (lines_of content))"
proof -
  let ?old = "lines_text (printed_lines a w)"
  let ?mr = "resolveOldText pick content ?old" and ?L = "lines_of content"
  note r = resolve_printed [OF assms]
  have ne: "lines_text w \<noteq> []" using solid by (cases w) (auto simp: solid_def lines_text_def Join_Cons split: if_splits)
  have l: "locate_edit pick content ?old False = Inr ?mr"
    using ne by (simp add: locate_edit_def r Let_def)
  have c: "content = nl_lines (take a ?L) @ lines_text w @ (if drop b ?L = [] then [] else lf # lines_text (drop b ?L))"
    using join_window [of w "take a ?L" "drop b ?L"] solid
      lines_parts(1) [OF ab(1,2)] lines_text_of [of content] by (simp add: solid_def w)
  have "apply_edit pick content new ?mr False =
      take (length (nl_lines (take a ?L))) content @ replacement pick content new ?mr @
      drop (length (nl_lines (take a ?L)) + length (lines_text w)) content"
    by (simp add: apply_edit_def r Let_def)
  also have "\<dots> = nl_lines (take a ?L) @ replacement pick content new ?mr @
      (if drop b ?L = [] then [] else lf # lines_text (drop b ?L))"
    using c by (metis append_eq_conv_conj drop_drop add.commute)
  also have "\<dots> = lines_text (take a ?L @ [replacement pick content new ?mr] @ drop b ?L)"
    by (subst join_window) (simp_all add: lines_text_def)
  finally show ?thesis using l by auto
qed

lemma printed_lines_slice:
  "b \<le> length ls \<Longrightarrow> printed_lines a (take (b - a) (drop a ls)) = map (\<lambda>i. numbered_line (i + 1) (ls ! i)) [a..<b]"
  by (intro nth_equalityI) (auto simp: printed_lines_def nth_enumerate_eq)

lemma read_block:
  assumes "a < b" "b \<le> length (file_lines content)" "is_int64 (int b)"
  shows "\<exists>rest. readFileRangeWithOptions content (int a + 1) (int b - int a) opts =
    lines_text (printed_lines a (take (b - a) (drop a (file_lines content)))) @ lf # rest"
proof -
  let ?F = "file_lines content"
  have ls: "(if last (lines_of content) = '''' then butlast (lines_of content) else lines_of content) = ?F"
    by (simp add: file_lines_def)
  have w: "wrap64 (int a + 1 - 1) = int a" "wrap64 (int a + (int b - int a)) = int b"
    using assms by (auto simp: is_int64_def min_int_def max_int_def intro: wrap64_small)
  have c: "concat (map (\<lambda>i. numbered_line (i + 1) (?F ! i) @ [lf]) [a..<b]) =
      nl_lines (printed_lines a (take (b - a) (drop a ?F)))"
    by (simp add: nl_lines_def printed_lines_slice assms(2) comp_def)
  have 1: "(if wrap64 (int a + 1 - 1) < 0 then 0 else wrap64 (int a + 1 - 1)) = int a" by (simp only: w) simp
  have 2: "(int (length ?F) \<le> int a) = False" "(0 < int b - int a) = True" "(int (length ?F) < int b) = False"
    using assms(1,2) by auto
  have ne: "printed_lines a (take (b - a) (drop a ?F)) \<noteq> []" using assms(1,2) by simp
  show ?thesis
    unfolding readFileRangeWithOptions_def Let_def ls 1 2 if_False if_True w(2) nat_int c nl_lines_join [OF ne]
    by simp
qed



end
