(* ===== verification/Messages.thy ===== *)
theory Messages
  imports GoText Json GoNum "HOL-Library.AList"
begin

text \<open>
  The conversation (\<^verbatim>\<open>Message\<close> and \<^verbatim>\<open>ContentBlock\<close> of \<^verbatim>\<open>internal/provider/provider.go\<close>) and the functions of
  \<^verbatim>\<open>internal/context/manager.go\<close> that work on the list of messages alone: pairing tool calls with their results,
  groups of interactions, and finding marked messages. Of a block the fields that these functions read or write
  are modelled; the other fields are carried along by the code and never looked at. The input of a call is the
  JSON value it denotes.
\<close>

record ContentBlock =
  b_type :: string
  b_text :: string
  b_imageData :: string
  b_toolName :: string
  b_toolID :: string
  b_input :: raw_message
  b_output :: string
  b_isError :: bool
  b_images :: "(string \<times> string) list"
  b_reasoning :: string
  b_signature :: string

definition empty_block :: ContentBlock where
  "empty_block = \<lparr>b_type = '''', b_text = '''', b_imageData = '''', b_toolName = '''', b_toolID = '''',
     b_input = None, b_output = '''', b_isError = False, b_images = [], b_reasoning = '''', b_signature = ''''\<rparr>"

definition TextBlock :: "string \<Rightarrow> ContentBlock" where
  "TextBlock t = empty_block\<lparr>b_type := ''text'', b_text := t\<rparr>"

definition ToolUseBlock :: "string \<Rightarrow> string \<Rightarrow> raw_message \<Rightarrow> ContentBlock" where
  "ToolUseBlock tid name input =
     empty_block\<lparr>b_type := ''tool_use'', b_toolID := tid, b_toolName := name, b_input := input\<rparr>"

definition ToolResultNamedBlock :: "string \<Rightarrow> string \<Rightarrow> string \<Rightarrow> bool \<Rightarrow> ContentBlock" where
  "ToolResultNamedBlock tid name output err =
     empty_block\<lparr>b_type := ''tool_result'', b_toolID := tid, b_toolName := name, b_output := output, b_isError := err\<rparr>"

record Message =
  msg_id :: string
  role :: string
  blocks :: "ContentBlock list"

definition is_use :: "ContentBlock \<Rightarrow> bool" where
  "is_use b \<longleftrightarrow> b_type b = ''tool_use''"

definition is_result :: "ContentBlock \<Rightarrow> bool" where
  "is_result b \<longleftrightarrow> b_type b = ''tool_result''"

definition is_assistant :: "Message \<Rightarrow> bool" where
  "is_assistant m \<longleftrightarrow> role m = ''assistant''"

definition use_ids :: "Message \<Rightarrow> string list" where
  "use_ids m = map b_toolID (filter is_use (blocks m))"

definition result_ids :: "Message \<Rightarrow> string list" where
  "result_ids m = map b_toolID (filter is_result (blocks m))"

section \<open>Results without a call\<close>

text \<open>The blocks that are kept and the calls that are still open behind them.\<close>

fun keep_results :: "string list \<Rightarrow> ContentBlock list \<Rightarrow> ContentBlock list \<times> string list" where
  "keep_results opn [] = ([], opn)"
| "keep_results opn (b # bs) =
     (if \<not> is_result b then (let (ks, o1) = keep_results opn bs in (b # ks, o1))
      else if b_toolID b \<in> set opn
      then (let (ks, o1) = keep_results (removeAll (b_toolID b) opn) bs in (b # ks, o1))
      else keep_results opn bs)"

fun remove_orphans :: "string list \<Rightarrow> Message list \<Rightarrow> Message list \<times> bool" where
  "remove_orphans opn [] = ([], False)"
| "remove_orphans opn (m # ms) =
     (let o1 = (if is_assistant m then use_ids m @ opn else opn);
          (kept, o2) = keep_results o1 (blocks m);
          (rest, changed) = remove_orphans o2 ms
      in if \<not> list_ex is_result (blocks m) then (m # rest, changed)
         else if kept = [] then (rest, True)
         else if length kept < length (blocks m) then (m\<lparr>blocks := kept\<rparr> # rest, True)
         else (m # rest, changed))"

section \<open>Calls without a result\<close>

definition nextAssistantIndex :: "Message list \<Rightarrow> nat \<Rightarrow> nat" where
  "nextAssistantIndex ms start =
     start + 1 + length (takeWhile (\<lambda>m. \<not> is_assistant m) (drop (start + 1) ms))"

text \<open>The map from the ids of the calls of a message to the names of their tools; the last call of an id wins.\<close>

definition call_map :: "Message \<Rightarrow> (string \<times> string) list" where
  "call_map m = fold (\<lambda>b. AList.update (b_toolID b) (b_toolName b)) (filter is_use (blocks m)) []"

type_synonym late_result = "nat \<times> nat \<times> ContentBlock"

record reconcileNeedFix =
  insertBefore :: nat
  lateBlocks :: "late_result list"
  missingIDs :: "(string \<times> string) list"

definition late_in :: "string \<Rightarrow> nat \<times> Message \<Rightarrow> late_result option" where
  "late_in tid jm =
     first_some (\<lambda>(bi, b). if is_result b \<and> b_toolID b = tid then Some (fst jm, bi, b) else None)
       (enumerate 0 (blocks (snd jm)))"

definition find_late :: "Message list \<Rightarrow> nat \<Rightarrow> string \<Rightarrow> late_result option" where
  "find_late ms boundary tid = first_some (late_in tid) (enumerate boundary (drop boundary ms))"

definition findLateOrMissingResults ::
  "Message list \<Rightarrow> (string \<times> string) list \<Rightarrow> nat \<Rightarrow> late_result list \<times> (string \<times> string) list" where
  "findLateOrMissingResults ms toolIDs boundary =
     (concat (map (\<lambda>p. case find_late ms boundary (fst p) of Some l \<Rightarrow> [l] | None \<Rightarrow> []) toolIDs),
      filter (\<lambda>p. find_late ms boundary (fst p) = None) toolIDs)"

text \<open>\<^verbatim>\<open>pick\<close> is the order in which the run ranges over the map of the message at an index.\<close>

type_synonym call_order = "nat \<Rightarrow> (string \<times> string) list \<Rightarrow> (string \<times> string) list"

definition all_results :: "Message list \<Rightarrow> string list" where
  "all_results ms = concat (map result_ids ms)"

definition unanswered :: "Message list \<Rightarrow> nat \<Rightarrow> (string \<times> string) list" where
  "unanswered ms idx =
     filter (\<lambda>p. fst p \<notin> set (all_results (drop (idx + 1) (take (nextAssistantIndex ms idx) ms))))
       (call_map (ms ! idx))"

definition fix_at :: "call_order \<Rightarrow> Message list \<Rightarrow> nat \<Rightarrow> reconcileNeedFix list" where
  "fix_at pick ms idx =
     (if \<not> is_assistant (ms ! idx) then []
      else let nxt = nextAssistantIndex ms idx;
               found = findLateOrMissingResults ms (range_order (pick idx) (unanswered ms idx)) nxt
           in if fst found = [] \<and> snd found = [] then []
              else [\<lparr>insertBefore = nxt, lateBlocks = fst found, missingIDs = snd found\<rparr>])"

definition collectReconcileFixes :: "call_order \<Rightarrow> Message list \<Rightarrow> reconcileNeedFix list" where
  "collectReconcileFixes pick ms = concat (map (fix_at pick ms) [0..<length ms])"

text \<open>The blocks of the message that a fix inserts: one for each id.\<close>

definition cancelled_block :: "string \<times> string \<Rightarrow> ContentBlock" where
  "cancelled_block p =
     ToolResultNamedBlock (fst p) (if snd p = '''' then ''unknown'' else snd p)
       ''operation cancelled - tool call was interrupted before it could complete'' True"

fun dedup_ids :: "string list \<Rightarrow> ContentBlock list \<Rightarrow> ContentBlock list" where
  "dedup_ids seen [] = []"
| "dedup_ids seen (b # bs) =
     (if b_toolID b \<in> set seen then dedup_ids seen bs else b # dedup_ids (b_toolID b # seen) bs)"

definition fix_content :: "reconcileNeedFix \<Rightarrow> ContentBlock list" where
  "fix_content fx =
     dedup_ids [] (map (\<lambda>l. snd (snd l)) (lateBlocks fx) @ map cancelled_block (missingIDs fx))"

definition insertions :: "reconcileNeedFix list \<Rightarrow> (nat \<times> Message) list" where
  "insertions fixes =
     concat (map (\<lambda>fx. if fix_content fx = [] then []
       else [(insertBefore fx, \<lparr>msg_id = '''', role = ''user'', blocks = fix_content fx\<rparr>)]) fixes)"

definition staleBlockIdxs :: "reconcileNeedFix list \<Rightarrow> (nat \<times> nat) list" where
  "staleBlockIdxs fixes = concat (map (\<lambda>fx. map (\<lambda>l. (fst l, fst (snd l))) (lateBlocks fx)) fixes)"

definition stripStaleBlocks :: "nat list \<Rightarrow> ContentBlock list \<Rightarrow> ContentBlock list" where
  "stripStaleBlocks stale bs = map snd (filter (\<lambda>(bi, b). bi \<notin> set stale) (enumerate 0 bs))"

definition stale_at :: "(nat \<times> nat) list \<Rightarrow> nat \<Rightarrow> nat list" where
  "stale_at stale i = map snd (filter (\<lambda>p. fst p = i) stale)"

definition inserted_at :: "(nat \<times> Message) list \<Rightarrow> nat \<Rightarrow> Message list" where
  "inserted_at ins i = map snd (filter (\<lambda>p. fst p = i) ins)"

definition kept_message :: "(nat \<times> nat) list \<Rightarrow> nat \<Rightarrow> Message \<Rightarrow> Message list" where
  "kept_message stale i m =
     (if stale_at stale i = [] then [m]
      else let kept = stripStaleBlocks (stale_at stale i) (blocks m) in
           if kept = [] then [] else [m\<lparr>blocks := kept\<rparr>])"

fun rebuild_from ::
  "(nat \<times> Message) list \<Rightarrow> (nat \<times> nat) list \<Rightarrow> nat \<Rightarrow> Message list \<Rightarrow> Message list" where
  "rebuild_from ins stale i [] = inserted_at ins i"
| "rebuild_from ins stale i (m # ms) =
     inserted_at ins i @ kept_message stale i m @ rebuild_from ins stale (i + 1) ms"

definition rebuildReconciledMessages ::
  "Message list \<Rightarrow> (nat \<times> Message) list \<Rightarrow> (nat \<times> nat) list \<Rightarrow> Message list" where
  "rebuildReconciledMessages ms ins stale = rebuild_from ins stale 0 ms"

definition reconcile :: "call_order \<Rightarrow> Message list \<Rightarrow> Message list" where
  "reconcile pick ms =
     (let ms1 = fst (remove_orphans [] ms); fixes = collectReconcileFixes pick ms1 in
      if fixes = [] then ms1
      else rebuildReconciledMessages ms1 (insertions fixes) (staleBlockIdxs fixes))"

end
