(* ===== verification/CtxPairing.thy ===== *)
theory CtxPairing
  imports Messages
begin

text \<open>
  What \<^verbatim>\<open>ReconcileToolCalls\<close> achieves on the list of messages: every tool call of an assistant message is
  answered before the next assistant message, no result is left that answers another call, and nothing but
  results is added or removed.
\<close>

section \<open>The protocol\<close>

definition segment :: "Message list \<Rightarrow> Message list" where
  "segment ms = takeWhile (\<lambda>m. \<not> is_assistant m) ms"

definition all_uses :: "Message list \<Rightarrow> string list" where
  "all_uses ms = concat (map use_ids (filter is_assistant ms))"

text \<open>Every call is answered in its segment, and a segment holds results of its own calls only.\<close>

fun paired :: "Message list \<Rightarrow> bool" where
  "paired [] \<longleftrightarrow> True"
| "paired (m # ms) \<longleftrightarrow>
     (is_assistant m \<longrightarrow> set (use_ids m) \<subseteq> set (all_results (segment ms))) \<and> paired ms"

fun exact :: "Message list \<Rightarrow> bool" where
  "exact [] \<longleftrightarrow> True"
| "exact (m # ms) \<longleftrightarrow>
     (is_assistant m \<longrightarrow> set (all_results (segment ms)) \<subseteq> set (use_ids m)) \<and> exact ms"

definition protocol_ok :: "Message list \<Rightarrow> bool" where
  "protocol_ok ms \<longleftrightarrow> paired ms \<and> exact ms \<and> all_results (segment ms) = []"

text \<open>The hypotheses on a conversation: ids of calls are not reused, results are not in assistant messages.\<close>

definition calls_distinct :: "Message list \<Rightarrow> bool" where
  "calls_distinct ms \<longleftrightarrow> distinct (all_uses ms)"

definition results_outside :: "Message list \<Rightarrow> bool" where
  "results_outside ms \<longleftrightarrow> list_all (\<lambda>m. is_assistant m \<longrightarrow> \<not> list_ex is_result (blocks m)) ms"

lemma all_results_simps [simp]: "all_results [] = []" "all_results (m # ms) = result_ids m @ all_results ms"
  "all_results (xs @ ys) = all_results xs @ all_results ys"
  by (simp_all add: all_results_def)

lemma all_uses_simps [simp]: "all_uses [] = []"
  "all_uses (m # ms) = (if is_assistant m then use_ids m else []) @ all_uses ms"
  "all_uses (xs @ ys) = all_uses xs @ all_uses ys"
  by (simp_all add: all_uses_def)

lemma segment_simps [simp]: "segment [] = []" "segment (m # ms) = (if is_assistant m then [] else m # segment ms)"
  by (simp_all add: segment_def)

lemma segment_append: "list_all (\<lambda>m. \<not> is_assistant m) xs \<Longrightarrow> segment (xs @ ys) = xs @ segment ys"
  by (induction xs) auto

lemma result_ids_block: "b \<in> set (blocks m) \<Longrightarrow> is_result b \<Longrightarrow> b_toolID b \<in> set (result_ids m)"
  by (auto simp: result_ids_def)

lemma in_set_drop_nth: "x \<in> set (drop n xs) \<longleftrightarrow> (\<exists>i. n \<le> i \<and> i < length xs \<and> x = xs ! i)"
proof
  assume "x \<in> set (drop n xs)"
  then obtain k where "k < length (drop n xs)" "x = drop n xs ! k" by (auto simp: in_set_conv_nth)
  then show "\<exists>i. n \<le> i \<and> i < length xs \<and> x = xs ! i" by (intro exI [of _ "n + k"]) auto
next
  assume "\<exists>i. n \<le> i \<and> i < length xs \<and> x = xs ! i"
  then obtain i where i: "n \<le> i" "i < length xs" "x = xs ! i" by blast
  then have "drop n xs ! (i - n) = x" "i - n < length (drop n xs)" by auto
  then show "x \<in> set (drop n xs)" by (metis nth_mem)
qed

section \<open>The rebuilt list\<close>

lemma rebuild_split:
  assumes "i \<le> k" "k \<le> length ms"
  shows "rebuild_from ins stale i (drop i ms) =
    concat (map (\<lambda>j. inserted_at ins j @ kept_message stale j (ms ! j)) [i..<k]) @
    rebuild_from ins stale k (drop k ms)"
  using assms
proof (induction "k - i" arbitrary: i)
  case (Suc d)
  then have lt: "i < k" "i < length ms" by auto
  have "rebuild_from ins stale i (drop i ms) =
      inserted_at ins i @ kept_message stale i (ms ! i) @ rebuild_from ins stale (Suc i) (drop (Suc i) ms)"
    using Cons_nth_drop_Suc [OF lt(2)] by (metis rebuild_from.simps(2) Suc_eq_plus1)
  also have "rebuild_from ins stale (Suc i) (drop (Suc i) ms) =
      concat (map (\<lambda>j. inserted_at ins j @ kept_message stale j (ms ! j)) [Suc i..<k]) @
      rebuild_from ins stale k (drop k ms)"
    using Suc lt by (intro Suc(1)) auto
  finally show ?case using lt by (simp add: upt_rec [of i k])
qed simp

lemma rebuild_head: "rebuild_from ins stale k (drop k ms) = inserted_at ins k @
    (if k < length ms then kept_message stale k (ms ! k) @ rebuild_from ins stale (Suc k) (drop (Suc k) ms) else [])"
  using Cons_nth_drop_Suc [of k ms] by (cases "k < length ms") (auto, metis rebuild_from.simps(2) Suc_eq_plus1)

lemma kept_message_role: "m' \<in> set (kept_message stale i m) \<Longrightarrow> is_assistant m' = is_assistant m"
  by (auto simp: kept_message_def Let_def is_assistant_def split: if_splits)

lemma set_stripStaleBlocks: "set (stripStaleBlocks stale bs) = {bs ! i |i. i < length bs \<and> i \<notin> set stale}"
  unfolding stripStaleBlocks_def by (force simp: in_set_enumerate_eq image_iff)

lemma kept_message_blocks:
  "b \<in> set (concat (map blocks (kept_message stale i m))) \<longleftrightarrow>
   (\<exists>bi < length (blocks m). b = blocks m ! bi \<and> (i, bi) \<notin> set stale)"
proof -
  have s: "bi \<in> set (stale_at stale i) \<longleftrightarrow> (i, bi) \<in> set stale" for bi
    by (force simp: stale_at_def)
  show ?thesis
  proof (cases "stale_at stale i = []")
    case True
    then have "\<forall>bi. (i, bi) \<notin> set stale" using s by (metis empty_iff list.set(1))
    then show ?thesis using True by (auto simp: kept_message_def in_set_conv_nth)
  next
    case False
    then have "set (concat (map blocks (kept_message stale i m))) = set (stripStaleBlocks (stale_at stale i) (blocks m))"
      by (simp add: kept_message_def Let_def)
    then show ?thesis using s by (auto simp: set_stripStaleBlocks)
  qed
qed

lemma inserted_at_insertions:
  "m \<in> set (inserted_at (insertions fixes) k) \<longleftrightarrow>
   (\<exists>fx \<in> set fixes. insertBefore fx = k \<and> fix_content fx \<noteq> [] \<and>
      m = \<lparr>msg_id = '''', role = ''user'', blocks = fix_content fx\<rparr>)"
  by (force simp: inserted_at_def insertions_def)

lemma inserted_not_assistant: "m \<in> set (inserted_at (insertions fixes) k) \<Longrightarrow> \<not> is_assistant m"
  by (auto simp: inserted_at_insertions is_assistant_def)

section \<open>The fixes\<close>

lemma nextAssistantIndex_props:
  assumes "idx < length ms"
  shows "idx < nextAssistantIndex ms idx" "nextAssistantIndex ms idx \<le> length ms"
    and "\<And>j. idx < j \<Longrightarrow> j < nextAssistantIndex ms idx \<Longrightarrow> \<not> is_assistant (ms ! j)"
    and "nextAssistantIndex ms idx < length ms \<Longrightarrow> is_assistant (ms ! nextAssistantIndex ms idx)"
proof -
  let ?w = "takeWhile (\<lambda>m. \<not> is_assistant m) (drop (idx + 1) ms)"
  have n: "nextAssistantIndex ms idx = idx + 1 + length ?w" by (simp add: nextAssistantIndex_def)
  have le: "length ?w \<le> length ms - (idx + 1)" by (metis length_drop length_takeWhile_le)
  show "idx < nextAssistantIndex ms idx" by (simp add: n)
  show "nextAssistantIndex ms idx \<le> length ms" using le assms by (simp add: n)
  show "\<not> is_assistant (ms ! j)" if "idx < j" "j < nextAssistantIndex ms idx" for j
  proof -
    have j: "j - (idx + 1) < length ?w" using that by (simp add: n)
    then have "ms ! j = ?w ! (j - (idx + 1))"
      using takeWhile_nth [OF j] le that assms by (simp add: nth_drop)
    then show ?thesis using nth_mem [OF j] set_takeWhileD by fastforce
  qed
  show "is_assistant (ms ! nextAssistantIndex ms idx)" if "nextAssistantIndex ms idx < length ms"
    using nth_length_takeWhile [of "\<lambda>m. \<not> is_assistant m" "drop (idx + 1) ms"] that assms
    by (simp add: n nth_drop)
qed

lemma AList_update_keys: "fst ` set (fold (\<lambda>b. AList.update (f b) (g b)) bs al) = fst ` set al \<union> f ` set bs"
  by (induction bs arbitrary: al) (auto simp: AList.dom_update)

lemma call_map_keys: "fst ` set (call_map m) = set (use_ids m)"
  by (auto simp: call_map_def use_ids_def AList_update_keys)

lemma unanswered_iff:
  "tid \<in> fst ` set (unanswered ms idx) \<longleftrightarrow>
   tid \<in> set (use_ids (ms ! idx)) \<and>
   tid \<notin> set (all_results (drop (idx + 1) (take (nextAssistantIndex ms idx) ms)))"
  using call_map_keys [of "ms ! idx"] by (force simp: unanswered_def)

lemma late_in_Some:
  assumes "late_in tid jm = Some (j, bi, b)"
  shows "j = fst jm \<and> bi < length (blocks (snd jm)) \<and> b = blocks (snd jm) ! bi \<and> is_result b \<and> b_toolID b = tid"
proof -
  let ?f = "\<lambda>(bi, b). if is_result b \<and> b_toolID b = tid then Some (fst jm, bi, b) else None"
  obtain q where q: "q \<in> set (enumerate 0 (blocks (snd jm)))" "?f q = Some (j, bi, b)"
    using first_some_Some [OF assms [unfolded late_in_def]] by blast
  obtain bi' b' where "q = (bi', b')" by (metis prod.collapse)
  then have p: "(bi', b') \<in> set (enumerate 0 (blocks (snd jm)))"
    "(if is_result b' \<and> b_toolID b' = tid then Some (fst jm, bi', b') else None) = Some (j, bi, b)"
    using q by simp_all
  then have "bi' = bi" "b' = b" "j = fst jm" "is_result b" "b_toolID b = tid" by (auto split: if_splits)
  then show ?thesis using p(1) by (simp add: in_set_enumerate_eq)
qed

lemma find_late_Some:
  assumes "find_late ms k tid = Some (j, bi, b)"
  shows "k \<le> j \<and> j < length ms \<and> bi < length (blocks (ms ! j)) \<and> b = blocks (ms ! j) ! bi \<and>
    is_result b \<and> b_toolID b = tid"
proof -
  obtain jm where jm: "jm \<in> set (enumerate k (drop k ms))" and l: "late_in tid jm = Some (j, bi, b)"
    using first_some_Some [OF assms [unfolded find_late_def]] by blast
  have e: "k \<le> fst jm" "fst jm < length (drop k ms) + k" "drop k ms ! (fst jm - k) = snd jm"
    using jm by (simp_all only: in_set_enumerate_eq)
  then have "fst jm < length ms" by (cases "k \<le> length ms") auto
  moreover have "snd jm = ms ! fst jm" using e calculation by simp
  moreover note e(1)
  ultimately have "k \<le> fst jm" "fst jm < length ms" "snd jm = ms ! fst jm" by simp_all
  then show ?thesis using late_in_Some [OF l] by metis
qed

lemma found_sets:
  "l \<in> set (fst (findLateOrMissingResults ms calls k)) \<longleftrightarrow> (\<exists>p \<in> set calls. find_late ms k (fst p) = Some l)"
  "p \<in> set (snd (findLateOrMissingResults ms calls k)) \<longleftrightarrow> p \<in> set calls \<and> find_late ms k (fst p) = None"
  by (auto simp: findLateOrMissingResults_def split: option.split_asm intro!: bexI) (metis prod.collapse)

lemma find_late_None:
  assumes "find_late ms k tid = None" "k \<le> j" "j < length ms"
  shows "tid \<notin> set (result_ids (ms ! j))"
proof
  assume "tid \<in> set (result_ids (ms ! j))"
  then obtain b where b: "b \<in> set (blocks (ms ! j))" "is_result b" "b_toolID b = tid" by (auto simp: result_ids_def)
  then obtain bi where bi: "bi < length (blocks (ms ! j))" "b = blocks (ms ! j) ! bi" by (auto simp: in_set_conv_nth)
  have "(j, ms ! j) \<in> set (enumerate k (drop k ms))"
    using assms(2,3) by (auto simp: in_set_enumerate_eq nth_drop)
  then have "late_in tid (j, ms ! j) = None" using assms(1) by (auto simp: find_late_def first_some_None)
  moreover have "(bi, b) \<in> set (enumerate 0 (blocks (ms ! j)))" using bi by (auto simp: in_set_enumerate_eq)
  ultimately show False using b by (auto simp: late_in_def first_some_None)
qed

lemma fix_at_fields:
  assumes "fx \<in> set (fix_at pick ms idx)"
  shows "is_assistant (ms ! idx)" "insertBefore fx = nextAssistantIndex ms idx"
    and "\<And>l. l \<in> set (lateBlocks fx) \<longleftrightarrow>
      (\<exists>tid \<in> fst ` set (unanswered ms idx). find_late ms (nextAssistantIndex ms idx) tid = Some l)"
    and "\<And>p. p \<in> set (missingIDs fx) \<longleftrightarrow>
      p \<in> set (unanswered ms idx) \<and> find_late ms (nextAssistantIndex ms idx) (fst p) = None"
proof -
  define calls where "calls = range_order (pick idx) (unanswered ms idx)"
  have sc: "set calls = set (unanswered ms idx)" by (simp add: calls_def)
  have fx: "is_assistant (ms ! idx)" "fx = \<lparr>insertBefore = nextAssistantIndex ms idx,
      lateBlocks = fst (findLateOrMissingResults ms calls (nextAssistantIndex ms idx)),
      missingIDs = snd (findLateOrMissingResults ms calls (nextAssistantIndex ms idx))\<rparr>"
    using assms by (auto simp: fix_at_def Let_def calls_def split: if_splits)
  show "is_assistant (ms ! idx)" "insertBefore fx = nextAssistantIndex ms idx" by (simp_all add: fx)
  show "l \<in> set (lateBlocks fx) \<longleftrightarrow>
      (\<exists>tid \<in> fst ` set (unanswered ms idx). find_late ms (nextAssistantIndex ms idx) tid = Some l)" for l
    by (simp add: fx found_sets sc)
  show "p \<in> set (missingIDs fx) \<longleftrightarrow>
      p \<in> set (unanswered ms idx) \<and> find_late ms (nextAssistantIndex ms idx) (fst p) = None" for p
    by (simp add: fx found_sets sc)
qed

lemma fix_at_ex:
  assumes "is_assistant (ms ! idx)" "unanswered ms idx \<noteq> []"
  shows "\<exists>fx. fx \<in> set (fix_at pick ms idx)"
proof -
  define calls where "calls = range_order (pick idx) (unanswered ms idx)"
  have "calls \<noteq> []" using assms(2) by (simp add: calls_def)
  then obtain p where p: "p \<in> set calls" by (cases calls) auto
  let ?r = "findLateOrMissingResults ms calls (nextAssistantIndex ms idx)"
  have "p \<in> set (snd ?r) \<or> (\<exists>l. l \<in> set (fst ?r))"
    using p found_sets by (cases "find_late ms (nextAssistantIndex ms idx) (fst p)") blast+
  then have "\<not> (fst ?r = [] \<and> snd ?r = [])" by auto
  then show ?thesis using assms(1) by (auto simp: fix_at_def Let_def calls_def)
qed

lemma set_collect: "fx \<in> set (collectReconcileFixes pick ms) \<longleftrightarrow> (\<exists>idx < length ms. fx \<in> set (fix_at pick ms idx))"
  by (auto simp: collectReconcileFixes_def)

lemma dedup_ids_set: "set (dedup_ids seen bs) \<subseteq> set bs"
  "b_toolID ` set (dedup_ids seen bs) = b_toolID ` set bs - set seen"
  by (induction bs arbitrary: seen) (auto split: if_splits)

lemma cancelled_is_result: "is_result (cancelled_block p)" "b_toolID (cancelled_block p) = fst p"
  by (simp_all add: cancelled_block_def is_result_def ToolResultNamedBlock_def empty_block_def)

lemma fix_content_results:
  assumes "fx \<in> set (fix_at pick ms idx)" "b \<in> set (fix_content fx)"
  shows "is_result b \<and> b_toolID b \<in> fst ` set (unanswered ms idx)"
proof -
  from assms(2) consider l where "l \<in> set (lateBlocks fx)" "b = snd (snd l)"
    | p where "p \<in> set (missingIDs fx)" "b = cancelled_block p"
    using dedup_ids_set(1) unfolding fix_content_def by fastforce
  then show ?thesis
  proof cases
    case 1
    then show ?thesis using fix_at_fields(3) [OF assms(1)] find_late_Some
      by (metis prod.collapse)
  next
    case 2
    then show ?thesis using fix_at_fields(4) [OF assms(1)] cancelled_is_result by auto
  qed
qed

lemma fix_content_ids:
  assumes "fx \<in> set (fix_at pick ms idx)"
  shows "b_toolID ` set (fix_content fx) = fst ` set (unanswered ms idx)"
proof
  show "b_toolID ` set (fix_content fx) \<subseteq> fst ` set (unanswered ms idx)"
    using fix_content_results [OF assms] by auto
  show "fst ` set (unanswered ms idx) \<subseteq> b_toolID ` set (fix_content fx)"
  proof
    fix tid assume t: "tid \<in> fst ` set (unanswered ms idx)"
    have ids: "b_toolID ` set (fix_content fx) =
        b_toolID ` ((\<lambda>l. snd (snd l)) ` set (lateBlocks fx) \<union> cancelled_block ` set (missingIDs fx))"
      by (simp add: fix_content_def dedup_ids_set(2) image_Un)
    show "tid \<in> b_toolID ` set (fix_content fx)"
    proof (cases "find_late ms (nextAssistantIndex ms idx) tid")
      case None
      then obtain p where "p \<in> set (missingIDs fx)" "fst p = tid" using t fix_at_fields(4) [OF assms] by auto
      then show ?thesis unfolding ids using cancelled_is_result(2) by (metis UnI2 image_eqI)
    next
      case (Some l)
      then have "l \<in> set (lateBlocks fx)" using t fix_at_fields(3) [OF assms] by blast
      moreover have "b_toolID (snd (snd l)) = tid" using find_late_Some Some by (metis prod.collapse)
      ultimately show ?thesis unfolding ids by (metis UnI1 image_eqI)
    qed
  qed
qed

section \<open>Every call is answered\<close>

lemma stale_block:
  assumes "(j, bi) \<in> set (staleBlockIdxs (collectReconcileFixes pick ms))"
  shows "\<exists>idx < length ms. is_assistant (ms ! idx) \<and> nextAssistantIndex ms idx \<le> j \<and> j < length ms \<and>
    bi < length (blocks (ms ! j)) \<and> is_result (blocks (ms ! j) ! bi) \<and>
    b_toolID (blocks (ms ! j) ! bi) \<in> fst ` set (unanswered ms idx)"
proof -
  obtain fx b where fx: "fx \<in> set (collectReconcileFixes pick ms)" and l: "(j, bi, b) \<in> set (lateBlocks fx)"
    using assms by (force simp: staleBlockIdxs_def)
  then obtain idx where idx: "idx < length ms" "fx \<in> set (fix_at pick ms idx)" using set_collect by blast
  then obtain tid where t: "tid \<in> fst ` set (unanswered ms idx)"
    "find_late ms (nextAssistantIndex ms idx) tid = Some (j, bi, b)"
    using iffD1 [OF fix_at_fields(3) [OF idx(2)] l] by blast
  have f: "nextAssistantIndex ms idx \<le> j" "j < length ms" "bi < length (blocks (ms ! j))"
    "b = blocks (ms ! j) ! bi" "is_result b" "b_toolID b = tid"
    using find_late_Some [OF t(2)] by blast+
  have "is_result (blocks (ms ! j) ! bi)" "b_toolID (blocks (ms ! j) ! bi) \<in> fst ` set (unanswered ms idx)"
    using f(5,6) t(1) unfolding f(4) by blast+
  then show ?thesis using f(1-3) idx(1) fix_at_fields(1) [OF idx(2)] by blast
qed

lemma calls_distinct_idx:
  assumes "calls_distinct ms" "i < length ms" "j < length ms" "is_assistant (ms ! i)" "is_assistant (ms ! j)"
    and "tid \<in> set (use_ids (ms ! i))" "tid \<in> set (use_ids (ms ! j))"
  shows "i = j"
proof (rule ccontr)
  assume "i \<noteq> j"
  have False if "i < j" "j < length ms" "is_assistant (ms ! i)" "is_assistant (ms ! j)"
    "tid \<in> set (use_ids (ms ! i))" "tid \<in> set (use_ids (ms ! j))" for i j
  proof -
    have "ms = take i ms @ ms ! i # drop (Suc i) ms" using that by (simp add: id_take_nth_drop)
    then have "distinct (all_uses (ms ! i # drop (Suc i) ms))"
      using assms(1) by (metis all_uses_simps(3) calls_distinct_def distinct_append)
    moreover have "ms ! j \<in> set (drop (Suc i) ms)"
      unfolding in_set_drop_nth using that by (intro exI [of _ j]) auto
    then have "tid \<in> set (all_uses (drop (Suc i) ms))" using that by (auto simp: all_uses_def)
    ultimately show False using that by auto
  qed
  then show False using \<open>i \<noteq> j\<close> assms by (metis linorder_neqE_nat)
qed

definition fixed :: "call_order \<Rightarrow> Message list \<Rightarrow> nat \<Rightarrow> Message list" where
  "fixed pick ms i = rebuild_from (insertions (collectReconcileFixes pick ms))
     (staleBlockIdxs (collectReconcileFixes pick ms)) i (drop i ms)"

lemma answered_index:
  assumes "idx < length ms" "tid \<in> set (all_results (drop (idx + 1) (take (nextAssistantIndex ms idx) ms)))"
  obtains j bi where "idx < j" "j < nextAssistantIndex ms idx" "bi < length (blocks (ms ! j))"
    "is_result (blocks (ms ! j) ! bi)" "b_toolID (blocks (ms ! j) ! bi) = tid"
proof -
  obtain m where m: "m \<in> set (drop (idx + 1) (take (nextAssistantIndex ms idx) ms))" "tid \<in> set (result_ids m)"
    using assms(2) by (auto simp: all_results_def)
  then obtain j where j: "idx + 1 \<le> j" "j < length (take (nextAssistantIndex ms idx) ms)"
    "m = take (nextAssistantIndex ms idx) ms ! j"
    unfolding in_set_drop_nth by blast
  then have jn: "j < nextAssistantIndex ms idx" "m = ms ! j" by auto
  obtain b where "b \<in> set (blocks m)" "is_result b" "b_toolID b = tid" using m(2) by (auto simp: result_ids_def)
  then obtain bi where "bi < length (blocks m)" "b = blocks m ! bi" by (auto simp: in_set_conv_nth)
  then show thesis using that [of j bi] j(1) jn \<open>is_result b\<close> \<open>b_toolID b = tid\<close> by auto
qed

text \<open>The segment behind an assistant message, in the rebuilt list.\<close>

definition seg_part :: "call_order \<Rightarrow> Message list \<Rightarrow> nat \<Rightarrow> Message list" where
  "seg_part pick ms idx =
     concat (map (\<lambda>j. inserted_at (insertions (collectReconcileFixes pick ms)) j @
         kept_message (staleBlockIdxs (collectReconcileFixes pick ms)) j (ms ! j))
       [idx + 1..<nextAssistantIndex ms idx]) @
     inserted_at (insertions (collectReconcileFixes pick ms)) (nextAssistantIndex ms idx)"

lemma fixed_split:
  assumes "idx < length ms"
  shows "\<exists>rest. fixed pick ms (idx + 1) = seg_part pick ms idx @ rest"
proof -
  have "fixed pick ms (idx + 1) =
      concat (map (\<lambda>j. inserted_at (insertions (collectReconcileFixes pick ms)) j @
         kept_message (staleBlockIdxs (collectReconcileFixes pick ms)) j (ms ! j))
       [idx + 1..<nextAssistantIndex ms idx]) @ fixed pick ms (nextAssistantIndex ms idx)"
    unfolding fixed_def using nextAssistantIndex_props(1,2) [OF assms] by (intro rebuild_split) auto
  moreover have "\<exists>rest. fixed pick ms (nextAssistantIndex ms idx) =
      inserted_at (insertions (collectReconcileFixes pick ms)) (nextAssistantIndex ms idx) @ rest"
    unfolding fixed_def by (subst rebuild_head) blast
  ultimately show ?thesis by (auto simp: seg_part_def)
qed

lemma seg_part_user: "idx < length ms \<Longrightarrow> list_all (\<lambda>m. \<not> is_assistant m) (seg_part pick ms idx)"
  using nextAssistantIndex_props(3) [of idx ms] inserted_not_assistant kept_message_role
  by (auto simp: list_all_iff seg_part_def)

lemma seg_part_answers:
  assumes "calls_distinct ms" "idx < length ms" "is_assistant (ms ! idx)" "tid \<in> set (use_ids (ms ! idx))"
  shows "tid \<in> set (all_results (seg_part pick ms idx))"
proof (cases "tid \<in> fst ` set (unanswered ms idx)")
  case True
  then have "unanswered ms idx \<noteq> []" by auto
  then obtain fx where fx: "fx \<in> set (fix_at pick ms idx)" using fix_at_ex assms(3) by blast
  then obtain b where b: "b \<in> set (fix_content fx)" "b_toolID b = tid" using fix_content_ids [OF fx] True by force
  have "fx \<in> set (collectReconcileFixes pick ms)" using set_collect fx assms(2) by blast
  then have "\<lparr>msg_id = '''', role = ''user'', blocks = fix_content fx\<rparr> \<in>
      set (inserted_at (insertions (collectReconcileFixes pick ms)) (nextAssistantIndex ms idx))"
    using inserted_at_insertions fix_at_fields(2) [OF fx] b by fastforce
  moreover have "tid \<in> set (result_ids \<lparr>msg_id = '''', role = ''user'', blocks = fix_content fx\<rparr>)"
    using b fix_content_results [OF fx] by (auto simp: result_ids_def)
  ultimately show ?thesis by (auto simp: seg_part_def all_results_def)
next
  case False
  then have "tid \<in> set (all_results (drop (idx + 1) (take (nextAssistantIndex ms idx) ms)))"
    using assms(4) unanswered_iff by blast
  then obtain j bi where j: "idx < j" "j < nextAssistantIndex ms idx" "bi < length (blocks (ms ! j))"
    "is_result (blocks (ms ! j) ! bi)" "b_toolID (blocks (ms ! j) ! bi) = tid"
    using answered_index [OF assms(2)] by blast
  have "(j, bi) \<notin> set (staleBlockIdxs (collectReconcileFixes pick ms))"
  proof
    assume "(j, bi) \<in> set (staleBlockIdxs (collectReconcileFixes pick ms))"
    then obtain idx' where i: "idx' < length ms" "is_assistant (ms ! idx')" "tid \<in> fst ` set (unanswered ms idx')"
      using stale_block j(5) by blast
    then have "idx' = idx"
      using calls_distinct_idx [OF assms(1) i(1) assms(2) i(2) assms(3)] unanswered_iff assms(4) by blast
    then show False using i(3) False by simp
  qed
  then have "blocks (ms ! j) ! bi \<in>
      set (concat (map blocks (kept_message (staleBlockIdxs (collectReconcileFixes pick ms)) j (ms ! j))))"
    using kept_message_blocks j(3) by blast
  then obtain m where "m \<in> set (kept_message (staleBlockIdxs (collectReconcileFixes pick ms)) j (ms ! j))"
    "blocks (ms ! j) ! bi \<in> set (blocks m)" by auto
  moreover from this have "tid \<in> set (result_ids m)" using result_ids_block j(4,5) by metis
  moreover have "j \<in> set [idx + 1..<nextAssistantIndex ms idx]" using j(1,2) by simp
  ultimately show ?thesis by (force simp: seg_part_def all_results_def)
qed

lemma segment_fixed:
  assumes "idx < length ms"
  shows "set (all_results (seg_part pick ms idx)) \<subseteq> set (all_results (segment (fixed pick ms (idx + 1))))"
  using fixed_split [OF assms, of pick] segment_append [OF seg_part_user [OF assms, of pick]] by auto

lemma kept_message_single:
  "kept_message stale i m = [] \<or> (\<exists>m'. kept_message stale i m = [m'] \<and> is_assistant m' = is_assistant m \<and>
     set (blocks m') \<subseteq> set (blocks m))"
proof (cases "kept_message stale i m")
  case (Cons m' r)
  then have "r = []" by (auto simp: kept_message_def Let_def split: if_splits)
  moreover have "set (blocks m') \<subseteq> set (blocks m)"
    using kept_message_blocks [of _ stale i m] Cons by (auto simp: in_set_conv_nth) (metis nth_mem in_set_conv_nth)
  ultimately show ?thesis using Cons kept_message_role [of m' stale i m] by auto
qed simp

lemma use_ids_mono: "set (blocks m') \<subseteq> set (blocks m) \<Longrightarrow> set (use_ids m') \<subseteq> set (use_ids m)"
  by (auto simp: use_ids_def)

lemma paired_append: "list_all (\<lambda>m. \<not> is_assistant m) xs \<Longrightarrow> paired (xs @ ys) = paired ys"
  by (induction xs) auto

lemma fixed_paired:
  assumes "calls_distinct ms" "i \<le> length ms"
  shows "paired (fixed pick ms i)"
  using assms(2)
proof (induction "length ms - i" arbitrary: i)
  case 0
  then have "fixed pick ms i = inserted_at (insertions (collectReconcileFixes pick ms)) i"
    by (simp add: fixed_def)
  then show ?case
    using paired_append [of _ "[]"] inserted_not_assistant by (simp add: list_all_iff)
next
  case (Suc d)
  then have lt: "i < length ms" by auto
  let ?ins = "inserted_at (insertions (collectReconcileFixes pick ms)) i"
  let ?k = "kept_message (staleBlockIdxs (collectReconcileFixes pick ms)) i (ms ! i)"
  have f: "fixed pick ms i = ?ins @ ?k @ fixed pick ms (Suc i)"
    using lt by (simp add: fixed_def rebuild_head)
  have ih: "paired (fixed pick ms (Suc i))" using Suc by (intro Suc(1)) auto
  have "paired (?k @ fixed pick ms (Suc i))"
  proof (cases "?k = []")
    case False
    then obtain m' where m': "?k = [m']" "is_assistant m' = is_assistant (ms ! i)" "set (blocks m') \<subseteq> set (blocks (ms ! i))"
      using kept_message_single by blast
    have "set (use_ids m') \<subseteq> set (all_results (segment (fixed pick ms (Suc i))))" if "is_assistant m'"
      using use_ids_mono [OF m'(3)] seg_part_answers [OF assms(1) lt, of _ pick] segment_fixed [OF lt, of pick] that m'(2)
      by auto
    then show ?thesis using ih m'(1) by simp
  qed (simp add: ih)
  then show ?case using f paired_append [of ?ins] inserted_not_assistant by (simp add: list_all_iff)
qed

section \<open>Removing results without a call\<close>

definition results_of :: "ContentBlock list \<Rightarrow> string list" where
  "results_of bs = map b_toolID (filter is_result bs)"

definition other_blocks :: "ContentBlock list \<Rightarrow> ContentBlock list" where
  "other_blocks bs = filter (\<lambda>b. \<not> is_result b) bs"

lemma result_ids_results: "result_ids m = results_of (blocks m)"
  by (simp add: result_ids_def results_of_def)

lemma use_not_result: "is_use b \<Longrightarrow> \<not> is_result b"
  by (simp add: is_use_def is_result_def)

lemma uses_other: "filter is_use (other_blocks bs) = filter is_use bs"
  unfolding other_blocks_def filter_filter using use_not_result by (metis (mono_tags, lifting) filter_cong)

lemma results_of_simps [simp]: "results_of [] = []"
  "results_of (b # bs) = (if is_result b then b_toolID b # results_of bs else results_of bs)"
  by (simp_all add: results_of_def)

lemma other_blocks_simps [simp]: "other_blocks [] = []"
  "other_blocks (b # bs) = (if is_result b then other_blocks bs else b # other_blocks bs)"
  by (simp_all add: other_blocks_def)

lemma keep_results_eqs:
  "\<not> is_result b \<Longrightarrow> keep_results opn (b # bs) = (b # fst (keep_results opn bs), snd (keep_results opn bs))"
  "is_result b \<Longrightarrow> b_toolID b \<in> set opn \<Longrightarrow> keep_results opn (b # bs) =
     (b # fst (keep_results (removeAll (b_toolID b) opn) bs), snd (keep_results (removeAll (b_toolID b) opn) bs))"
  "is_result b \<Longrightarrow> b_toolID b \<notin> set opn \<Longrightarrow> keep_results opn (b # bs) = keep_results opn bs"
  by (simp_all add: case_prod_beta)

lemma keep_results_fst_snd:
  "set (results_of (fst (keep_results opn bs))) \<subseteq> set opn \<and> distinct (results_of (fst (keep_results opn bs))) \<and>
   set (snd (keep_results opn bs)) = set opn - set (results_of (fst (keep_results opn bs))) \<and>
   other_blocks (fst (keep_results opn bs)) = other_blocks bs \<and>
   length (fst (keep_results opn bs)) \<le> length bs \<and>
   (length (fst (keep_results opn bs)) = length bs \<longrightarrow> fst (keep_results opn bs) = bs) \<and>
   set (fst (keep_results opn bs)) \<subseteq> set bs"
proof (induction bs arbitrary: opn)
  case (Cons b bs)
  consider "\<not> is_result b" | "is_result b" "b_toolID b \<in> set opn" | "is_result b" "b_toolID b \<notin> set opn" by blast
  then show ?case
  proof cases
    case 1
    then show ?thesis using Cons [of opn] by (auto simp add: keep_results_eqs simp del: keep_results.simps)
  next
    case 2
    then show ?thesis using Cons [of "removeAll (b_toolID b) opn"]
      by (auto simp add: keep_results_eqs simp del: keep_results.simps)
  next
    case 3
    then show ?thesis using Cons [of opn] by (auto simp add: keep_results_eqs simp del: keep_results.simps)
  qed
qed simp

lemma keep_results_props:
  assumes "keep_results opn bs = (ks, o2)"
  shows "set (results_of ks) \<subseteq> set opn" "distinct (results_of ks)" "set o2 = set opn - set (results_of ks)"
    "other_blocks ks = other_blocks bs" "length ks \<le> length bs" "length ks = length bs \<Longrightarrow> ks = bs"
    "set ks \<subseteq> set bs"
  using keep_results_fst_snd [of opn bs] unfolding assms fst_conv snd_conv by blast+

lemma remove_orphans_Cons:
  assumes "remove_orphans opn (m # ms) = (ms', ch)"
  obtains kept o2 rest c where
    "keep_results ((if is_assistant m then use_ids m else []) @ opn) (blocks m) = (kept, o2)"
    "remove_orphans o2 ms = (rest, c)"
    "ms' = (if kept = [] \<and> list_ex is_result (blocks m) then rest else m\<lparr>blocks := kept\<rparr> # rest)"
proof -
  let ?o1 = "(if is_assistant m then use_ids m else []) @ opn"
  obtain kept o2 where k: "keep_results ?o1 (blocks m) = (kept, o2)" by (metis prod.collapse)
  obtain rest c where r: "remove_orphans o2 ms = (rest, c)" by (metis prod.collapse)
  have none: "kept = blocks m" if "\<not> list_ex is_result (blocks m)"
  proof (rule keep_results_props(6) [OF k])
    have "other_blocks (blocks m) = blocks m" using that by (auto simp: other_blocks_def list_ex_iff)
    then have "length kept \<ge> length (blocks m)"
      using keep_results_props(4) [OF k] by (metis length_filter_le other_blocks_def)
    then show "length kept = length (blocks m)" using keep_results_props(5) [OF k] by simp
  qed
  have all: "kept = blocks m" if "\<not> length kept < length (blocks m)"
    using that keep_results_props(5,6) [OF k] by simp
  have o1: "(if is_assistant m then use_ids m @ opn else opn) = ?o1" by simp
  have eq: "remove_orphans opn (m # ms) =
      (if \<not> list_ex is_result (blocks m) then (m # rest, c)
       else if kept = [] then (rest, True)
       else if length kept < length (blocks m) then (m\<lparr>blocks := kept\<rparr> # rest, True)
       else (m # rest, c))"
    by (simp only: remove_orphans.simps o1 Let_def k r prod.case)
  have self: "m\<lparr>blocks := blocks m\<rparr> = m" by simp
  have "ms' = (if kept = [] \<and> list_ex is_result (blocks m) then rest else m\<lparr>blocks := kept\<rparr> # rest)"
  proof (cases "list_ex is_result (blocks m)")
    case True
    then show ?thesis using assms all self unfolding eq by (cases "kept = []"; cases "length kept < length (blocks m)") auto
  next
    case False
    then show ?thesis using assms none self unfolding eq by simp
  qed
  then show thesis using that k r by blast
qed

lemma use_ids_other: "other_blocks (blocks m) = other_blocks (blocks m') \<Longrightarrow> use_ids m = use_ids m'"
  unfolding use_ids_def by (metis uses_other)

lemma remove_orphans_uses: "remove_orphans opn ms = (ms', ch) \<Longrightarrow> all_uses ms' = all_uses ms"
proof (induction ms arbitrary: opn ms' ch)
  case (Cons m ms)
  from Cons.prems obtain kept o2 rest c where
    k: "keep_results ((if is_assistant m then use_ids m else []) @ opn) (blocks m) = (kept, o2)"
    and r: "remove_orphans o2 ms = (rest, c)"
    and ms': "ms' = (if kept = [] \<and> list_ex is_result (blocks m) then rest else m\<lparr>blocks := kept\<rparr> # rest)"
    by (rule remove_orphans_Cons)
  have u: "use_ids (m\<lparr>blocks := kept\<rparr>) = use_ids m"
    using keep_results_props(4) [OF k] by (intro use_ids_other) simp
  have "kept = [] \<Longrightarrow> use_ids m = []" using u by (simp add: use_ids_def)
  moreover have "is_assistant (m\<lparr>blocks := kept\<rparr>) = is_assistant m" by (simp add: is_assistant_def)
  ultimately show ?case using Cons.IH [OF r] u by (auto simp: ms')
qed simp

text \<open>Every result that is kept has its call in an earlier message, or among those open at the start.\<close>

fun preceded :: "string set \<Rightarrow> Message list \<Rightarrow> bool" where
  "preceded opn [] \<longleftrightarrow> True"
| "preceded opn (m # ms) \<longleftrightarrow>
     (let o1 = opn \<union> (if is_assistant m then set (use_ids m) else {}) in
      set (result_ids m) \<subseteq> o1 \<and> preceded o1 ms)"

lemma preceded_mono: "preceded opn ms \<Longrightarrow> opn \<subseteq> o' \<Longrightarrow> preceded o' ms"
proof (induction ms arbitrary: opn o')
  case (Cons m ms)
  have "preceded (opn \<union> (if is_assistant m then set (use_ids m) else {})) ms" using Cons.prems(1) by (simp add: Let_def)
  then have "preceded (o' \<union> (if is_assistant m then set (use_ids m) else {})) ms"
    using Cons.IH Cons.prems(2) by blast
  then show ?case using Cons.prems by (auto simp: Let_def split: if_splits)
qed simp

lemma remove_orphans_results:
  assumes "remove_orphans opn ms = (ms', ch)" "distinct (all_uses ms)" "set opn \<inter> set (all_uses ms) = {}"
  shows "distinct (all_results ms') \<and> set (all_results ms') \<subseteq> set opn \<union> set (all_uses ms) \<and> preceded (set opn) ms'"
  using assms
proof (induction ms arbitrary: opn ms' ch)
  case (Cons m ms)
  from Cons.prems(1) obtain kept o2 rest c where
    k: "keep_results ((if is_assistant m then use_ids m else []) @ opn) (blocks m) = (kept, o2)"
    and r: "remove_orphans o2 ms = (rest, c)"
    and ms': "ms' = (if kept = [] \<and> list_ex is_result (blocks m) then rest else m\<lparr>blocks := kept\<rparr> # rest)"
    by (rule remove_orphans_Cons)
  define us where "us = (if is_assistant m then use_ids m else [])"
  note kp = keep_results_props [OF k, folded us_def]
  have d: "distinct us" "distinct (all_uses ms)" "set us \<inter> set (all_uses ms) = {}" "set opn \<inter> set (all_uses ms) = {}"
    using Cons.prems(2,3) by (auto simp: us_def)
  have "set o2 \<inter> set (all_uses ms) = {}" using kp(3) d by auto
  note ih = Cons.IH [OF r d(2) this]
  have res: "result_ids (m\<lparr>blocks := kept\<rparr>) = results_of kept" by (simp add: result_ids_results)
  have uses: "use_ids (m\<lparr>blocks := kept\<rparr>) = use_ids m"
    using kp(4) by (intro use_ids_other) simp
  have "set (all_results rest) \<subseteq> set o2 \<union> set (all_uses ms)" using ih by blast
  then have disj: "set (results_of kept) \<inter> set (all_results rest) = {}"
  proof -
    assume "set (all_results rest) \<subseteq> set o2 \<union> set (all_uses ms)"
    moreover have "set (results_of kept) \<subseteq> set us \<union> set opn" using kp(1) by simp
    moreover have "set o2 \<inter> set (results_of kept) = {}" using kp(3) by blast
    ultimately show ?thesis using d(3,4) by blast
  qed
  have sub: "set o2 \<subseteq> set opn \<union> set us" using kp(3) by auto
  have "all_results ms' = results_of kept @ all_results rest"
    by (auto simp: ms' res)
  moreover have "preceded (set opn) ms'"
  proof (cases "kept = [] \<and> list_ex is_result (blocks m)")
    case True
    have "us = []" using True uses by (auto simp: us_def use_ids_def)
    then show ?thesis using True ih sub preceded_mono by (auto simp: ms')
  next
    case False
    then show ?thesis using ih sub kp(1) preceded_mono [of "set o2" rest] uses
      by (auto simp: ms' Let_def res us_def is_assistant_def)
  qed
  ultimately show ?case using ih kp(1,2) disj sub by (auto simp: us_def split: if_splits)
qed simp

section \<open>No other results\<close>

lemma preceded_index:
  "preceded opn ms \<Longrightarrow> j < length ms \<Longrightarrow> v \<in> set (result_ids (ms ! j)) \<Longrightarrow>
     v \<in> opn \<or> (\<exists>i \<le> j. is_assistant (ms ! i) \<and> v \<in> set (use_ids (ms ! i)))"
proof (induction ms arbitrary: opn j)
  case (Cons m ms)
  let ?o1 = "opn \<union> (if is_assistant m then set (use_ids m) else {})"
  have p: "set (result_ids m) \<subseteq> ?o1" "preceded ?o1 ms" using Cons.prems(1) by (simp_all add: Let_def)
  have "v \<in> ?o1 \<or> (\<exists>i \<le> j. is_assistant ((m # ms) ! i) \<and> v \<in> set (use_ids ((m # ms) ! i)))"
  proof (cases j)
    case 0
    then show ?thesis using p(1) Cons.prems(3) by auto
  next
    case (Suc k)
    then have "v \<in> ?o1 \<or> (\<exists>i \<le> k. is_assistant (ms ! i) \<and> v \<in> set (use_ids (ms ! i)))"
      using Cons.IH [OF p(2), of k] Cons.prems(2,3) by simp
    then show ?thesis using Suc by (metis Suc_le_mono nth_Cons_Suc)
  qed
  then show ?case by (metis (mono_tags, lifting) UnE empty_iff le0 nth_Cons_0)
qed simp

lemma distinct_results_index:
  assumes "distinct (all_results ms)" "j < length ms" "j' < length ms"
    and "bi < length (blocks (ms ! j))" "is_result (blocks (ms ! j) ! bi)"
    and "bi' < length (blocks (ms ! j'))" "is_result (blocks (ms ! j') ! bi')"
    and "b_toolID (blocks (ms ! j) ! bi) = b_toolID (blocks (ms ! j') ! bi')"
  shows "j = j' \<and> bi = bi'"
proof
  have ids: "b_toolID (blocks (ms ! j) ! bi) \<in> set (result_ids (ms ! j))" if "j < length ms"
    "bi < length (blocks (ms ! j))" "is_result (blocks (ms ! j) ! bi)" for j bi
    using that result_ids_block nth_mem by metis
  have False if "i < k" "k < length ms" "v \<in> set (result_ids (ms ! i))" "v \<in> set (result_ids (ms ! k))" for i k v
  proof -
    have "ms = take i ms @ ms ! i # drop (Suc i) ms" using that by (simp add: id_take_nth_drop)
    then have "distinct (all_results (ms ! i # drop (Suc i) ms))"
      using assms(1) by (metis all_results_simps(3) distinct_append)
    moreover have "ms ! k \<in> set (drop (Suc i) ms)"
      unfolding in_set_drop_nth using that by (intro exI [of _ k]) auto
    then have "v \<in> set (all_results (drop (Suc i) ms))" using that by (auto simp: all_results_def)
    ultimately show False using that by auto
  qed
  then show jj: "j = j'" using ids assms(2-8) by (metis linorder_neqE_nat)
  have "distinct (result_ids (ms ! j))"
    using assms(1,2) unfolding all_results_def by (metis distinct_concat_iff nth_mem nth_map length_map in_set_conv_nth)
  moreover have "False" if "distinct (map b_toolID (filter is_result bs))" "i < k" "k < length bs"
    "is_result (bs ! i)" "is_result (bs ! k)" "b_toolID (bs ! i) = b_toolID (bs ! k)" for i k bs
  proof -
    have "bs = take i bs @ bs ! i # drop (Suc i) bs" using that by (simp add: id_take_nth_drop)
    then have "distinct (map b_toolID (filter is_result (bs ! i # drop (Suc i) bs)))"
      using that(1) by (metis distinct_append filter_append map_append)
    moreover have "bs ! k \<in> set (drop (Suc i) bs)"
      unfolding in_set_drop_nth using that by (intro exI [of _ k]) auto
    ultimately show False using that(4-6) by auto
  qed
  ultimately show "bi = bi'"
    using assms(4-8) jj unfolding result_ids_def by (metis linorder_neqE_nat)
qed

lemma outside_nth: "results_outside ms \<Longrightarrow> i < length ms \<Longrightarrow> is_assistant (ms ! i) \<Longrightarrow> result_ids (ms ! i) = []"
  by (auto simp: results_outside_def list_all_iff list_ex_iff result_ids_def filter_empty_conv)

lemma earlier_call:
  assumes "preceded {} ms" "results_outside ms" "j < length ms" "v \<in> set (result_ids (ms ! j))"
  shows "\<exists>i < j. is_assistant (ms ! i) \<and> v \<in> set (use_ids (ms ! i))"
  using preceded_index [OF assms(1,3,4)] outside_nth [OF assms(2,3)] assms(4)
  by (metis empty_iff empty_set le_neq_implies_less)

text \<open>A block that stays in its segment answers the call of that segment.\<close>

lemma kept_answers:
  assumes pre: "preceded {} ms" "results_outside ms" "distinct (all_results ms)"
    and idx: "idx < length ms" "is_assistant (ms ! idx)" "idx < j" "j < nextAssistantIndex ms idx"
    and b: "bi < length (blocks (ms ! j))" "is_result (blocks (ms ! j) ! bi)"
    and fresh: "(j, bi) \<notin> set (staleBlockIdxs (collectReconcileFixes pick ms))"
  shows "b_toolID (blocks (ms ! j) ! bi) \<in> set (use_ids (ms ! idx))"
proof (rule ccontr)
  let ?v = "b_toolID (blocks (ms ! j) ! bi)"
  assume n: "?v \<notin> set (use_ids (ms ! idx))"
  have jl: "j < length ms" using idx nextAssistantIndex_props(2) [OF idx(1)] by simp
  have vj: "?v \<in> set (result_ids (ms ! j))" using b result_ids_block nth_mem by metis
  then obtain i where i: "i < j" "is_assistant (ms ! i)" "?v \<in> set (use_ids (ms ! i))"
    using earlier_call [OF pre(1,2) jl] by blast
  have ilt: "i < idx" using n i nextAssistantIndex_props(3) [OF idx(1)] idx(4) by (metis linorder_neqE_nat less_trans)
  then have il: "i < length ms" using idx(1) by simp
  have nx: "nextAssistantIndex ms i \<le> idx"
    using nextAssistantIndex_props(3) [OF il, of idx] ilt idx(2) by (meson not_le)
  have "?v \<notin> set (all_results (drop (i + 1) (take (nextAssistantIndex ms i) ms)))"
  proof
    assume "?v \<in> set (all_results (drop (i + 1) (take (nextAssistantIndex ms i) ms)))"
    then obtain j' bi' where "j' < nextAssistantIndex ms i" "bi' < length (blocks (ms ! j'))"
      "is_result (blocks (ms ! j') ! bi')" "b_toolID (blocks (ms ! j') ! bi') = ?v"
      using answered_index [OF il] by blast
    then show False
      using distinct_results_index [OF pre(3) jl _ b, of j' bi'] nx idx(3) jl by (metis less_trans less_le_trans less_irrefl)
  qed
  then have un: "?v \<in> fst ` set (unanswered ms i)" using i(3) unanswered_iff by blast
  have nj: "nextAssistantIndex ms i \<le> j" using nx idx(3) by simp
  obtain j' bi' b' where l: "find_late ms (nextAssistantIndex ms i) ?v = Some (j', bi', b')"
    using find_late_None [OF _ nj jl] vj by (cases "find_late ms (nextAssistantIndex ms i) ?v") auto
  have f: "j' < length ms" "bi' < length (blocks (ms ! j'))"
    "b' = blocks (ms ! j') ! bi'" "is_result b'" "b_toolID b' = ?v"
    using find_late_Some [OF l] by blast+
  have same: "j = j' \<and> bi = bi'"
    using f(4,5) unfolding f(3) by (intro distinct_results_index [OF pre(3) jl f(1) b f(2)]) simp_all
  obtain fx where fx: "fx \<in> set (fix_at pick ms i)" using fix_at_ex [of ms i pick] un i(2) by fastforce
  then have "(j', bi', b') \<in> set (lateBlocks fx)" using fix_at_fields(3) [OF fx] un l by blast
  then have "(j', bi') \<in> set (staleBlockIdxs (collectReconcileFixes pick ms))"
    using fx il set_collect unfolding staleBlockIdxs_def by force
  then show False using fresh same by simp
qed

lemma kept_assistant:
  assumes "results_outside ms" "k < length ms" "is_assistant (ms ! k)"
  shows "kept_message (staleBlockIdxs (collectReconcileFixes pick ms)) k (ms ! k) = [ms ! k]"
proof -
  have "stale_at (staleBlockIdxs (collectReconcileFixes pick ms)) k = []"
  proof (rule ccontr)
    assume "stale_at (staleBlockIdxs (collectReconcileFixes pick ms)) k \<noteq> []"
    then obtain bi where "(k, bi) \<in> set (staleBlockIdxs (collectReconcileFixes pick ms))"
      unfolding stale_at_def by (auto simp: filter_empty_conv)
    then have "bi < length (blocks (ms ! k))" "is_result (blocks (ms ! k) ! bi)" using stale_block by blast+
    then have "result_ids (ms ! k) \<noteq> []" using result_ids_block nth_mem by (metis empty_iff empty_set)
    then show False using outside_nth assms by blast
  qed
  then show ?thesis by (simp add: kept_message_def)
qed

lemma inserted_origin:
  assumes "m \<in> set (inserted_at (insertions (collectReconcileFixes pick ms)) k)"
  obtains idx fx where "idx < length ms" "is_assistant (ms ! idx)" "nextAssistantIndex ms idx = k"
    "fx \<in> set (fix_at pick ms idx)" "blocks m = fix_content fx"
proof -
  obtain fx where fx: "fx \<in> set (collectReconcileFixes pick ms)" "insertBefore fx = k"
    "m = \<lparr>msg_id = '''', role = ''user'', blocks = fix_content fx\<rparr>"
    using assms unfolding inserted_at_insertions by blast
  then obtain idx where "idx < length ms" "fx \<in> set (fix_at pick ms idx)" using set_collect by blast
  then show thesis using that fx fix_at_fields(1,2) by auto
qed

lemma segment_fixed_eq:
  assumes "results_outside ms" "idx < length ms"
  shows "segment (fixed pick ms (idx + 1)) = seg_part pick ms idx"
proof -
  let ?n = "nextAssistantIndex ms idx" and ?ins = "insertions (collectReconcileFixes pick ms)"
  have "fixed pick ms (idx + 1) =
      concat (map (\<lambda>j. inserted_at ?ins j @ kept_message (staleBlockIdxs (collectReconcileFixes pick ms)) j (ms ! j))
       [idx + 1..<?n]) @ fixed pick ms ?n"
    unfolding fixed_def using nextAssistantIndex_props(1,2) [OF assms(2)] by (intro rebuild_split) auto
  moreover have "\<exists>rest. fixed pick ms ?n = inserted_at ?ins ?n @ rest \<and> segment rest = []"
  proof (cases "?n < length ms")
    case True
    then show ?thesis
      using nextAssistantIndex_props(4) [OF assms(2) True] kept_assistant [OF assms(1) True, of pick]
      unfolding fixed_def by (subst rebuild_head) simp
  next
    case False
    then show ?thesis unfolding fixed_def by (subst rebuild_head) simp
  qed
  ultimately obtain rest where "fixed pick ms (idx + 1) = seg_part pick ms idx @ rest" "segment rest = []"
    by (auto simp: seg_part_def)
  then show ?thesis using segment_append [OF seg_part_user [OF assms(2)]] by simp
qed

lemma seg_part_own:
  assumes pre: "preceded {} ms" "results_outside ms" "distinct (all_results ms)"
    and idx: "idx < length ms" "is_assistant (ms ! idx)"
  shows "set (all_results (seg_part pick ms idx)) \<subseteq> set (use_ids (ms ! idx))"
proof -
  let ?n = "nextAssistantIndex ms idx" and ?ins = "insertions (collectReconcileFixes pick ms)"
    and ?st = "staleBlockIdxs (collectReconcileFixes pick ms)"
  note np = nextAssistantIndex_props [OF idx(1)]
  have ins: "set (result_ids m) \<subseteq> set (use_ids (ms ! idx))"
    if "m \<in> set (inserted_at ?ins k)" "idx < k" "k \<le> ?n" for m k
    using that(1)
  proof (rule inserted_origin)
    fix i fx
    assume i: "i < length ms" "is_assistant (ms ! i)" "nextAssistantIndex ms i = k"
      and fx: "fx \<in> set (fix_at pick ms i)" "blocks m = fix_content fx"
    note ip = nextAssistantIndex_props [OF i(1)]
    have "\<not> i < idx" using ip(3) [of idx] i(3) that(2) idx(2) by auto
    moreover have "\<not> idx < i" using np(3) [of i] ip(1) i(2,3) that(3) by auto
    ultimately have "i = idx" by simp
    then show ?thesis
      using fix_content_results [OF fx(1)] unanswered_iff unfolding result_ids_def fx(2) by auto
  qed
  have kept: "set (result_ids m) \<subseteq> set (use_ids (ms ! idx))"
    if m: "m \<in> set (kept_message ?st j (ms ! j))" and j: "idx < j" "j < ?n" for m j
  proof
    fix v assume "v \<in> set (result_ids m)"
    then obtain b where b: "b \<in> set (blocks m)" "is_result b" "b_toolID b = v" by (auto simp: result_ids_def)
    then have "b \<in> set (concat (map blocks (kept_message ?st j (ms ! j))))" using m by auto
    then obtain bi where "bi < length (blocks (ms ! j))" "b = blocks (ms ! j) ! bi" "(j, bi) \<notin> set ?st"
      unfolding kept_message_blocks by blast
    then show "v \<in> set (use_ids (ms ! idx))"
      using kept_answers [OF pre idx j, of bi] b(2,3) by simp
  qed
  show ?thesis
  proof
    fix v assume "v \<in> set (all_results (seg_part pick ms idx))"
    then obtain m where m: "m \<in> set (seg_part pick ms idx)" "v \<in> set (result_ids m)" by (auto simp: all_results_def)
    then consider k where "m \<in> set (inserted_at ?ins k)" "idx < k" "k \<le> ?n"
      | j where "m \<in> set (kept_message ?st j (ms ! j))" "idx < j" "j < ?n"
      using np(1) by (fastforce simp: seg_part_def)
    then show "v \<in> set (use_ids (ms ! idx))" using m(2) ins kept by cases blast+
  qed
qed

lemma exact_append: "list_all (\<lambda>m. \<not> is_assistant m) xs \<Longrightarrow> exact (xs @ ys) = exact ys"
  by (induction xs) auto

lemma fixed_exact:
  assumes pre: "preceded {} ms" "results_outside ms" "distinct (all_results ms)" and "i \<le> length ms"
  shows "exact (fixed pick ms i)"
  using assms(4)
proof (induction "length ms - i" arbitrary: i)
  case 0
  then have "fixed pick ms i = inserted_at (insertions (collectReconcileFixes pick ms)) i"
    by (simp add: fixed_def)
  then show ?case
    using exact_append [of _ "[]"] inserted_not_assistant by (simp add: list_all_iff)
next
  case (Suc d)
  then have lt: "i < length ms" by auto
  let ?ins = "inserted_at (insertions (collectReconcileFixes pick ms)) i"
  let ?k = "kept_message (staleBlockIdxs (collectReconcileFixes pick ms)) i (ms ! i)"
  have f: "fixed pick ms i = ?ins @ ?k @ fixed pick ms (Suc i)"
    using lt by (simp add: fixed_def rebuild_head)
  have ih: "exact (fixed pick ms (Suc i))" using Suc by (intro Suc(1)) auto
  have "exact (?k @ fixed pick ms (Suc i))"
  proof (cases "is_assistant (ms ! i)")
    case True
    then have "?k = [ms ! i]" using kept_assistant [OF pre(2) lt] by simp
    then show ?thesis
      using ih seg_part_own [OF pre lt True, of pick] segment_fixed_eq [OF pre(2) lt, of pick] by simp
  next
    case False
    then have "list_all (\<lambda>m. \<not> is_assistant m) ?k" using kept_message_role by (auto simp: list_all_iff)
    then show ?thesis using ih exact_append by simp
  qed
  then show ?case using f exact_append [of ?ins] inserted_not_assistant by (simp add: list_all_iff)
qed

text \<open>Nothing is answered before the first call.\<close>

lemma fixed_start:
  assumes pre: "preceded {} ms" "results_outside ms"
  shows "all_results (segment (fixed pick ms 0)) = []"
proof -
  let ?k = "length (segment ms)" and ?ins = "insertions (collectReconcileFixes pick ms)"
    and ?st = "staleBlockIdxs (collectReconcileFixes pick ms)"
  have kl: "?k \<le> length ms" by (simp add: segment_def length_takeWhile_le)
  have before: "\<not> is_assistant (ms ! j)" if "j < ?k" for j
    using that unfolding segment_def by (metis nth_mem set_takeWhileD takeWhile_nth)
  have ins: "inserted_at ?ins k = []" if "k \<le> ?k" for k
  proof (rule ccontr)
    assume "inserted_at ?ins k \<noteq> []"
    then obtain m where "m \<in> set (inserted_at ?ins k)" by (cases "inserted_at ?ins k") auto
    then show False
    proof (rule inserted_origin)
      fix i assume "i < length ms" "is_assistant (ms ! i)" "nextAssistantIndex ms i = k"
      then show False using before [of i] nextAssistantIndex_props(1) [of i ms] that by simp
    qed
  qed
  have f: "fixed pick ms 0 = concat (map (\<lambda>j. inserted_at ?ins j @ kept_message ?st j (ms ! j)) [0..<?k]) @ fixed pick ms ?k"
    unfolding fixed_def using rebuild_split [of 0 ?k ms ?ins ?st] kl by simp
  have "segment (fixed pick ms ?k) = []"
  proof (cases "?k < length ms")
    case True
    have "is_assistant (ms ! ?k)"
      using nth_length_takeWhile [of "\<lambda>m. \<not> is_assistant m" ms] True by (simp add: segment_def)
    then show ?thesis using kept_assistant [OF pre(2) True, of pick] ins [of ?k]
      unfolding fixed_def by (subst rebuild_head) simp
  next
    case False
    then show ?thesis using ins [of ?k] unfolding fixed_def by (subst rebuild_head) simp
  qed
  then have sub: "set (segment (xs @ fixed pick ms ?k)) \<subseteq> set xs" for xs
    by (induction xs) auto
  have kept: "result_ids m = []" if m: "m \<in> set (kept_message ?st j (ms ! j))" and j: "j < ?k" for m j
  proof -
    have "b \<in> set (blocks (ms ! j))" if "b \<in> set (blocks m)" for b
      using m that kept_message_single [of ?st j "ms ! j"] by auto
    moreover have "result_ids (ms ! j) = []"
      using earlier_call [OF pre, of j] before kl j by (metis less_le_trans less_trans list.set_sel(1))
    ultimately show ?thesis by (auto simp: result_ids_def filter_empty_conv)
  qed
  have "result_ids m = []" if "m \<in> set (segment (fixed pick ms 0))" for m
  proof -
    have "m \<in> set (concat (map (\<lambda>j. inserted_at ?ins j @ kept_message ?st j (ms ! j)) [0..<?k]))"
      using that sub unfolding f by blast
    then obtain j where "j < ?k" "m \<in> set (inserted_at ?ins j @ kept_message ?st j (ms ! j))" by auto
    then show ?thesis using ins [of j] kept by simp
  qed
  then show ?thesis by (simp add: all_results_def)
qed

section \<open>Reconciling a conversation\<close>

lemma remove_orphans_outside:
  "remove_orphans opn ms = (ms', ch) \<Longrightarrow> results_outside ms \<Longrightarrow> results_outside ms'"
proof (induction ms arbitrary: opn ms' ch)
  case (Cons m ms)
  from Cons.prems(1) obtain kept o2 rest c where
    k: "keep_results ((if is_assistant m then use_ids m else []) @ opn) (blocks m) = (kept, o2)"
    and r: "remove_orphans o2 ms = (rest, c)"
    and ms': "ms' = (if kept = [] \<and> list_ex is_result (blocks m) then rest else m\<lparr>blocks := kept\<rparr> # rest)"
    by (rule remove_orphans_Cons)
  have "results_outside rest" using Cons.IH [OF r] Cons.prems(2) by (simp add: results_outside_def)
  moreover have "is_assistant m \<longrightarrow> \<not> list_ex is_result kept"
    using keep_results_props(7) [OF k] Cons.prems(2) by (auto simp: results_outside_def list_ex_iff)
  ultimately show ?case by (simp add: ms' results_outside_def is_assistant_def)
qed simp

lemma kept_message_none: "kept_message [] i m = [m]"
  by (simp add: kept_message_def stale_at_def)

lemma rebuild_none: "rebuild_from [] [] i ms = ms"
  by (induction ms arbitrary: i) (auto simp: kept_message_none inserted_at_def)

lemma reconcile_fixed: "reconcile pick ms = fixed pick (fst (remove_orphans [] ms)) 0"
  by (auto simp: reconcile_def fixed_def rebuildReconciledMessages_def Let_def insertions_def
      staleBlockIdxs_def rebuild_none)


text \<open>The conversation of the witness: a call whose result comes late, and one that was never answered.\<close>

definition demo_conversation :: "Message list" where
  "demo_conversation =
     [\<lparr>msg_id = ''1'', role = ''user'', blocks = [TextBlock ''go'']\<rparr>,
      \<lparr>msg_id = ''2'', role = ''assistant'', blocks = [ToolUseBlock ''a'' ''read_file'' None, ToolUseBlock ''b'' '''' None]\<rparr>,
      \<lparr>msg_id = ''3'', role = ''assistant'', blocks = [TextBlock ''and'']\<rparr>,
      \<lparr>msg_id = ''4'', role = ''user'', blocks = [ToolResultNamedBlock ''a'' ''read_file'' ''text'' False, TextBlock ''more'']\<rparr>]"


section \<open>Nothing else is touched\<close>

definition all_others :: "Message list \<Rightarrow> ContentBlock list" where
  "all_others ms = concat (map (\<lambda>m. other_blocks (blocks m)) ms)"

lemma all_others_simps [simp]: "all_others [] = []" "all_others (m # ms) = other_blocks (blocks m) @ all_others ms"
  "all_others (xs @ ys) = all_others xs @ all_others ys"
  by (simp_all add: all_others_def)

lemma remove_orphans_others: "remove_orphans opn ms = (ms', ch) \<Longrightarrow> all_others ms' = all_others ms"
proof (induction ms arbitrary: opn ms' ch)
  case (Cons m ms)
  from Cons.prems obtain kept o2 rest c where
    k: "keep_results ((if is_assistant m then use_ids m else []) @ opn) (blocks m) = (kept, o2)"
    and r: "remove_orphans o2 ms = (rest, c)"
    and ms': "ms' = (if kept = [] \<and> list_ex is_result (blocks m) then rest else m\<lparr>blocks := kept\<rparr> # rest)"
    by (rule remove_orphans_Cons)
  have "other_blocks (blocks m) = other_blocks kept" using keep_results_props(4) [OF k] by simp
  then show ?case using Cons.IH [OF r] by (auto simp: ms')
qed simp

lemma strip_others:
  "\<forall>bi. bi \<in> set stale \<longrightarrow> bi \<ge> n \<longrightarrow> bi < n + length bs \<longrightarrow> is_result (bs ! (bi - n)) \<Longrightarrow>
     other_blocks (map snd (filter (\<lambda>(bi, b). bi \<notin> set stale) (enumerate n bs))) = other_blocks bs"
proof (induction bs arbitrary: n)
  case (Cons b bs)
  have h: "is_result ((b # bs) ! (bi - n))" if "bi \<in> set stale" "bi \<ge> n" "bi < n + length (b # bs)" for bi
    using Cons.prems that by blast
  have "\<forall>bi. bi \<in> set stale \<longrightarrow> bi \<ge> Suc n \<longrightarrow> bi < Suc n + length bs \<longrightarrow> is_result (bs ! (bi - Suc n))"
  proof (intro allI impI)
    fix bi assume bi: "bi \<in> set stale" "bi \<ge> Suc n" "bi < Suc n + length bs"
    then have "bi - n = Suc (bi - Suc n)" by simp
    then show "is_result (bs ! (bi - Suc n))" using h [of bi] bi by simp
  qed
  then show ?case using Cons.IH [of "Suc n"] h [of n] by simp
qed simp

lemma kept_message_others:
  assumes "\<forall>bi. (i, bi) \<in> set stale \<longrightarrow> bi < length (blocks m) \<longrightarrow> is_result (blocks m ! bi)"
  shows "all_others (kept_message stale i m) = other_blocks (blocks m)"
proof -
  have "other_blocks (stripStaleBlocks (stale_at stale i) (blocks m)) = other_blocks (blocks m)"
    unfolding stripStaleBlocks_def using assms by (intro strip_others) (auto simp: stale_at_def)
  then show ?thesis by (auto simp: kept_message_def Let_def)
qed

lemma fixed_others: "i \<le> length ms \<Longrightarrow> all_others (fixed pick ms i) = all_others (drop i ms)"
proof (induction "length ms - i" arbitrary: i)
  case (0 i)
  have "other_blocks (blocks m) = []" if m: "m \<in> set (inserted_at (insertions (collectReconcileFixes pick ms)) i)" for m
    using m by (rule inserted_origin) (auto simp: other_blocks_def filter_empty_conv dest: fix_content_results)
  then have "all_others (inserted_at (insertions (collectReconcileFixes pick ms)) i) = []"
    by (simp add: all_others_def)
  then show ?case using 0 by (simp add: fixed_def)
next
  case (Suc d)
  then have lt: "i < length ms" by auto
  have "other_blocks (blocks m) = []" if m: "m \<in> set (inserted_at (insertions (collectReconcileFixes pick ms)) i)" for m
    using m by (rule inserted_origin) (auto simp: other_blocks_def filter_empty_conv dest: fix_content_results)
  then have "all_others (inserted_at (insertions (collectReconcileFixes pick ms)) i) = []"
    by (simp add: all_others_def)
  moreover have "all_others (kept_message (staleBlockIdxs (collectReconcileFixes pick ms)) i (ms ! i)) =
      other_blocks (blocks (ms ! i))"
    using stale_block by (intro kept_message_others) blast
  moreover have "all_others (fixed pick ms (Suc i)) = all_others (drop (Suc i) ms)"
    using Suc by (intro Suc(1)) auto
  moreover have "fixed pick ms i = inserted_at (insertions (collectReconcileFixes pick ms)) i @
      kept_message (staleBlockIdxs (collectReconcileFixes pick ms)) i (ms ! i) @ fixed pick ms (Suc i)"
    using lt by (simp add: fixed_def rebuild_head)
  ultimately show ?case using Cons_nth_drop_Suc [OF lt] by (metis all_others_simps(2,3) append_Nil)
qed

text \<open>
  \<^verbatim>\<open>ReconcileToolCalls\<close> touches tool results only: in every conversation the other blocks, what was said,
  thought and called, are the same before and after, in the same order.
\<close>

theorem reconcile_keeps_content: "all_others (reconcile pick ms) = all_others ms"
  using remove_orphans_others [of "[]" ms] fixed_others [of 0 "fst (remove_orphans [] ms)" pick]
  by (metis reconcile_fixed drop_0 le0 prod.collapse)

end
