(* ===== verification/Pinned.thy ===== *)
theory Pinned
  imports GoText GoNum Utf8
begin

text \<open>
  The notes that survive compaction (\<^verbatim>\<open>PinnedContext\<close> of \<^verbatim>\<open>internal/context/pinned.go\<close>): a short list under
  three limits, which are counted in characters, not bytes. The id of a new item is an argument; its time of
  creation is never read.
\<close>

section \<open>Characters\<close>

text \<open>\<^verbatim>\<open>[]rune(s)\<close>, each character by its encoding; a byte that is not UTF-8 becomes the replacement character.\<close>

function runes :: "string \<Rightarrow> string list" where
  "runes s =
     (if s = '''' then []
      else if rune_len s = 0 then rune_error # runes (tl s)
      else take (rune_len s) s # runes (drop (rune_len s) s))"
  by pat_completeness auto

termination runes
  by (relation "measure length") auto

declare runes.simps [simp del]

definition RuneCountInString :: "string \<Rightarrow> nat" where
  "RuneCountInString s = length (runes s)"

text \<open>The four kinds of encoding, one predicate each.\<close>

definition enc1 :: "string \<Rightarrow> bool" where "enc1 s \<longleftrightarrow> byte_in 0 127 s 0"

definition enc2 :: "string \<Rightarrow> bool" where "enc2 s \<longleftrightarrow> byte_in 194 223 s 0 \<and> byte_in 128 191 s 1"

definition enc3 :: "string \<Rightarrow> bool" where
  "enc3 s \<longleftrightarrow> (byte_in 224 224 s 0 \<and> byte_in 160 191 s 1 \<or>
     (byte_in 225 236 s 0 \<or> byte_in 238 239 s 0) \<and> byte_in 128 191 s 1 \<or>
     byte_in 237 237 s 0 \<and> byte_in 128 159 s 1) \<and> byte_in 128 191 s 2"

definition enc4 :: "string \<Rightarrow> bool" where
  "enc4 s \<longleftrightarrow> (byte_in 240 240 s 0 \<and> byte_in 144 191 s 1 \<or> byte_in 241 243 s 0 \<and> byte_in 128 191 s 1 \<or>
     byte_in 244 244 s 0 \<and> byte_in 128 143 s 1) \<and> byte_in 128 191 s 2 \<and> byte_in 128 191 s 3"

lemma rune_len_enc:
  "rune_len s = (if enc1 s then 1 else if enc2 s then 2 else if enc3 s then 3 else if enc4 s then 4 else 0)"
  unfolding rune_len_def enc1_def enc2_def enc3_def enc4_def by (rule refl)

lemma byte_in_index: "byte_in lo hi s i \<Longrightarrow> Suc i \<le> length s"
  by (simp add: byte_in_def)

lemma enc_length:
  "enc1 s \<Longrightarrow> 1 \<le> length s" "enc2 s \<Longrightarrow> 2 \<le> length s" "enc3 s \<Longrightarrow> 3 \<le> length s" "enc4 s \<Longrightarrow> 4 \<le> length s"
  using byte_in_index [of _ _ s 0] byte_in_index [of _ _ s 1] byte_in_index [of _ _ s 2]
    byte_in_index [of _ _ s 3]
  by (auto simp: enc1_def enc2_def enc3_def enc4_def numeral_eq_Suc)

lemma rune_len_le: "rune_len s \<le> length s"
  using enc_length [of s] by (simp add: rune_len_enc)

lemma byte_in_take: "i < k \<Longrightarrow> k \<le> length s \<Longrightarrow> byte_in lo hi (take k s @ x) i = byte_in lo hi s i"
  by (simp add: byte_in_def nth_append)

lemma enc_take:
  "1 \<le> k \<Longrightarrow> k \<le> length s \<Longrightarrow> enc1 (take k s @ x) = enc1 s"
  "2 \<le> k \<Longrightarrow> k \<le> length s \<Longrightarrow> enc2 (take k s @ x) = enc2 s"
  "3 \<le> k \<Longrightarrow> k \<le> length s \<Longrightarrow> enc3 (take k s @ x) = enc3 s"
  "4 \<le> k \<Longrightarrow> k \<le> length s \<Longrightarrow> enc4 (take k s @ x) = enc4 s"
  by (simp_all add: enc1_def enc2_def enc3_def enc4_def byte_in_take)

lemma rune_len_take:
  assumes "0 < rune_len s"
  shows "rune_len (take (rune_len s) s @ x) = rune_len s"
proof -
  have le: "rune_len s \<le> length s" by (rule rune_len_le)
  show ?thesis
    using assms le enc_take [OF _ le, of x]
    by (cases "enc1 s"; cases "enc2 s"; cases "enc3 s"; cases "enc4 s") (simp_all add: rune_len_enc)
qed

lemma rune_len_error: "rune_len (rune_error @ x) = 3"
  by (simp add: rune_len_def rune_error_def byte_in_def in_range_def byte_val_def)

lemma runes_elem: "r \<in> set (runes s) \<Longrightarrow> r \<noteq> [] \<and> (\<forall>x. rune_len (r @ x) = length r)"
proof (induction s rule: runes.induct)
  case (1 s)
  show ?case
  proof (cases "s = '''' \<or> rune_len s = 0")
    case True
    then show ?thesis using 1 rune_len_error
      by (subst (asm) (3) runes.simps) (auto simp: rune_error_def split: if_splits)
  next
    case False
    then have "r = take (rune_len s) s \<or> r \<in> set (runes (drop (rune_len s) s))"
      using 1(3) by (subst (asm) runes.simps) auto
    then show ?thesis using 1(2) False rune_len_take [of s] rune_len_le [of s] by (auto simp: min_def)
  qed
qed

lemma runes_append: "r \<noteq> [] \<Longrightarrow> rune_len (r @ x) = length r \<Longrightarrow> runes (r @ x) = r # runes x"
  by (subst runes.simps) auto

lemma runes_concat: "\<forall>r \<in> set rs. r \<noteq> [] \<and> (\<forall>x. rune_len (r @ x) = length r) \<Longrightarrow> runes (concat rs) = rs"
proof (induction rs)
  case Nil
  then show ?case by (simp add: runes.simps)
next
  case (Cons r rs)
  then show ?case using runes_append [of r "concat rs"] by simp
qed

lemma runes_take: "runes (concat (take n (runes s))) = take n (runes s)"
  by (intro runes_concat) (auto dest: in_set_takeD runes_elem)

section \<open>The list of notes\<close>

definition maxPinnedItems :: nat where "maxPinnedItems = 10"
definition maxPinnedChars :: nat where "maxPinnedChars = 2000"
definition maxPinnedTotal :: nat where "maxPinnedTotal = 8000"

definition pinnedMarker :: string where
  "pinnedMarker = ''[Pinned Context - protected from compaction]''"

record PinnedItem =
  pin_id :: string
  pin_text :: string

datatype pin_error = PinEmpty | PinFull | PinBudget nat

definition total_runes :: "PinnedItem list \<Rightarrow> nat" where
  "total_runes items = sum_list (map (\<lambda>it. RuneCountInString (pin_text it)) items)"

definition Pinned_Add :: "string \<Rightarrow> string \<Rightarrow> PinnedItem list \<Rightarrow> (pin_error + string) \<times> PinnedItem list" where
  "Pinned_Add newid text0 items =
     (let t1 = TrimSpace text0;
          t = (if RuneCountInString t1 > maxPinnedChars then concat (take maxPinnedChars (runes t1)) else t1)
      in if t1 = '''' then (Inl PinEmpty, items)
         else if length items \<ge> maxPinnedItems then (Inl PinFull, items)
         else if total_runes items + RuneCountInString t > maxPinnedTotal
         then (Inl (PinBudget (maxPinnedTotal - total_runes items)), items)
         else (Inr newid, items @ [\<lparr>pin_id = newid, pin_text = t\<rparr>]))"

text \<open>\<^verbatim>\<open>fmtAtoi\<close>: the digits are accumulated in an int, which wraps around.\<close>

fun fmtAtoi_loop :: "int \<Rightarrow> string \<Rightarrow> int option" where
  "fmtAtoi_loop n [] = Some n"
| "fmtAtoi_loop n (c # s) =
     (if \<not> is_digit c then None else fmtAtoi_loop (wrap64 (n * 10 + int (digit_val c))) s)"

definition fmtAtoi :: "string \<Rightarrow> int option" where
  "fmtAtoi s0 = (let s = TrimSpace s0 in if s = '''' then None else fmtAtoi_loop 0 s)"

definition pin_index :: "string \<Rightarrow> PinnedItem list \<Rightarrow> nat option" where
  "pin_index idOrIndex items =
     (case fmtAtoi idOrIndex of
        Some n \<Rightarrow> if 1 \<le> n \<and> n \<le> int (length items) then Some (nat (n - 1))
                  else index_by (\<lambda>it. HasPrefix (pin_id it) idOrIndex) items
      | None \<Rightarrow> index_by (\<lambda>it. HasPrefix (pin_id it) idOrIndex) items)"

definition Pinned_Remove :: "string \<Rightarrow> PinnedItem list \<Rightarrow> bool \<times> PinnedItem list" where
  "Pinned_Remove idOrIndex items =
     (case pin_index idOrIndex items of
        None \<Rightarrow> (False, items)
      | Some idx \<Rightarrow> (True, take idx items @ drop (idx + 1) items))"

definition Pinned_Clear :: "PinnedItem list \<Rightarrow> nat \<times> PinnedItem list" where
  "Pinned_Clear items = (length items, [])"

definition Pinned_Render :: "PinnedItem list \<Rightarrow> string" where
  "Pinned_Render items =
     (if items = [] then ''''
      else TrimRight (pinnedMarker @ [lf] @
        concat (map (\<lambda>(i, it). show_nat (i + 1) @ ''. '' @ pin_text it @ [lf]) (enumerate 0 items))) [lf])"

section \<open>The limits hold\<close>

datatype pin_op = PAdd string string | PRemove string | PClear

definition pin_step :: "pin_op \<Rightarrow> PinnedItem list \<Rightarrow> PinnedItem list" where
  "pin_step oper items =
     (case oper of PAdd i t \<Rightarrow> snd (Pinned_Add i t items) | PRemove i \<Rightarrow> snd (Pinned_Remove i items)
      | PClear \<Rightarrow> snd (Pinned_Clear items))"

definition pinned_ok :: "PinnedItem list \<Rightarrow> bool" where
  "pinned_ok items \<longleftrightarrow> length items \<le> maxPinnedItems \<and> total_runes items \<le> maxPinnedTotal \<and>
     list_all (\<lambda>it. RuneCountInString (pin_text it) \<le> maxPinnedChars) items"

lemma cut_runes: "RuneCountInString (if RuneCountInString t > n then concat (take n (runes t)) else t) \<le> n"
  by (auto simp: RuneCountInString_def runes_take)

lemma total_runes_append: "total_runes (xs @ ys) = total_runes xs + total_runes ys"
  by (simp add: total_runes_def)

lemma pin_step_ok: "pinned_ok items \<Longrightarrow> pinned_ok (pin_step oper items)"
proof (cases oper)
  case (PAdd i t)
  assume "pinned_ok items"
  then show ?thesis using cut_runes [of maxPinnedChars "TrimSpace t"]
    by (auto simp: PAdd pin_step_def Pinned_Add_def pinned_ok_def Let_def total_runes_append total_runes_def)
next
  case (PRemove i)
  assume ok: "pinned_ok items"
  have "pinned_ok (take k items @ drop (k + 1) items)" for k
  proof -
    have "total_runes items = total_runes (take k items) + total_runes (drop k items)"
      by (metis append_take_drop_id total_runes_append)
    moreover have "total_runes (drop (k + 1) items) \<le> total_runes (drop k items)"
      by (cases "drop k items") (simp_all add: total_runes_def drop_Suc tl_drop [symmetric])
    ultimately show ?thesis
      using ok by (auto simp: pinned_ok_def total_runes_append list_all_iff dest: in_set_takeD in_set_dropD)
  qed
  then show ?thesis using ok by (auto simp: PRemove pin_step_def Pinned_Remove_def split: option.splits)
qed (auto simp: pin_step_def Pinned_Clear_def pinned_ok_def total_runes_def)

interpretation pinned: op_machine pin_step pinned_ok
  by unfold_locales (rule pin_step_ok)

lemma pinned_within_limits: "pinned_ok (fold pin_step ops [])"
  by (rule pinned.run_inv) (simp add: pinned_ok_def total_runes_def)

text \<open>The index of an item is read with wrap-around, and the empty text is a prefix of every id.\<close>

lemma pinned_index_wraps:
  "fst (Pinned_Remove ''18446744073709551617'' [\<lparr>pin_id = ''pin_1'', pin_text = ''a''\<rparr>]) \<and>
   fst (Pinned_Remove '''' [\<lparr>pin_id = ''pin_1'', pin_text = ''a''\<rparr>])"
  by code_simp

end
