(* ===== verification/CtxManager.thy ===== *)
theory CtxManager
  imports Complex_Main Messages Pinned
begin

text \<open>
  The context manager of an agent (\<^verbatim>\<open>Manager\<close> of \<^verbatim>\<open>internal/context/manager.go\<close>): the conversation, its
  token accounting, the limits derived from the context window, and the operations that shorten the
  conversation. An operation that holds the lock from start to end is one function on the state; the
  summarization, which releases it while the model writes the summary, is two.

  The number of tokens of a message (a call of the provider, or the calibrated estimate), the ids that
  \<^verbatim>\<open>uuid.New\<close> gives and the note that the agent supplies are the arguments of the operations, in the record
  \<open>ctx_env\<close>. The ratios of the code are rational numbers; a product with a ratio is cut off to an integer.
  Tokens and versions are \<^verbatim>\<open>int\<close>s that stay far from their limits.
\<close>

section \<open>State\<close>

datatype CompactRejectReason =
  CompactRejectNone | CompactRejectNoChange | CompactRejectEmpty | CompactRejectUserReset | CompactRejectBenignTrim

record CompactedEntry =
  ce_role :: string
  ce_toolID :: string
  ce_reason :: string
  ce_text :: string

record ContextManager =
  messages :: "Message list"
  version :: int
  nonTailMutSeq :: int
  tokens :: int
  contextWindow :: int
  outputReserve :: int
  baselineTokens :: int
  baselineDelta :: int
  baselineAvailable :: bool
  compactedArchive :: "CompactedEntry list"
  toolDefinitionOverhead :: int
  pinned :: "PinnedItem list"
  benignRemoval :: bool
  userReset :: bool
  lastReject :: CompactRejectReason
  lastSummarizeApplied :: bool
  earlyCompactRatio :: rat
  nextUuid :: nat
  persisted :: "Message list"

record ctx_env =
  countTokens :: "Message \<Rightarrow> int"
  uuid :: "nat \<Rightarrow> string"
  postCompactNote :: "string option"

definition NewContextManager :: "int \<Rightarrow> ContextManager" where
  "NewContextManager window = \<lparr>messages = [], version = 0, nonTailMutSeq = 0, tokens = 0, contextWindow = window,
     outputReserve = 0, baselineTokens = 0, baselineDelta = 0, baselineAvailable = False, compactedArchive = [],
     toolDefinitionOverhead = 0, pinned = [], benignRemoval = False, userReset = False,
     lastReject = CompactRejectNone, lastSummarizeApplied = False, earlyCompactRatio = 0, nextUuid = 0,
     persisted = []\<rparr>"

section \<open>Token accounting\<close>

definition sum_tokens :: "ctx_env \<Rightarrow> Message list \<Rightarrow> int" where
  "sum_tokens env ms = sum_list (map (countTokens env) ms)"

definition invalidateUsageBaseline :: "ContextManager \<Rightarrow> ContextManager" where
  "invalidateUsageBaseline m = m\<lparr>baselineTokens := 0, baselineDelta := 0, baselineAvailable := False\<rparr>"

definition recalcTokens :: "ctx_env \<Rightarrow> ContextManager \<Rightarrow> ContextManager" where
  "recalcTokens env m = invalidateUsageBaseline (m\<lparr>tokens := sum_tokens env (messages m)\<rparr>)"

definition tokenCount :: "ContextManager \<Rightarrow> int" where
  "tokenCount m =
     (if baselineAvailable m \<and> baselineTokens m + baselineDelta m > 0 then baselineTokens m + baselineDelta m
      else tokens m + toolDefinitionOverhead m)"

definition markBenignRemoval :: "ContextManager \<Rightarrow> ContextManager" where
  "markBenignRemoval m = m\<lparr>benignRemoval := True\<rparr>"

text \<open>What every operation that changes more than the tail does to the two counters.\<close>

definition bump_seq :: "ContextManager \<Rightarrow> ContextManager" where
  "bump_seq m = m\<lparr>version := version m + 1, nonTailMutSeq := nonTailMutSeq m + 1\<rparr>"

definition SetCheckpointBaseline :: "int \<Rightarrow> ContextManager \<Rightarrow> ContextManager" where
  "SetCheckpointBaseline n m =
     (if n \<le> 0 then m else m\<lparr>baselineTokens := n, baselineDelta := 0, baselineAvailable := True\<rparr>)"

record TokenUsage =
  InputTokens :: int
  OutputTokens :: int
  CacheRead :: int
  PromptTokensTotal :: int

text \<open>The baseline part of \<^verbatim>\<open>RecordUsage\<close>; the rest feeds the calibrator of the estimates.\<close>

definition RecordUsage :: "TokenUsage \<Rightarrow> ContextManager \<Rightarrow> ContextManager" where
  "RecordUsage u m =
     (if InputTokens u \<le> 0 \<and> OutputTokens u \<le> 0 then m
      else if InputTokens u \<le> 0 then m
      else let total_n = (if CacheRead u > 0 \<and> PromptTokensTotal u > InputTokens u then PromptTokensTotal u
                        else InputTokens u)
           in m\<lparr>baselineTokens := total_n + OutputTokens u, baselineDelta := 0, baselineAvailable := True\<rparr>)"

section \<open>The limits\<close>

definition minSummaryReserve :: int where "minSummaryReserve = 64"
definition maxSummaryOutputTokens :: int where "maxSummaryOutputTokens = 12000"

definition effectiveOutputReserve :: "ContextManager \<Rightarrow> int" where
  "effectiveOutputReserve m =
     (let w = contextWindow m in
      if w \<le> 0 then 0
      else let lower = min 8192 (max 512 (w div 10));
               ceil = max lower (w div 4);
               r0 = (if outputReserve m \<le> 0 then w div 10 else outputReserve m);
               r1 = (if r0 < lower then lower else r0)
           in if r1 > ceil then ceil else r1)"

definition effectiveSafetyMargin :: "ContextManager \<Rightarrow> int" where
  "effectiveSafetyMargin m =
     (let w = contextWindow m in
      if w \<le> 0 then minSummaryReserve
      else let safety = w div 20; lower = min 4096 (max minSummaryReserve (w div 20))
           in if safety < lower then lower else safety)"

definition SetOutputReserve :: "int \<Rightarrow> ContextManager \<Rightarrow> ContextManager" where
  "SetOutputReserve n m = m\<lparr>outputReserve := (if n < 0 then 0 else n)\<rparr>"

definition SetEarlyCompactRatio :: "rat \<Rightarrow> ContextManager \<Rightarrow> ContextManager" where
  "SetEarlyCompactRatio r m = m\<lparr>earlyCompactRatio := (if r < 0 \<or> r \<ge> 1 then 0 else r)\<rparr>"

definition AutoCompactThreshold :: "ContextManager \<Rightarrow> int" where
  "AutoCompactThreshold m =
     (let w = contextWindow m in
      if w \<le> 0 then 0
      else let threshold = w - effectiveOutputReserve m;
               r = earlyCompactRatio m; early = floor (of_int w * r);
               t = (if r > 0 \<and> r < 1 \<and> early < threshold then early else threshold)
           in if t < minSummaryReserve then minSummaryReserve else t)"

definition PromptBudget :: "ContextManager \<Rightarrow> int" where
  "PromptBudget m =
     (if contextWindow m \<le> 0 then 0
      else let budget = contextWindow m - effectiveOutputReserve m - effectiveSafetyMargin m
           in if budget < minSummaryReserve then minSummaryReserve else budget)"

definition summaryReserveTokens :: "ContextManager \<Rightarrow> int" where
  "summaryReserveTokens m =
     (if contextWindow m \<le> 0 then minSummaryReserve
      else let reserve = contextWindow m div 20
           in if reserve < minSummaryReserve then minSummaryReserve
              else if reserve > maxSummaryOutputTokens then maxSummaryOutputTokens else reserve)"

section \<open>Adding and removing messages\<close>

definition newMessageID :: "ctx_env \<Rightarrow> ContextManager \<Rightarrow> string" where
  "newMessageID env m = ''msg_'' @ uuid env (nextUuid m)"

definition Manager_Add :: "ctx_env \<Rightarrow> Message \<Rightarrow> ContextManager \<Rightarrow> ContextManager" where
  "Manager_Add env msg0 m =
     (let msg = (if msg_id msg0 = '''' then msg0\<lparr>msg_id := newMessageID env m\<rparr> else msg0);
          n = countTokens env msg
      in m\<lparr>messages := messages m @ [msg],
           nextUuid := (if msg_id msg0 = '''' then nextUuid m + 1 else nextUuid m),
           version := version m + 1,
           tokens := tokens m + n,
           baselineDelta := (if baselineAvailable m then baselineDelta m + n else baselineDelta m),
           persisted := persisted m @ [msg]\<rparr>)"

text \<open>The accounting of the two steps of \<^verbatim>\<open>ReconcileToolCalls\<close>: the baseline is kept, its delta is not.\<close>

definition reconciled :: "ctx_env \<Rightarrow> Message list \<Rightarrow> ContextManager \<Rightarrow> ContextManager" where
  "reconciled env ms m =
     bump_seq (markBenignRemoval
       (m\<lparr>messages := ms, tokens := sum_tokens env ms,
          baselineDelta := (if baselineAvailable m then 0 else baselineDelta m)\<rparr>))"

definition ReconcileToolCalls :: "ctx_env \<Rightarrow> call_order \<Rightarrow> ContextManager \<Rightarrow> bool \<times> ContextManager" where
  "ReconcileToolCalls env pick m =
     (let (ms1, changed) = remove_orphans [] (messages m);
          m1 = (if changed then reconciled env ms1 m else m);
          fixes = collectReconcileFixes pick ms1
      in if fixes = [] then (False, m1)
         else (True, reconciled env (rebuildReconciledMessages ms1 (insertions fixes) (staleBlockIdxs fixes)) m1))"

definition is_system :: "Message \<Rightarrow> bool" where
  "is_system msg \<longleftrightarrow> role msg = ''system''"

definition UpdateFirstSystemMessage :: "ctx_env \<Rightarrow> Message \<Rightarrow> ContextManager \<Rightarrow> ContextManager" where
  "UpdateFirstSystemMessage env msg m =
     (case index_by is_system (messages m) of
        Some i \<Rightarrow> m\<lparr>messages := (messages m)[i := msg],
                    tokens := tokens m + (countTokens env msg - countTokens env (messages m ! i))\<rparr>
      | None \<Rightarrow> bump_seq (m\<lparr>messages := msg # messages m, tokens := tokens m + countTokens env msg\<rparr>))"

definition Manager_Clear :: "ctx_env \<Rightarrow> ContextManager \<Rightarrow> ContextManager" where
  "Manager_Clear env m =
     (let m0 = m\<lparr>userReset := True, lastSummarizeApplied := False\<rparr> in
      invalidateUsageBaseline (bump_seq
        (case messages m of
           sys # rest \<Rightarrow> if is_system sys then m0\<lparr>messages := [sys], tokens := countTokens env sys\<rparr>
                         else m0\<lparr>messages := [], tokens := 0\<rparr>
         | [] \<Rightarrow> m0\<lparr>messages := [], tokens := 0\<rparr>)))"

definition isToolResultCarrier :: "Message \<Rightarrow> bool" where
  "isToolResultCarrier msg \<longleftrightarrow>
     list_ex is_result (blocks msg) \<and>
     \<not> list_ex (\<lambda>b. b_type b = ''text'' \<and> TrimSpace (b_text b) \<noteq> '''') (blocks msg)"

definition user_written :: "Message \<Rightarrow> bool" where
  "user_written msg \<longleftrightarrow> role msg = ''user'' \<and> \<not> isToolResultCarrier msg"

definition last_index_by :: "('a \<Rightarrow> bool) \<Rightarrow> 'a list \<Rightarrow> nat option" where
  "last_index_by P xs = map_option (\<lambda>i. length xs - Suc i) (index_by P (rev xs))"

definition RemoveLastUserMessage :: "ContextManager \<Rightarrow> bool \<times> ContextManager" where
  "RemoveLastUserMessage m =
     (case last_index_by user_written (messages m) of
        None \<Rightarrow> (False, m)
      | Some i \<Rightarrow> (True, m\<lparr>messages := take i (messages m) @ drop (i + 1) (messages m)\<rparr>))"

definition first_text :: "Message \<Rightarrow> string" where
  "first_text msg =
     (case filter (\<lambda>b. b_type b = ''text'' \<and> b_text b \<noteq> '''') (blocks msg) of b # _ \<Rightarrow> b_text b | [] \<Rightarrow> '''')"

definition RemoveLastAssistantGroup :: "ctx_env \<Rightarrow> ContextManager \<Rightarrow> string \<times> ContextManager" where
  "RemoveLastAssistantGroup env m =
     (case last_index_by is_assistant (messages m) of
        None \<Rightarrow> ('''', m)
      | Some a \<Rightarrow>
          (case last_index_by user_written (take a (messages m)) of
             None \<Rightarrow> ('''', m)
           | Some u \<Rightarrow>
               let t = first_text (messages m ! u) in
               if t = '''' then ('''', m)
               else (t, recalcTokens env (bump_seq (markBenignRemoval (m\<lparr>messages := take (u + 1) (messages m)\<rparr>))))))"

section \<open>Groups of messages\<close>

definition startsNewInteractionGroup :: "Message \<Rightarrow> bool" where
  "startsNewInteractionGroup msg \<longleftrightarrow> role msg = ''user'' \<and> list_ex (\<lambda>b. \<not> is_result b) (blocks msg)"

definition buildMessageGroups :: "Message list \<Rightarrow> nat \<Rightarrow> (nat \<times> nat) list" where
  "buildMessageGroups ms start =
     (if start \<ge> length ms then []
      else let cuts = filter (\<lambda>i. startsNewInteractionGroup (ms ! i)) [start + 1..<length ms]
           in zip (start # cuts) (cuts @ [length ms]))"

definition conversation_start :: "Message list \<Rightarrow> nat" where
  "conversation_start ms = (if ms \<noteq> [] \<and> is_system (hd ms) then 1 else 0)"

definition truncate_at :: "Message list \<Rightarrow> nat \<times> nat \<Rightarrow> Message list option" where
  "truncate_at ms g =
     (let head = (if startsNewInteractionGroup (ms ! fst g) then fst g + 1 else fst g) in
      if head < snd g then Some (take head ms @ drop (head + 1) ms) else None)"

definition truncateGroupsForPTLRetry :: "Message list \<Rightarrow> Message list option" where
  "truncateGroupsForPTLRetry ms =
     (if length ms < 2 then None
      else first_some (truncate_at ms) (buildMessageGroups ms (conversation_start ms)))"

definition TruncateOldestGroupForRetry :: "ctx_env \<Rightarrow> ContextManager \<Rightarrow> bool \<times> ContextManager" where
  "TruncateOldestGroupForRetry env m =
     (case truncateGroupsForPTLRetry (messages m) of
        None \<Rightarrow> (False, m)
      | Some ms \<Rightarrow> (True, recalcTokens env (bump_seq (markBenignRemoval (m\<lparr>messages := ms\<rparr>)))))"

section \<open>The archive of what was compacted\<close>

definition maxCompactedArchiveBytes :: nat where "maxCompactedArchiveBytes = 1048576"

definition archive_bytes :: "CompactedEntry list \<Rightarrow> nat" where
  "archive_bytes es = sum_list (map (\<lambda>e. length (ce_text e)) es)"

fun trim_loop :: "nat \<Rightarrow> CompactedEntry list \<Rightarrow> CompactedEntry list" where
  "trim_loop total_n [] = []"
| "trim_loop total_n (e # es) =
     (if total_n > maxCompactedArchiveBytes then trim_loop (total_n - length (ce_text e)) es else e # es)"

definition trimCompactedArchive :: "CompactedEntry list \<Rightarrow> CompactedEntry list" where
  "trimCompactedArchive es = trim_loop (archive_bytes es) es"

definition archiveSupersededToolOutput ::
  "string \<Rightarrow> string \<Rightarrow> string \<Rightarrow> string \<Rightarrow> CompactedEntry list \<Rightarrow> CompactedEntry list" where
  "archiveSupersededToolOutput rl tid reason output es =
     (if TrimSpace output = '''' then es
      else trimCompactedArchive (es @ [\<lparr>ce_role = rl, ce_toolID = tid, ce_reason = reason, ce_text = output\<rparr>]))"

fun archive_text :: "string \<Rightarrow> ContentBlock list \<Rightarrow> string" where
  "archive_text acc [] = acc"
| "archive_text acc (b # bs) =
     (if b_type b = ''text'' then archive_text (acc @ b_text b) bs
      else if b_type b = ''tool_result'' \<and> b_output b \<noteq> ''''
      then archive_text (acc @ (if acc = '''' then '''' else [lf]) @ b_output b) bs
      else archive_text acc bs)"

definition archive_entry :: "Message \<Rightarrow> CompactedEntry list" where
  "archive_entry msg =
     (let t = TrimSpace (archive_text '''' (blocks msg)) in
      if is_system msg \<or> t = '''' then []
      else [\<lparr>ce_role = role msg, ce_toolID = '''', ce_reason = ''summarized'', ce_text = t\<rparr>])"

definition archiveCompactedMessages :: "Message list \<Rightarrow> CompactedEntry list \<Rightarrow> CompactedEntry list" where
  "archiveCompactedMessages ms es = trimCompactedArchive (es @ concat (map archive_entry ms))"

record CompactedHit =
  hit_role :: string
  hit_toolID :: string
  hit_reason :: string
  hit_excerpt :: string

definition excerptWindow :: nat where "excerptWindow = 200"

definition archive_hit :: "string \<Rightarrow> CompactedEntry \<Rightarrow> CompactedHit option" where
  "archive_hit q e =
     (case Index (ToLower (ce_text e)) (ToLower q) of
        None \<Rightarrow> None
      | Some i \<Rightarrow>
          let start = i - excerptWindow; stop = min (i + length q + excerptWindow) (length (ce_text e))
          in Some \<lparr>hit_role = ce_role e, hit_toolID = ce_toolID e, hit_reason = ce_reason e,
                   hit_excerpt = take (stop - start) (drop start (ce_text e))\<rparr>)"

definition SearchCompactedArchive :: "string \<Rightarrow> int \<Rightarrow> ContextManager \<Rightarrow> CompactedHit list" where
  "SearchCompactedArchive query limit m =
     (let q = TrimSpace query in
      if q = '''' \<or> limit \<le> 0 then []
      else take (nat limit) (List.map_filter (archive_hit q) (rev (compactedArchive m))))"

end
