(* ===== verification/CtxCompact.thy ===== *)
theory CtxCompact
  imports CtxManager
begin

text \<open>
  Compaction by summary: the two ways the conversation is replaced by what a model wrote about it.
  \<^verbatim>\<open>Summarize\<close> plans under the lock, asks the model without it and commits under it again;
  \<^verbatim>\<open>CompactSnapshot\<close> and \<^verbatim>\<open>ApplyCompactResult\<close> do the same with a copy of the conversation in the
  background. Both put the pinned notes and the agent's state note back. The summary and the state text of the
  plan are arguments.
\<close>

section \<open>Marked system messages\<close>

definition summaryMarker :: string where "summaryMarker = ''[Previous conversation summary]''"

definition postCompactNoteMarker :: string where
  "postCompactNoteMarker = ''[Session State Note - refreshed after compaction]''"

definition has_marker :: "string \<Rightarrow> Message \<Rightarrow> bool" where
  "has_marker marker msg \<longleftrightarrow>
     is_system msg \<and> (case blocks msg of b # _ \<Rightarrow> b_type b = ''text'' \<and> Contains (b_text b) marker | [] \<Rightarrow> False)"

definition findSystemMessageIdx :: "string \<Rightarrow> Message list \<Rightarrow> nat option" where
  "findSystemMessageIdx marker ms = index_by (has_marker marker) ms"

definition SummaryMsgID :: "ContextManager \<Rightarrow> string" where
  "SummaryMsgID m =
     (case findSystemMessageIdx summaryMarker (messages m) of Some i \<Rightarrow> msg_id (messages m ! i) | None \<Rightarrow> '''')"

definition removeSystemMessageByMarker :: "string \<Rightarrow> ContextManager \<Rightarrow> ContextManager" where
  "removeSystemMessageByMarker marker m =
     (case findSystemMessageIdx marker (messages m) of
        None \<Rightarrow> m
      | Some i \<Rightarrow> markBenignRemoval (m\<lparr>messages := take i (messages m) @ drop (i + 1) (messages m)\<rparr>))"

text \<open>Where both notes go: behind the summary, else behind the system prompt, else to the front.\<close>

definition note_index :: "Message list \<Rightarrow> nat" where
  "note_index ms =
     (case findSystemMessageIdx summaryMarker ms of Some i \<Rightarrow> i + 1 | None \<Rightarrow> conversation_start ms)"

definition system_message :: "string \<Rightarrow> string \<Rightarrow> Message" where
  "system_message mid t = \<lparr>msg_id = mid, role = ''system'', blocks = [TextBlock t]\<rparr>"

definition insert_note :: "ctx_env \<Rightarrow> string \<Rightarrow> ContextManager \<Rightarrow> ContextManager" where
  "insert_note env t m =
     (let i = note_index (messages m) in
      m\<lparr>messages := take i (messages m) @ [system_message (newMessageID env m) t] @ drop i (messages m),
        nextUuid := nextUuid m + 1\<rparr>)"

definition injectPinnedAfterCompaction :: "ctx_env \<Rightarrow> ContextManager \<Rightarrow> ContextManager" where
  "injectPinnedAfterCompaction env m =
     (let m1 = removeSystemMessageByMarker pinnedMarker m in
      if pinned m1 = [] \<or> Pinned_Render (pinned m1) = '''' then m1
      else insert_note env (Pinned_Render (pinned m1)) m1)"

definition injectPostCompactNoteAfterCompaction :: "ctx_env \<Rightarrow> ContextManager \<Rightarrow> ContextManager" where
  "injectPostCompactNoteAfterCompaction env m =
     (let m1 = removeSystemMessageByMarker postCompactNoteMarker m in
      case postCompactNote env of
        None \<Rightarrow> m1
      | Some note \<Rightarrow> if TrimSpace note = '''' then m1
                     else insert_note env (postCompactNoteMarker @ [lf] @ TrimSpace note) m1)"

section \<open>Summarize\<close>

record summaryPlan =
  plan_system :: "Message option"
  plan_allMsgs :: "Message list"
  plan_oldMsgs :: "Message list"
  plan_recentMsgs :: "Message list"
  plan_origLen :: nat
  plan_origVersion :: int

definition minRecentGroups :: nat where "minRecentGroups = 1"

text \<open>The loop over the last groups: how many are kept word for word.\<close>

fun recent_loop :: "(Message list \<Rightarrow> int) \<Rightarrow> int \<Rightarrow> Message list list \<Rightarrow> int \<Rightarrow> nat" where
  "recent_loop est budget [] acc = 0"
| "recent_loop est budget (g # gs) acc =
     (if acc + est g > budget then 0 else 1 + recent_loop est budget gs (acc + est g))"

definition group_messages :: "Message list \<Rightarrow> nat \<times> nat \<Rightarrow> Message list" where
  "group_messages ms g = take (snd g - fst g) (drop (fst g) ms)"

definition recent_count :: "(Message list \<Rightarrow> int) \<Rightarrow> ContextManager \<Rightarrow> (nat \<times> nat) list \<Rightarrow> nat" where
  "recent_count est m groups =
     (if length groups \<le> minRecentGroups then 0
      else let n = recent_loop est (contextWindow m * 15 div 100)
                     (map (group_messages (messages m)) (take minRecentGroups (rev groups))) 0
           in if n = 0 then 1 else n)"

definition buildSummaryPlan :: "(Message list \<Rightarrow> int) \<Rightarrow> ContextManager \<Rightarrow> summaryPlan option" where
  "buildSummaryPlan est m =
     (let ms = messages m; start = conversation_start ms; groups = buildMessageGroups ms start in
      if groups = [] then None
      else let n = recent_count est m groups;
               split = (if n > 0 then fst (groups ! (length groups - n)) else length ms);
               old = take (split - start) (drop start ms)
           in if old = [] then None
              else Some \<lparr>plan_system = (if start = 1 then Some (hd ms) else None), plan_allMsgs = ms,
                         plan_oldMsgs = old, plan_recentMsgs = drop split ms, plan_origLen = length ms,
                         plan_origVersion = nonTailMutSeq m\<rparr>)"

text \<open>The second half, after the model has answered.\<close>

definition summary_head :: "summaryPlan \<Rightarrow> ContextManager \<Rightarrow> Message list" where
  "summary_head plan m =
     (case plan_system plan of
        None \<Rightarrow> []
      | Some sys \<Rightarrow> if messages m \<noteq> [] \<and> is_system (hd (messages m)) then [hd (messages m)] else [sys])"

definition summary_messages :: "ctx_env \<Rightarrow> string \<Rightarrow> string \<Rightarrow> ContextManager \<Rightarrow> Message list \<times> ContextManager" where
  "summary_messages env summaryText stateText m =
     (let m1 = m\<lparr>nextUuid := nextUuid m + 1\<rparr>;
          s = system_message (newMessageID env m) (summaryMarker @ [lf] @ summaryText)
      in if stateText = '''' then ([s], m1)
         else ([s, system_message (newMessageID env m1) stateText], m1\<lparr>nextUuid := nextUuid m1 + 1\<rparr>))"

definition Summarize_commit :: "ctx_env \<Rightarrow> summaryPlan \<Rightarrow> string \<Rightarrow> string \<Rightarrow> ContextManager \<Rightarrow> ContextManager" where
  "Summarize_commit env plan summaryText stateText m =
     (if nonTailMutSeq m \<noteq> plan_origVersion plan then m\<lparr>lastSummarizeApplied := False\<rparr>
      else let (heads, m1) = summary_messages env summaryText stateText m;
               m2 = m1\<lparr>messages := summary_head plan m @ heads @ plan_recentMsgs plan @
                          drop (plan_origLen plan) (messages m),
                       lastSummarizeApplied := True\<rparr>
           in recalcTokens env (bump_seq
                (injectPostCompactNoteAfterCompaction env (injectPinnedAfterCompaction env m2))))"

text \<open>Nobody else runs in between; \<^const>\<open>None\<close> of the model is an error, which changes nothing.\<close>

definition Summarize ::
  "ctx_env \<Rightarrow> (Message list \<Rightarrow> int) \<Rightarrow> (summaryPlan \<Rightarrow> string option) \<Rightarrow> (summaryPlan \<Rightarrow> string) \<Rightarrow> ContextManager \<Rightarrow>
     bool \<times> ContextManager" where
  "Summarize env est llm state_text m =
     (case buildSummaryPlan est m of
        None \<Rightarrow> (True, m\<lparr>lastSummarizeApplied := False\<rparr>)
      | Some plan \<Rightarrow>
          (case llm plan of
             None \<Rightarrow> (False, m)
           | Some t \<Rightarrow> (True, Summarize_commit env plan t (state_text plan) m)))"

definition CheckAndSummarize ::
  "ctx_env \<Rightarrow> (Message list \<Rightarrow> int) \<Rightarrow> (summaryPlan \<Rightarrow> string option) \<Rightarrow> (summaryPlan \<Rightarrow> string) \<Rightarrow> ContextManager \<Rightarrow>
     bool option \<times> ContextManager" where
  "CheckAndSummarize env est llm state_text m =
     (case Summarize env est llm state_text m of
        (False, m1) \<Rightarrow> (None, m1)
      | (True, m1) \<Rightarrow> (Some (lastSummarizeApplied m1), m1))"

section \<open>Snapshots\<close>

record CompactSnapshot =
  snap_messages :: "Message list"
  snap_OrigLen :: nat
  snap_LastMsgID :: string
  snap_ContextWindow :: int
  snap_OutputReserve :: int
  snap_Version :: int

record CompactResult =
  res_messages :: "Message list"
  res_TokenCount :: int
  res_Changed :: bool

definition take_CompactSnapshot :: "ContextManager \<Rightarrow> CompactSnapshot \<times> ContextManager" where
  "take_CompactSnapshot m =
     (\<lparr>snap_messages = messages m, snap_OrigLen = length (messages m),
       snap_LastMsgID = (if messages m = [] then '''' else msg_id (last (messages m))),
       snap_ContextWindow = contextWindow m, snap_OutputReserve = outputReserve m, snap_Version = version m\<rparr>,
      m\<lparr>benignRemoval := False, userReset := False\<rparr>)"

text \<open>The copy has no notes of its own; \<^const>\<open>None\<close> is the error of the model.\<close>

definition scratch_manager :: "ctx_env \<Rightarrow> CompactSnapshot \<Rightarrow> ContextManager" where
  "scratch_manager env s =
     recalcTokens env
       ((SetOutputReserve (snap_OutputReserve s) (NewContextManager (snap_ContextWindow s)))\<lparr>messages := snap_messages s\<rparr>)"

definition CompactSnapshot_Compact ::
  "ctx_env \<Rightarrow> (Message list \<Rightarrow> int) \<Rightarrow> (summaryPlan \<Rightarrow> string option) \<Rightarrow> (summaryPlan \<Rightarrow> string) \<Rightarrow>
     CompactSnapshot \<Rightarrow> CompactResult option" where
  "CompactSnapshot_Compact env0 est llm state_text s =
     (let env = env0\<lparr>postCompactNote := None\<rparr> in
      case Summarize env est llm state_text (scratch_manager env s) of
        (False, _) \<Rightarrow> None
      | (True, m1) \<Rightarrow> Some \<lparr>res_messages = messages m1, res_TokenCount = tokenCount m1,
                             res_Changed = (version m1 \<noteq> version (scratch_manager env s))\<rparr>)"

fun replace_system :: "Message \<Rightarrow> Message list \<Rightarrow> Message list" where
  "replace_system live [] = []"
| "replace_system live (x # xs) =
     (if has_marker summaryMarker x then x # replace_system live xs
      else if is_system x then live # xs
      else x # replace_system live xs)"

definition reject_reason :: "ContextManager \<Rightarrow> CompactRejectReason" where
  "reject_reason m =
     (if userReset m then CompactRejectUserReset
      else if benignRemoval m then CompactRejectBenignTrim else CompactRejectUserReset)"

text \<open>The position behind the last message of the snapshot, \<^const>\<open>None\<close> when it is gone.\<close>

definition extra_start :: "CompactSnapshot \<Rightarrow> Message list \<Rightarrow> nat option" where
  "extra_start s ms =
     (if snap_LastMsgID s \<noteq> ''''
      then map_option Suc (last_index_by (\<lambda>x. msg_id x = snap_LastMsgID s) ms)
      else Some (min (snap_OrigLen s) (length ms)))"

definition persist_summary :: "ctx_env \<Rightarrow> Message list \<Rightarrow> ContextManager \<Rightarrow> ContextManager" where
  "persist_summary env ms m =
     (case filter (has_marker summaryMarker) ms of
        [] \<Rightarrow> m
      | x # _ \<Rightarrow> if msg_id x = ''''
                 then m\<lparr>persisted := persisted m @ [x\<lparr>msg_id := newMessageID env m\<rparr>], nextUuid := nextUuid m + 1\<rparr>
                 else m\<lparr>persisted := persisted m @ [x]\<rparr>)"

text \<open>The new conversation: the result, then what came after the snapshot, under the system prompt of today.\<close>

definition compacted_messages :: "CompactResult \<Rightarrow> nat \<Rightarrow> Message list \<Rightarrow> Message list" where
  "compacted_messages r k ms =
     (if ms \<noteq> [] \<and> is_system (hd ms) then replace_system (hd ms) (res_messages r @ drop k ms)
      else res_messages r @ drop k ms)"

definition replace_live :: "ctx_env \<Rightarrow> CompactResult \<Rightarrow> nat \<Rightarrow> ContextManager \<Rightarrow> ContextManager" where
  "replace_live env r k m =
     recalcTokens env (bump_seq
       (injectPostCompactNoteAfterCompaction env (injectPinnedAfterCompaction env
         (m\<lparr>messages := compacted_messages r k (messages m),
            compactedArchive := archiveCompactedMessages (take k (messages m)) (compactedArchive m)\<rparr>))))"

definition ApplyCompactResult ::
  "ctx_env \<Rightarrow> CompactSnapshot \<Rightarrow> CompactResult \<Rightarrow> ContextManager \<Rightarrow> (bool \<times> int) \<times> ContextManager" where
  "ApplyCompactResult env s r m =
     (if \<not> res_Changed r \<or> res_messages r = []
      then ((False, tokenCount m),
            m\<lparr>lastReject := (if \<not> res_Changed r then CompactRejectNoChange else CompactRejectEmpty)\<rparr>)
      else case extra_start s (messages m) of
        None \<Rightarrow> ((False, tokenCount m), m\<lparr>lastReject := reject_reason m\<rparr>)
      | Some k \<Rightarrow>
          if length (messages m) < length (snap_messages s)
          then ((False, tokenCount m), m\<lparr>lastReject := reject_reason m\<rparr>)
          else let m1 = replace_live env r k m
               in ((True, tokenCount m1), (persist_summary env (res_messages r) m1)\<lparr>lastReject := CompactRejectNone\<rparr>))"

end
