(* ===== verification/CtxStale.thy ===== *)
theory CtxStale
  imports CtxManager
begin

text \<open>
  Compaction without a model (\<^verbatim>\<open>CompactOldReasoningBlocks\<close>, \<^verbatim>\<open>CompactSupersededReads\<close> and
  \<^verbatim>\<open>CompactSupersededCommands\<close> of \<^verbatim>\<open>internal/context/manager.go\<close>): the reasoning of all answers but the last
  is cut, and the output of a read or a command that was repeated later is replaced by a note and moved to the
  archive. Of these maps only membership is used, so the order in which the run ranges over them plays no role.
\<close>

section \<open>Reasoning\<close>

definition reasoningCompactMinLen :: nat where "reasoningCompactMinLen = 200"

definition stale_reasoning :: "ContentBlock \<Rightarrow> bool" where
  "stale_reasoning b \<longleftrightarrow>
     b_reasoning b \<noteq> '''' \<and> reasoningCompactMinLen \<le> length (b_reasoning b) \<and>
     \<not> HasPrefix (b_reasoning b) ''[compacted:''"

definition compact_reasoning :: "ContentBlock \<Rightarrow> ContentBlock" where
  "compact_reasoning b =
     (if stale_reasoning b
      then b\<lparr>b_reasoning := ''[compacted: original '' @ show_nat (length (b_reasoning b)) @ '' chars]'',
             b_signature := ''''\<rparr>
      else b)"

definition commitMechanicalCompaction :: "ctx_env \<Rightarrow> ContextManager \<Rightarrow> int \<times> ContextManager" where
  "commitMechanicalCompaction env m =
     (let m1 = recalcTokens env (bump_seq (markBenignRemoval m)) in (tokens m - tokens m1, m1))"

definition CompactOldReasoningBlocks :: "ctx_env \<Rightarrow> ContextManager \<Rightarrow> int \<times> ContextManager" where
  "CompactOldReasoningBlocks env m =
     (case last_index_by is_assistant (messages m) of
        None \<Rightarrow> (0, m)
      | Some a \<Rightarrow>
          let old = take a (messages m) in
          if \<not> list_ex (\<lambda>msg. is_assistant msg \<and> list_ex stale_reasoning (blocks msg)) old then (0, m)
          else commitMechanicalCompaction env
                 (m\<lparr>messages :=
                      map (\<lambda>msg. if is_assistant msg then msg\<lparr>blocks := map compact_reasoning (blocks msg)\<rparr> else msg) old
                      @ drop a (messages m)\<rparr>))"

section \<open>The arguments of a call\<close>

text \<open>A field of type \<^verbatim>\<open>int64\<close> of the target: a number that is not an integer in range is an error.\<close>

fun struct_int_field :: "string \<Rightarrow> (string \<times> json) list \<Rightarrow> int \<Rightarrow> bool \<Rightarrow> int \<times> bool" where
  "struct_int_field tag [] n ok = (n, ok)"
| "struct_int_field tag ((k, v) # kvs) n ok =
     (if EqualFold k tag
      then (case v of
              JNum t \<Rightarrow> (case Atoi t of Some i \<Rightarrow> struct_int_field tag kvs i ok | None \<Rightarrow> struct_int_field tag kvs n False)
            | JNull \<Rightarrow> struct_int_field tag kvs n ok
            | _ \<Rightarrow> struct_int_field tag kvs n False)
      else struct_int_field tag kvs n ok)"

text \<open>The entries of the object that a struct is read from; \<^verbatim>\<open>null\<close> leaves it at its zero value.\<close>

fun struct_entries :: "json \<Rightarrow> (string \<times> json) list option" where
  "struct_entries JNull = Some []"
| "struct_entries (JObj kvs) = Some kvs"
| "struct_entries _ = None"

record readRange =
  rr_offset :: int
  rr_limit :: int
  rr_full :: bool

definition readCovers :: "readRange \<Rightarrow> readRange \<Rightarrow> bool" where
  "readCovers later earlier =
     (if rr_full later then True
      else if rr_full earlier then False
      else if earlier = \<lparr>rr_offset = 0, rr_limit = 0, rr_full = False\<rparr> then True
      else if rr_limit earlier \<le> 0 then rr_offset later \<le> rr_offset earlier \<and> rr_limit later \<le> 0
      else if rr_limit later \<le> 0 then rr_offset later \<le> rr_offset earlier
      else rr_offset later \<le> rr_offset earlier \<and>
           wrap64 (rr_offset later + rr_limit later) \<ge> wrap64 (rr_offset earlier + rr_limit earlier))"

type_synonym readCall = "string list \<times> readRange"

definition no_read :: readCall where
  "no_read = ([], \<lparr>rr_offset = 0, rr_limit = 0, rr_full = False\<rparr>)"

definition read_file_call :: "(string \<times> json) list \<Rightarrow> readCall" where
  "read_file_call kvs =
     (let (p, ok1) = struct_string_field ''path'' kvs '''' True;
          (off, ok2) = struct_int_field ''offset'' kvs 0 True;
          (lim, ok3) = struct_int_field ''limit'' kvs 0 True
      in if ok1 \<and> ok2 \<and> ok3 \<and> p \<noteq> ''''
         then ([p], \<lparr>rr_offset = off, rr_limit = lim, rr_full = (off = 0 \<and> lim \<le> 0)\<rparr>) else no_read)"

definition file_path_entry :: "json \<Rightarrow> string option" where
  "file_path_entry v =
     (case struct_entries v of
        None \<Rightarrow> None
      | Some kvs \<Rightarrow> (let (p, ok) = struct_string_field ''path'' kvs '''' True in if ok then Some p else None))"

text \<open>The list of files; the last of several keys that mean the same field is the one that is read.\<close>

fun files_field :: "(string \<times> json) list \<Rightarrow> string list \<Rightarrow> string list option" where
  "files_field [] ps = Some ps"
| "files_field ((k, v) # kvs) ps =
     (if EqualFold k ''files''
      then (case v of
              JNull \<Rightarrow> files_field kvs []
            | JArr vs \<Rightarrow> (case all_some file_path_entry vs of None \<Rightarrow> None | Some qs \<Rightarrow> files_field kvs qs)
            | _ \<Rightarrow> None)
      else files_field kvs ps)"

definition extractReadCall :: "string \<Rightarrow> raw_message \<Rightarrow> readCall" where
  "extractReadCall toolName input =
     (case Option.bind input struct_entries of
        None \<Rightarrow> no_read
      | Some kvs \<Rightarrow>
          if toolName = ''read_file'' then read_file_call kvs
          else if toolName = ''multi_file_read''
          then (case files_field kvs [] of
                  None \<Rightarrow> no_read
                | Some ps \<Rightarrow> (filter (\<lambda>p. p \<noteq> '''') ps, \<lparr>rr_offset = 0, rr_limit = 0, rr_full = True\<rparr>))
          else no_read)"

definition extractRunCommand :: "string \<Rightarrow> raw_message \<Rightarrow> string" where
  "extractRunCommand toolName input =
     (if toolName \<noteq> ''run_command'' then ''''
      else case Option.bind input struct_entries of
        None \<Rightarrow> ''''
      | Some kvs \<Rightarrow>
          let (c, ok1) = struct_string_field ''command'' kvs '''' True;
              (w, ok2) = struct_string_field ''working_dir'' kvs '''' True;
              cmd = TrimSpace c; wd = TrimSpace w
          in if \<not> (ok1 \<and> ok2) \<or> cmd = '''' then ''''
             else if wd \<noteq> '''' then wd @ [CHR 0x00] @ cmd else cmd)"

section \<open>Paths\<close>

text \<open>One pass of \<^verbatim>\<open>strings.ReplaceAll(p, "//", "/")\<close>, and the loop around it.\<close>

fun halve_slashes :: "string \<Rightarrow> string" where
  "halve_slashes (a # b # s) =
     (if a = CHR ''/'' \<and> b = CHR ''/'' then CHR ''/'' # halve_slashes s else a # halve_slashes (b # s))"
| "halve_slashes s = s"

lemma halve_slashes_le: "length (halve_slashes s) \<le> length s"
  by (induction s rule: halve_slashes.induct) auto

lemma halve_slashes_lt: "Contains s ''//'' \<Longrightarrow> length (halve_slashes s) < length s"
proof (induction s rule: halve_slashes.induct)
  case (1 a b s)
  then show ?case using halve_slashes_le [of s] by (auto simp: le_Suc_eq)
qed auto

function collapse_slashes :: "string \<Rightarrow> string" where
  "collapse_slashes p = (if Contains p ''//'' then collapse_slashes (halve_slashes p) else p)"
  by pat_completeness auto

termination collapse_slashes
  by (relation "measure length") (auto simp: halve_slashes_lt)

declare collapse_slashes.simps [simp del]

fun strip_dot_slash :: "string \<Rightarrow> string" where
  "strip_dot_slash (a # b # s) =
     (if a = CHR ''.'' \<and> b = CHR ''/'' then strip_dot_slash s else a # b # s)"
| "strip_dot_slash s = s"

definition normalizeFilePath :: "bool \<Rightarrow> string \<Rightarrow> string" where
  "normalizeFilePath linux p0 =
     (let p1 = map (\<lambda>c. if c = CHR 0x5C then CHR ''/'' else c) (TrimSpace p0);
          p2 = collapse_slashes (strip_dot_slash p1)
      in if linux then p2 else ToLower p2)"

section \<open>What was superseded\<close>

definition tool_uses :: "Message list \<Rightarrow> ContentBlock list" where
  "tool_uses ms = concat (map (\<lambda>msg. filter is_use (blocks msg)) ms)"

text \<open>The files read, in order, each with the id of the call; and the range of each id, where the last call wins.\<close>

definition read_log :: "bool \<Rightarrow> Message list \<Rightarrow> (string \<times> string) list" where
  "read_log linux ms =
     concat (map (\<lambda>b. map (\<lambda>p. (normalizeFilePath linux p, b_toolID b))
       (fst (extractReadCall (b_toolName b) (b_input b)))) (tool_uses ms))"

definition read_range :: "Message list \<Rightarrow> string \<Rightarrow> readRange" where
  "read_range ms tid =
     (case first_some (\<lambda>b. let r = extractReadCall (b_toolName b) (b_input b) in
             if b_toolID b = tid \<and> fst r \<noteq> [] then Some (snd r) else None) (rev (tool_uses ms)) of
        Some r \<Rightarrow> r
      | None \<Rightarrow> snd no_read)"

definition ids_of :: "(string \<times> string) list \<Rightarrow> string \<Rightarrow> string list" where
  "ids_of rs p = map snd (filter (\<lambda>e. fst e = p) rs)"

text \<open>Some read of the id is followed by a read that covers it; the first read of the id is.\<close>

fun some_covered :: "(string \<Rightarrow> readRange) \<Rightarrow> string \<Rightarrow> string list \<Rightarrow> bool" where
  "some_covered rng tid [] = False"
| "some_covered rng tid (x # xs) =
     (x = tid \<and> list_ex (\<lambda>l. readCovers (rng l) (rng tid)) xs \<or> some_covered rng tid xs)"

fun first_covered :: "(string \<Rightarrow> readRange) \<Rightarrow> string \<Rightarrow> string list \<Rightarrow> bool" where
  "first_covered rng tid [] = False"
| "first_covered rng tid (x # xs) =
     (if x = tid then list_ex (\<lambda>l. readCovers (rng l) (rng tid)) xs else first_covered rng tid xs)"

definition superseded_reads :: "bool \<Rightarrow> Message list \<Rightarrow> string list" where
  "superseded_reads linux ms =
     (let rs = read_log linux ms; rng = read_range ms in
      filter (\<lambda>tid. list_ex (\<lambda>p. some_covered rng tid (ids_of rs p)) (map fst rs) \<and>
                    list_all (\<lambda>e. snd e = tid \<longrightarrow> first_covered rng tid (ids_of rs (fst e))) rs)
        (remdups (map snd rs)))"

definition command_log :: "Message list \<Rightarrow> (string \<times> string) list" where
  "command_log ms =
     concat (map (\<lambda>b. let c = extractRunCommand (b_toolName b) (b_input b) in
       if c = '''' then [] else [(c, b_toolID b)]) (tool_uses ms))"

definition superseded_commands :: "Message list \<Rightarrow> string list" where
  "superseded_commands ms =
     (let rs = command_log ms in concat (map (\<lambda>c. butlast (ids_of rs c)) (remdups (map fst rs))))"

section \<open>Replacing outputs\<close>

definition supersedable :: "string list \<Rightarrow> ContentBlock \<Rightarrow> bool" where
  "supersedable ids b \<longleftrightarrow>
     is_result b \<and> b_toolID b \<in> set ids \<and>
     \<not> HasPrefix (b_output b) ''[superseded:'' \<and> \<not> HasPrefix (b_output b) ''[cleared:'' \<and>
     200 \<le> length (b_output b)"

definition superseded_block :: "string \<Rightarrow> ContentBlock \<Rightarrow> ContentBlock" where
  "superseded_block reason b =
     b\<lparr>b_output := ''[superseded: '' @ reason @ '', output was '' @ show_nat (length (b_output b)) @ '' chars]'',
       b_images := []\<rparr>"

fun supersede_blocks ::
  "string list \<Rightarrow> string \<Rightarrow> string \<Rightarrow> ContentBlock list \<Rightarrow> CompactedEntry list \<Rightarrow>
     ContentBlock list \<times> CompactedEntry list \<times> nat" where
  "supersede_blocks ids reason rl [] es = ([], es, 0)"
| "supersede_blocks ids reason rl (b # bs) es =
     (if supersedable ids b
      then (let (bs1, es1, n) = supersede_blocks ids reason rl bs
                  (archiveSupersededToolOutput rl (b_toolID b) reason (b_output b) es)
            in (superseded_block reason b # bs1, es1, length (b_output b) + n))
      else (let (bs1, es1, n) = supersede_blocks ids reason rl bs es in (b # bs1, es1, n)))"

fun compactSupersededToolResults ::
  "string list \<Rightarrow> string \<Rightarrow> Message list \<Rightarrow> CompactedEntry list \<Rightarrow> Message list \<times> CompactedEntry list \<times> nat" where
  "compactSupersededToolResults ids reason [] es = ([], es, 0)"
| "compactSupersededToolResults ids reason (msg # ms) es =
     (let (bs, es1, n1) = supersede_blocks ids reason (role msg) (blocks msg) es;
          (ms1, es2, n2) = compactSupersededToolResults ids reason ms es1
      in (msg\<lparr>blocks := bs\<rparr> # ms1, es2, n1 + n2))"

definition compact_superseded :: "ctx_env \<Rightarrow> string list \<Rightarrow> string \<Rightarrow> ContextManager \<Rightarrow> int \<times> ContextManager" where
  "compact_superseded env ids reason m =
     (if ids = [] then (0, m)
      else let (ms, es, freedChars) = compactSupersededToolResults ids reason (messages m) (compactedArchive m) in
           if freedChars = 0 then (0, m)
           else commitMechanicalCompaction env (m\<lparr>messages := ms, compactedArchive := es\<rparr>))"

definition CompactSupersededReads :: "ctx_env \<Rightarrow> bool \<Rightarrow> ContextManager \<Rightarrow> int \<times> ContextManager" where
  "CompactSupersededReads env linux m =
     compact_superseded env (superseded_reads linux (messages m)) ''file was re-read later in the conversation'' m"

definition CompactSupersededCommands :: "ctx_env \<Rightarrow> ContextManager \<Rightarrow> int \<times> ContextManager" where
  "CompactSupersededCommands env m =
     compact_superseded env (superseded_commands (messages m)) ''command was re-run later in the conversation'' m"

end
