(* ===== verification/CtxFacts.thy ===== *)
theory CtxFacts
  imports CtxCompact CtxStale
begin

text \<open>
  The context manager as a machine: every locked section of its code is one operation, a run is any sequence of
  them, each with the ids, counts and note of its moment. What is never exceeded, and what the token count
  stands for.
\<close>

section \<open>The machine\<close>

datatype ctx_op =
    OpAdd Message
  | OpReconcile call_order
  | OpUpdateSystem Message
  | OpClear
  | OpRecordUsage TokenUsage
  | OpBaseline int
  | OpRemoveUser
  | OpRemoveAssistant
  | OpTruncate
  | OpReasoning
  | OpReads bool
  | OpCommands
  | OpPin pin_op
  | OpSetWindow int
  | OpSetReserve int
  | OpSetEarly rat
  | OpSetOverhead int
  | OpCommit summaryPlan string string
  | OpSnapshot
  | OpApply CompactSnapshot CompactResult

fun ctx_step :: "ctx_env \<times> ctx_op \<Rightarrow> ContextManager \<Rightarrow> ContextManager" where
  "ctx_step (env, OpAdd msg) m = Manager_Add env msg m"
| "ctx_step (env, OpReconcile pick) m = snd (ReconcileToolCalls env pick m)"
| "ctx_step (env, OpUpdateSystem msg) m = UpdateFirstSystemMessage env msg m"
| "ctx_step (env, OpClear) m = Manager_Clear env m"
| "ctx_step (env, OpRecordUsage u) m = RecordUsage u m"
| "ctx_step (env, OpBaseline n) m = SetCheckpointBaseline n m"
| "ctx_step (env, OpRemoveUser) m = snd (RemoveLastUserMessage m)"
| "ctx_step (env, OpRemoveAssistant) m = snd (RemoveLastAssistantGroup env m)"
| "ctx_step (env, OpTruncate) m = snd (TruncateOldestGroupForRetry env m)"
| "ctx_step (env, OpReasoning) m = snd (CompactOldReasoningBlocks env m)"
| "ctx_step (env, OpReads linux) m = snd (CompactSupersededReads env linux m)"
| "ctx_step (env, OpCommands) m = snd (CompactSupersededCommands env m)"
| "ctx_step (env, OpPin p) m = m\<lparr>pinned := pin_step p (pinned m)\<rparr>"
| "ctx_step (env, OpSetWindow n) m = m\<lparr>contextWindow := n\<rparr>"
| "ctx_step (env, OpSetReserve n) m = SetOutputReserve n m"
| "ctx_step (env, OpSetEarly r) m = SetEarlyCompactRatio r m"
| "ctx_step (env, OpSetOverhead n) m = m\<lparr>toolDefinitionOverhead := n\<rparr>"
| "ctx_step (env, OpCommit plan t st) m = Summarize_commit env plan t st m"
| "ctx_step (env, OpSnapshot) m = snd (take_CompactSnapshot m)"
| "ctx_step (env, OpApply s r) m = snd (ApplyCompactResult env s r m)"

lemmas accounting_defs = recalcTokens_def invalidateUsageBaseline_def bump_seq_def markBenignRemoval_def reconciled_def

text \<open>What the operations on messages leave alone.\<close>

lemma recalc_simps [simp]:
  "messages (recalcTokens env m) = messages m" "compactedArchive (recalcTokens env m) = compactedArchive m"
  "pinned (recalcTokens env m) = pinned m" "tokens (recalcTokens env m) = sum_tokens env (messages m)"
  "nonTailMutSeq (recalcTokens env m) = nonTailMutSeq m" "persisted (recalcTokens env m) = persisted m"
  "version (recalcTokens env m) = version m" "lastSummarizeApplied (recalcTokens env m) = lastSummarizeApplied m"
  "contextWindow (recalcTokens env m) = contextWindow m" "baselineAvailable (recalcTokens env m) = False"
  by (simp_all add: accounting_defs)

lemma bump_seq_simps [simp]:
  "messages (bump_seq m) = messages m" "compactedArchive (bump_seq m) = compactedArchive m" "pinned (bump_seq m) = pinned m"
  "tokens (bump_seq m) = tokens m" "nonTailMutSeq (bump_seq m) = nonTailMutSeq m + 1" "persisted (bump_seq m) = persisted m"
  "version (bump_seq m) = version m + 1" "lastSummarizeApplied (bump_seq m) = lastSummarizeApplied m"
  by (simp_all add: accounting_defs)

lemma benign_simps [simp]:
  "messages (markBenignRemoval m) = messages m" "compactedArchive (markBenignRemoval m) = compactedArchive m"
  "pinned (markBenignRemoval m) = pinned m" "tokens (markBenignRemoval m) = tokens m"
  "nonTailMutSeq (markBenignRemoval m) = nonTailMutSeq m" "persisted (markBenignRemoval m) = persisted m"
  "version (markBenignRemoval m) = version m"
  "lastSummarizeApplied (markBenignRemoval m) = lastSummarizeApplied m"
  by (simp_all add: accounting_defs)

lemma invalidate_simps [simp]:
  "messages (invalidateUsageBaseline m) = messages m"
  "compactedArchive (invalidateUsageBaseline m) = compactedArchive m"
  "pinned (invalidateUsageBaseline m) = pinned m" "tokens (invalidateUsageBaseline m) = tokens m"
  "nonTailMutSeq (invalidateUsageBaseline m) = nonTailMutSeq m" "persisted (invalidateUsageBaseline m) = persisted m"
  by (simp_all add: invalidateUsageBaseline_def)

lemma reconciled_simps [simp]:
  "messages (reconciled env ms m) = ms" "compactedArchive (reconciled env ms m) = compactedArchive m"
  "pinned (reconciled env ms m) = pinned m" "tokens (reconciled env ms m) = sum_tokens env ms"
  "nonTailMutSeq (reconciled env ms m) = nonTailMutSeq m + 1" "persisted (reconciled env ms m) = persisted m"
  by (simp_all add: accounting_defs)

lemma remove_marked_simps [simp]:
  "compactedArchive (removeSystemMessageByMarker k m) = compactedArchive m"
  "pinned (removeSystemMessageByMarker k m) = pinned m"
  "nonTailMutSeq (removeSystemMessageByMarker k m) = nonTailMutSeq m"
  "persisted (removeSystemMessageByMarker k m) = persisted m"
  "version (removeSystemMessageByMarker k m) = version m"
  "lastSummarizeApplied (removeSystemMessageByMarker k m) = lastSummarizeApplied m"
  by (simp_all add: removeSystemMessageByMarker_def split: option.split)

lemma insert_note_simps [simp]:
  "compactedArchive (insert_note env t m) = compactedArchive m" "pinned (insert_note env t m) = pinned m"
  "nonTailMutSeq (insert_note env t m) = nonTailMutSeq m" "persisted (insert_note env t m) = persisted m"
  "version (insert_note env t m) = version m"
  "lastSummarizeApplied (insert_note env t m) = lastSummarizeApplied m"
  by (simp_all add: insert_note_def Let_def)

lemma inject_pinned_simps [simp]:
  "compactedArchive (injectPinnedAfterCompaction env m) = compactedArchive m"
  "pinned (injectPinnedAfterCompaction env m) = pinned m"
  "nonTailMutSeq (injectPinnedAfterCompaction env m) = nonTailMutSeq m"
  "persisted (injectPinnedAfterCompaction env m) = persisted m"
  "version (injectPinnedAfterCompaction env m) = version m"
  "lastSummarizeApplied (injectPinnedAfterCompaction env m) = lastSummarizeApplied m"
  by (simp_all add: injectPinnedAfterCompaction_def Let_def)

lemma inject_note_simps [simp]:
  "compactedArchive (injectPostCompactNoteAfterCompaction env m) = compactedArchive m"
  "pinned (injectPostCompactNoteAfterCompaction env m) = pinned m"
  "nonTailMutSeq (injectPostCompactNoteAfterCompaction env m) = nonTailMutSeq m"
  "persisted (injectPostCompactNoteAfterCompaction env m) = persisted m"
  "version (injectPostCompactNoteAfterCompaction env m) = version m"
  "lastSummarizeApplied (injectPostCompactNoteAfterCompaction env m) = lastSummarizeApplied m"
  by (simp_all add: injectPostCompactNoteAfterCompaction_def Let_def split: option.split)

lemma persist_summary_simps [simp]:
  "messages (persist_summary env ms m) = messages m"
  "compactedArchive (persist_summary env ms m) = compactedArchive m" "pinned (persist_summary env ms m) = pinned m"
  "tokens (persist_summary env ms m) = tokens m" "nonTailMutSeq (persist_summary env ms m) = nonTailMutSeq m"
  by (simp_all add: persist_summary_def split: list.split)

lemma summary_messages_simps:
  assumes "summary_messages env t st m = (heads, m1)"
  shows "compactedArchive m1 = compactedArchive m" "pinned m1 = pinned m" "nonTailMutSeq m1 = nonTailMutSeq m"
    "persisted m1 = persisted m" "messages m1 = messages m" "version m1 = version m"
  using assms by (auto simp: summary_messages_def Let_def split: if_splits)

section \<open>The archive and the notes stay within their limits\<close>

lemma trim_loop_bound: "n = archive_bytes es \<Longrightarrow> archive_bytes (trim_loop n es) \<le> maxCompactedArchiveBytes"
  by (induction n es rule: trim_loop.induct) (auto simp: archive_bytes_def)

lemma trim_bound: "archive_bytes (trimCompactedArchive es) \<le> maxCompactedArchiveBytes"
  unfolding trimCompactedArchive_def by (rule trim_loop_bound) (rule refl)

lemma archive_superseded_bound:
  "archive_bytes es \<le> maxCompactedArchiveBytes \<Longrightarrow>
   archive_bytes (archiveSupersededToolOutput rl tid reason out es) \<le> maxCompactedArchiveBytes"
  by (simp add: archiveSupersededToolOutput_def trim_bound)

lemma supersede_blocks_bound:
  "archive_bytes es \<le> maxCompactedArchiveBytes \<Longrightarrow>
   archive_bytes (fst (snd (supersede_blocks ids reason rl bs es))) \<le> maxCompactedArchiveBytes"
  by (induction ids reason rl bs es rule: supersede_blocks.induct)
     (auto simp: archive_superseded_bound split: prod.splits)

lemma supersede_bound:
  "archive_bytes es \<le> maxCompactedArchiveBytes \<Longrightarrow>
   archive_bytes (fst (snd (compactSupersededToolResults ids reason ms es))) \<le> maxCompactedArchiveBytes"
proof (induction ids reason ms es rule: compactSupersededToolResults.induct)
  case (2 ids reason msg ms es)
  then show ?case using supersede_blocks_bound [OF "2.prems", of ids reason "role msg" "blocks msg"]
    by (auto split: prod.splits)
qed simp

definition ctx_limits :: "ContextManager \<Rightarrow> bool" where
  "ctx_limits m \<longleftrightarrow> archive_bytes (compactedArchive m) \<le> maxCompactedArchiveBytes \<and> pinned_ok (pinned m)"

lemma compact_superseded_limits:
  assumes "ctx_limits m" shows "ctx_limits (snd (compact_superseded env ids reason m))"
proof -
  obtain ms es n where c: "compactSupersededToolResults ids reason (messages m) (compactedArchive m) = (ms, es, n)"
    by (cases "compactSupersededToolResults ids reason (messages m) (compactedArchive m)") auto
  have "archive_bytes es \<le> maxCompactedArchiveBytes"
    using supersede_bound [of "compactedArchive m" ids reason "messages m"] assms c by (simp add: ctx_limits_def)
  then show ?thesis using assms c
    by (simp add: compact_superseded_def ctx_limits_def commitMechanicalCompaction_def Let_def)
qed

lemma commit_limits: "ctx_limits m \<Longrightarrow> ctx_limits (Summarize_commit env plan t st m)"
proof -
  obtain heads m1 where s: "summary_messages env t st m = (heads, m1)"
    by (cases "summary_messages env t st m")
  then show "ctx_limits m \<Longrightarrow> ctx_limits (Summarize_commit env plan t st m)"
    using summary_messages_simps [OF s] by (simp add: Summarize_commit_def ctx_limits_def Let_def)
qed

lemma apply_limits: "ctx_limits m \<Longrightarrow> ctx_limits (snd (ApplyCompactResult env s r m))"
  by (simp add: ApplyCompactResult_def replace_live_def ctx_limits_def Let_def archiveCompactedMessages_def
      trim_bound split: option.split)

lemma ctx_step_limits: "ctx_limits m \<Longrightarrow> ctx_limits (ctx_step eo m)"
proof (induction eo m rule: ctx_step.induct)
  case (2 env pick m)
  then show ?case by (simp add: ReconcileToolCalls_def ctx_limits_def Let_def split: prod.split)
next
  case (13 env p m)
  then show ?case by (simp add: ctx_limits_def pin_step_ok)
qed (simp_all add: compact_superseded_limits commit_limits apply_limits CompactSupersededReads_def
      CompactSupersededCommands_def,
     simp_all add: ctx_limits_def Manager_Add_def UpdateFirstSystemMessage_def Manager_Clear_def RecordUsage_def
      SetCheckpointBaseline_def RemoveLastUserMessage_def RemoveLastAssistantGroup_def
      TruncateOldestGroupForRetry_def CompactOldReasoningBlocks_def commitMechanicalCompaction_def
      SetOutputReserve_def SetEarlyCompactRatio_def take_CompactSnapshot_def Let_def
      split: option.split list.split)

interpretation ctx: op_machine ctx_step ctx_limits
  by unfold_locales (rule ctx_step_limits)

text \<open>
  C15. However long an agent runs, the archive of compacted text never holds more than one MiB, there are
  never more than ten pinned notes, none longer than 2000 characters, and together they have at most 8000: from
  a new manager on, under every sequence of operations, including commits of summaries and snapshots.\<close>

theorem archive_and_notes_bounded:
  "archive_bytes (compactedArchive (fold ctx_step ops (NewContextManager window))) \<le> maxCompactedArchiveBytes \<and>
   pinned_ok (pinned (fold ctx_step ops (NewContextManager window)))"
proof -
  have "ctx_limits (NewContextManager window)"
    by (simp add: ctx_limits_def NewContextManager_def archive_bytes_def pinned_ok_def total_runes_def)
  then show ?thesis using ctx.run_inv [of _ ops] by (simp add: ctx_limits_def)
qed

section \<open>The token count\<close>

definition tokens_exact :: "ctx_env \<Rightarrow> ContextManager \<Rightarrow> bool" where
  "tokens_exact env m \<longleftrightarrow> tokens m = sum_tokens env (messages m)"

lemma sum_tokens_simps [simp]:
  "sum_tokens env [] = 0" "sum_tokens env (x # xs) = countTokens env x + sum_tokens env xs"
  "sum_tokens env (xs @ ys) = sum_tokens env xs + sum_tokens env ys"
  by (simp_all add: sum_tokens_def)

lemma sum_tokens_update:
  "i < length ms \<Longrightarrow> sum_tokens env (ms[i := x]) = sum_tokens env ms + (countTokens env x - countTokens env (ms ! i))"
proof (induction ms arbitrary: i)
  case (Cons y ms)
  then show ?case by (cases i) auto
qed simp

text \<open>With the same way of counting all along, and without \<^verbatim>\<open>RemoveLastUserMessage\<close>.\<close>

definition counted_op :: "ctx_env \<Rightarrow> ctx_env \<times> ctx_op \<Rightarrow> bool" where
  "counted_op env eo \<longleftrightarrow> fst eo = env \<and> snd eo \<noteq> OpRemoveUser"

lemma superseded_exact: "tokens_exact env m \<Longrightarrow> tokens_exact env (snd (compact_superseded env ids reason m))"
  by (cases "compactSupersededToolResults ids reason (messages m) (compactedArchive m)")
     (simp add: compact_superseded_def commitMechanicalCompaction_def tokens_exact_def Let_def)

lemma commit_exact: "tokens_exact env m \<Longrightarrow> tokens_exact env (Summarize_commit env plan t st m)"
  by (cases "summary_messages env t st m") (simp add: Summarize_commit_def tokens_exact_def)

lemma apply_exact: "tokens_exact env m \<Longrightarrow> tokens_exact env (snd (ApplyCompactResult env s r m))"
  by (simp add: ApplyCompactResult_def replace_live_def tokens_exact_def Let_def split: option.split)

lemma update_exact: "tokens_exact env m \<Longrightarrow> tokens_exact env (UpdateFirstSystemMessage env msg m)"
  by (auto simp: UpdateFirstSystemMessage_def tokens_exact_def sum_tokens_update
      dest: index_by_lt split: option.split)

lemma reconcile_exact: "tokens_exact env m \<Longrightarrow> tokens_exact env (snd (ReconcileToolCalls env pick m))"
  by (simp add: ReconcileToolCalls_def tokens_exact_def Let_def split: prod.split)

lemma clear_exact: "tokens_exact env (Manager_Clear env m)"
  by (simp add: Manager_Clear_def tokens_exact_def Let_def split: list.split)

lemma ctx_step_exact: "tokens_exact env m \<Longrightarrow> oper \<noteq> OpRemoveUser \<Longrightarrow> tokens_exact env (ctx_step (env, oper) m)"
  by (cases oper)
     (simp_all add: superseded_exact commit_exact apply_exact update_exact reconcile_exact clear_exact
       CompactSupersededReads_def CompactSupersededCommands_def,
      simp_all add: tokens_exact_def Manager_Add_def RecordUsage_def SetCheckpointBaseline_def
       RemoveLastAssistantGroup_def TruncateOldestGroupForRetry_def CompactOldReasoningBlocks_def
       commitMechanicalCompaction_def SetOutputReserve_def SetEarlyCompactRatio_def take_CompactSnapshot_def
       Let_def split: option.split)

interpretation counted: guarded_machine ctx_step "counted_op env" "tokens_exact env" for env
  by unfold_locales (auto simp: counted_op_def intro: ctx_step_exact)

text \<open>
  C16. The token count that decides about compaction is kept up to date by adding and subtracting, and never
  drifts: as long as messages are counted the same way and \<^verbatim>\<open>RemoveLastUserMessage\<close> is not used, it is the sum
  over the messages of the conversation after every operation.\<close>

theorem token_count_exact:
  assumes "list_all (counted_op env) ops"
  shows "tokens (fold ctx_step ops (NewContextManager window)) =
    sum_tokens env (messages (fold ctx_step ops (NewContextManager window)))"
proof -
  have "tokens_exact env (NewContextManager window)" by (simp add: tokens_exact_def NewContextManager_def)
  from counted.ok_run_inv [OF assms this] show ?thesis by (simp add: tokens_exact_def)
qed

end
