(* ===== verification/CtxWindow.thy ===== *)
theory CtxWindow
  imports CtxFacts
begin

text \<open>
  The summary is written while the conversation goes on. What was added meanwhile is at the end of the
  conversation that replaces the old one, or the summary is thrown away.
\<close>

section \<open>Putting notes back leaves the tail alone\<close>

definition unmarked :: "Message \<Rightarrow> bool" where
  "unmarked x \<longleftrightarrow> \<not> has_marker pinnedMarker x \<and> \<not> has_marker postCompactNoteMarker x"

text \<open>A conversation that ends in \<open>T\<close>, with the messages \<open>K\<close> before it.\<close>

definition ends_in :: "Message list \<Rightarrow> Message list \<Rightarrow> Message list \<Rightarrow> bool" where
  "ends_in K T ms \<longleftrightarrow> (\<exists>H. ms = H @ T \<and> set K \<subseteq> set H)"

lemma index_by_append:
  "index_by P (H @ T) =
     (case index_by P H of Some i \<Rightarrow> Some i | None \<Rightarrow> map_option (\<lambda>i. length H + i) (index_by P T))"
proof (induction H)
  case Nil
  have "(+) (0::nat) = id" by auto
  then show ?case by (simp add: option.map_id)
next
  case (Cons x H)
  then show ?case by (cases "index_by P T") (auto split: option.split)
qed

lemma index_by_in_head: "x \<in> set H \<Longrightarrow> P x \<Longrightarrow> \<exists>i. index_by P (H @ T) = Some i \<and> i < length H"
  by (cases "index_by P H") (auto simp: index_by_append index_by_None dest: index_by_lt)

lemma drop_nth_keeps: "i < length H \<Longrightarrow> x \<in> set H \<Longrightarrow> x \<noteq> H ! i \<Longrightarrow> x \<in> set (take i H @ drop (i + 1) H)"
  using id_take_nth_drop [of i H] by (metis Suc_eq_plus1 Un_iff set_ConsD set_append)

lemma remove_marked_ends_in:
  assumes e: "ends_in K T (messages m)" and T: "list_all unmarked T" "list_all unmarked K"
    and k: "k = pinnedMarker \<or> k = postCompactNoteMarker"
  shows "ends_in K T (messages (removeSystemMessageByMarker k m))"
proof -
  from e obtain H where H: "messages m = H @ T" "set K \<subseteq> set H" by (auto simp: ends_in_def)
  show ?thesis
  proof (cases "index_by (has_marker k) H")
    case None
    moreover have "index_by (has_marker k) T = None"
      using T k by (auto simp: index_by_None list_all_iff unmarked_def)
    ultimately show ?thesis
      using e by (simp add: removeSystemMessageByMarker_def findSystemMessageIdx_def H(1) index_by_append)
  next
    case (Some i)
    note i = index_by_Some [OF Some]
    have "x \<noteq> H ! i" if "x \<in> set K" for x using i that T(2) k by (auto simp: unmarked_def list_all_iff)
    then have "set K \<subseteq> set (take i H @ drop (i + 1) H)"
      using H(2) i drop_nth_keeps [of i H] by blast
    moreover have "messages (removeSystemMessageByMarker k m) = (take i H @ drop (i + 1) H) @ T"
      using Some i H(1) by (simp add: removeSystemMessageByMarker_def findSystemMessageIdx_def index_by_append)
    ultimately show ?thesis unfolding ends_in_def by blast
  qed
qed

lemma insert_note_ends_in:
  assumes "ends_in K T (messages m)" "list_ex (has_marker summaryMarker) K"
  shows "ends_in K T (messages (insert_note env t m))"
proof -
  from assms obtain H x where H: "messages m = H @ T" "set K \<subseteq> set H" "x \<in> set H" "has_marker summaryMarker x"
    by (auto simp: ends_in_def list_ex_iff)
  obtain i where i: "index_by (has_marker summaryMarker) (H @ T) = Some i" "i < length H"
    using index_by_in_head [OF H(3), of "has_marker summaryMarker" T] H(4) by auto
  let ?H = "take (i + 1) H @ [system_message (newMessageID env m) t] @ drop (i + 1) H"
  have "messages (insert_note env t m) = ?H @ T"
    using i by (simp add: insert_note_def note_index_def findSystemMessageIdx_def H(1) Let_def)
  moreover have "set H \<subseteq> set ?H"
    using append_take_drop_id [of "i + 1" H] by (metis Un_iff set_append subsetI)
  ultimately show ?thesis using H(2) unfolding ends_in_def by blast
qed

lemma inject_ends_in:
  assumes "ends_in K T (messages m)" "list_all unmarked T" "list_all unmarked K"
    "list_ex (has_marker summaryMarker) K"
  shows "ends_in K T (messages (injectPostCompactNoteAfterCompaction env (injectPinnedAfterCompaction env m)))"
proof -
  have "ends_in K T (messages (injectPinnedAfterCompaction env m))"
    using remove_marked_ends_in [OF assms(1-3), of pinnedMarker] assms(4)
    by (simp add: injectPinnedAfterCompaction_def Let_def insert_note_ends_in)
  from remove_marked_ends_in [OF this assms(2,3), of postCompactNoteMarker] assms(4) show ?thesis
    by (simp add: injectPostCompactNoteAfterCompaction_def Let_def insert_note_ends_in split: option.split)
qed

section \<open>The window of a summary\<close>

text \<open>
  The operations that may run while the model writes: everything but \<^verbatim>\<open>RemoveLastUserMessage\<close>, where the
  system prompt is replaced by a system prompt.
\<close>

definition window_op :: "ctx_env \<times> ctx_op \<Rightarrow> bool" where
  "window_op eo = (case snd eo of OpRemoveUser \<Rightarrow> False | OpUpdateSystem msg \<Rightarrow> is_system msg | _ \<Rightarrow> True)"

text \<open>Since the plan was made at \<open>m0\<close>: the older part was changed, or all that happened is at the end.\<close>

definition since :: "ContextManager \<Rightarrow> ContextManager \<Rightarrow> bool" where
  "since m0 m \<longleftrightarrow>
     nonTailMutSeq m0 < nonTailMutSeq m \<or>
     nonTailMutSeq m = nonTailMutSeq m0 \<and> messages m \<noteq> [] \<and> is_system (hd (messages m)) \<and>
     length (persisted m0) \<le> length (persisted m) \<and> length (messages m0) \<le> length (messages m) \<and>
     0 < length (messages m0) \<and> tl (take (length (messages m0)) (messages m)) = tl (messages m0) \<and>
     drop (length (messages m0)) (messages m) = drop (length (persisted m0)) (persisted m)"

lemma since_bumped: "since m0 m \<Longrightarrow> nonTailMutSeq m' = nonTailMutSeq m + 1 \<Longrightarrow> since m0 m'"
  by (auto simp: since_def)

lemma since_same:
  "since m0 m \<Longrightarrow> nonTailMutSeq m' = nonTailMutSeq m \<Longrightarrow> messages m' = messages m \<Longrightarrow> persisted m' = persisted m \<Longrightarrow>
   since m0 m'"
  by (simp add: since_def)

lemma index_by_hd: "ms \<noteq> [] \<Longrightarrow> P (hd ms) \<Longrightarrow> index_by P ms = Some 0"
  by (cases ms) auto

text \<open>Every operation of the machine bumps the counter, or leaves messages and log as they are, or adds.\<close>

lemma since_add: "since m0 m \<Longrightarrow> since m0 (Manager_Add env msg m)"
  by (auto simp: since_def Manager_Add_def Let_def)

lemma since_update:
  assumes "since m0 m" "is_system msg" shows "since m0 (UpdateFirstSystemMessage env msg m)"
proof (cases "nonTailMutSeq m0 < nonTailMutSeq m")
  case True
  then show ?thesis by (auto simp: since_def UpdateFirstSystemMessage_def split: option.split)
next
  case False
  then have s: "messages m \<noteq> []" "is_system (hd (messages m))" using assms(1) by (auto simp: since_def)
  then obtain x xs where x: "messages m = x # xs" by (cases "messages m") auto
  obtain k where k: "length (messages m0) = Suc k"
    using False assms(1) by (cases "length (messages m0)") (auto simp: since_def)
  show ?thesis using False assms s
    by (simp add: since_def UpdateFirstSystemMessage_def x k)
qed

lemma since_superseded: "since m0 m \<Longrightarrow> since m0 (snd (compact_superseded env ids reason m))"
  by (cases "compactSupersededToolResults ids reason (messages m) (compactedArchive m)")
     (auto simp: compact_superseded_def commitMechanicalCompaction_def Let_def intro: since_bumped)

lemma since_commit: "since m0 m \<Longrightarrow> since m0 (Summarize_commit env plan t st m)"
proof -
  obtain heads m1 where s: "summary_messages env t st m = (heads, m1)"
    by (cases "summary_messages env t st m")
  assume a: "since m0 m"
  show ?thesis
  proof (cases "nonTailMutSeq m = plan_origVersion plan")
    case True
    then show ?thesis using summary_messages_simps [OF s]
      by (intro since_bumped [OF a]) (simp add: Summarize_commit_def s)
  qed (use since_same [OF a] in \<open>simp add: Summarize_commit_def\<close>)
qed

lemma apply_rejected:
  assumes "\<not> fst (fst (ApplyCompactResult env s r m))"
  obtains x where "ApplyCompactResult env s r m = ((False, tokenCount m), m\<lparr>lastReject := x\<rparr>)"
proof (cases "extra_start s (messages m)")
  case None
  show ?thesis using None by (cases "\<not> res_Changed r \<or> res_messages r = []") (rule that, simp add: ApplyCompactResult_def)+
next
  case (Some k)
  then show ?thesis using assms
    by (cases "\<not> res_Changed r \<or> res_messages r = []"; cases "length (messages m) < length (snap_messages s)")
       (rule that, simp add: ApplyCompactResult_def Let_def)+
qed

lemma apply_accepted:
  "fst (fst (ApplyCompactResult env s r m)) \<Longrightarrow>
   nonTailMutSeq (snd (ApplyCompactResult env s r m)) = nonTailMutSeq m + 1"
  by (auto simp: ApplyCompactResult_def replace_live_def Let_def split: option.splits if_splits)

lemma since_apply: "since m0 m \<Longrightarrow> since m0 (snd (ApplyCompactResult env s r m))"
proof (cases "fst (fst (ApplyCompactResult env s r m))")
  case True
  assume "since m0 m"
  then show ?thesis by (rule since_bumped) (rule apply_accepted [OF True])
next
  case False
  assume "since m0 m"
  obtain x where "ApplyCompactResult env s r m = ((False, tokenCount m), m\<lparr>lastReject := x\<rparr>)"
    by (rule apply_rejected [OF False])
  then show ?thesis using \<open>since m0 m\<close> by (auto intro: since_same)
qed

lemma since_reconciled: "since m0 m \<Longrightarrow> since m0 (reconciled env ms m)"
  by (rule since_bumped) simp_all

lemma since_reconcile: "since m0 m \<Longrightarrow> since m0 (snd (ReconcileToolCalls env pick m))"
  by (simp add: ReconcileToolCalls_def Let_def since_reconciled split: prod.split)

lemma ctx_step_since:
  assumes "window_op (env, oper)" "since m0 m" shows "since m0 (ctx_step (env, oper) m)"
proof (cases oper)
  case OpClear
  then show ?thesis
    by (auto intro!: since_bumped [OF assms(2)] simp: Manager_Clear_def Let_def split: list.split)
next
  case OpRemoveAssistant
  then show ?thesis using assms(2)
    by (auto intro: since_bumped simp: RemoveLastAssistantGroup_def Let_def split: option.split)
next
  case OpTruncate
  then show ?thesis using assms(2)
    by (auto intro: since_bumped simp: TruncateOldestGroupForRetry_def split: option.split)
next
  case OpReasoning
  then show ?thesis using assms(2)
    by (auto intro: since_bumped simp: CompactOldReasoningBlocks_def commitMechanicalCompaction_def Let_def
        split: option.split)
qed (use assms in \<open>simp_all add: window_op_def since_add since_update since_superseded since_commit since_apply
       since_reconcile CompactSupersededReads_def CompactSupersededCommands_def since_same RecordUsage_def
       SetCheckpointBaseline_def SetOutputReserve_def SetEarlyCompactRatio_def take_CompactSnapshot_def Let_def\<close>)

interpretation win: guarded_machine ctx_step window_op "since m0" for m0
  by unfold_locales (metis ctx_step_since surj_pair)

lemma since_start:
  "messages m0 \<noteq> [] \<Longrightarrow> is_system (hd (messages m0)) \<Longrightarrow> since m0 m0"
  by (simp add: since_def)

section \<open>Nothing that was said is lost\<close>

lemma plan_fields:
  assumes "buildSummaryPlan est m = Some plan"
  shows "plan_origLen plan = length (messages m)" "plan_origVersion plan = nonTailMutSeq m" "messages m \<noteq> []"
  using assms by (auto simp: buildSummaryPlan_def buildMessageGroups_def Let_def split: if_splits)

definition summary_message :: "ctx_env \<Rightarrow> ContextManager \<Rightarrow> string \<Rightarrow> Message" where
  "summary_message env m t = system_message (newMessageID env m) (summaryMarker @ [lf] @ t)"

lemma summary_message_marked: "has_marker summaryMarker (summary_message env m t)"
  using Contains_append [of "''''" summaryMarker "[lf] @ t"]
  by (simp add: has_marker_def summary_message_def system_message_def is_system_def TextBlock_def)

lemma commit_ends_in:
  assumes eq: "nonTailMutSeq m = plan_origVersion plan"
    and T: "T = plan_recentMsgs plan @ drop (plan_origLen plan) (messages m)"
    and K: "K = summary_message env m t # K'" "set K' \<subseteq> set (summary_head plan m)"
    and un: "list_all unmarked T" "list_all unmarked K"
  shows "ends_in K T (messages (Summarize_commit env plan t st m))"
    and "lastSummarizeApplied (Summarize_commit env plan t st m)"
proof -
  obtain heads m1 where s: "summary_messages env t st m = (heads, m1)"
    by (cases "summary_messages env t st m")
  let ?m2 = "m1\<lparr>messages := summary_head plan m @ heads @ T, lastSummarizeApplied := True\<rparr>"
  have "summary_message env m t \<in> set heads"
    using s by (auto simp: summary_messages_def summary_message_def Let_def split: if_splits)
  then have "ends_in K T (messages ?m2)"
    using K unfolding ends_in_def by (intro exI [of _ "summary_head plan m @ heads"]) auto
  from inject_ends_in [OF this un] show "ends_in K T (messages (Summarize_commit env plan t st m))"
    by (simp add: Summarize_commit_def eq s T K summary_message_marked)
  show "lastSummarizeApplied (Summarize_commit env plan t st m)"
    by (simp add: Summarize_commit_def eq s)
qed

text \<open>What is in the log of \<^verbatim>\<open>onPersist\<close> since \<open>m0\<close>.\<close>

definition added_since :: "ContextManager \<Rightarrow> ContextManager \<Rightarrow> Message list" where
  "added_since m0 m = drop (length (persisted m0)) (persisted m)"

text \<open>
  C9. While the model writes the summary, the agent may go on: add messages, reconcile calls, clear,
  truncate, compact outputs, commit another summary, apply a snapshot. When the summary comes back, either
  the older part of the conversation has changed meanwhile and the summary is thrown away without touching a
  message, or it replaces exactly what it summarized: behind the head with the summary stand the messages
  kept word for word and then every message that was added since the plan, in order (the log of
  \<^verbatim>\<open>onPersist\<close> tells which). The only operation that may not come in between is \<^verbatim>\<open>RemoveLastUserMessage\<close>.
  The summary and these messages must not quote the marker of a note.\<close>

theorem summary_keeps_added_messages:
  assumes plan: "buildSummaryPlan est m0 = Some plan" and sys: "is_system (hd (messages m0))"
    and ops: "list_all window_op ops" and m: "m = fold ctx_step ops m0"
    and T: "T = plan_recentMsgs plan @ added_since m0 m"
    and un: "list_all unmarked T" "unmarked (summary_message env m t)"
  shows "if nonTailMutSeq m = nonTailMutSeq m0
    then lastSummarizeApplied (Summarize_commit env plan t st m) \<and>
         ends_in [summary_message env m t] T (messages (Summarize_commit env plan t st m))
    else \<not> lastSummarizeApplied (Summarize_commit env plan t st m) \<and>
         messages (Summarize_commit env plan t st m) = messages m"
proof (cases "nonTailMutSeq m = nonTailMutSeq m0")
  case True
  have "since m0 m"
    unfolding m by (rule win.ok_run_inv [OF ops since_start]) (use plan_fields [OF plan] sys in simp_all)
  then have "drop (plan_origLen plan) (messages m) = added_since m0 m"
    using True plan_fields [OF plan] by (simp add: since_def added_since_def)
  then have "T = plan_recentMsgs plan @ drop (plan_origLen plan) (messages m)" using T by simp
  note c = commit_ends_in [where K' = "[]" and t = t and st = st and env = env, OF _ this refl _ un(1)]
  show ?thesis using c True un(2) plan_fields(2) [OF plan] by simp
next
  case False
  then show ?thesis using plan_fields [OF plan] by (simp add: Summarize_commit_def)
qed

section \<open>The window of a snapshot\<close>

lemma last_index_by_prefix:
  assumes "P a" "list_all (\<lambda>x. \<not> P x) ys"
  shows "last_index_by P (xs @ a # ys) = Some (length xs)"
proof -
  have "index_by P (rev ys @ a # rev xs) = Some (length ys)"
    using assms by (simp add: index_by_append iffD2 [OF index_by_None] list_all_iff)
  then show ?thesis by (simp add: last_index_by_def)
qed

lemma replace_system_keeps: "has_marker summaryMarker x \<Longrightarrow> x \<in> set xs \<Longrightarrow> x \<in> set (replace_system live xs)"
  by (induction xs) (auto simp: has_marker_def)

lemma replace_system_append:
  "list_ex (\<lambda>x. is_system x \<and> \<not> has_marker summaryMarker x) H \<Longrightarrow>
   replace_system live (H @ T) = replace_system live H @ T"
  by (induction H) auto

definition plain_system :: "Message \<Rightarrow> bool" where
  "plain_system x \<longleftrightarrow> is_system x \<and> unmarked x \<and> \<not> has_marker summaryMarker x"

lemma scratch_simps [simp]:
  "messages (scratch_manager env s) = snap_messages s" "nonTailMutSeq (scratch_manager env s) = 0"
  "version (scratch_manager env s) = 0" "contextWindow (scratch_manager env s) = snap_ContextWindow s"
  "nextUuid (scratch_manager env s) = 0"
  by (simp_all add: scratch_manager_def SetOutputReserve_def NewContextManager_def accounting_defs)

lemma plan_cong:
  "messages m' = messages m \<Longrightarrow> contextWindow m' = contextWindow m \<Longrightarrow>
   buildSummaryPlan est m' = map_option (\<lambda>p. p\<lparr>plan_origVersion := nonTailMutSeq m'\<rparr>) (buildSummaryPlan est m)"
proof -
  assume a: "messages m' = messages m" "contextWindow m' = contextWindow m"
  have n: "recent_count est m' g = recent_count est m g" for g by (simp add: recent_count_def a)
  show ?thesis unfolding buildSummaryPlan_def a n Let_def by simp
qed

lemma snapshot_fields [simp]:
  "snap_messages (fst (take_CompactSnapshot m)) = messages m"
  "snap_ContextWindow (fst (take_CompactSnapshot m)) = contextWindow m"
  by (simp_all add: take_CompactSnapshot_def)

lemma plan_of_snapshot:
  "buildSummaryPlan est m0 = Some plan \<Longrightarrow>
   buildSummaryPlan est (scratch_manager env (fst (take_CompactSnapshot m0))) = Some (plan\<lparr>plan_origVersion := 0\<rparr>)"
  using plan_cong [of "scratch_manager env (fst (take_CompactSnapshot m0))" m0 est] by simp

lemma commit_version:
  "nonTailMutSeq m = plan_origVersion plan \<Longrightarrow> version (Summarize_commit env plan t st m) = version m + 1"
proof -
  obtain heads m1 where s: "summary_messages env t st m = (heads, m1)"
    by (cases "summary_messages env t st m")
  then show "nonTailMutSeq m = plan_origVersion plan \<Longrightarrow> ?thesis"
    using summary_messages_simps(6) [OF s] by (simp add: Summarize_commit_def)
qed

lemma extra_start_since:
  assumes m: "messages m = (x # xs @ [a]) @ extra" and l: "last (messages m0) = a" "length (messages m0) = length xs + 2"
    and ids: "list_all (\<lambda>y. msg_id y \<noteq> msg_id a) extra"
  shows "extra_start (fst (take_CompactSnapshot m0)) (messages m) = Some (length (messages m0))"
proof -
  have "messages m0 \<noteq> []" using l(2) by auto
  then show ?thesis
    using last_index_by_prefix [of "\<lambda>y. msg_id y = msg_id a" a extra "x # xs"] ids l
    by (simp add: extra_start_def take_CompactSnapshot_def m)
qed

lemma plan_length:
  assumes "buildSummaryPlan est m = Some plan" "is_system (hd (messages m))"
  shows "1 < length (messages m)"
  using assms plan_fields(3) [OF assms(1)]
  by (auto simp: buildSummaryPlan_def buildMessageGroups_def conversation_start_def Let_def split: if_splits)

lemma snapshot_result:
  assumes plan: "buildSummaryPlan est m0 = Some plan"
    and llm: "llm (plan\<lparr>plan_origVersion := 0\<rparr>) = Some t"
    and c: "CompactSnapshot_Compact env est llm stx (fst (take_CompactSnapshot m0)) = Some r"
  shows "res_Changed r" "res_messages r = messages (Summarize_commit (env\<lparr>postCompactNote := None\<rparr>)
     (plan\<lparr>plan_origVersion := 0\<rparr>) t (stx (plan\<lparr>plan_origVersion := 0\<rparr>))
     (scratch_manager (env\<lparr>postCompactNote := None\<rparr>) (fst (take_CompactSnapshot m0))))"
proof -
  let ?env = "env\<lparr>postCompactNote := None\<rparr>" and ?plan = "plan\<lparr>plan_origVersion := 0\<rparr>"
  let ?scratch = "scratch_manager ?env (fst (take_CompactSnapshot m0))"
  have "Summarize ?env est llm stx ?scratch = (True, Summarize_commit ?env ?plan t (stx ?plan) ?scratch)"
    using plan_of_snapshot [OF plan, of ?env] llm by (simp add: Summarize_def)
  moreover have "version (Summarize_commit ?env ?plan t (stx ?plan) ?scratch) = 1"
    by (subst commit_version) simp_all
  ultimately show "res_Changed r" "res_messages r = messages (Summarize_commit ?env ?plan t (stx ?plan) ?scratch)"
    using c by (auto simp: CompactSnapshot_Compact_def Let_def)
qed

lemma replace_live_ends_in:
  assumes r: "ends_in K R (res_messages r)" and sys: "messages m \<noteq> []" "is_system (hd (messages m))"
    and K: "list_ex (\<lambda>x. is_system x \<and> \<not> has_marker summaryMarker x) K" "s \<in> set K"
      "has_marker summaryMarker s" "unmarked s"
    and T: "list_all unmarked (R @ drop k (messages m))"
  shows "ends_in [s] (R @ drop k (messages m)) (messages (replace_live env r k m))"
proof -
  obtain H where H: "res_messages r = H @ R" "set K \<subseteq> set H" using r by (auto simp: ends_in_def)
  have "list_ex (\<lambda>x. is_system x \<and> \<not> has_marker summaryMarker x) H" using K(1) H(2) by (auto simp: list_ex_iff)
  then have "compacted_messages r k (messages m) = replace_system (hd (messages m)) H @ R @ drop k (messages m)"
    using sys by (simp add: compacted_messages_def H(1) replace_system_append)
  moreover have "s \<in> set (replace_system (hd (messages m)) H)"
    using K(2,3) H(2) by (auto intro: replace_system_keeps)
  ultimately have "ends_in [s] (R @ drop k (messages m)) (compacted_messages r k (messages m))"
    unfolding ends_in_def by auto
  then show ?thesis using K(3,4) T unfolding replace_live_def recalc_simps bump_seq_simps
    by (intro inject_ends_in) simp_all
qed

text \<open>
  C10. Compaction in the background loses nothing that was said meanwhile: the manager hands out a snapshot,
  the copy is summarized, and the agent goes on adding messages (and doing whatever leaves the older part of
  the conversation alone). The result is then accepted, and the new conversation ends in the messages the plan
  kept word for word followed by every message that was added since the snapshot, in order, with the summary
  before them. The added messages must not reuse the id of the last message of the snapshot, the system prompt
  must not contain the marker of a summary or a note, and neither must the rest quote the markers of notes.\<close>

theorem snapshot_keeps_added_messages:
  assumes plan: "buildSummaryPlan est m0 = Some plan" and sys: "plain_system (hd (messages m0))"
    and llm: "llm (plan\<lparr>plan_origVersion := 0\<rparr>) = Some t"
    and r: "CompactSnapshot_Compact env0 est llm stx (fst (take_CompactSnapshot m0)) = Some r"
    and ops: "list_all window_op ops" and m: "m = fold ctx_step ops (snd (take_CompactSnapshot m0))"
    and seq: "nonTailMutSeq m = nonTailMutSeq m0"
    and ids: "list_all (\<lambda>x. msg_id x \<noteq> msg_id (last (messages m0))) (added_since m0 m)"
    and un: "list_all unmarked (plan_recentMsgs plan @ added_since m0 m)"
      "unmarked (summary_message env0 (NewContextManager 0) t)"
  shows "fst (fst (ApplyCompactResult env (fst (take_CompactSnapshot m0)) r m)) \<and>
    ends_in [summary_message env0 (NewContextManager 0) t] (plan_recentMsgs plan @ added_since m0 m)
      (messages (snd (ApplyCompactResult env (fst (take_CompactSnapshot m0)) r m)))"
proof -
  let ?s = "summary_message env0 (NewContextManager 0) t" and ?plan = "plan\<lparr>plan_origVersion := 0\<rparr>"
  let ?scratch = "scratch_manager (env0\<lparr>postCompactNote := None\<rparr>) (fst (take_CompactSnapshot m0))"
  have s: "summary_message (env0\<lparr>postCompactNote := None\<rparr>) ?scratch t = ?s"
    by (simp add: summary_message_def newMessageID_def NewContextManager_def)
  have sys1: "is_system (hd (messages m0))" and n: "1 < length (messages m0)"
    using sys plan_length [OF plan] by (simp_all add: plain_system_def)
  have "since m0 (snd (take_CompactSnapshot m0))"
    using sys1 n by (auto simp: since_def take_CompactSnapshot_def)
  then have since: "since m0 m" unfolding m by (rule win.ok_run_inv [OF ops])
  have live: "messages m \<noteq> []" "is_system (hd (messages m))" "length (messages m0) \<le> length (messages m)"
    "drop (length (messages m0)) (messages m) = added_since m0 m"
    "tl (take (length (messages m0)) (messages m)) = tl (messages m0)"
    using since seq by (simp_all add: since_def added_since_def)
  obtain x y ys where m0: "messages m0 = x # y # ys" using n by (cases "messages m0"; cases "tl (messages m0)") auto
  have "messages m = hd (messages m) # (y # ys) @ added_since m0 m"
    using live append_take_drop_id [of "length (messages m0)" "messages m"]
    by (cases "messages m") (simp_all add: m0)
  then have "messages m = (hd (messages m) # butlast (y # ys) @ [last (y # ys)]) @ added_since m0 m"
    by (metis Cons_eq_appendI append_butlast_last_id list.distinct(1))
  from extra_start_since [OF this, of m0] ids have k:
    "extra_start (fst (take_CompactSnapshot m0)) (messages m) = Some (length (messages m0))"
    by (simp add: m0)
  note rr = snapshot_result [OF plan llm r]
  have T: "plan_recentMsgs plan = plan_recentMsgs ?plan @ drop (plan_origLen ?plan) (messages ?scratch)"
    using plan_fields(1) [OF plan] by simp
  have hd: "set [hd (messages m0)] \<subseteq> set (summary_head ?plan ?scratch)"
    using plan sys1 by (auto simp: summary_head_def buildSummaryPlan_def conversation_start_def Let_def m0 split: if_splits)
  have "ends_in [?s, hd (messages m0)] (plan_recentMsgs plan) (res_messages r)"
    unfolding rr(2) by (rule commit_ends_in(1) [OF _ T _ hd]) (use un sys s in \<open>simp_all add: plain_system_def\<close>)
  from replace_live_ends_in [OF this live(1,2), of ?s "length (messages m0)" env]
  have e: "ends_in [?s] (plan_recentMsgs plan @ added_since m0 m) (messages (replace_live env r (length (messages m0)) m))"
    using un sys live(4) by (simp add: plain_system_def summary_message_marked)
  have "res_messages r \<noteq> []" using \<open>ends_in [?s, hd (messages m0)] _ (res_messages r)\<close> by (auto simp: ends_in_def)
  then show ?thesis using rr(1) k live(3) e by (simp add: ApplyCompactResult_def Let_def)
qed

section \<open>Both windows at work\<close>

definition sample_env :: ctx_env where
  "sample_env = \<lparr>countTokens = (\<lambda>_. 1), uuid = show_nat, postCompactNote = None\<rparr>"

definition said :: "string \<Rightarrow> string \<Rightarrow> string \<Rightarrow> Message" where
  "said i rl t = \<lparr>msg_id = i, role = rl, blocks = [TextBlock t]\<rparr>"

definition sample_ctx :: ContextManager where
  "sample_ctx = fold ctx_step (map (\<lambda>x. (sample_env, OpAdd x))
     [said ''s'' ''system'' ''be brief'', said ''u1'' ''user'' ''hi'', said ''a1'' ''assistant'' ''hello'',
      said ''u2'' ''user'' ''go on'']) (NewContextManager 1000)"

definition sample_plan :: summaryPlan where
  "sample_plan = the (buildSummaryPlan (\<lambda>_. 5) sample_ctx)"

definition sample_ops :: "(ctx_env \<times> ctx_op) list" where
  "sample_ops = [(sample_env, OpAdd (said ''a2'' ''assistant'' ''working'')), (sample_env, OpBaseline 7),
     (sample_env, OpAdd (said ''u3'' ''user'' ''and then?''))]"

lemma sample_plan_is: "buildSummaryPlan (\<lambda>_. 5) sample_ctx = Some sample_plan"
  by code_simp

definition sample_live :: ContextManager where
  "sample_live = fold ctx_step sample_ops sample_ctx"

theorem summary_keeps_added_messages_witness:
  "lastSummarizeApplied (Summarize_commit sample_env sample_plan ''short'' '''' sample_live) \<and>
   ends_in [summary_message sample_env sample_live ''short'']
     (plan_recentMsgs sample_plan @ added_since sample_ctx sample_live)
     (messages (Summarize_commit sample_env sample_plan ''short'' '''' sample_live)) \<and>
   map msg_id (plan_recentMsgs sample_plan @ added_since sample_ctx sample_live) = [''u2'', ''a2'', ''u3'']"
proof -
  have h: "is_system (hd (messages sample_ctx))" "list_all window_op sample_ops"
    "list_all unmarked (plan_recentMsgs sample_plan @ added_since sample_ctx sample_live)"
    "unmarked (summary_message sample_env sample_live ''short'')"
    by code_simp+
  have e: "nonTailMutSeq sample_live = nonTailMutSeq sample_ctx" by code_simp
  have i: "map msg_id (plan_recentMsgs sample_plan @ added_since sample_ctx sample_live) = [''u2'', ''a2'', ''u3'']"
    by code_simp
  from summary_keeps_added_messages [OF sample_plan_is h(1,2) sample_live_def refl h(3,4), of "''''"]
  show ?thesis using e i by simp
qed

definition sample_llm :: "summaryPlan \<Rightarrow> string option" where
  "sample_llm plan = Some ''short''"

definition sample_result :: CompactResult where
  "sample_result = the (CompactSnapshot_Compact sample_env (\<lambda>_. 5) sample_llm (\<lambda>_. '''')
     (fst (take_CompactSnapshot sample_ctx)))"

definition sample_live2 :: ContextManager where
  "sample_live2 = fold ctx_step sample_ops (snd (take_CompactSnapshot sample_ctx))"

lemma sample_result_is:
  "CompactSnapshot_Compact sample_env (\<lambda>_. 5) sample_llm (\<lambda>_. '''') (fst (take_CompactSnapshot sample_ctx)) =
   Some sample_result"
  by code_simp

theorem snapshot_keeps_added_messages_witness:
  "fst (fst (ApplyCompactResult sample_env (fst (take_CompactSnapshot sample_ctx)) sample_result sample_live2)) \<and>
   ends_in [summary_message sample_env (NewContextManager 0) ''short'']
     (plan_recentMsgs sample_plan @ added_since sample_ctx sample_live2)
     (messages (snd (ApplyCompactResult sample_env (fst (take_CompactSnapshot sample_ctx)) sample_result sample_live2)))"
proof -
  have h: "plain_system (hd (messages sample_ctx))" "list_all window_op sample_ops"
    "list_all (\<lambda>x. msg_id x \<noteq> msg_id (last (messages sample_ctx))) (added_since sample_ctx sample_live2)"
    "list_all unmarked (plan_recentMsgs sample_plan @ added_since sample_ctx sample_live2)"
    "unmarked (summary_message sample_env (NewContextManager 0) ''short'')"
    by code_simp+
  have e: "nonTailMutSeq sample_live2 = nonTailMutSeq sample_ctx" by code_simp
  show ?thesis
    by (rule snapshot_keeps_added_messages
        [OF sample_plan_is h(1) _ sample_result_is h(2) sample_live2_def e h(3,4,5)]) (simp add: sample_llm_def)
qed

text \<open>
  \<^verbatim>\<open>RemoveLastUserMessage\<close> does not move the counter: after it the position behind the plan points one message
  too far, the summary is committed all the same and the message that was added in the window is gone.
\<close>

lemma removed_request_loses_message:
  "let m = fold ctx_step [(sample_env, OpRemoveUser), (sample_env, OpAdd (said ''u3'' ''user'' ''stop!''))] sample_ctx;
       m1 = Summarize_commit sample_env sample_plan ''short'' '''' m
   in ''u3'' \<in> set (map msg_id (messages m)) \<and> lastSummarizeApplied m1 \<and>
      ''u3'' \<notin> set (map msg_id (messages m1)) \<and> ''u2'' \<in> set (map msg_id (messages m1))"
  by code_simp

text \<open>A summary that quotes the marker of the pinned notes is taken for one of them and removed.\<close>

lemma quoting_summary_is_removed:
  "SummaryMsgID (Summarize_commit sample_env sample_plan ''see [Pinned Context - protected from compaction]'' ''''
     sample_live) = ''''"
  by code_simp

theorem token_count_exact_witness:
  "tokens sample_ctx = sum_tokens sample_env (messages sample_ctx) \<and> tokens sample_ctx = 4"
proof -
  have "list_all (counted_op sample_env) (map (\<lambda>x. (sample_env, OpAdd x))
     [said ''s'' ''system'' ''be brief'', said ''u1'' ''user'' ''hi'', said ''a1'' ''assistant'' ''hello'',
      said ''u2'' ''user'' ''go on''])"
    by (simp add: counted_op_def)
  from token_count_exact [OF this, of 1000] have "tokens sample_ctx = sum_tokens sample_env (messages sample_ctx)"
    unfolding sample_ctx_def .
  moreover have "tokens sample_ctx = 4" by code_simp
  ultimately show ?thesis by simp
qed

lemma removed_request_still_counted:
  "let m = snd (RemoveLastUserMessage sample_ctx) in tokens m = 4 \<and> sum_tokens sample_env (messages m) = 3"
  by code_simp

end
