(* ===== verification/CtxSend.thy ===== *)
theory CtxSend
  imports CtxPairing CtxWindow
begin

text \<open>
  Getting under the budget before a request is sent: \<^verbatim>\<open>compactLocallyForSendBudget\<close> of
  \<^verbatim>\<open>internal/agent/agent_compact.go\<close>, which drops messages until the conversation fits.
\<close>

section \<open>Groups cover the conversation\<close>

definition groups_from :: "(nat \<Rightarrow> bool) \<Rightarrow> nat \<Rightarrow> nat \<Rightarrow> nat \<Rightarrow> (nat \<times> nat) list" where
  "groups_from P n s k = zip (s # filter P [k..<n]) (filter P [k..<n] @ [n])"

lemma groups_from_step:
  "k < n \<Longrightarrow> groups_from P n s k = (if P k then (s, k) # groups_from P n k (k + 1) else groups_from P n s (k + 1))"
  by (simp add: groups_from_def upt_conv_Cons)

definition covers :: "(nat \<Rightarrow> bool) \<Rightarrow> nat \<Rightarrow> nat \<Rightarrow> (nat \<times> nat) list \<Rightarrow> bool" where
  "covers P s n gs \<longleftrightarrow>
     (\<forall>g \<in> set gs. s \<le> fst g \<and> fst g < snd g \<and> snd g \<le> n \<and> (\<forall>i \<in> {fst g<..<snd g}. \<not> P i)) \<and>
     (\<forall>i \<in> {s..<n}. \<exists>g \<in> set gs. fst g \<le> i \<and> i < snd g)"

lemma covers_Cons:
  assumes "s < k" "k < n" "\<forall>i \<in> {s<..<k}. \<not> P i" "covers P k n gs"
  shows "covers P s n ((s, k) # gs)"
proof -
  have "\<exists>g \<in> set ((s, k) # gs). fst g \<le> i \<and> i < snd g" if "i \<in> {s..<n}" for i
    using that assms(4) by (cases "i < k") (auto simp: covers_def)
  moreover have "s \<le> fst g" if "g \<in> set gs" for g
    using that assms(1,4) by (force simp: covers_def)
  ultimately show ?thesis using assms by (simp add: covers_def)
qed

lemma groups_from_covers:
  assumes "s < k" "k \<le> n" "\<forall>i \<in> {s<..<k}. \<not> P i"
  shows "covers P s n (groups_from P n s k)"
  using assms
proof (induction "n - k" arbitrary: s k)
  case 0
  then show ?case by (simp add: groups_from_def covers_def)
next
  case (Suc d)
  then have k: "k < n" "d = n - (k + 1)" by simp_all
  show ?case
  proof (cases "P k")
    case True
    have "covers P k n (groups_from P n k (k + 1))" by (rule Suc.hyps(1) [OF k(2)]) (use k(1) in auto)
    then show ?thesis using covers_Cons [OF Suc.prems(1) k(1) Suc.prems(3)] True k(1) by (simp add: groups_from_step)
  next
    case False
    then have "\<forall>i \<in> {s<..<k + 1}. \<not> P i" using Suc.prems(3) by (auto simp: less_Suc_eq)
    then have "covers P s n (groups_from P n s (k + 1))" by (intro Suc.hyps(1) [OF k(2)]) (use k(1) Suc.prems in auto)
    then show ?thesis using False k(1) by (simp add: groups_from_step)
  qed
qed

lemma groups_covers:
  "s < length ms \<Longrightarrow> covers (\<lambda>i. startsNewInteractionGroup (ms ! i)) s (length ms) (buildMessageGroups ms s)"
proof -
  assume s: "s < length ms"
  have "\<forall>i \<in> {s<..<s + 1}. \<not> startsNewInteractionGroup (ms ! i)" by auto
  with s groups_from_covers [of s "s + 1" "length ms" "\<lambda>i. startsNewInteractionGroup (ms ! i)"] show ?thesis
    by (simp add: buildMessageGroups_def groups_from_def Let_def)
qed

section \<open>What is dropped\<close>

lemma conversation_start_lt: "2 \<le> length ms \<Longrightarrow> conversation_start ms < length ms"
  by (cases ms) (auto simp: conversation_start_def)

text \<open>A message that is dropped is neither the system prompt nor the start of an interaction.\<close>

lemma truncate_drops:
  assumes "truncateGroupsForPTLRetry ms = Some ms'"
  obtains h where "ms' = take h ms @ drop (h + 1) ms" "h < length ms" "conversation_start ms \<le> h"
    "\<not> startsNewInteractionGroup (ms ! h)"
proof -
  let ?s = "conversation_start ms"
  from assms obtain g where g: "g \<in> set (buildMessageGroups ms ?s)" "truncate_at ms g = Some ms'" "2 \<le> length ms"
    by (auto simp: truncateGroupsForPTLRetry_def split: if_splits dest: first_some_Some)
  have "?s < length ms" using g(3) by (rule conversation_start_lt)
  from groups_covers [OF this] g(1) have s: "?s \<le> fst g" "fst g < snd g" "snd g \<le> length ms"
    "\<And>i. fst g < i \<Longrightarrow> i < snd g \<Longrightarrow> \<not> startsNewInteractionGroup (ms ! i)" by (auto simp: covers_def)
  show ?thesis
  proof (cases "startsNewInteractionGroup (ms ! fst g)")
    case True
    then show ?thesis using g(2) s by (intro that [of "fst g + 1"]) (auto simp: truncate_at_def split: if_splits)
  next
    case False
    then show ?thesis using g(2) s by (intro that [of "fst g"]) (auto simp: truncate_at_def Let_def)
  qed
qed

lemma truncate_length: "truncateGroupsForPTLRetry ms = Some ms' \<Longrightarrow> length ms' < length ms"
  by (erule truncate_drops) simp

lemma truncate_stuck:
  assumes "truncateGroupsForPTLRetry ms = None"
  shows "length ms < 2 \<or> list_all startsNewInteractionGroup (drop (conversation_start ms) ms)"
proof (cases "length ms < 2")
  case False
  let ?s = "conversation_start ms"
  have s: "?s < length ms" using False by (simp add: conversation_start_lt)
  have none: "\<forall>g \<in> set (buildMessageGroups ms ?s). truncate_at ms g = None"
    using assms False by (simp add: truncateGroupsForPTLRetry_def first_some_None)
  have "startsNewInteractionGroup (ms ! i)" if i: "?s \<le> i" "i < length ms" for i
  proof -
    from groups_covers [OF s] i obtain g where g: "g \<in> set (buildMessageGroups ms ?s)" "fst g \<le> i" "i < snd g"
      unfolding covers_def by (metis atLeastLessThan_iff)
    then have "startsNewInteractionGroup (ms ! fst g) \<and> snd g \<le> fst g + 1"
      using none by (auto simp: truncate_at_def Let_def split: if_splits dest!: bspec)
    then show ?thesis using g by (metis Suc_eq_plus1 le_antisym le_less_trans less_Suc_eq_le not_less)
  qed
  then show ?thesis by (simp add: list_all_length)
qed simp

lemma filter_drop_nth:
  "h < length ms \<Longrightarrow> \<not> P (ms ! h) \<Longrightarrow> filter P (take h ms @ drop (h + 1) ms) = filter P ms"
  using arg_cong [OF id_take_nth_drop, of h ms "filter P"] by simp

lemma start_drop_nth:
  "conversation_start ms \<le> h \<Longrightarrow> h < length ms \<Longrightarrow>
   take (conversation_start ms) (take h ms @ drop (h + 1) ms) = take (conversation_start ms) ms"
  by (simp add: min_def)

definition kept_requests :: "Message list \<Rightarrow> Message list \<Rightarrow> bool" where
  "kept_requests ms ms' \<longleftrightarrow>
     filter startsNewInteractionGroup ms' = filter startsNewInteractionGroup ms \<and>
     take (conversation_start ms) ms' = take (conversation_start ms) ms \<and> subseq ms' ms"

lemma kept_requests_step:
  assumes "truncateGroupsForPTLRetry ms = Some ms'" shows "kept_requests ms ms'"
  using assms
proof (rule truncate_drops)
  fix h assume h: "ms' = take h ms @ drop (h + 1) ms" "h < length ms" "conversation_start ms \<le> h"
    "\<not> startsNewInteractionGroup (ms ! h)"
  have "subseq (take h ms @ drop (h + 1) ms) (take h ms @ ms ! h # drop (h + 1) ms)"
    by (intro list_emb_append_mono) auto
  then have "subseq ms' ms" using h id_take_nth_drop [of h ms] by simp
  then show ?thesis using filter_drop_nth [of h ms startsNewInteractionGroup] start_drop_nth [of ms h] h
    by (simp add: kept_requests_def)
qed

lemma kept_requests_start: "kept_requests ms ms' \<Longrightarrow> conversation_start ms = 1 \<Longrightarrow> conversation_start ms' = 1"
  by (cases ms; cases ms') (auto simp: kept_requests_def conversation_start_def split: if_splits)

lemma kept_requests_trans:
  assumes "kept_requests xs ys" "kept_requests ys zs" shows "kept_requests xs zs"
proof -
  have "conversation_start xs = 0 \<or> conversation_start xs = 1" by (simp add: conversation_start_def)
  then have "take (conversation_start xs) zs = take (conversation_start xs) xs"
    using assms kept_requests_start [OF assms(1)] by (auto simp: kept_requests_def)
  then show ?thesis using assms by (auto simp: kept_requests_def intro: subseq_order.trans)
qed

text \<open>The loop: how many messages were dropped, and the manager after it.\<close>

function truncate_loop :: "ctx_env \<Rightarrow> int \<Rightarrow> ContextManager \<Rightarrow> nat \<times> ContextManager" where
  "truncate_loop env budget m =
     (if tokenCount m < budget then (0, m)
      else case TruncateOldestGroupForRetry env m of
             (False, _) \<Rightarrow> (0, m)
           | (True, m1) \<Rightarrow> (let (n, m2) = truncate_loop env budget m1 in (n + 1, m2)))"
  by pat_completeness auto

termination truncate_loop
  by (relation "measure (\<lambda>(env, budget, m). length (messages m))")
     (auto simp: TruncateOldestGroupForRetry_def split: option.splits dest: truncate_length)

declare truncate_loop.simps [simp del]

definition compactLocallyForSendBudget :: "ctx_env \<Rightarrow> ContextManager \<Rightarrow> bool \<times> ContextManager" where
  "compactLocallyForSendBudget env m =
     (let budget = PromptBudget m in
      if budget \<le> 0 \<or> tokenCount m < budget then (False, m)
      else let (n, m1) = truncate_loop env budget m in (n > 0, m1))"

lemma truncate_loop_kept:
  "case truncate_loop env budget m of (n, m1) \<Rightarrow>
     kept_requests (messages m) (messages m1) \<and>
     (tokenCount m1 < budget \<or> truncateGroupsForPTLRetry (messages m1) = None) \<and>
     length (messages m1) + n = length (messages m)"
proof (induction env budget m rule: truncate_loop.induct)
  case (1 env budget m)
  show ?case
  proof (cases "tokenCount m < budget \<or> truncateGroupsForPTLRetry (messages m) = None")
    case True
    then show ?thesis
      by (subst truncate_loop.simps) (auto simp: kept_requests_def TruncateOldestGroupForRetry_def)
  next
    case False
    then obtain ms where ms: "truncateGroupsForPTLRetry (messages m) = Some ms" by auto
    obtain m1 where t: "TruncateOldestGroupForRetry env m = (True, m1)" "messages m1 = ms"
      by (simp add: TruncateOldestGroupForRetry_def ms)
    have len: "length ms + 1 = length (messages m)" using ms by (rule truncate_drops) simp
    obtain n m2 where r: "truncate_loop env budget m1 = (n, m2)" by (cases "truncate_loop env budget m1")
    have IH: "kept_requests ms (messages m2)" "length (messages m2) + n = length ms"
      "tokenCount m2 < budget \<or> truncateGroupsForPTLRetry (messages m2) = None"
      using 1 [OF _ t(1) [symmetric] refl] False r t(2) by simp_all
    have "truncate_loop env budget m = (n + 1, m2)"
      using False t(1) r by (subst truncate_loop.simps) simp
    then show ?thesis using IH len kept_requests_trans [OF kept_requests_step [OF ms]] by simp
  qed
qed

lemma local_outcome:
  "case compactLocallyForSendBudget env m of (changed, m1) \<Rightarrow>
     PromptBudget m \<le> 0 \<or> tokenCount m1 < PromptBudget m \<or> truncateGroupsForPTLRetry (messages m1) = None"
  using truncate_loop_kept [where env = env and budget = "PromptBudget m" and m = m]
  by (auto simp: compactLocallyForSendBudget_def Let_def split: prod.splits)

text \<open>
  C12. Before a request the conversation is brought under the prompt budget, and the loop that does it always
  ends: afterwards the count is below the budget, or nothing is left but the system prompt and messages in
  which the user asked for something. On the way no system prompt and no such request is dropped, the rest
  stays in order, and the answer says whether anything was dropped.\<close>

theorem send_budget_enforced:
  "case compactLocallyForSendBudget env m of (changed, m1) \<Rightarrow>
     (PromptBudget m \<le> 0 \<or> tokenCount m1 < PromptBudget m \<or> length (messages m1) < 2 \<or>
      list_all startsNewInteractionGroup (drop (conversation_start (messages m1)) (messages m1))) \<and>
     filter startsNewInteractionGroup (messages m1) = filter startsNewInteractionGroup (messages m) \<and>
     take (conversation_start (messages m)) (messages m1) = take (conversation_start (messages m)) (messages m) \<and>
     subseq (messages m1) (messages m) \<and>
     (changed \<longleftrightarrow> length (messages m1) < length (messages m))"
proof (cases "PromptBudget m \<le> 0 \<or> tokenCount m < PromptBudget m")
  case True
  then show ?thesis by (auto simp: compactLocallyForSendBudget_def)
next
  case False
  obtain n m1 where r: "truncate_loop env (PromptBudget m) m = (n, m1)"
    by (cases "truncate_loop env (PromptBudget m) m")
  with truncate_loop_kept [where env = env and budget = "PromptBudget m" and m = m] truncate_stuck [of "messages m1"] False
  show ?thesis by (auto simp: compactLocallyForSendBudget_def kept_requests_def)
qed

text \<open>What it drops may be a call whose result stays.\<close>

lemma truncation_breaks_protocol:
  "let ms = [said ''u'' ''user'' ''go'',
             \<lparr>msg_id = ''a'', role = ''assistant'', blocks = [ToolUseBlock ''t'' ''read_file'' None]\<rparr>,
             \<lparr>msg_id = ''r'', role = ''user'', blocks = [ToolResultNamedBlock ''t'' ''read_file'' ''text'' False]\<rparr>]
   in protocol_ok ms \<and> (case truncateGroupsForPTLRetry ms of Some ms' \<Rightarrow> \<not> protocol_ok ms' | None \<Rightarrow> False)"
  by code_simp

end
