(* ===== verification/CtxSettle.thy ===== *)
theory CtxSettle
  imports CtxSend
begin

text \<open>
  The compaction without a model: it changes nothing but the output of old results and old reasoning, keeps
  what is needed, and has nothing left to do after one pass.
\<close>

section \<open>What is replaced\<close>

definition supersede_in :: "string list \<Rightarrow> string \<Rightarrow> Message \<Rightarrow> Message" where
  "supersede_in ids reason msg =
     msg\<lparr>blocks := map (\<lambda>b. if supersedable ids b then superseded_block reason b else b) (blocks msg)\<rparr>"

lemma supersede_blocks_map:
  "fst (supersede_blocks ids reason rl bs es) =
     map (\<lambda>b. if supersedable ids b then superseded_block reason b else b) bs \<and>
   (snd (snd (supersede_blocks ids reason rl bs es)) = 0 \<longleftrightarrow> \<not> list_ex (supersedable ids) bs)"
  by (induction ids reason rl bs es rule: supersede_blocks.induct)
     (auto simp: supersedable_def split: prod.splits)

lemma supersede_map:
  "fst (compactSupersededToolResults ids reason ms es) = map (supersede_in ids reason) ms \<and>
   (snd (snd (compactSupersededToolResults ids reason ms es)) = 0 \<longleftrightarrow>
      \<not> list_ex (\<lambda>msg. list_ex (supersedable ids) (blocks msg)) ms)"
proof (induction ids reason ms es rule: compactSupersededToolResults.induct)
  case (2 ids reason msg ms es)
  obtain bs es1 n1 where b: "supersede_blocks ids reason (role msg) (blocks msg) es = (bs, es1, n1)"
    by (cases "supersede_blocks ids reason (role msg) (blocks msg) es") auto
  with supersede_blocks_map [of ids reason "role msg" "blocks msg" es] 2 [OF b [symmetric] refl]
  show ?case by (auto simp: supersede_in_def split: prod.splits)
qed simp

text \<open>Both passes over results: nothing to do, or the map over the conversation.\<close>

lemma supersede_nothing:
  "\<not> list_ex (\<lambda>msg. list_ex (supersedable ids) (blocks msg)) (messages m) \<Longrightarrow>
   compact_superseded env ids reason m = (0, m)"
  using supersede_map [of ids reason "messages m" "compactedArchive m"]
  by (auto simp: compact_superseded_def split: prod.splits)

lemma supersedable_none [simp]: "\<not> supersedable [] b"
  by (simp add: supersedable_def)

lemma supersede_messages:
  "messages (snd (compact_superseded env ids reason m)) = map (supersede_in ids reason) (messages m)"
proof (cases "list_ex (\<lambda>msg. list_ex (supersedable ids) (blocks msg)) (messages m)")
  case True
  then have "ids \<noteq> []" by (auto simp: list_ex_iff)
  then show ?thesis using True supersede_map [of ids reason "messages m" "compactedArchive m"]
    by (auto simp: compact_superseded_def commitMechanicalCompaction_def Let_def split: prod.splits)
next
  case False
  have "supersede_in ids reason msg = msg" if "msg \<in> set (messages m)" for msg
  proof -
    have "map (\<lambda>b. if supersedable ids b then superseded_block reason b else b) (blocks msg) = blocks msg"
      using False that by (intro map_idI) (auto simp: list_ex_iff)
    then show ?thesis by (simp add: supersede_in_def)
  qed
  then have "map (supersede_in ids reason) (messages m) = messages m" by (intro map_idI)
  then show ?thesis by (simp add: supersede_nothing [OF False])
qed

definition reasoning_in :: "Message \<Rightarrow> Message" where
  "reasoning_in msg = (if is_assistant msg then msg\<lparr>blocks := map compact_reasoning (blocks msg)\<rparr> else msg)"

lemma reasoning_unchanged:
  "\<not> (is_assistant msg \<and> list_ex stale_reasoning (blocks msg)) \<Longrightarrow> reasoning_in msg = msg"
proof -
  assume a: "\<not> (is_assistant msg \<and> list_ex stale_reasoning (blocks msg))"
  have "map compact_reasoning (blocks msg) = blocks msg" if "is_assistant msg"
    using a that by (intro map_idI) (auto simp: list_ex_iff compact_reasoning_def)
  then show ?thesis by (simp add: reasoning_in_def)
qed

lemma reasoning_messages:
  "messages (snd (CompactOldReasoningBlocks env m)) =
     (case last_index_by is_assistant (messages m) of
        None \<Rightarrow> messages m
      | Some a \<Rightarrow> map reasoning_in (take a (messages m)) @ drop a (messages m))"
proof (cases "last_index_by is_assistant (messages m)")
  case (Some a)
  show ?thesis
  proof (cases "list_ex (\<lambda>msg. is_assistant msg \<and> list_ex stale_reasoning (blocks msg)) (take a (messages m))")
    case True
    then show ?thesis using Some
      by (simp add: CompactOldReasoningBlocks_def commitMechanicalCompaction_def Let_def reasoning_in_def)
  next
    case False
    then have "map reasoning_in (take a (messages m)) = take a (messages m)"
      by (intro map_idI reasoning_unchanged) (auto simp: list_ex_iff)
    then show ?thesis using False Some by (simp add: CompactOldReasoningBlocks_def Let_def)
  qed
qed (simp add: CompactOldReasoningBlocks_def)

section \<open>What stays\<close>

text \<open>A message without what these passes may rewrite.\<close>

definition block_shape :: "ContentBlock \<Rightarrow> ContentBlock" where
  "block_shape b = b\<lparr>b_output := '''', b_images := [], b_reasoning := '''', b_signature := ''''\<rparr>"

definition shape :: "Message \<Rightarrow> Message" where
  "shape msg = msg\<lparr>blocks := map block_shape (blocks msg)\<rparr>"

lemma shape_supersede [simp]: "shape (supersede_in ids reason msg) = shape msg"
  by (simp add: shape_def supersede_in_def block_shape_def superseded_block_def)

lemma shape_reasoning [simp]: "shape (reasoning_in msg) = shape msg"
  by (simp add: shape_def reasoning_in_def block_shape_def compact_reasoning_def)

lemma block_shape_simps [simp]:
  "is_use (block_shape b) = is_use b" "is_result (block_shape b) = is_result b"
  "b_toolID (block_shape b) = b_toolID b" "b_toolName (block_shape b) = b_toolName b"
  "b_input (block_shape b) = b_input b"
  by (simp_all add: block_shape_def is_use_def is_result_def)

lemma shape_simps [simp]:
  "is_assistant (shape msg) = is_assistant msg" "use_ids (shape msg) = use_ids msg"
  "result_ids (shape msg) = result_ids msg"
  by (simp_all add: shape_def is_assistant_def use_ids_def result_ids_def filter_map comp_def)

lemma segment_shape [simp]: "segment (map shape ms) = map shape (segment ms)"
  by (simp add: segment_def takeWhile_map comp_def)

lemma results_shape [simp]: "all_results (map shape ms) = all_results ms"
  by (simp add: all_results_def comp_def)

lemma protocol_shape: "protocol_ok (map shape ms) \<longleftrightarrow> protocol_ok ms"
proof -
  have "paired (map shape ms) \<longleftrightarrow> paired ms" by (induction ms) auto
  moreover have "exact (map shape ms) \<longleftrightarrow> exact ms" by (induction ms) auto
  ultimately show ?thesis by (simp add: protocol_ok_def)
qed

text \<open>A pass of the compaction without a model.\<close>

datatype pass = PassReasoning | PassReads bool | PassCommands

fun run_pass :: "ctx_env \<Rightarrow> pass \<Rightarrow> ContextManager \<Rightarrow> int \<times> ContextManager" where
  "run_pass env PassReasoning m = CompactOldReasoningBlocks env m"
| "run_pass env (PassReads linux) m = CompactSupersededReads env linux m"
| "run_pass env PassCommands m = CompactSupersededCommands env m"

lemma pass_shape: "map shape (messages (snd (run_pass env p m))) = map shape (messages m)"
proof (cases p)
  case PassReasoning
  have "map shape (map reasoning_in (take a ms) @ drop a ms) = map shape ms" for a ms
    by (simp add: comp_def flip: take_map drop_map)
  then show ?thesis using PassReasoning
    by (auto simp: reasoning_messages simp del: map_append split: option.split)
qed (simp_all add: CompactSupersededReads_def CompactSupersededCommands_def supersede_messages comp_def)

section \<open>One pass is enough\<close>

lemma tool_uses_shape: "map block_shape (tool_uses ms) = tool_uses (map shape ms)"
  by (simp add: tool_uses_def map_concat filter_map comp_def shape_def)

lemma read_log_shape: "read_log linux (map shape ms) = read_log linux ms"
  unfolding read_log_def tool_uses_shape [symmetric] by (simp add: comp_def)

lemma first_some_map: "first_some f (map g xs) = first_some (f \<circ> g) xs"
  by (induction xs) (auto split: option.split)

lemma read_range_shape: "read_range (map shape ms) = read_range ms"
  unfolding read_range_def tool_uses_shape [symmetric] by (simp add: rev_map first_some_map comp_def)

lemma superseded_reads_shape: "superseded_reads linux (map shape ms) = superseded_reads linux ms"
  by (simp add: superseded_reads_def read_log_shape read_range_shape)

lemma command_log_shape: "command_log (map shape ms) = command_log ms"
  unfolding command_log_def tool_uses_shape [symmetric] Let_def by (simp add: comp_def cong: if_cong)

lemma superseded_commands_shape: "superseded_commands (map shape ms) = superseded_commands ms"
  by (simp add: superseded_commands_def command_log_shape)

lemma not_supersedable_again: "\<not> supersedable ids (superseded_block reason b)"
  using HasPrefix_append [of "''[superseded:''" "'' '' @ reason @ u" for u]
  by (simp add: supersedable_def superseded_block_def HasPrefix_def)

lemma supersede_settles:
  "compact_superseded env' ids reason (snd (compact_superseded env ids reason m)) =
   (0, snd (compact_superseded env ids reason m))"
proof (rule supersede_nothing)
  show "\<not> list_ex (\<lambda>msg. list_ex (supersedable ids) (blocks msg))
      (messages (snd (compact_superseded env ids reason m)))"
    by (auto simp: supersede_messages supersede_in_def list_ex_iff not_supersedable_again)
qed

lemma not_stale_again: "\<not> stale_reasoning (compact_reasoning b)"
  by (simp add: stale_reasoning_def compact_reasoning_def HasPrefix_def)

lemma reasoning_nothing:
  "last_index_by is_assistant (messages m) = Some a \<Longrightarrow>
   \<not> list_ex (\<lambda>msg. is_assistant msg \<and> list_ex stale_reasoning (blocks msg)) (take a (messages m)) \<Longrightarrow>
   CompactOldReasoningBlocks env m = (0, m)"
  by (simp add: CompactOldReasoningBlocks_def Let_def)

lemma last_index_map: "(\<And>x. P (f x) = P x) \<Longrightarrow> last_index_by P (map f xs) = last_index_by P xs"
proof -
  assume "\<And>x. P (f x) = P x"
  then have "index_by P (map f ys) = index_by P ys" for ys by (induction ys) auto
  then show ?thesis by (simp add: last_index_by_def rev_map)
qed

lemma reasoning_settles:
  "CompactOldReasoningBlocks env' (snd (CompactOldReasoningBlocks env m)) =
   (0, snd (CompactOldReasoningBlocks env m))"
proof (cases "last_index_by is_assistant (messages m)")
  case None
  then show ?thesis by (simp add: CompactOldReasoningBlocks_def)
next
  case (Some a)
  let ?m = "snd (CompactOldReasoningBlocks env m)"
  have "map shape (messages ?m) = map shape (messages m)" using pass_shape [of env PassReasoning m] by simp
  then have "last_index_by is_assistant (messages ?m) = Some a"
    using Some last_index_map [of is_assistant shape] by (metis shape_simps(1))
  moreover have "a \<le> length (messages m)" using Some by (auto simp: last_index_by_def)
  ultimately show ?thesis
    by (intro reasoning_nothing [of _ a])
       (auto simp: reasoning_messages Some list_ex_iff reasoning_in_def not_stale_again is_assistant_def)
qed

text \<open>
  C13. The passes that make room without a model never disturb the conversation: every message keeps its id,
  role and place, every block its kind, text and call, so a conversation that a provider accepts is still
  accepted and one it rejects is not repaired by accident; and a second pass of the same kind has nothing left
  to do, it frees nothing and changes nothing.\<close>

theorem passes_keep_shape_and_settle:
  "map shape (messages (snd (run_pass env p m))) = map shape (messages m) \<and>
   (protocol_ok (messages (snd (run_pass env p m))) \<longleftrightarrow> protocol_ok (messages m)) \<and>
   run_pass env' p (snd (run_pass env p m)) = (0, snd (run_pass env p m))"
proof -
  note sh = pass_shape [of env p m]
  have "protocol_ok (messages (snd (run_pass env p m))) \<longleftrightarrow> protocol_ok (messages m)"
    using protocol_shape [of "messages (snd (run_pass env p m))"] protocol_shape [of "messages m"] sh by simp
  moreover have "superseded_reads linux (messages (snd (run_pass env p m))) = superseded_reads linux (messages m)" for linux
    using superseded_reads_shape [of linux "messages (snd (run_pass env p m))"]
      superseded_reads_shape [of linux "messages m"] sh by simp
  moreover have "superseded_commands (messages (snd (run_pass env p m))) = superseded_commands (messages m)"
    using superseded_commands_shape [of "messages (snd (run_pass env p m))"]
      superseded_commands_shape [of "messages m"] sh by simp
  ultimately show ?thesis using sh
    by (cases p) (simp_all add: reasoning_settles CompactSupersededReads_def CompactSupersededCommands_def
      supersede_settles)
qed

section \<open>The last run keeps its output\<close>

definition results_for :: "string \<Rightarrow> Message list \<Rightarrow> ContentBlock list" where
  "results_for tid ms = filter (\<lambda>b. is_result b \<and> b_toolID b = tid) (concat (map blocks ms))"

lemma results_for_kept:
  assumes "tid \<notin> set ids" shows "results_for tid (map (supersede_in ids reason) ms) = results_for tid ms"
proof -
  have "filter (\<lambda>b. is_result b \<and> b_toolID b = tid)
      (map (\<lambda>b. if supersedable ids b then superseded_block reason b else b) bs) =
      filter (\<lambda>b. is_result b \<and> b_toolID b = tid) bs" for bs
    using assms by (induction bs) (auto simp: supersedable_def superseded_block_def is_result_def)
  then have "filter (\<lambda>b. is_result b \<and> b_toolID b = tid) (blocks (supersede_in ids reason msg)) =
      filter (\<lambda>b. is_result b \<and> b_toolID b = tid) (blocks msg)" for msg
    by (simp add: supersede_in_def)
  then show ?thesis by (simp add: results_for_def filter_concat comp_def)
qed

lemma ids_of_append: "ids_of (xs @ ys) c = ids_of xs c @ ids_of ys c"
  by (simp add: ids_of_def)

lemma last_not_superseded:
  assumes rs: "rs = xs @ (c, tid) # ys" and last: "list_all (\<lambda>e. fst e \<noteq> c) ys" and d: "distinct (map snd rs)"
  shows "tid \<notin> set (butlast (ids_of rs c'))"
proof (cases "c' = c")
  case True
  have "ids_of ys c = []" using last by (auto simp: ids_of_def list_all_iff filter_empty_conv)
  then have "ids_of rs c = ids_of xs c @ [tid]" unfolding rs by (simp add: ids_of_append) (simp add: ids_of_def)
  moreover have "tid \<notin> set (ids_of xs c)" using d rs by (auto simp: ids_of_def image_iff)
  ultimately show ?thesis using True by simp
next
  case False
  have "tid \<notin> set (map snd xs)" "tid \<notin> set (map snd ys)" using d rs by auto
  then have "tid \<notin> set (ids_of rs c')" using False by (auto simp: ids_of_def rs image_iff)
  then show ?thesis by (meson in_set_butlastD)
qed

text \<open>
  The pass over commands that were run again may replace the output of every run of a command but the last
  one: whatever the conversation, if the ids of the calls differ, the results of the last run of each command
  line in each directory keep their full text.\<close>

theorem last_run_keeps_output:
  assumes "command_log (messages m) = xs @ (c, tid) # ys" and "list_all (\<lambda>e. fst e \<noteq> c) ys"
    and "distinct (map snd (command_log (messages m)))"
  shows "results_for tid (messages (snd (CompactSupersededCommands env m))) = results_for tid (messages m)"
proof -
  have "tid \<notin> set (superseded_commands (messages m))"
    using last_not_superseded [OF assms] by (auto simp: superseded_commands_def Let_def)
  then show ?thesis by (simp add: CompactSupersededCommands_def supersede_messages results_for_kept)
qed

definition run_again :: "Message list" where
  "run_again =
     (let call = \<lambda>t. \<lparr>msg_id = ''c'' @ t, role = ''assistant'',
            blocks = [ToolUseBlock t ''run_command'' (Some (JObj [(''command'', JStr ''ls'')]))]\<rparr>;
          result = \<lambda>t ch. \<lparr>msg_id = ''r'' @ t, role = ''user'',
            blocks = [ToolResultNamedBlock t ''run_command'' (replicate 200 ch) False]\<rparr>
      in [call ''1'', result ''1'' (CHR ''a''), call ''2'', result ''2'' (CHR ''b'')])"

definition run_again_ctx :: ContextManager where
  "run_again_ctx = (NewContextManager 1000)\<lparr>messages := run_again\<rparr>"

theorem last_run_keeps_output_witness:
  "map b_output (results_for ''2'' (messages (snd (CompactSupersededCommands sample_env run_again_ctx)))) =
     [replicate 200 (CHR ''b'')] \<and>
   map b_output (results_for ''1'' (messages (snd (CompactSupersededCommands sample_env run_again_ctx)))) =
     [''[superseded: command was re-run later in the conversation, output was 200 chars]'']"
proof -
  have l: "command_log (messages run_again_ctx) = [(''ls'', ''1'')] @ (''ls'', ''2'') # []" by code_simp
  have "results_for ''2'' (messages (snd (CompactSupersededCommands sample_env run_again_ctx))) =
      results_for ''2'' (messages run_again_ctx)"
    by (rule last_run_keeps_output [OF l]) (simp_all add: l)
  moreover have "map b_output (results_for ''2'' (messages run_again_ctx)) = [replicate 200 (CHR ''b'')]"
    by code_simp
  moreover have "map b_output (results_for ''1'' (messages (snd (CompactSupersededCommands sample_env run_again_ctx)))) =
      [''[superseded: command was re-run later in the conversation, output was 200 chars]'']"
  proof -
    have "superseded_commands (messages run_again_ctx) = [''1'']" by code_simp
    moreover have "show_nat 200 = ''200''" by code_simp
    ultimately show ?thesis
      by (simp add: CompactSupersededCommands_def supersede_messages results_for_def supersede_in_def
          supersedable_def superseded_block_def run_again_ctx_def run_again_def NewContextManager_def is_result_def
          ToolUseBlock_def ToolResultNamedBlock_def empty_block_def HasPrefix_def numeral_eq_Suc Let_def)
  qed
  ultimately show ?thesis by simp
qed

end
