(* ===== verification/CtxAgent.thy ===== *)
theory CtxAgent
  imports CtxSettle
begin

text \<open>
  When an agent compacts: the schedule of \<^verbatim>\<open>internal/agent/agent_compact.go\<close> and the background compaction of
  \<^verbatim>\<open>internal/agent/agent_precompact.go\<close>. The background run is a value that the environment fills in
  (\<open>precompact_done\<close>); hooks, checkpoints and messages to the user are left out, they do not touch this state.
\<close>

section \<open>The state\<close>

record precompactState =
  pc_snapshot :: CompactSnapshot
  pc_startTok :: int
  pc_outcome :: "CompactResult option option"

text \<open>The outcome is missing while the run goes on, and \<open>Some None\<close> when it failed.\<close>

record agent_ctx =
  ac_manager :: ContextManager
  ac_precompact :: "precompactState option"
  ac_cooldownUntil :: int

definition precompactCooldown :: int where "precompactCooldown = 120"

section \<open>The operations\<close>

definition mechanical_passes :: "ctx_env \<Rightarrow> bool \<Rightarrow> ContextManager \<Rightarrow> ContextManager" where
  "mechanical_passes env linux m =
     snd (CompactSupersededCommands env (snd (CompactSupersededReads env linux (snd (CompactOldReasoningBlocks env m)))))"

text \<open>
  The count is read again only after a pass that freed something, so it is the count before the passes if all
  of them say that they freed nothing.
\<close>

definition tokens_after :: "int \<Rightarrow> int \<times> ContextManager \<Rightarrow> int" where
  "tokens_after old fm = (if fst fm > 0 then tokenCount (snd fm) else old)"

definition tokens_after_passes :: "ctx_env \<Rightarrow> bool \<Rightarrow> ContextManager \<Rightarrow> int" where
  "tokens_after_passes env linux m =
     (let p1 = CompactOldReasoningBlocks env m;
          p2 = CompactSupersededReads env linux (snd p1);
          p3 = CompactSupersededCommands env (snd p2)
      in tokens_after (tokens_after (tokens_after (tokenCount m) p1) p2) p3)"

definition StartPreCompact :: "ctx_env \<Rightarrow> bool \<Rightarrow> agent_ctx \<Rightarrow> agent_ctx" where
  "StartPreCompact env linux a =
     (if ac_precompact a \<noteq> None then a
      else let m = ac_manager a; threshold = AutoCompactThreshold m in
           if threshold \<le> 0 then a
           else let m1 = mechanical_passes env linux m; toks = tokens_after_passes env linux m in
                if toks < threshold then a\<lparr>ac_manager := m1\<rparr>
                else let (s, m2) = take_CompactSnapshot m1
                     in a\<lparr>ac_manager := m2,
                          ac_precompact := Some \<lparr>pc_snapshot = s, pc_startTok = toks, pc_outcome = None\<rparr>\<rparr>)"

text \<open>The background run ends.\<close>

definition precompact_done :: "CompactResult option \<Rightarrow> agent_ctx \<Rightarrow> agent_ctx" where
  "precompact_done r a =
     a\<lparr>ac_precompact := map_option (\<lambda>pc. if pc_outcome pc = None then pc\<lparr>pc_outcome := Some r\<rparr> else pc)
        (ac_precompact a)\<rparr>"

definition consumeReadyPreCompact :: "ctx_env \<Rightarrow> agent_ctx \<Rightarrow> bool \<times> agent_ctx" where
  "consumeReadyPreCompact env a =
     (case ac_precompact a of
        None \<Rightarrow> (False, a)
      | Some pc \<Rightarrow>
          (case pc_outcome pc of
             None \<Rightarrow> (False, a)
           | Some None \<Rightarrow> (False, a\<lparr>ac_precompact := None\<rparr>)
           | Some (Some r) \<Rightarrow>
               let ((applied, _), m1) = ApplyCompactResult env (pc_snapshot pc) r (ac_manager a);
                   a1 = a\<lparr>ac_manager := m1, ac_precompact := None\<rparr>
               in if applied then (True, a1)
                  else if lastReject m1 = CompactRejectUserReset \<and>
                       AutoCompactThreshold m1 > 0 \<and> pc_startTok pc \<ge> AutoCompactThreshold m1
                  then (False, a1\<lparr>ac_cooldownUntil := 0\<rparr>) else (False, a1)))"

definition CancelPreCompact :: "agent_ctx \<Rightarrow> agent_ctx" where
  "CancelPreCompact a = a\<lparr>ac_precompact := None\<rparr>"

definition maybeAutoCompact :: "ctx_env \<Rightarrow> bool \<Rightarrow> int \<Rightarrow> agent_ctx \<Rightarrow> agent_ctx" where
  "maybeAutoCompact env linux now a =
     (if tokenCount (ac_manager a) < AutoCompactThreshold (ac_manager a) then a
      else if ac_precompact a \<noteq> None then a
      else if now < ac_cooldownUntil a then a
      else StartPreCompact env linux (a\<lparr>ac_cooldownUntil := now + precompactCooldown\<rparr>))"

definition ensurePromptSendable :: "ctx_env \<Rightarrow> agent_ctx \<Rightarrow> agent_ctx" where
  "ensurePromptSendable env a =
     (let budget = PromptBudget (ac_manager a) in
      if budget \<le> 0 \<or> tokenCount (ac_manager a) < budget then a
      else let (applied, a1) = consumeReadyPreCompact env a in
           if applied \<and> tokenCount (ac_manager a1) < PromptBudget (ac_manager a1) then a1
           else if ac_precompact a1 \<noteq> None then a1
           else a1\<lparr>ac_manager := snd (compactLocallyForSendBudget env (ac_manager a1))\<rparr>)"

text \<open>What the loop of the agent does before each request.\<close>

definition before_request :: "ctx_env \<Rightarrow> bool \<Rightarrow> int \<Rightarrow> agent_ctx \<Rightarrow> agent_ctx" where
  "before_request env linux now a = ensurePromptSendable env (maybeAutoCompact env linux now a)"

section \<open>What is sent\<close>

lemma budget_cong:
  "contextWindow m' = contextWindow m \<Longrightarrow> outputReserve m' = outputReserve m \<Longrightarrow> PromptBudget m' = PromptBudget m"
proof -
  assume a: "contextWindow m' = contextWindow m" "outputReserve m' = outputReserve m"
  show ?thesis unfolding PromptBudget_def effectiveOutputReserve_def effectiveSafetyMargin_def a by (rule refl)
qed

lemma truncate_loop_window:
  "contextWindow (snd (truncate_loop env budget m)) = contextWindow m \<and>
   outputReserve (snd (truncate_loop env budget m)) = outputReserve m"
proof (induction env budget m rule: truncate_loop.induct)
  case (1 env budget m)
  show ?case
  proof (cases "tokenCount m < budget \<or> truncateGroupsForPTLRetry (messages m) = None")
    case True
    then show ?thesis by (subst (1 2) truncate_loop.simps) (auto simp: TruncateOldestGroupForRetry_def)
  next
    case False
    then obtain ms where ms: "truncateGroupsForPTLRetry (messages m) = Some ms" by auto
    obtain m1 where t: "TruncateOldestGroupForRetry env m = (True, m1)"
      "contextWindow m1 = contextWindow m" "outputReserve m1 = outputReserve m"
      by (simp add: TruncateOldestGroupForRetry_def ms accounting_defs)
    then show ?thesis using False 1 [OF _ t(1) [symmetric] refl]
      by (subst (1 2) truncate_loop.simps) (cases "truncate_loop env budget m1", simp)
  qed
qed

lemma local_budget: "PromptBudget (snd (compactLocallyForSendBudget env m)) = PromptBudget m"
  using truncate_loop_window [of env "PromptBudget m" m]
  by (auto simp: compactLocallyForSendBudget_def Let_def intro: budget_cong split: prod.splits)

definition only_requests :: "Message list \<Rightarrow> bool" where
  "only_requests ms \<longleftrightarrow> length ms < 2 \<or> list_all startsNewInteractionGroup (drop (conversation_start ms) ms)"

text \<open>
  Whatever state an agent is in before a request, what it sends is under the prompt budget, or there is no
  window to keep to, or a summary is being written in the background, or nothing is left that could be dropped:
  only the system prompt and what the user asked for.\<close>

theorem request_fits_or_summary_runs:
  "let a' = before_request env linux now a; m = ac_manager a' in
   PromptBudget m \<le> 0 \<or> tokenCount m < PromptBudget m \<or> ac_precompact a' \<noteq> None \<or> only_requests (messages m)"
proof -
  let ?a = "maybeAutoCompact env linux now a"
  obtain applied a1 where c: "consumeReadyPreCompact env ?a = (applied, a1)"
    by (cases "consumeReadyPreCompact env ?a")
  show ?thesis
    using local_outcome [where env = env and m = "ac_manager a1"] truncate_stuck local_budget [of env "ac_manager a1"] c
    by (fastforce simp: before_request_def ensurePromptSendable_def only_requests_def Let_def split: prod.splits)
qed

section \<open>The hard guard comes before the summary\<close>

lemma budget_below_threshold:
  assumes "2048 \<le> contextWindow m" "earlyCompactRatio m = 0"
  shows "PromptBudget m < AutoCompactThreshold m"
proof -
  let ?w = "contextWindow m"
  have r: "effectiveOutputReserve m \<le> max 512 (?w div 4)" "512 \<le> effectiveOutputReserve m"
    using assms(1) by (auto simp: effectiveOutputReserve_def Let_def min_def max_def)
  have s: "64 < effectiveSafetyMargin m" using assms(1)
    by (auto simp: effectiveSafetyMargin_def minSummaryReserve_def Let_def)
  have "64 < ?w - effectiveOutputReserve m" using assms(1) r by (auto simp: max_def split: if_splits)
  then show ?thesis using s assms by (auto simp: PromptBudget_def AutoCompactThreshold_def minSummaryReserve_def Let_def)
qed


text \<open>An answer of the assistant is lost although the automatic summary is not yet due.\<close>

definition full_agent :: agent_ctx where
  "full_agent = \<lparr>ac_manager = (SetCheckpointBaseline 1800 (sample_ctx\<lparr>contextWindow := 2400\<rparr>)),
     ac_precompact = None, ac_cooldownUntil = 0\<rparr>"


end
