(* ===== verification/Spec2Isabelle.thy ===== *)
theory Spec2Isabelle
  imports RulesPersist Gate Checkpoint TaskBoard LineDiff CronPatrol AuditLedger PreExec EditRound CtxAgent
begin

text \<open>
  A verification development for ggcode, a coding agent written in Go. A language model proposes tool
  calls (shell commands, file edits, searches); the agent decides whether each may run, runs it, and
  keeps what is needed to undo it, to account for it and to plan further work. Modelled here are the
  parts of the program that make these decisions and keep this state, the tools that edit files, and the
  conversation as the agent stores, repairs and shortens it; the requests to the model, most other tools
  and all user interfaces are not.

  \<^bold>\<open>Conventions.\<close> A Go string is a list of bytes. A struct is a record, an enum a datatype, an error
  return a value of an error datatype on the left of a sum or in an option. A map is a partial function
  or an association list read with \<^const>\<open>map_of\<close>; where the code ranges over a map, the order is
  an argument (\<open>pick\<close>). An \<^verbatim>\<open>int\<close> is an integer with \<open>wrap64\<close> written where a result may overflow, the
  generation counters of the scheduler are 64-bit words. The clock, random suffixes, the answers of
  the file system and SHA-256 are arguments. Definitions carry the names of the code.

  \<^bold>\<open>Library.\<close> \<open>Prelude\<close> has the functions of package strings and four interfaces, as locales: a machine
  whose admissible operations keep an invariant (\<open>guarded_machine\<close>, \<open>op_machine\<close>), one whose invariant
  counts steps against a limit (\<open>counted_machine\<close>), and a simulation. Every component with a state
  interprets one of them, and the property about its runs is the interpretation's fact. \<open>GoPath\<close> is
  path/filepath on Unix, \<open>GoRegexp\<close> the regular expressions of the tables, \<open>Json\<close> and \<open>Utf8\<close> what
  encoding/json reads and what it does to strings, \<open>GoNum\<close> decimal numbers, \<open>GoTime\<close> the calendar.

  \<^bold>\<open>Permission engine\<close> (\<^verbatim>\<open>internal/permission\<close>). \<open>PermMode\<close>: modes and decisions. \<open>CmdRules\<close>: allow and deny
  patterns, their translation to regular expressions, environment prefixes; shown: the answer on every
  branch, no injection through an allow pattern, the round trip of a rule set. \<open>Danger\<close>, \<open>Network\<close>: the
  graded tables of dangerous commands and network access. \<open>Sandbox\<close>: allowed directories; shown: an
  admitted path resolves inside one of them. \<open>ConfigPolicy\<close>: the decision for a call in each mode;
  shown: the safety floors that hold in every mode, plan mode writes nothing, two modes agree.
  \<open>RulesPersist\<close>: the rules file and its round trip. \<open>ApprovalMemory\<close>: approvals learnt from the user,
  against a specification that counts them, with its bounds. \<open>AskThrottle\<close>: refused requests.

  \<^bold>\<open>Gate\<close> (\<^verbatim>\<open>internal/agent\<close>). \<open>Gate\<close> composes the policy, the memory and the throttle the way
  \<^verbatim>\<open>executeToolWithPermission\<close> and the pre-execution path do, over the locale \<open>gated_policy\<close>, which is
  interpreted on \<open>ConfigPolicy\<close>; shown: a dangerous call runs only if the user agrees to this very call,
  and what passes on memory alone was earned. \<open>PreExec\<close>: which reads of a batch run ahead of their turn;
  shown: no edit of the batch can change what they read.

  \<^bold>\<open>State of a session.\<close> \<open>Checkpoint\<close> (\<^verbatim>\<open>internal/checkpoint\<close>): undo history and its journal; shown: undo
  restores, redo takes it back, the journal replays to the same history under any failures. \<open>TaskBoard\<close>
  (\<^verbatim>\<open>internal/task\<close>): tasks with dependencies; shown: the invariant (mirrored edges, no cycles), updates
  are all or nothing, the cycle check is exact, some task is always ready, snapshots restore.
  \<open>LineDiff\<close> (\<^verbatim>\<open>internal/diff\<close>): the edit script is correct and shortest. \<open>AuditLedger\<close> (\<^verbatim>\<open>internal/audit\<close>):
  the hash chain; shown: tampering shows unless SHA-256 collides, a run with crashes verifies, and how
  a cut error text breaks it.

  \<^bold>\<open>Editing files\<close> (\<^verbatim>\<open>internal/tool\<close>: \<^verbatim>\<open>edit_file.go\<close>, \<^verbatim>\<open>edit_match.go\<close>, \<^verbatim>\<open>multi_edit.go\<close>, the numbered output
  of \<^verbatim>\<open>read_file\<close>). \<open>GoText\<close>: searching and replacing text, lines. \<open>EditMatch\<close>: how the text a model quotes is
  found, from the exact text over line numbers and indentation to lines that differ in white space.
  \<open>EditFile\<close>: one edit, a list of edits, and the files they are applied to. \<open>EditFacts\<close>: one edit changes one
  place, a list of edits is a simultaneous replacement, an error changes nothing; a tolerant match may be
  applied elsewhere. \<open>EditSpace\<close>: a tolerant match differs in white space at line ends only and is
  unique. \<open>EditRound\<close>: what \<^verbatim>\<open>read_file\<close> prints can be quoted back and is anchored to its lines.

  \<^bold>\<open>Conversation\<close> (\<^verbatim>\<open>internal/context\<close>, and of \<^verbatim>\<open>internal/agent\<close> the compaction). \<open>Messages\<close>: messages, blocks and
  \<^verbatim>\<open>ReconcileToolCalls\<close> on them; \<open>CtxPairing\<close>: afterwards every call is answered where a provider expects it,
  and nothing but results was touched. \<open>Pinned\<close>: the notes that survive compaction, and their limits in
  characters. \<open>CtxManager\<close>: the state of the manager (the record \<open>ContextManager\<close>), token accounting, limits, adding
  and removing messages, groups, the archive. \<open>CtxCompact\<close>: plan and commit of a summary, snapshots and
  their application. \<open>CtxStale\<close>: old reasoning and outputs that were superseded. \<open>CtxFacts\<close>: the manager as
  a machine whose operations are its locked sections; the archive and the notes keep their limits, the
  token count is exact. \<open>CtxWindow\<close>: what may run while a summary is written; no message that was added is
  lost, except after \<^verbatim>\<open>RemoveLastUserMessage\<close>, for which there is a counterexample. \<open>CtxSend\<close>: the loop that
  cuts the conversation down to the budget ends and keeps the user's requests, but can separate a call
  from its result. \<open>CtxSettle\<close>: the passes without a model keep the shape of the conversation and settle
  after one pass. \<open>CtxAgent\<close>: the schedule of the agent; what is sent fits, and the guard cuts before the
  automatic summary is due.

  \<^bold>\<open>Cron\<close> (\<^verbatim>\<open>internal/cron\<close>). \<open>CronExpr\<close>: the parser and the search; shown: the answer is the earliest
  matching minute, the search ends, field values are in range. \<open>CronStore\<close>: the store file and the
  migration of the old one; shown: a migration copies a workspace's jobs once and loses none. \<open>CronSched\<close>:
  the scheduler as a machine of critical sections, so that calls, timer callbacks, saves that fail and
  their rollbacks interleave as the lock allows, with job objects on a heap because callbacks keep
  pointers to them. \<open>CronFires\<close>: the invariant of that machine and that each scheduling fires at most
  once, never early, five seconds apart. \<open>CronPatrol\<close>: an overdue job is delivered; a job paused during
  its callback fires again.

  \<^bold>\<open>Bounds.\<close> Loops are recursive functions with a measure, except the stepped range of \<open>CronExpr\<close>, which
  wraps at 64 bits and is a partial function shown to return. The search of \<open>CronExpr\<close> has the code's own
  limit of iterations, shown never to be reached. Runs of \<open>TaskBoard\<close> and \<open>AuditLedger\<close> are bounded by
  the largest \<^verbatim>\<open>int\<close>, those of \<open>CronSched\<close> by \<open>2 ^ 63\<close> steps, as their counters are. Runs of the context manager
  have no bound; its counters are integers. Its ratios are rationals: a window times one of the fixed
  ratios of the code, cut off, is the same integer in floating point for windows of any realistic size.

  \<^bold>\<open>Not modelled.\<close> The agent's turn loop and its hints depend on model output. Other tools, providers, MCP
  servers, peers, chat adapters, tunnels and user interfaces are calls of other programs or of the
  network. Token estimates and their calibration are floating-point arithmetic over Unicode tables: the
  count of a message is an argument. The prompt and the payload of a summary request, the text of the
  post-compact state and the reaction to overflow errors are left out, as is the log of a run, which
  shares blocks with the conversation. Of the modelled packages the text shown to users is left out, as
  are the bytes of the checkpoint journal, daylight-saving time, and Unicode case mapping and white space
  beyond ASCII.
\<close>

end
